(* ===== verification/Prelude.thy ===== *)
theory Prelude
  imports "HOL-Library.Word" "HOL-Library.Monad_Syntax"
begin

text \<open>
  Shared vocabulary of the development: the C integer types of the m68k target, checked array
  accesses, the search idiom of the kernel's fixed-size tables, the errno values, and the
  generic lemmas on which the component theories rest.

  Convention on results.  A C function is a HOL function into an \<^typ>\<open>'a option\<close>
  whenever its execution may have no defined continuation: \<^term>\<open>None\<close> stands for an access
  outside an object or through a null pointer, for a call of \<^verbatim>\<open>panic()\<close> (which never
  returns), or for a loop that never ends.  Ordinary failures are values: negative errno
  numbers, exactly as the source returns them.
\<close>

unbundle bit_operations_syntax

section \<open>Machine types\<close>

type_synonym u8 = "8 word"
type_synonym u16 = "16 word"
type_synonym u32 = "32 word"
type_synonym u64 = "64 word"
type_synonym bytes = "u8 list"

text \<open>A string literal of the C source: its bytes and the terminating NUL.\<close>

definition cstr :: "string \<Rightarrow> bytes" where
  "cstr s = map of_char s @ [0]"

section \<open>Checked array accesses\<close>

definition rd :: "'a list \<Rightarrow> nat \<Rightarrow> 'a option" where
  "rd xs i = (if i < length xs then Some (xs ! i) else None)"

definition wr :: "'a list \<Rightarrow> nat \<Rightarrow> 'a \<Rightarrow> 'a list option" where
  "wr xs i x = (if i < length xs then Some (xs[i := x]) else None)"

text \<open>The same with a C \<^verbatim>\<open>int\<close> as index, and an update of the entry in place.\<close>

definition ird :: "'a list \<Rightarrow> int \<Rightarrow> 'a option" where
  "ird xs i = (if i < 0 then None else rd xs (nat i))"

definition iupd :: "'a list \<Rightarrow> int \<Rightarrow> ('a \<Rightarrow> 'a) \<Rightarrow> 'a list option" where
  "iupd xs i f = do { x \<leftarrow> ird xs i; Some (xs[nat i := f x]) }"

text \<open>Bytes stored at the start of a buffer.\<close>

definition overlay :: "bytes \<Rightarrow> bytes \<Rightarrow> bytes option" where
  "overlay buf bs = (if length bs \<le> length buf then Some (bs @ drop (length bs) buf) else None)"

text \<open>A value of the signed 64-bit \<^verbatim>\<open>off_t\<close>; a sum outside its range is undefined.\<close>

definition off64 :: "int \<Rightarrow> int option" where
  "off64 x = (if - (2 ^ 63) \<le> x \<and> x < 2 ^ 63 then Some x else None)"

section \<open>Searching a table\<close>

text \<open>
  \<^verbatim>\<open>for (i = 0; i < N; i++) if (P(a[i])) break;\<close> leaves in \<^verbatim>\<open>i\<close> the first index
  whose entry satisfies the test, and \<^verbatim>\<open>N\<close> if there is none.
\<close>

fun find_slot :: "('a \<Rightarrow> bool) \<Rightarrow> 'a list \<Rightarrow> nat" where
  "find_slot P [] = 0"
| "find_slot P (x # xs) = (if P x then 0 else Suc (find_slot P xs))"

section \<open>Counted loops\<close>

text \<open>
  \<^verbatim>\<open>for (i = a; i < b; i++) body\<close> on a state, the body possibly failing; \<open>is\<close> is the list of
  the values of the counter.
\<close>

fun for_loop :: "nat list \<Rightarrow> (nat \<Rightarrow> 's \<Rightarrow> 's option) \<Rightarrow> 's \<Rightarrow> 's option" where
  "for_loop [] body s = Some s"
| "for_loop (i # is) body s = do { s' \<leftarrow> body i s; for_loop is body s' }"

text \<open>The same loop when the body may \<^verbatim>\<open>return\<close> a value: \<^term>\<open>Inl\<close> of the value ends it.\<close>

fun for_return :: "nat list \<Rightarrow> (nat \<Rightarrow> 's \<Rightarrow> (('r \<times> 's) + 's) option) \<Rightarrow> 's \<Rightarrow> (('r \<times> 's) + 's) option" where
  "for_return [] body s = Some (Inr s)"
| "for_return (i # is) body s = do {
     r \<leftarrow> body i s;
     case r of Inl res \<Rightarrow> Some (Inl res) | Inr s' \<Rightarrow> for_return is body s' }"

section \<open>Bit fields\<close>

text \<open>
  A bit field of \<open>len\<close> bits whose least significant bit is bit \<open>off\<close> of a long word.  The target
  is big-endian: the first field of a C struct holds the most significant bits.
\<close>

definition bf_get :: "nat \<Rightarrow> nat \<Rightarrow> u32 \<Rightarrow> u32" where
  "bf_get off len w = take_bit len (drop_bit off w)"

definition bf_set :: "nat \<Rightarrow> nat \<Rightarrow> u32 \<Rightarrow> u32 \<Rightarrow> u32" where
  "bf_set off len w v = (w AND NOT (push_bit off (mask len))) OR push_bit off (take_bit len v)"

section \<open>Error numbers\<close>

datatype Errno =
    EPERM | ENOENT | ESRCH | EINTR | EIO | ENXIO | E2BIG | ENOEXEC | EBADF | ECHILD | EAGAIN
  | ENOMEM | EACCES | EFAULT | ENOTBLK | EBUSY | EEXIST | EXDEV | ENODEV | ENOTDIR | EISDIR
  | EINVAL | ENFILE | EMFILE | ENOTTY | ETXTBSY | EFBIG | ENOSPC | ESPIPE | EROFS | EMLINK
  | EPIPE | EDOM | ERANGE | ENOSYS

primrec errno :: "Errno \<Rightarrow> int" where
  "errno EPERM = 1"
| "errno ENOENT = 2"
| "errno ESRCH = 3"
| "errno EINTR = 4"
| "errno EIO = 5"
| "errno ENXIO = 6"
| "errno E2BIG = 7"
| "errno ENOEXEC = 8"
| "errno EBADF = 9"
| "errno ECHILD = 10"
| "errno EAGAIN = 11"
| "errno ENOMEM = 12"
| "errno EACCES = 13"
| "errno EFAULT = 14"
| "errno ENOTBLK = 15"
| "errno EBUSY = 16"
| "errno EEXIST = 17"
| "errno EXDEV = 18"
| "errno ENODEV = 19"
| "errno ENOTDIR = 20"
| "errno EISDIR = 21"
| "errno EINVAL = 22"
| "errno ENFILE = 23"
| "errno EMFILE = 24"
| "errno ENOTTY = 25"
| "errno ETXTBSY = 26"
| "errno EFBIG = 27"
| "errno ENOSPC = 28"
| "errno ESPIPE = 29"
| "errno EROFS = 30"
| "errno EMLINK = 31"
| "errno EPIPE = 32"
| "errno EDOM = 33"
| "errno ERANGE = 34"
| "errno ENOSYS = 38"

section \<open>Collections\<close>

named_theorems word_nat \<open>facts that turn word expressions into natural numbers\<close>

section \<open>Generic lemmas\<close>

lemma rd_Some [simp]: "i < length xs \<Longrightarrow> rd xs i = Some (xs ! i)"
  by (simp add: rd_def)

lemma rd_None [simp]: "length xs \<le> i \<Longrightarrow> rd xs i = None"
  by (simp add: rd_def)

lemma rd_eq_Some: "rd xs i = Some x \<longleftrightarrow> i < length xs \<and> xs ! i = x"
  by (simp add: rd_def)

lemma rd_Cons_0 [simp]: "rd (x # xs) 0 = Some x"
  by simp

lemma rd_Cons_Suc [simp]: "rd (x # xs) (Suc i) = rd xs i"
  by (simp add: rd_def)

lemma ird_Some [simp]: "0 \<le> i \<Longrightarrow> nat i < length xs \<Longrightarrow> ird xs i = Some (xs ! nat i)"
  by (simp add: ird_def)

lemma ird_None [simp]: "i < 0 \<or> length xs \<le> nat i \<Longrightarrow> ird xs i = None"
  by (auto simp: ird_def)

lemma ird_int [simp]: "ird xs (int n) = rd xs n"
  by (simp add: ird_def)

lemma iupd_Some [simp]: "0 \<le> i \<Longrightarrow> nat i < length xs \<Longrightarrow> iupd xs i f = Some (xs[nat i := f (xs ! nat i)])"
  by (simp add: iupd_def)

lemma overlay_Some [simp]: "length bs \<le> length buf \<Longrightarrow> overlay buf bs = Some (bs @ drop (length bs) buf)"
  by (simp add: overlay_def)

lemma overlay_None [simp]: "length buf < length bs \<Longrightarrow> overlay buf bs = None"
  by (simp add: overlay_def)

lemma off64_Some [simp]: "- (2 ^ 63) \<le> x \<Longrightarrow> x < 2 ^ 63 \<Longrightarrow> off64 x = Some x"
  by (simp add: off64_def)

lemma wr_Some [simp]: "i < length xs \<Longrightarrow> wr xs i x = Some (xs[i := x])"
  by (simp add: wr_def)

lemma wr_None [simp]: "length xs \<le> i \<Longrightarrow> wr xs i x = None"
  by (simp add: wr_def)

lemma wr_eq_Some: "wr xs i x = Some ys \<longleftrightarrow> i < length xs \<and> ys = xs[i := x]"
  by (auto simp: wr_def)

lemma rd_update [simp]: "rd (xs[i := x]) j = (if i = j \<and> j < length xs then Some x else rd xs j)"
  by (auto simp: rd_def)

lemma drop_update_first: "i < length xs \<Longrightarrow> (drop i xs)[0 := x] = x # drop (Suc i) xs"
  by (simp add: Cons_nth_drop_Suc [symmetric])

lemma take_update_last: "n < length xs \<Longrightarrow> (take (Suc n) xs)[n := x] = take n xs @ [x]"
  by (simp add: take_Suc_conv_app_nth list_update_append)

lemma drop_takeWhile_append:
  "drop (length (takeWhile P xs)) (xs @ ys) = dropWhile P xs @ ys"
proof -
  have "xs @ ys = takeWhile P xs @ (dropWhile P xs @ ys)" by simp
  then show ?thesis by (metis append_eq_conv_conj)
qed

lemma drop_append_length: "drop t b = xs @ y # ys \<Longrightarrow> t + length xs < length b"
  by (drule arg_cong [of _ _ length]) simp

lemma length_takeWhile_less: "x \<in> set xs \<Longrightarrow> \<not> P x \<Longrightarrow> length (takeWhile P xs) < length xs"
  by (induction xs) auto

lemma split_at_first:
  "c \<in> set s \<Longrightarrow> s = takeWhile (\<lambda>x. x \<noteq> c) s @ c # tl (dropWhile (\<lambda>x. x \<noteq> c) s)"
  by (induction s) auto

lemma find_slot_le [simp]: "find_slot P xs \<le> length xs"
  by (induction xs) auto

lemma find_slot_less_iff: "find_slot P xs < length xs \<longleftrightarrow> (\<exists>x \<in> set xs. P x)"
  by (induction xs) auto

lemma find_slot_full_iff: "find_slot P xs = length xs \<longleftrightarrow> (\<forall>x \<in> set xs. \<not> P x)"
  by (induction xs) auto

lemma find_slot_holds: "find_slot P xs < length xs \<Longrightarrow> P (xs ! find_slot P xs)"
  by (induction xs) auto

lemma find_slot_first: "i < find_slot P xs \<Longrightarrow> \<not> P (xs ! i)"
proof (induction xs arbitrary: i)
  case (Cons x xs)
  then show ?case by (cases i) (auto split: if_splits)
qed simp

lemma find_slot_eqI:
  assumes "i < length xs" "P (xs ! i)" "\<And>j. j < i \<Longrightarrow> \<not> P (xs ! j)"
  shows "find_slot P xs = i"
proof (rule linorder_cases)
  assume "find_slot P xs < i"
  then show ?thesis using assms find_slot_holds [of P xs] by force
next
  assume "i < find_slot P xs"
  then show ?thesis using assms(2) find_slot_first by blast
qed

lemma errno_pos [simp]: "0 < errno e"
  by (cases e) simp_all

lemma errno_nonneg [simp]: "\<not> errno e \<le> 0" "0 \<le> errno e"
  by (simp_all add: not_le order_less_imp_le)

lemma errno_inject [simp]: "errno a = errno b \<longleftrightarrow> a = b"
  by (cases a; cases b; simp)

lemma cstr_Nil [simp]: "cstr [] = [0]"
  by (simp add: cstr_def)

lemma cstr_Cons [simp]: "cstr (c # s) = of_char c # cstr s"
  by (simp add: cstr_def)

lemma sint_eq_iff [simp]: "sint a = sint b \<longleftrightarrow> a = (b :: 'a::len word)"
  by (auto intro: signed_word_eqI)

lemma sint_small: "unat (w :: u32) < 2 ^ 31 \<Longrightarrow> sint w = int (unat w)"
proof -
  assume a: "unat w < 2 ^ 31"
  have u: "uint w = int (unat w)" by simp
  from a have "int (unat w) < int (2 ^ 31)" by (simp only: of_nat_less_iff)
  with u have "uint w < 2 ^ 31" by simp
  moreover have "- (2 ^ 31) \<le> uint w" by (rule order_trans [OF _ uint_ge_0]) simp
  ultimately have "signed_take_bit 31 (uint w) = uint w" by (rule signed_take_bit_int_eq_self [rotated])
  with sint_uint [of w] have "sint w = uint w" by simp
  then show ?thesis by (simp only: u)
qed

lemma unat_word_of_int_small: "0 \<le> k \<Longrightarrow> k < 2 ^ 32 \<Longrightarrow> unat (word_of_int k :: u32) = nat k"
proof -
  assume k: "0 \<le> k" "k < 2 ^ 32"
  then have "(word_of_int k :: u32) = of_nat (nat k)" by simp
  moreover have "nat k < 2 ^ 32" using k by (simp add: nat_less_iff)
  ultimately show ?thesis by (simp add: unat_of_nat del: of_nat_nat)
qed

lemma sint_eq_0_iff [simp]: "sint a = 0 \<longleftrightarrow> a = (0 :: 'a::len word)"
  using sint_eq_iff [of a 0] by simp

lemma unat_eq_0 [simp]: "unat (w :: 'a::len word) = 0 \<longleftrightarrow> w = 0"
  by (simp add: unat_eq_zero)

lemma unat_pred: "w \<noteq> 0 \<Longrightarrow> Suc (unat (w - 1)) = unat (w :: 'a::len word)"
  by (subst unat_minus_one) (simp_all add: Suc_pred' [symmetric] unat_gt_0)

lemma bit_bf_get: "bit (bf_get off len w) n \<longleftrightarrow> n < len \<and> bit w (n + off)"
  by (auto simp: bf_get_def bit_take_bit_iff bit_drop_bit_eq add.commute)

lemma bit_bf_set:
  "n < 32 \<Longrightarrow> bit (bf_set off len w v) n \<longleftrightarrow>
     (if off \<le> n \<and> n < off + len then bit v (n - off) else bit w n)"
  by (auto simp: bf_set_def bit_or_iff bit_and_iff bit_not_iff bit_push_bit_iff bit_take_bit_iff
      bit_mask_iff)

lemma bf_get_set_same [simp]:
  "off + len \<le> 32 \<Longrightarrow> bf_get off len (bf_set off len w v) = take_bit len v"
  by (rule bit_eqI) (auto simp: bit_bf_get bit_bf_set bit_take_bit_iff)

lemma bf_get_set_other [simp]:
  "off + len \<le> 32 \<Longrightarrow> off + len \<le> off' \<or> off' + len' \<le> off \<Longrightarrow>
     bf_get off len (bf_set off' len' w v) = bf_get off len w"
  by (rule bit_eqI) (auto simp: bit_bf_get bit_bf_set)

lemma for_loop_append:
  "for_loop (xs @ ys) body s = do { s' \<leftarrow> for_loop xs body s; for_loop ys body s' }"
  by (induction xs arbitrary: s) (auto split: Option.bind_split)

lemma for_loop_invariant:
  assumes "for_loop is body s = Some s'" "I s"
    "\<And>i s s'. i \<in> set is \<Longrightarrow> I s \<Longrightarrow> body i s = Some s' \<Longrightarrow> I s'"
  shows "I s'"
  using assms
proof (induction "is" arbitrary: s)
  case (Cons i "is")
  then obtain s1 where "body i s = Some s1" "for_loop is body s1 = Some s'"
    by (auto simp: bind_eq_Some_conv)
  with Cons show ?case by (metis list.set_intros)
qed simp

lemma for_loop_total:
  assumes "I s" "\<And>i s. i \<in> set is \<Longrightarrow> I s \<Longrightarrow> \<exists>s'. body i s = Some s' \<and> I s'"
  shows "\<exists>s'. for_loop is body s = Some s' \<and> I s'"
  using assms
proof (induction "is" arbitrary: s)
  case (Cons i "is")
  then obtain s1 where "body i s = Some s1" "I s1" by (metis list.set_intros(1))
  with Cons show ?case by simp
qed simp

text \<open>The cases of a result that may be an early return.\<close>

lemma sum_case_eq_Some:
  "((case y of Inl a \<Rightarrow> f a | Inr b \<Rightarrow> g b) = Some x) = ((\<exists>a. y = Inl a \<and> f a = Some x) \<or> (\<exists>b. y = Inr b \<and> g b = Some x))"
  by (cases y) auto

end
