(* ===== verification/CString.thy ===== *)
theory CString
  imports Prelude
begin

text \<open>
  The kernel's string library, \<^verbatim>\<open>kernel/util/string.c\<close>.  A C string argument is the list of
  the bytes from the pointer to the end of the object it points into; reading past the end of
  that list is \<^term>\<open>None\<close>.  A \<^verbatim>\<open>char *\<close> result is an offset into the argument, the inner
  \<^term>\<open>None\<close> of an \<^typ>\<open>nat option option\<close> being \<^verbatim>\<open>NULL\<close>.  Destination buffers are
  returned updated; source and destination are distinct objects.  Loop counters run over
  object sizes and cannot overflow; they are natural numbers.
\<close>

section \<open>Definitions\<close>

subsection \<open>Lengths and character classes\<close>

fun strlen :: "bytes \<Rightarrow> nat option" where
  "strlen [] = None"
| "strlen (c # cs) = (if c \<noteq> 0 then map_option Suc (strlen cs) else Some 0)"

fun strnlen :: "bytes \<Rightarrow> nat \<Rightarrow> nat option" where
  "strnlen cs 0 = Some 0"
| "strnlen [] (Suc n) = None"
| "strnlen (c # cs) (Suc n) = (if c \<noteq> 0 then map_option Suc (strnlen cs n) else Some 0)"

definition isalpha :: "int \<Rightarrow> int" where
  "isalpha c = (if (97 \<le> c \<and> c \<le> 122) \<or> (65 \<le> c \<and> c \<le> 90) then 1 else 0)"

definition isdigit :: "int \<Rightarrow> int" where
  "isdigit c = (if 48 \<le> c \<and> c \<le> 57 then 1 else 0)"

subsection \<open>Copying\<close>

text \<open>The copy loop of \<^verbatim>\<open>strncpy\<close>: the final index and the destination.\<close>

function strncpy_loop :: "bytes \<Rightarrow> bytes \<Rightarrow> nat \<Rightarrow> nat \<Rightarrow> (nat \<times> bytes) option" where
  "strncpy_loop dest src maxn i =
     (if i < maxn
      then do {
        c \<leftarrow> rd src i;
        if c \<noteq> 0
        then do { dest' \<leftarrow> wr dest i c; strncpy_loop dest' src maxn (Suc i) }
        else Some (i, dest) }
      else Some (i, dest))"
  by pat_completeness auto
termination
  by (relation "measure (\<lambda>(dest, src, maxn, i). maxn - i)") auto

text \<open>With \<^verbatim>\<open>max == 0\<close> the store goes to \<^verbatim>\<open>dest[-1]\<close>.\<close>

definition strncpy :: "bytes \<Rightarrow> bytes \<Rightarrow> nat \<Rightarrow> bytes option" where
  "strncpy dest src maxn = do {
     (i, d) \<leftarrow> strncpy_loop dest src maxn 0;
     if i = maxn
     then (if i = 0 then None else wr d (i - 1) 0)
     else wr d i 0 }"

fun strcpy :: "bytes \<Rightarrow> bytes \<Rightarrow> bytes option" where
  "strcpy [] src = None"
| "strcpy (d # dest) [] = None"
| "strcpy (d # dest) (c # src) =
     (if c \<noteq> 0 then map_option ((#) c) (strcpy dest src) else Some (0 # dest))"

subsection \<open>Comparing and searching\<close>

text \<open>\<^verbatim>\<open>char\<close> is signed on the target, so the difference is taken of signed bytes.\<close>

fun strcmp :: "bytes \<Rightarrow> bytes \<Rightarrow> int option" where
  "strcmp (a # s1) (b # s2) =
     (if a \<noteq> 0 \<and> b \<noteq> 0 \<and> a = b then strcmp s1 s2
      else Some (if a \<noteq> b then sint a - sint b else 0))"
| "strcmp _ _ = None"

fun strncmp :: "bytes \<Rightarrow> bytes \<Rightarrow> nat \<Rightarrow> int option" where
  "strncmp _ _ 0 = Some 0"
| "strncmp (a # s1) (b # s2) (Suc n) =
     (if 0 < n \<and> a \<noteq> 0 \<and> b \<noteq> 0 \<and> a = b then strncmp s1 s2 n
      else Some (if a \<noteq> b then sint a - sint b else 0))"
| "strncmp _ _ (Suc n) = None"

fun strchr :: "bytes \<Rightarrow> u8 \<Rightarrow> nat option option" where
  "strchr [] chr = None"
| "strchr (c # str) chr =
     (if c = 0 then Some None
      else if c = chr then Some (Some 0)
      else map_option (map_option Suc) (strchr str chr))"

subsection \<open>Tokens\<close>

text \<open>
  \<^verbatim>\<open>for (i = 0; delim[i] && *search; i++) if (*search == delim[i]) search++;\<close>
  on the buffer \<open>b\<close>; the result is the new \<^verbatim>\<open>search\<close>.
\<close>

fun skip_pass :: "bytes \<Rightarrow> bytes \<Rightarrow> nat \<Rightarrow> nat option" where
  "skip_pass b [] search = None"
| "skip_pass b (d # delim) search =
     (if d = 0 then Some search
      else do {
        c \<leftarrow> rd b search;
        if c = 0 then Some search
        else skip_pass b delim (if c = d then Suc search else search) })"

lemma skip_pass_progress:
  "skip_pass b delim search = Some s' \<Longrightarrow>
     search \<le> s' \<and> (s' \<noteq> search \<longrightarrow> search < length b)"
  by (induction b delim search rule: skip_pass.induct)
    (fastforce split: if_splits bind_splits simp: rd_eq_Some)+

function skip_delims :: "bytes \<Rightarrow> bytes \<Rightarrow> nat \<Rightarrow> nat option" where
  "skip_delims b delim search = do {
     s' \<leftarrow> skip_pass b delim search;
     if s' \<noteq> search then skip_delims b delim s' else Some s' }"
  by pat_completeness auto
termination
  by (relation "measure (\<lambda>(b, delim, search). length b - search)")
    (auto dest!: skip_pass_progress)

text \<open>
  \<^verbatim>\<open>for (; *delim; delim++) { new = strchr(search, *delim); if (!ret || ret > new) ret = new; }\<close>
  A null pointer compares below every other pointer.
\<close>

fun token_end :: "bytes \<Rightarrow> bytes \<Rightarrow> nat \<Rightarrow> nat option \<Rightarrow> nat option option" where
  "token_end b [] search ret = None"
| "token_end b (d # delim) search ret =
     (if d = 0 then Some ret
      else do {
        new \<leftarrow> strchr (drop search b) d;
        let new' = map_option ((+) search) new;
        token_end b delim search
          (case ret of None \<Rightarrow> new'
           | Some r \<Rightarrow> (case new' of None \<Rightarrow> new' | Some n \<Rightarrow> if r > n then new' else ret)) })"

text \<open>
  \<^verbatim>\<open>strtok_r(buff, delim, &next)\<close> on the buffer \<open>b\<close>: \<open>start\<close> is \<^verbatim>\<open>buff ? buff : *next\<close>.  The
  result is the returned token, the new \<^verbatim>\<open>*next\<close> and the buffer with the delimiter cleared;
  without a start \<^verbatim>\<open>*next\<close> is left alone (it is null already).
\<close>

definition strtok_r :: "bytes \<Rightarrow> nat option \<Rightarrow> bytes \<Rightarrow> (nat option \<times> nat option \<times> bytes) option"
  where
  "strtok_r b start delim =
     (case start of
        None \<Rightarrow> Some (None, None, b)
      | Some s \<Rightarrow> do {
          search \<leftarrow> skip_delims b delim s;
          ret \<leftarrow> token_end b delim search None;
          case ret of
            None \<Rightarrow> Some (Some search, None, b)
          | Some r \<Rightarrow> do { b' \<leftarrow> wr b r 0; Some (Some search, Some (Suc r), b') } })"

subsection \<open>Numbers and arguments\<close>

fun parse_dec :: "bytes \<Rightarrow> nat \<Rightarrow> u32 \<Rightarrow> u32" where
  "parse_dec cs 0 ret = ret"
| "parse_dec [] (Suc n) ret = ret"
| "parse_dec (c # cs) (Suc n) ret =
     (if sint c < 48 \<or> sint c > 57 then ret
      else parse_dec cs n (ret * 10 + word_of_int (sint c - 48)))"

fun parse_hex :: "bytes \<Rightarrow> nat \<Rightarrow> u32 \<Rightarrow> u32" where
  "parse_hex cs 0 ret = ret"
| "parse_hex [] (Suc n) ret = ret"
| "parse_hex (c # cs) (Suc n) ret =
     (let ret' = push_bit 4 ret in
      if sint c < 48 \<or> sint c > 57 then
        if sint c < 97 \<or> sint c > 102 then
          if sint c < 65 \<or> sint c > 70 then 0
          else parse_hex cs n (ret' OR word_of_int (sint c - 65 + 10))
        else parse_hex cs n (ret' OR word_of_int (sint c - 97 + 10))
      else parse_hex cs n (ret' OR word_of_int (sint c - 48)))"

text \<open>
  The first \<^verbatim>\<open>len = strnlen(str, 32)\<close> bytes lie inside the object, so the loops never read past
  its end; the octal branch is not implemented in the source and yields 0.
\<close>

definition str_parse_int :: "bytes \<Rightarrow> u32 option" where
  "str_parse_int str = do {
     len \<leftarrow> strnlen str 32;
     if len = 0 then Some 0
     else do {
       c0 \<leftarrow> rd str 0;
       if c0 \<noteq> 48 then Some (parse_dec str len 0)
       else do {
         c1 \<leftarrow> rd str 1;
         if c1 = 120 \<or> c1 = 88 then Some (parse_hex (drop 2 str) (len - 2) 0)
         else Some 0 } } }"

text \<open>
  The token loop of \<^verbatim>\<open>str_extract_arg\<close>: \<open>b\<close> is the local buffer, \<open>tok\<close> the current token and
  \<open>nxt\<close> the value of \<^verbatim>\<open>next\<close>.  The result is \<^verbatim>\<open>argout\<close> (filled) or null.
\<close>

partial_function (option) extract_loop ::
  "bytes \<Rightarrow> nat option \<Rightarrow> nat option \<Rightarrow> bytes \<Rightarrow> bytes \<Rightarrow> nat \<Rightarrow> bytes option option" where
  "extract_loop b tok nxt findarg argout arglen =
     (case tok of
        None \<Rightarrow> Some None
      | Some t \<Rightarrow> do {
          sep \<leftarrow> strchr (drop t b) 61;
          case sep of
            None \<Rightarrow> do {
              (tok', nxt', b') \<leftarrow> strtok_r b nxt [44, 0];
              extract_loop b' tok' nxt' findarg argout arglen }
          | Some o1 \<Rightarrow> do {
              b1 \<leftarrow> wr b (t + o1) 0;
              r \<leftarrow> strcmp findarg (drop t b1);
              if r = 0
              then map_option Some (strncpy argout (drop (Suc (t + o1)) b1) arglen)
              else do {
                (tok', nxt', b') \<leftarrow> strtok_r b1 nxt [44, 0];
                extract_loop b' tok' nxt' findarg argout arglen } } })"

text \<open>\<open>buff\<close> is the uninitialised local array of \<^verbatim>\<open>STRING_ARG_MAX\<close> bytes.\<close>

definition STRING_ARG_MAX :: nat where
  "STRING_ARG_MAX = 512"

definition str_extract_arg :: "bytes \<Rightarrow> bytes \<Rightarrow> bytes \<Rightarrow> bytes \<Rightarrow> nat \<Rightarrow> bytes option option" where
  "str_extract_arg buff str_in findarg argout arglen = do {
     b \<leftarrow> strncpy buff str_in STRING_ARG_MAX;
     (tok, nxt, b') \<leftarrow> strtok_r b (Some 0) [44, 0];
     extract_loop b' tok nxt findarg argout arglen }"

declare strncpy_loop.simps [simp del]
declare skip_delims.simps [simp del]
declare extract_loop.simps [code]

section \<open>Specification vocabulary\<close>

text \<open>The text of a C string: the bytes before the first NUL.\<close>

definition strz :: "bytes \<Rightarrow> bytes" where
  "strz b = takeWhile (\<lambda>c. c \<noteq> 0) b"

text \<open>Comma-separated segments, and the value of the first segment \<open>key=value\<close> with a given key.\<close>

fun split_on :: "u8 \<Rightarrow> bytes \<Rightarrow> bytes list" where
  "split_on d [] = [[]]"
| "split_on d (c # cs) =
     (if c = d then [] # split_on d cs
      else (c # hd (split_on d cs)) # tl (split_on d cs))"

fun lookup_arg :: "bytes \<Rightarrow> bytes list \<Rightarrow> bytes option" where
  "lookup_arg k [] = None"
| "lookup_arg k (seg # segs) =
     (if 61 \<in> set seg \<and> takeWhile (\<lambda>c. c \<noteq> 61) seg = k
      then Some (tl (dropWhile (\<lambda>c. c \<noteq> 61) seg))
      else lookup_arg k segs)"

text \<open>A buffer of which a prefix holds the first \<open>n - 1\<close> bytes of a text and its terminator.\<close>

definition fill :: "bytes \<Rightarrow> bytes \<Rightarrow> nat \<Rightarrow> bytes" where
  "fill dest s n = (let t = take (n - 1) s in t @ 0 # drop (Suc (length t)) dest)"

section \<open>Strings as lists\<close>

lemma strz_terminated: "0 \<notin> set s \<Longrightarrow> strz (s @ 0 # rest) = s"
  by (induction s) (auto simp: strz_def)

lemma strz_no_nul: "0 \<notin> set (strz b)"
  by (auto simp: strz_def dest: set_takeWhileD)

lemma strz_cstr: "\<forall>c \<in> set s. of_char c \<noteq> (0 :: u8) \<Longrightarrow> strz (cstr s) = map of_char s"
  unfolding cstr_def by (rule strz_terminated) auto

lemma terminated_split: "0 \<in> set b \<Longrightarrow> b = strz b @ 0 # drop (Suc (length (strz b))) b"
  by (induction b) (auto simp: strz_def)

lemma strlen_eq: "strlen b = (if 0 \<in> set b then Some (length (strz b)) else None)"
  by (induction b) (auto simp: strz_def)

lemma strnlen_eq:
  "strnlen b n = (if 0 \<in> set (take n b) \<or> n \<le> length b then Some (min n (length (strz b))) else None)"
  by (induction b n rule: strnlen.induct) (auto simp: strz_def)

lemma strcmp_total:
  assumes "0 \<in> set a" "0 \<in> set b"
  shows "\<exists>r. strcmp a b = Some r \<and> strcmp b a = Some (- r) \<and> (r = 0 \<longleftrightarrow> strz a = strz b)"
  using assms
  by (induction a b rule: strcmp.induct) (auto simp: strz_def)

lemma strcmp_zero_iff:
  assumes "0 \<in> set a" "0 \<in> set b"
  shows "strcmp a b = Some 0 \<longleftrightarrow> strz a = strz b"
  using strcmp_total [OF assms] by auto

lemma strncmp_total:
  assumes "0 \<in> set a" "0 \<in> set b"
  shows "\<exists>r. strncmp a b n = Some r \<and> (r = 0 \<longleftrightarrow> take n (strz a) = take n (strz b))"
  using assms
  by (induction a b n rule: strncmp.induct) (auto simp: strz_def)

lemma strchr_eq:
  assumes "0 \<in> set b" "chr \<noteq> 0"
  shows "strchr b chr =
    Some (if chr \<in> set (strz b) then Some (length (takeWhile (\<lambda>c. c \<noteq> chr) (strz b))) else None)"
  using assms by (induction b) (auto simp: strz_def)

lemma strcpy_eq:
  "strcpy dest src =
     (if 0 \<in> set src \<and> length (strz src) < length dest
      then Some (strz src @ 0 # drop (Suc (length (strz src))) dest) else None)"
  by (induction dest src rule: strcpy.induct) (auto simp: strz_def)

lemma strncpy_loop_eq:
  assumes "length pre' = length pre" "n \<le> length dest" "0 \<in> set (take n src) \<or> n \<le> length src"
  shows "strncpy_loop (pre @ dest) (pre' @ src) (length pre + n) (length pre) =
    (let k = min n (length (strz src)) in Some (length pre + k, pre @ take k src @ drop k dest))"
  using assms
proof (induction n arbitrary: pre pre' dest src)
  case 0
  then show ?case by (simp add: strncpy_loop.simps)
next
  case (Suc n)
  then obtain c src' d dest' where eqs: "src = c # src'" "dest = d # dest'"
    by (cases src; cases dest) auto
  have step: "strncpy_loop (pre @ dest) (pre' @ src) (length pre + Suc n) (length pre) =
    (if c \<noteq> 0 then strncpy_loop ((pre @ [c]) @ dest') ((pre' @ [c]) @ src')
        (length (pre @ [c]) + n) (length (pre @ [c]))
     else Some (length pre, pre @ dest))"
    using Suc.prems
    by (subst strncpy_loop.simps) (simp add: eqs rd_def wr_def nth_append)
  show ?case
    unfolding step using Suc.prems Suc.IH [of "pre' @ [c]" "pre @ [c]" dest' src']
    by (auto simp: eqs strz_def Let_def)
qed

lemma strncpy_eq:
  assumes "0 < n" "n \<le> length dest" "0 \<in> set (take n src) \<or> n \<le> length src"
  shows "strncpy dest src n = Some (fill dest (strz src) n)"
proof -
  let ?k = "min n (length (strz src))"
  have loop: "strncpy_loop dest src n 0 = Some (?k, take ?k src @ drop ?k dest)"
    using strncpy_loop_eq [of "[]" "[]" n dest src] assms by (simp add: Let_def)
  have "strz src = take (length (strz src)) src"
    unfolding strz_def by (rule takeWhile_eq_take)
  then have pre: "take ?k src = take ?k (strz src)"
    by (metis take_take min.assoc min.idem)
  show ?thesis
  proof (cases "length (strz src) < n")
    case True
    then show ?thesis
      using assms pre by (simp add: strncpy_def loop fill_def Let_def list_update_append drop_update_first)
  next
    case False
    obtain m where m: "n = Suc m" using assms(1) by (cases n) auto
    with False have k: "?k = Suc m" by simp
    show ?thesis
      using assms pre False
      by (simp add: strncpy_def loop fill_def k) (simp add: m list_update_append take_update_last)
  qed
qed

lemma strncpy_terminated:
  assumes "0 < n" "n \<le> length dest" "0 \<notin> set s"
  shows "strncpy dest (s @ 0 # rest) n = Some (fill dest s n)"
proof -
  have "0 \<in> set (take n (s @ 0 # rest)) \<or> n \<le> length (s @ 0 # rest)"
    by (cases "n \<le> length s") (auto simp: take_Cons' not_le)
  from strncpy_eq [OF assms(1,2) this] show ?thesis
    by (simp add: strz_terminated assms(3))
qed

lemma strncpy_zero: "strncpy dest src 0 = None"
  by (simp add: strncpy_def strncpy_loop.simps)

section \<open>Tokenising\<close>

lemma skip_pass_single: "skip_pass b [d, 0] p = (if d = 0 then Some p
   else do { c \<leftarrow> rd b p; Some (if c \<noteq> 0 \<and> c = d then Suc p else p) })"
  by (auto split: Option.bind_splits)

lemma skip_delims_single:
  assumes "drop p b = rem @ 0 # rest" "0 \<notin> set rem" "d \<noteq> 0"
  shows "skip_delims b [d, 0] p = Some (p + length (takeWhile (\<lambda>c. c = d) rem))"
  using assms
proof (induction rem arbitrary: p)
  case Nil
  then have "p < length b" "b ! p = 0"
    by (metis append_Nil drop_eq_Nil list.distinct(1) not_le) (metis Nil.prems(1) append_Nil nth_via_drop)
  then show ?case by (simp add: skip_delims.simps skip_pass_single)
next
  case (Cons c rem)
  then have p: "p < length b" "b ! p = c" "drop (Suc p) b = rem @ 0 # rest"
    by (metis append_Cons drop_eq_Nil list.distinct(1) not_le,
        metis append_Cons nth_via_drop, metis append_Cons drop_Suc list.sel(3) tl_drop)
  have step: "skip_delims b [d, 0] p =
      (if c = d then skip_delims b [d, 0] (Suc p) else Some p)"
    using p Cons.prems by (subst skip_delims.simps) (simp add: skip_pass_single)
  show ?case
    using Cons.IH [OF p(3)] Cons.prems by (simp add: step)
qed

lemma strtok_r_single:
  assumes "drop p b = rem @ 0 # rest" "0 \<notin> set rem" "d \<noteq> 0"
  defines "lead \<equiv> takeWhile (\<lambda>c. c = d) rem"
  defines "seg \<equiv> takeWhile (\<lambda>c. c \<noteq> d) (dropWhile (\<lambda>c. c = d) rem)"
  shows "strtok_r b (Some p) [d, 0] =
    (if d \<in> set (dropWhile (\<lambda>c. c = d) rem)
     then Some (Some (p + length lead), Some (Suc (p + length lead + length seg)),
                b[p + length lead + length seg := 0])
     else Some (Some (p + length lead), None, b))"
proof -
  let ?rem' = "dropWhile (\<lambda>c. c = d) rem"
  let ?s = "p + length lead"
  have "drop ?s b = drop (length lead) (drop p b)" by (simp add: add.commute)
  then have drop: "drop ?s b = ?rem' @ 0 # rest"
    by (simp only: assms(1) lead_def drop_takeWhile_append)
  have nul: "0 \<notin> set ?rem'" using assms(2) by (auto dest: set_dropWhileD)
  have chr: "strchr (drop ?s b) d = Some (if d \<in> set ?rem' then Some (length seg) else None)"
    using strchr_eq [of "?rem' @ 0 # rest" d] assms(3) strz_terminated [OF nul]
    by (simp add: drop seg_def)
  have len: "d \<in> set ?rem' \<Longrightarrow> ?s + length seg < length b"
  proof -
    have "length (drop ?s b) = length ?rem' + Suc (length rest)" by (simp add: drop)
    moreover have "length seg \<le> length ?rem'" by (simp add: seg_def length_takeWhile_le)
    ultimately show "?s + length seg < length b" by simp
  qed
  show ?thesis
    using skip_delims_single [OF assms(1-3)] chr len assms(3)
    by (auto simp: strtok_r_def lead_def [symmetric])
qed

lemma split_on_first:
  "split_on d s = takeWhile (\<lambda>c. c \<noteq> d) s #
     (if d \<in> set s then split_on d (tl (dropWhile (\<lambda>c. c \<noteq> d) s)) else [])"
  by (induction s) auto

lemma lookup_arg_skip:
  "lookup_arg k (split_on d s) = lookup_arg k (split_on d (dropWhile (\<lambda>c. c = d) s))"
  by (induction s) auto

lemma strtok_r_None [simp]: "strtok_r b None delim = Some (None, None, b)"
  by (simp add: strtok_r_def)

lemma extract_loop_None [simp]: "extract_loop b None nxt findarg argout n = Some None"
  by (simp add: extract_loop.simps)

lemma extract_loop_token:
  assumes "drop t b = seg @ 0 # rest" "0 \<notin> set seg" "0 \<in> set findarg" "0 < n" "n \<le> length argout"
  defines "key \<equiv> takeWhile (\<lambda>c. c \<noteq> 61) seg"
  shows "extract_loop b (Some t) nxt findarg argout n =
    (if 61 \<in> set seg \<and> key = strz findarg
     then Some (Some (fill argout (tl (dropWhile (\<lambda>c. c \<noteq> 61) seg)) n))
     else do { (tok', nxt', b') \<leftarrow> strtok_r (if 61 \<in> set seg then b[t + length key := 0] else b) nxt [44, 0];
               extract_loop b' tok' nxt' findarg argout n })"
proof -
  have chr: "strchr (drop t b) 61 = Some (if 61 \<in> set seg then Some (length key) else None)"
    using strchr_eq [of "seg @ 0 # rest" 61] strz_terminated [OF assms(2)]
    by (simp add: assms(1) key_def)
  show ?thesis
  proof (cases "61 \<in> set seg")
    case False
    then show ?thesis by (subst extract_loop.simps) (simp add: chr)
  next
    case True
    let ?v = "tl (dropWhile (\<lambda>c. c \<noteq> 61) seg)"
    have seg: "seg = key @ 61 # ?v"
      unfolding key_def by (rule split_at_first [OF True])
    have b: "drop t b = key @ 61 # (?v @ 0 # rest)"
      using assms(1) seg by (metis append.assoc append_Cons)
    then have len: "t + length key < length b" by (rule drop_append_length)
    have b1: "drop t (b[t + length key := 0]) = key @ 0 # (?v @ 0 # rest)"
      using len by (simp add: drop_update_swap b)
    have "drop (Suc (length key)) (drop t b) = ?v @ 0 # rest"
      by (simp only: b) simp
    then have b2: "drop (Suc (t + length key)) b = ?v @ 0 # rest"
      by (simp add: add.commute)
    have nul: "0 \<notin> set key" "0 \<notin> set ?v"
      using assms(2) seg by (metis UnI1 set_append, metis UnI2 list.set_intros(2) set_append)
    obtain r where r: "strcmp findarg (drop t (b[t + length key := 0])) = Some r"
      "r = 0 \<longleftrightarrow> key = strz findarg"
      using strcmp_total [of findarg "drop t (b[t + length key := 0])"] assms(3)
      by (auto simp: b1 strz_terminated nul)
    have cpy: "strncpy argout (?v @ 0 # rest) n = Some (fill argout ?v n)"
      by (rule strncpy_terminated [OF assms(4,5) nul(2)])
    show ?thesis
      using True r len b2 cpy by (subst extract_loop.simps) (auto simp: chr)
  qed
qed

lemma extract_from:
  assumes "drop p b = rem @ 0 # rest" "0 \<notin> set rem" "0 \<in> set findarg" "0 < n" "n \<le> length argout"
  shows "do { (tok, nxt, b') \<leftarrow> strtok_r b (Some p) [44, 0];
              extract_loop b' tok nxt findarg argout n } =
    Some (map_option (\<lambda>v. fill argout v n) (lookup_arg (strz findarg) (split_on 44 rem)))"
  using assms(1,2)
proof (induction "length rem" arbitrary: p b rem rule: less_induct)
  case less
  define lead where "lead = takeWhile (\<lambda>c. c = 44) rem"
  define rem' where "rem' = dropWhile (\<lambda>c. c = 44) rem"
  define seg where "seg = takeWhile (\<lambda>c. c \<noteq> 44) rem'"
  define key where "key = takeWhile (\<lambda>c. c \<noteq> 61) seg"
  define t where "t = p + length lead"
  have "drop t b = drop (length lead) (drop p b)" by (simp add: t_def add.commute)
  then have dt: "drop t b = rem' @ 0 # rest"
    by (simp only: less.prems lead_def rem'_def drop_takeWhile_append)
  have nul: "0 \<notin> set rem'" "0 \<notin> set seg"
    using less.prems(2) by (auto simp: rem'_def seg_def dest!: set_dropWhileD set_takeWhileD)
  have spec: "lookup_arg k (split_on 44 rem) = lookup_arg k (seg #
      (if 44 \<in> set rem' then split_on 44 (tl (dropWhile (\<lambda>c. c \<noteq> 44) rem')) else []))" for k
    unfolding lookup_arg_skip [of k 44 rem] rem'_def [symmetric] seg_def
    by (subst split_on_first) (rule refl)
  have tok: "strtok_r b (Some p) [44, 0] =
     (if 44 \<in> set rem' then Some (Some t, Some (Suc (t + length seg)), b[t + length seg := 0])
      else Some (Some t, None, b))"
    using strtok_r_single [OF less.prems, of 44]
    by (simp add: lead_def [symmetric] rem'_def [symmetric] seg_def [symmetric] t_def)
  have keyseg: "61 \<in> set seg \<Longrightarrow> length key < length seg"
    unfolding key_def by (rule length_takeWhile_less) auto
  show ?case
  proof (cases "44 \<in> set rem'")
    case False
    then have "seg = rem'" by (auto simp: seg_def takeWhile_eq_all_conv)
    then show ?thesis
      using extract_loop_token [of t b seg rest findarg n argout None] dt nul assms(3-5) False
      by (simp add: tok spec key_def [symmetric])
  next
    case True
    let ?b' = "b[t + length seg := 0]"
    let ?rem2 = "tl (dropWhile (\<lambda>c. c \<noteq> 44) rem')"
    have r': "rem' = seg @ 44 # ?rem2"
      unfolding seg_def by (rule split_at_first [OF True])
    then have dt': "drop t b = seg @ 44 # (?rem2 @ 0 # rest)"
      using dt by (metis append.assoc append_Cons)
    have b': "drop t ?b' = seg @ 0 # (?rem2 @ 0 # rest)"
      by (simp add: drop_update_swap dt')
    have "drop (Suc (length seg)) (drop t ?b') = ?rem2 @ 0 # rest"
      by (simp only: b') simp
    then have b2: "drop (Suc (t + length seg)) ?b' = ?rem2 @ 0 # rest"
      by (simp add: add.commute)
    have b3: "61 \<in> set seg \<Longrightarrow> drop (Suc (t + length seg)) (?b'[t + length key := 0]) = ?rem2 @ 0 # rest"
      using keyseg b2 by simp
    have nul2: "0 \<notin> set ?rem2" using nul r' by (metis UnI2 list.set_intros(2) set_append)
    have short: "length ?rem2 < length rem"
    proof -
      have "length rem' = length seg + Suc (length ?rem2)" by (subst r') simp
      moreover have "length rem' \<le> length rem" by (simp add: rem'_def length_dropWhile_le)
      ultimately show ?thesis by simp
    qed
    note IH = less.hyps [OF short _ nul2]
    show ?thesis
      using extract_loop_token [OF b' nul(2) assms(3-5), of "Some (Suc (t + length seg))"]
        IH [OF b2] IH [OF b3] True
      by (simp add: tok spec key_def [symmetric])
  qed
qed

lemma str_extract_arg_eq:
  assumes "length buff = STRING_ARG_MAX" "0 \<notin> set s" "length s < STRING_ARG_MAX"
    "0 \<in> set findarg" "0 < n" "n \<le> length argout"
  shows "str_extract_arg buff (s @ 0 # rest) findarg argout n =
    Some (map_option (\<lambda>v. fill argout v n) (lookup_arg (strz findarg) (split_on 44 s)))"
proof -
  have cpy: "strncpy buff (s @ 0 # rest) STRING_ARG_MAX = Some (s @ 0 # drop (Suc (length s)) buff)"
    using strncpy_terminated [of STRING_ARG_MAX buff s rest] assms
    by (simp add: fill_def)
  show ?thesis
    unfolding str_extract_arg_def cpy
    using extract_from [of 0 "s @ 0 # drop (Suc (length s)) buff" s _ findarg n argout] assms
    by simp
qed

section \<open>Numbers\<close>

text \<open>The value of a list of decimal digits.\<close>

definition dec_digit :: "u8 \<Rightarrow> bool" where
  "dec_digit c \<longleftrightarrow> 48 \<le> sint c \<and> sint c \<le> 57"

fun dec_val :: "bytes \<Rightarrow> nat \<Rightarrow> nat" where
  "dec_val [] acc = acc"
| "dec_val (c # cs) acc = dec_val cs (acc * 10 + nat (sint c - 48))"

lemma dec_val_cong:
  "(of_nat n :: u32) = of_nat m \<Longrightarrow> (of_nat (dec_val ds n) :: u32) = of_nat (dec_val ds m)"
  by (induction ds arbitrary: n m) auto

lemma parse_dec_digits:
  assumes "\<forall>c \<in> set ds. dec_digit c" "\<not> dec_digit x" "length ds \<le> n"
  shows "parse_dec (ds @ x # rest) n acc = of_nat (dec_val ds (unat acc))"
  using assms
proof (induction ds arbitrary: n acc)
  case Nil
  then show ?case by (cases n) (auto simp: dec_digit_def)
next
  case (Cons c ds)
  then obtain m where n: "n = Suc m" "length ds \<le> m" by (cases n) auto
  from Cons.prems have c: "48 \<le> sint c" "sint c \<le> 57" by (auto simp: dec_digit_def)
  have "(of_nat (unat (acc * 10 + word_of_int (sint c - 48))) :: u32) =
        of_nat (unat acc * 10 + nat (sint c - 48))"
    using c by (simp add: word_of_int_nat [symmetric] del: of_nat_diff)
  from dec_val_cong [OF this] show ?case
    using Cons n c by simp
qed

lemma str_parse_int_decimal:
  assumes "\<forall>c \<in> set ds. dec_digit c" "ds \<noteq> []" "hd ds \<noteq> 48" "length ds \<le> 32"
    "\<not> dec_digit x" "0 \<in> set (x # rest)"
  shows "str_parse_int (ds @ x # rest) = Some (of_nat (dec_val ds 0))"
proof -
  let ?str = "ds @ x # rest"
  have nz: "0 \<notin> set ds" using assms(1) by (auto simp: dec_digit_def)
  then have z: "strz ?str = ds @ strz (x # rest)" by (induction ds) (auto simp: strz_def)
  have len: "strnlen ?str 32 = Some (min 32 (length ds + length (strz (x # rest))))"
  proof (cases "32 \<le> length ?str")
    case False
    then have "take 32 ?str = ?str" by simp
    then show ?thesis using assms(6) by (auto simp: strnlen_eq z)
  qed (simp add: strnlen_eq z)
  obtain d ds' where d: "ds = d # ds'" using assms(2) by (cases ds) auto
  show ?thesis
    using assms parse_dec_digits [OF assms(1,5), of "min 32 (length ds + length (strz (x # rest)))" rest 0]
    by (simp add: str_parse_int_def len) (simp add: d)
qed
section \<open>Properties\<close>

text \<open>
  For a destination of at least \<open>n\<close> bytes and \<open>n > 0\<close>, \<^verbatim>\<open>strncpy\<close> stays inside both
  buffers, always NUL-terminates, copies the longest prefix of the source that leaves room for
  the terminator, and leaves the rest of the destination alone.
\<close>

lemma strncpy_fills:
  assumes "0 < n" "n \<le> length dest" "0 \<notin> set s"
  shows "strncpy dest (s @ 0 # rest) n =
    Some (take (n - 1) s @ 0 # drop (Suc (length (take (n - 1) s))) dest)"
  using strncpy_terminated [OF assms] by (simp add: fill_def Let_def)

text \<open>
  C17. \<^verbatim>\<open>str_extract_arg\<close> refines the obvious lookup: it splits the argument string at its commas
  and copies the value of the first segment \<open>key=value\<close> whose key is the one searched for,
  or returns null if there is none; it stays inside its buffers and always returns.
\<close>

theorem str_extract_arg_refines:
  assumes "length buff = STRING_ARG_MAX" "0 \<notin> set s" "length s < STRING_ARG_MAX"
    "0 \<in> set findarg" "0 < n" "n \<le> length argout"
  shows "str_extract_arg buff (s @ 0 # rest) findarg argout n =
    Some (map_option (\<lambda>v. fill argout v n) (lookup_arg (strz findarg) (split_on 44 s)))"
  by (rule str_extract_arg_eq [OF assms])

theorem str_extract_arg_refines_witness:
  "str_extract_arg (replicate 512 0) (map of_char ''a=1,bc=22,d'' @ 0 # []) (cstr ''bc'') [9, 9, 9, 9] 4 =
     Some (Some [50, 50, 0, 9])"
proof -
  have "str_extract_arg (replicate 512 0) (map of_char ''a=1,bc=22,d'' @ 0 # []) (cstr ''bc'') [9, 9, 9, 9] 4 =
    Some (map_option (\<lambda>v. fill [9, 9, 9, 9] v 4)
      (lookup_arg (strz (cstr ''bc'')) (split_on 44 (map of_char ''a=1,bc=22,d''))))"
    by (rule str_extract_arg_refines) (simp_all add: STRING_ARG_MAX_def)
  then show ?thesis by (simp add: fill_def strz_def)
qed

text \<open>
  With more than one delimiter \<^verbatim>\<open>strtok_r\<close> loses a token boundary: when a later delimiter does
  not occur, the null result of \<^verbatim>\<open>strchr\<close> replaces the boundary found for an earlier one, and
  \<^verbatim>\<open>"a,b"\<close> with delimiters \<^verbatim>\<open>",;"\<close> comes back as one token.
\<close>

lemma strtok_r_loses_boundary:
  "strtok_r (cstr ''a,b'') (Some 0) (cstr '',;'') = Some (Some 0, None, cstr ''a,b'')
   \<and> strtok_r (cstr ''a,b'') (Some 0) (cstr '','') = Some (Some 0, Some 2, [97, 0, 98, 0])"
  by code_simp

text \<open>
  \<^verbatim>\<open>str_parse_int\<close> reads a decimal number: on a run of at most 32 digits that does not start
  with 0 it returns the value of the digits modulo \<open>2^32\<close>, whatever non-digit follows.
\<close>

lemma str_parse_int_reads_decimal:
  assumes "\<forall>c \<in> set ds. dec_digit c" "ds \<noteq> []" "hd ds \<noteq> 48" "length ds \<le> 32"
    "\<not> dec_digit x" "0 \<in> set (x # rest)"
  shows "str_parse_int (ds @ x # rest) = Some (of_nat (dec_val ds 0))"
  by (rule str_parse_int_decimal [OF assms])

end
