(* ===== verification/Mmu040.thy ===== *)
theory Mmu040
  imports Prelude
begin

text \<open>
  The 68040 memory manager, \<^verbatim>\<open>kernel/mmu/mmu040.c\<close> and \<^verbatim>\<open>mmu040.h\<close>: descriptors, the stack of
  temporary mappings, the free-frame list, and the three-level translation tables.

  Physical memory is a function from addresses divisible by four to long words.  A pointer into
  a page that \<^verbatim>\<open>_mapping_push\<close> mapped is a mapper slot and a byte offset in the page; an access
  through it goes to the frame that the slot's descriptor names at that moment, as the hardware
  does.  Descriptors are long words whose fields are bit fields.
\<close>

section \<open>Constants and descriptors\<close>

definition MMU_PAGE_MASK :: u32 where "MMU_PAGE_MASK = 0xFFF"
definition MMU_PAGE_SIZE :: u32 where "MMU_PAGE_SIZE = 4096"
definition MMU_DRAM_START :: u32 where "MMU_DRAM_START = 0x80000000"
definition MAPPER_PAGES :: nat where "MAPPER_PAGES = 10"
definition ROOT_LEVEL_DESCRIPTORS :: nat where "ROOT_LEVEL_DESCRIPTORS = 128"
definition POINTER_LEVEL_DESCRIPTORS :: nat where "POINTER_LEVEL_DESCRIPTORS = 128"
definition PAGE_DESCRIPTORS :: nat where "PAGE_DESCRIPTORS = 64"

definition SRP_URP_DESCRIPTOR_BITS :: nat where "SRP_URP_DESCRIPTOR_BITS = 9"

definition ROOT_LEVEL_ADDR_FIELD :: "u32 \<Rightarrow> u32" where "ROOT_LEVEL_ADDR_FIELD a = drop_bit 9 a"
definition ROOT_LEVEL_FIELD_ADDR :: "u32 \<Rightarrow> u32" where "ROOT_LEVEL_FIELD_ADDR f = push_bit 9 f"
definition POINTER_LEVEL_ADDR_FIELD :: "u32 \<Rightarrow> u32" where "POINTER_LEVEL_ADDR_FIELD a = drop_bit 7 a"
definition POINTER_LEVEL_FIELD_ADDR :: "u32 \<Rightarrow> u32" where "POINTER_LEVEL_FIELD_ADDR f = push_bit 7 f"
definition PAGE_LEVEL_ADDR_FIELD :: "u32 \<Rightarrow> u32" where "PAGE_LEVEL_ADDR_FIELD a = drop_bit 12 a"
definition PAGE_LEVEL_FIELD_ADDR :: "u32 \<Rightarrow> u32" where "PAGE_LEVEL_FIELD_ADDR f = push_bit 12 f"

text \<open>\<^verbatim>\<open>enum Mmu040UpperLevelDescriptorType\<close>, \<^verbatim>\<open>enum Mmu040PageDescriptorType\<close>, \<^verbatim>\<open>enum Mmu040CacheMode\<close>.\<close>

definition MMU040_UPPER_LEVEL_DESCRIPTOR_TYPE_INVALID :: u32 where
  "MMU040_UPPER_LEVEL_DESCRIPTOR_TYPE_INVALID = 0"
definition MMU040_UPPER_LEVEL_DESCRIPTOR_TYPE_RESIDENT :: u32 where
  "MMU040_UPPER_LEVEL_DESCRIPTOR_TYPE_RESIDENT = 2"
definition MMU040_UPPER_LEVEL_DESCRIPTOR_TYPE_RESIDENT_ALT :: u32 where
  "MMU040_UPPER_LEVEL_DESCRIPTOR_TYPE_RESIDENT_ALT = 3"
definition MMU040_PAGE_DESCRIPTOR_TYPE_INVALID :: u32 where
  "MMU040_PAGE_DESCRIPTOR_TYPE_INVALID = 0"
definition MMU040_PAGE_DESCRIPTOR_TYPE_RESIDENT :: u32 where
  "MMU040_PAGE_DESCRIPTOR_TYPE_RESIDENT = 1"
definition MMU040_PAGE_DESCRIPTOR_TYPE_RESIDENT_ALT :: u32 where
  "MMU040_PAGE_DESCRIPTOR_TYPE_RESIDENT_ALT = 3"
definition MMU040_CACHE_MODE_CACHE_COPY_BACK :: u32 where
  "MMU040_CACHE_MODE_CACHE_COPY_BACK = 1"

definition UDT_IS_RESIDENT :: "u32 \<Rightarrow> bool" where
  "UDT_IS_RESIDENT x \<longleftrightarrow> x = MMU040_UPPER_LEVEL_DESCRIPTOR_TYPE_RESIDENT
     \<or> x = MMU040_UPPER_LEVEL_DESCRIPTOR_TYPE_RESIDENT_ALT"

definition PDT_IS_RESIDENT :: "u32 \<Rightarrow> bool" where
  "PDT_IS_RESIDENT x \<longleftrightarrow> x = MMU040_PAGE_DESCRIPTOR_TYPE_RESIDENT
     \<or> x = MMU040_PAGE_DESCRIPTOR_TYPE_RESIDENT_ALT"

text \<open>\<^verbatim>\<open>struct Mmu040RegRootPointer\<close>.\<close>

definition root_pointer :: "u32 \<Rightarrow> u32" where "root_pointer w = bf_get 9 23 w"
definition set_root_pointer :: "u32 \<Rightarrow> u32 \<Rightarrow> u32" where "set_root_pointer w v = bf_set 9 23 w v"

text \<open>\<^verbatim>\<open>union Mmu040RootTableDescriptor\<close> and \<^verbatim>\<open>union Mmu040PointerTableDescriptor\<close>.\<close>

definition root_table_address :: "u32 \<Rightarrow> u32" where "root_table_address w = bf_get 9 23 w"
definition set_root_table_address :: "u32 \<Rightarrow> u32 \<Rightarrow> u32" where
  "set_root_table_address w v = bf_set 9 23 w v"
definition pointer_table_address :: "u32 \<Rightarrow> u32" where "pointer_table_address w = bf_get 7 25 w"
definition set_pointer_table_address :: "u32 \<Rightarrow> u32 \<Rightarrow> u32" where
  "set_pointer_table_address w v = bf_set 7 25 w v"
definition upper_level_descriptor_type :: "u32 \<Rightarrow> u32" where
  "upper_level_descriptor_type w = bf_get 0 2 w"
definition set_upper_level_descriptor_type :: "u32 \<Rightarrow> u32 \<Rightarrow> u32" where
  "set_upper_level_descriptor_type w v = bf_set 0 2 w v"

text \<open>\<^verbatim>\<open>struct Mmu040PageTableDescriptorPage\<close>.\<close>

definition physical_address :: "u32 \<Rightarrow> u32" where "physical_address w = bf_get 12 20 w"
definition set_physical_address :: "u32 \<Rightarrow> u32 \<Rightarrow> u32" where
  "set_physical_address w v = bf_set 12 20 w v"
definition page_supervisor :: "u32 \<Rightarrow> u32" where "page_supervisor w = bf_get 7 1 w"
definition set_page_supervisor :: "u32 \<Rightarrow> bool \<Rightarrow> u32" where
  "set_page_supervisor w b = bf_set 7 1 w (of_bool b)"
definition cache_mode :: "u32 \<Rightarrow> u32" where "cache_mode w = bf_get 5 2 w"
definition set_cache_mode :: "u32 \<Rightarrow> u32 \<Rightarrow> u32" where "set_cache_mode w v = bf_set 5 2 w v"
definition write_protected :: "u32 \<Rightarrow> u32" where "write_protected w = bf_get 2 1 w"
definition set_write_protected :: "u32 \<Rightarrow> bool \<Rightarrow> u32" where
  "set_write_protected w b = bf_set 2 1 w (of_bool b)"
definition page_descriptor_type :: "u32 \<Rightarrow> u32" where "page_descriptor_type w = bf_get 0 2 w"
definition set_page_descriptor_type :: "u32 \<Rightarrow> u32 \<Rightarrow> u32" where
  "set_page_descriptor_type w v = bf_set 0 2 w v"

section \<open>State\<close>

text \<open>
  Physical memory, \<^verbatim>\<open>_mem_layout\<close> and the two root pointer registers; the whole state adds
  \<^verbatim>\<open>_mapper\<close>, the descriptors of its ten pages and the number of them in use.
\<close>

record mem_layout =
  pmem :: "u32 \<Rightarrow> u32"
  free_frames :: u32
  total_frames :: u32
  free_frame :: u32
  srp :: u32
  urp :: u32

record mmu = mem_layout +
  page_descriptor :: "u32 list"
  mapping :: nat

type_synonym mptr = "nat \<times> u32"

definition maddr :: "mmu \<Rightarrow> mptr \<Rightarrow> u32" where
  "maddr s p = PAGE_LEVEL_FIELD_ADDR (physical_address (page_descriptor s ! fst p)) + snd p"

text \<open>\<open>p[j]\<close> for a pointer to long words, and \<open>p[j] = v\<close>.\<close>

definition mread :: "mmu \<Rightarrow> mptr \<Rightarrow> nat \<Rightarrow> u32" where
  "mread s p j = pmem s (maddr s p + 4 * of_nat j)"

definition mwrite :: "mmu \<Rightarrow> mptr \<Rightarrow> nat \<Rightarrow> u32 \<Rightarrow> mmu" where
  "mwrite s p j v = s\<lparr>pmem := (pmem s)(maddr s p + 4 * of_nat j := v)\<rparr>"

text \<open>The byte at an address, on a big-endian machine.\<close>

definition byte_shift :: "u32 \<Rightarrow> nat" where
  "byte_shift a = 8 * (3 - unat (a AND 3))"

definition byte_at :: "(u32 \<Rightarrow> u32) \<Rightarrow> u32 \<Rightarrow> u8" where
  "byte_at m a = ucast (drop_bit (byte_shift a) (m (a AND NOT 3)))"

definition set_byte :: "(u32 \<Rightarrow> u32) \<Rightarrow> u32 \<Rightarrow> u8 \<Rightarrow> (u32 \<Rightarrow> u32)" where
  "set_byte m a v = m(a AND NOT 3 := bf_set (byte_shift a) 8 (m (a AND NOT 3)) (ucast v))"

text \<open>\<^verbatim>\<open>REPAGE(ph, _mapping_push(ph))\<close>: the mapped page with the page offset of \<open>ph\<close>.\<close>

definition REPAGE :: "u32 \<Rightarrow> nat \<Rightarrow> mptr" where
  "REPAGE a slot = (slot, a AND MMU_PAGE_MASK)"

section \<open>Temporary mappings and frames\<close>

definition mapping_push :: "u32 \<Rightarrow> mmu \<Rightarrow> (nat \<times> mmu) option" where
  "mapping_push phys s =
     (let m = mapping s;
          desc = set_page_descriptor_type
                   (set_page_supervisor
                     (set_physical_address 0 (PAGE_LEVEL_ADDR_FIELD phys)) True)
                   MMU040_PAGE_DESCRIPTOR_TYPE_RESIDENT
      in if m \<ge> MAPPER_PAGES then None
         else do {
           pd \<leftarrow> wr (page_descriptor s) m desc;
           Some (m, s\<lparr>page_descriptor := pd, mapping := m + 1\<rparr>) })"

definition mapping_pop :: "mmu \<Rightarrow> mmu" where
  "mapping_pop s = (if mapping s > 0 then s\<lparr>mapping := mapping s - 1\<rparr> else s)"

text \<open>\<^verbatim>\<open>mmu040_zero_4k(frame)\<close> on the page mapped at \<open>slot\<close>.\<close>

definition zero_4k :: "mmu \<Rightarrow> nat \<Rightarrow> mmu" where
  "zero_4k s slot =
     s\<lparr>pmem := (\<lambda>a. if a AND NOT MMU_PAGE_MASK = maddr s (slot, 0) then 0 else pmem s a)\<rparr>"

definition alloc_frame :: "mmu \<Rightarrow> (u32 \<times> mmu) option" where
  "alloc_frame s =
     (if free_frames s = 0 then Some (0, s)
      else do {
        let s = s\<lparr>free_frames := free_frames s - 1\<rparr>;
        let free = free_frame s;
        (frame, s) \<leftarrow> mapping_push free s;
        let s = s\<lparr>free_frame := mread s (frame, 0) 0\<rparr>;
        let s = zero_4k s frame;
        Some (free, mapping_pop s) })"

definition free_frame_op :: "u32 \<Rightarrow> mmu \<Rightarrow> mmu option" where
  "free_frame_op frame s = do {
     (free, s) \<leftarrow> mapping_push frame s;
     let s = mwrite s (free, 0) 0 (free_frame s);
     let s = s\<lparr>free_frame := frame\<rparr>;
     Some (mapping_pop s) }"

text \<open>
  \<^verbatim>\<open>_build_free_frame_list\<close>: the scan of the boot-time kernel tables (\<open>root_td\<close> is the array at
  \<^verbatim>\<open>MEM_MMU_TABLE_AREA\<close>) carries the local variable \<^verbatim>\<open>free_frame\<close>.
\<close>

definition scan_page :: "mptr \<Rightarrow> nat \<Rightarrow> u32 \<times> mmu \<Rightarrow> u32 \<times> mmu" where
  "scan_page page_table k = (\<lambda>(ff, s).
     if \<not> PDT_IS_RESIDENT (page_descriptor_type (mread s page_table k)) then (ff, s)
     else let ph = PAGE_LEVEL_FIELD_ADDR (physical_address (mread s page_table k))
          in if ph \<ge> ff then (ph + MMU_PAGE_SIZE, s\<lparr>free_frames := free_frames s - 1\<rparr>)
             else (ff, s))"

definition scan_pointer :: "mptr \<Rightarrow> nat \<Rightarrow> u32 \<times> mmu \<Rightarrow> (u32 \<times> mmu) option" where
  "scan_pointer pointer_table j = (\<lambda>(ff, s).
     if \<not> UDT_IS_RESIDENT (upper_level_descriptor_type (mread s pointer_table j)) then Some (ff, s)
     else do {
       let ph = POINTER_LEVEL_FIELD_ADDR (pointer_table_address (mread s pointer_table j));
       (slot, s) \<leftarrow> mapping_push ph s;
       let (ff, s) = fold (scan_page (REPAGE ph slot)) [0..<PAGE_DESCRIPTORS] (ff, s);
       Some (ff, mapping_pop s) })"

definition scan_root :: "u32 list \<Rightarrow> nat \<Rightarrow> u32 \<times> mmu \<Rightarrow> (u32 \<times> mmu) option" where
  "scan_root root_td i = (\<lambda>(ff, s). do {
     d \<leftarrow> rd root_td i;
     if \<not> UDT_IS_RESIDENT (upper_level_descriptor_type d) then Some (ff, s)
     else do {
       let ph = ROOT_LEVEL_FIELD_ADDR (root_table_address d);
       (slot, s) \<leftarrow> mapping_push ph s;
       (ff, s) \<leftarrow> for_loop [0..<POINTER_LEVEL_DESCRIPTORS] (scan_pointer (REPAGE ph slot)) (ff, s);
       Some (ff, mapping_pop s) } })"

partial_function (option) link_frames :: "u32 \<Rightarrow> mmu \<Rightarrow> mmu option" where
  "link_frames free s =
     (if free < MMU_DRAM_START + total_frames s * MMU_PAGE_SIZE
      then do {
        (frame, s) \<leftarrow> mapping_push free s;
        let s = mwrite s (frame, 0) 0 (free_frame s);
        let s = s\<lparr>free_frame := free\<rparr>;
        link_frames (free + MMU_PAGE_SIZE) (mapping_pop s) }
      else Some s)"

definition build_free_frame_list :: "u32 list \<Rightarrow> mmu \<Rightarrow> mmu option" where
  "build_free_frame_list root_td s = do {
     (ff, s) \<leftarrow> for_loop [0..<ROOT_LEVEL_DESCRIPTORS] (scan_root root_td) (MMU_DRAM_START, s);
     link_frames ff s }"

definition get_table_indices :: "u32 \<Rightarrow> nat \<times> nat \<times> nat" where
  "get_table_indices virtual =
     (unat (drop_bit 25 virtual AND 127), unat (drop_bit 18 virtual AND 127),
      unat (drop_bit 12 virtual AND 63))"

definition mmu040_init :: "u32 list \<Rightarrow> mmu \<Rightarrow> mmu option" where
  "mmu040_init root_td s =
     (let total = (64 * 1024 * 1024) div MMU_PAGE_SIZE in
      build_free_frame_list root_td (s\<lparr>total_frames := total, free_frames := total, free_frame := 0\<rparr>))"

section \<open>Address spaces\<close>

text \<open>
  A \<^verbatim>\<open>MmuUserspaceHandle *\<close> argument is \<^term>\<open>None\<close> for a null pointer and otherwise the value it
  points to; the functions that store through it return the new value.
\<close>

definition mmu040_init_userspace :: "u32 option \<Rightarrow> mmu \<Rightarrow> (int \<times> u32 option \<times> mmu) option" where
  "mmu040_init_userspace userspace s =
     (case userspace of
        None \<Rightarrow> Some (- errno EINVAL, None, s)
      | Some _ \<Rightarrow> do {
          let h = 0;
          (directory, s) \<leftarrow> alloc_frame s;
          if directory = 0 then Some (- errno ENOMEM, Some h, s)
          else do {
            let h = set_root_pointer h (drop_bit SRP_URP_DESCRIPTOR_BITS directory);
            Some (0, Some h, s\<lparr>urp := h\<rparr>) } })"

definition clear_page :: "mptr \<Rightarrow> nat \<Rightarrow> mmu \<Rightarrow> mmu option" where
  "clear_page page_table k s =
     (if \<not> PDT_IS_RESIDENT (page_descriptor_type (mread s page_table k)) then Some s
      else free_frame_op (PAGE_LEVEL_FIELD_ADDR (physical_address (mread s page_table k))) s)"

definition clear_pointer :: "mptr \<Rightarrow> nat \<Rightarrow> mmu \<Rightarrow> mmu option" where
  "clear_pointer pointer_table j s =
     (if \<not> UDT_IS_RESIDENT (upper_level_descriptor_type (mread s pointer_table j)) then Some s
      else do {
        let ph = POINTER_LEVEL_FIELD_ADDR (pointer_table_address (mread s pointer_table j));
        (slot, s) \<leftarrow> mapping_push ph s;
        s \<leftarrow> for_loop [0..<PAGE_DESCRIPTORS] (clear_page (REPAGE ph slot)) s;
        free_frame_op ph (mapping_pop s) })"

definition clear_root :: "mptr \<Rightarrow> nat \<Rightarrow> mmu \<Rightarrow> mmu option" where
  "clear_root root_table i s =
     (if \<not> UDT_IS_RESIDENT (upper_level_descriptor_type (mread s root_table i)) then Some s
      else do {
        let ph = ROOT_LEVEL_FIELD_ADDR (root_table_address (mread s root_table i));
        (slot, s) \<leftarrow> mapping_push ph s;
        s \<leftarrow> for_loop [0..<POINTER_LEVEL_DESCRIPTORS] (clear_pointer (REPAGE ph slot)) s;
        s \<leftarrow> free_frame_op ph (mapping_pop s);
        Some (mwrite s root_table i (set_upper_level_descriptor_type (mread s root_table i)
                MMU040_UPPER_LEVEL_DESCRIPTOR_TYPE_INVALID)) })"

definition mmu040_clear_userspace :: "u32 \<Rightarrow> mmu \<Rightarrow> mmu option" where
  "mmu040_clear_userspace handle s = do {
     let ph = push_bit SRP_URP_DESCRIPTOR_BITS (root_pointer handle);
     (slot, s) \<leftarrow> mapping_push ph s;
     s \<leftarrow> for_loop [0..<ROOT_LEVEL_DESCRIPTORS] (clear_root (REPAGE ph slot)) s;
     Some (mapping_pop s) }"

definition mmu040_free_userspace :: "u32 \<Rightarrow> mmu \<Rightarrow> mmu option" where
  "mmu040_free_userspace handle s = do {
     s \<leftarrow> mmu040_clear_userspace handle s;
     free_frame_op (push_bit SRP_URP_DESCRIPTOR_BITS (root_pointer handle)) s }"

text \<open>
  \<^verbatim>\<open>memcpy(page_to, page_from, MMU_PAGE_SIZE)\<close> between two mapped pages.
\<close>

definition copy_page :: "mmu \<Rightarrow> nat \<Rightarrow> nat \<Rightarrow> mmu" where
  "copy_page s to from =
     s\<lparr>pmem := (\<lambda>a. if a AND NOT MMU_PAGE_MASK = maddr s (to, 0)
                     then pmem s (maddr s (from, 0) + (a AND MMU_PAGE_MASK)) else pmem s a)\<rparr>"

text \<open>
  The loop bodies of \<^verbatim>\<open>mmu040_clone_userspace\<close>; \<^term>\<open>Inl\<close> is an early \<^verbatim>\<open>return\<close>.  As in the source,
  each failing allocation pops every mapping pushed so far before it returns.
\<close>

definition clone_page ::
  "mptr \<Rightarrow> mptr \<Rightarrow> nat \<Rightarrow> mmu \<Rightarrow> ((int \<times> mmu) + mmu) option" where
  "clone_page from to k s =
     (if \<not> PDT_IS_RESIDENT (page_descriptor_type (mread s from k))
      then Some (Inr (mwrite s to k (set_page_descriptor_type (mread s to k)
                        MMU040_PAGE_DESCRIPTOR_TYPE_INVALID)))
      else do {
        (ph, s) \<leftarrow> alloc_frame s;
        if ph = 0
        then Some (Inl (- errno ENOMEM, (mapping_pop ^^ 6) s))
        else do {
          (page_to, s) \<leftarrow> mapping_push ph s;
          let s = mwrite s to k (mread s from k);
          let s = mwrite s to k (set_physical_address (mread s to k) (PAGE_LEVEL_ADDR_FIELD ph));
          let ph = PAGE_LEVEL_FIELD_ADDR (physical_address (mread s from k));
          (page_from, s) \<leftarrow> mapping_push ph s;
          let s = copy_page s page_to page_from;
          Some (Inr (mapping_pop (mapping_pop s))) } })"

definition clone_pointer ::
  "mptr \<Rightarrow> mptr \<Rightarrow> nat \<Rightarrow> mmu \<Rightarrow> ((int \<times> mmu) + mmu) option" where
  "clone_pointer from to j s =
     (if \<not> UDT_IS_RESIDENT (upper_level_descriptor_type (mread s from j))
      then Some (Inr (mwrite s to j (set_upper_level_descriptor_type (mread s to j)
                        MMU040_UPPER_LEVEL_DESCRIPTOR_TYPE_INVALID)))
      else do {
        (ph, s) \<leftarrow> alloc_frame s;
        if ph = 0
        then Some (Inl (- errno ENOMEM, (mapping_pop ^^ 4) s))
        else do {
          (page_table_to, s) \<leftarrow> mapping_push ph s;
          let s = mwrite s to j (set_pointer_table_address (mread s to j) (POINTER_LEVEL_ADDR_FIELD ph));
          let s = mwrite s to j (set_upper_level_descriptor_type (mread s to j)
                    MMU040_UPPER_LEVEL_DESCRIPTOR_TYPE_RESIDENT);
          let ph = POINTER_LEVEL_FIELD_ADDR (pointer_table_address (mread s from j));
          (slot, s) \<leftarrow> mapping_push ph s;
          r \<leftarrow> for_return [0..<PAGE_DESCRIPTORS] (clone_page (REPAGE ph slot) (page_table_to, 0)) s;
          case r of
            Inl ret \<Rightarrow> Some (Inl ret)
          | Inr s \<Rightarrow> Some (Inr (mapping_pop (mapping_pop s))) } })"

definition clone_root ::
  "mptr \<Rightarrow> mptr \<Rightarrow> nat \<Rightarrow> mmu \<Rightarrow> ((int \<times> mmu) + mmu) option" where
  "clone_root from to i s =
     (if \<not> UDT_IS_RESIDENT (upper_level_descriptor_type (mread s from i))
      then Some (Inr (mwrite s to i (set_upper_level_descriptor_type (mread s to i)
                        MMU040_UPPER_LEVEL_DESCRIPTOR_TYPE_INVALID)))
      else do {
        (ph, s) \<leftarrow> alloc_frame s;
        if ph = 0
        then Some (Inl (- errno ENOMEM, (mapping_pop ^^ 2) s))
        else do {
          (pointer_table_to, s) \<leftarrow> mapping_push ph s;
          let s = mwrite s to i (set_root_table_address (mread s to i) (ROOT_LEVEL_ADDR_FIELD ph));
          let s = mwrite s to i (set_upper_level_descriptor_type (mread s to i)
                    MMU040_UPPER_LEVEL_DESCRIPTOR_TYPE_RESIDENT);
          let ph = ROOT_LEVEL_FIELD_ADDR (root_table_address (mread s from i));
          (slot, s) \<leftarrow> mapping_push ph s;
          r \<leftarrow> for_return [0..<POINTER_LEVEL_DESCRIPTORS]
                 (clone_pointer (REPAGE ph slot) (pointer_table_to, 0)) s;
          case r of
            Inl ret \<Rightarrow> Some (Inl ret)
          | Inr s \<Rightarrow> Some (Inr (mapping_pop (mapping_pop s))) } })"

definition mmu040_clone_userspace :: "u32 option \<Rightarrow> u32 option \<Rightarrow> mmu \<Rightarrow> (int \<times> mmu) option" where
  "mmu040_clone_userspace from to s =
     (case (from, to) of
        (Some f, Some t) \<Rightarrow> do {
          let ph = push_bit SRP_URP_DESCRIPTOR_BITS (root_pointer f);
          (slot_from, s) \<leftarrow> mapping_push ph s;
          let root_from = REPAGE ph slot_from;
          let ph = push_bit SRP_URP_DESCRIPTOR_BITS (root_pointer t);
          (slot_to, s) \<leftarrow> mapping_push ph s;
          let root_to = REPAGE ph slot_to;
          r \<leftarrow> for_return [0..<ROOT_LEVEL_DESCRIPTORS] (clone_root root_from root_to) s;
          case r of
            Inl ret \<Rightarrow> Some ret
          | Inr s \<Rightarrow> Some (0, mapping_pop (mapping_pop s)) }
      | _ \<Rightarrow> Some (- errno EINVAL, s))"

definition mmu040_switch_userspace :: "u32 option \<Rightarrow> mmu \<Rightarrow> int \<times> mmu" where
  "mmu040_switch_userspace userspace s =
     (case userspace of None \<Rightarrow> (- errno EINVAL, s) | Some h \<Rightarrow> (0, s\<lparr>urp := h\<rparr>))"

section \<open>Mapping a page\<close>

text \<open>The pointer table under entry \<open>i\<close> of the root table, allocated if it is missing.\<close>

definition descend_root :: "mptr \<Rightarrow> nat \<Rightarrow> mmu \<Rightarrow> (mptr \<times> mmu) option" where
  "descend_root root_table i s =
     (if UDT_IS_RESIDENT (upper_level_descriptor_type (mread s root_table i))
      then do {
        let ph = ROOT_LEVEL_FIELD_ADDR (root_table_address (mread s root_table i));
        (slot, s) \<leftarrow> mapping_push ph s;
        Some (REPAGE ph slot, s) }
      else do {
        (ph, s) \<leftarrow> alloc_frame s;
        (slot, s) \<leftarrow> mapping_push ph s;
        let s = mwrite s root_table i
                  (set_root_table_address (mread s root_table i) (ROOT_LEVEL_ADDR_FIELD ph));
        let s = mwrite s root_table i
                  (set_upper_level_descriptor_type (mread s root_table i)
                    MMU040_UPPER_LEVEL_DESCRIPTOR_TYPE_RESIDENT);
        Some ((slot, 0), s) })"

text \<open>The page table under entry \<open>j\<close> of a pointer table, allocated if it is missing.\<close>

definition descend_pointer :: "mptr \<Rightarrow> nat \<Rightarrow> mmu \<Rightarrow> (mptr \<times> mmu) option" where
  "descend_pointer pointer_table j s =
     (if UDT_IS_RESIDENT (upper_level_descriptor_type (mread s pointer_table j))
      then do {
        let ph = POINTER_LEVEL_FIELD_ADDR (pointer_table_address (mread s pointer_table j));
        (slot, s) \<leftarrow> mapping_push ph s;
        Some (REPAGE ph slot, s) }
      else do {
        (ph, s) \<leftarrow> alloc_frame s;
        (slot, s) \<leftarrow> mapping_push ph s;
        let s = mwrite s pointer_table j
                  (set_pointer_table_address (mread s pointer_table j) (POINTER_LEVEL_ADDR_FIELD ph));
        let s = mwrite s pointer_table j
                  (set_upper_level_descriptor_type (mread s pointer_table j)
                    MMU040_UPPER_LEVEL_DESCRIPTOR_TYPE_RESIDENT);
        Some ((slot, 0), s) })"

text \<open>The entry \<open>k\<close> of a page table gets a fresh frame; a frame it already had is freed first.\<close>

definition install_page :: "mptr \<Rightarrow> nat \<Rightarrow> bool \<Rightarrow> bool \<Rightarrow> mmu \<Rightarrow> (u32 \<times> mmu) option" where
  "install_page page_table k supervisor wp s = do {
     s \<leftarrow> (if PDT_IS_RESIDENT (page_descriptor_type (mread s page_table k))
          then do {
            let s = mwrite s page_table k (set_write_protected (mread s page_table k) wp);
            free_frame_op (PAGE_LEVEL_FIELD_ADDR (physical_address (mread s page_table k))) s }
          else Some s);
     (frame, s) \<leftarrow> alloc_frame s;
     let s = mwrite s page_table k
               (set_physical_address (mread s page_table k) (PAGE_LEVEL_ADDR_FIELD frame));
     let s = mwrite s page_table k (set_page_supervisor (mread s page_table k) supervisor);
     let s = mwrite s page_table k
               (set_cache_mode (mread s page_table k) MMU040_CACHE_MODE_CACHE_COPY_BACK);
     let s = mwrite s page_table k (set_write_protected (mread s page_table k) wp);
     let s = mwrite s page_table k
               (set_page_descriptor_type (mread s page_table k) MMU040_PAGE_DESCRIPTOR_TYPE_RESIDENT);
     Some (frame, s) }"

definition mmu040_alloc_at :: "u32 \<Rightarrow> bool \<Rightarrow> bool \<Rightarrow> mmu \<Rightarrow> (u32 \<times> mmu) option" where
  "mmu040_alloc_at virt supervisor wp s = do {
     let rp = (if supervisor then srp s else urp s);
     let (i, j, k) = get_table_indices virt;
     let ph = push_bit SRP_URP_DESCRIPTOR_BITS (root_pointer rp);
     (slot, s) \<leftarrow> mapping_push ph s;
     (pointer_table, s) \<leftarrow> descend_root (REPAGE ph slot) i s;
     (page_table, s) \<leftarrow> descend_pointer pointer_table j s;
     (frame, s) \<leftarrow> install_page page_table k supervisor wp s;
     Some (frame, mapping_pop (mapping_pop (mapping_pop s))) }"

text \<open>\<^verbatim>\<open>mmu040_free_at\<close> is a stub that panics.\<close>

definition mmu040_free_at :: "u32 \<Rightarrow> bool \<Rightarrow> mmu \<Rightarrow> mmu option" where
  "mmu040_free_at virt supervisor s = None"

section \<open>Copying to and from mapped pages\<close>

text \<open>
  A byte access through a mapper page stays in the page or has no defined result (it would go
  through the descriptor of the next slot).
\<close>

definition mwrite_byte :: "mmu \<Rightarrow> nat \<Rightarrow> nat \<Rightarrow> u8 \<Rightarrow> mmu option" where
  "mwrite_byte s slot off v =
     (if off < unat MMU_PAGE_SIZE then Some (s\<lparr>pmem := set_byte (pmem s) (maddr s (slot, of_nat off)) v\<rparr>)
      else None)"

definition mread_byte :: "mmu \<Rightarrow> nat \<Rightarrow> nat \<Rightarrow> u8 option" where
  "mread_byte s slot off =
     (if off < unat MMU_PAGE_SIZE then Some (byte_at (pmem s) (maddr s (slot, of_nat off))) else None)"

definition mmu040_fill_frame :: "u32 \<Rightarrow> nat \<Rightarrow> bytes \<Rightarrow> nat \<Rightarrow> mmu \<Rightarrow> mmu option" where
  "mmu040_fill_frame frame offset src sz s = do {
     (map, s) \<leftarrow> mapping_push frame s;
     s \<leftarrow> for_loop [0..<sz] (\<lambda>i s. do { c \<leftarrow> rd src i; mwrite_byte s map (i + offset) c }) s;
     Some (mapping_pop s) }"

text \<open>
  \<^verbatim>\<open>mmu040_get_physical\<close> is the processor's own table search (PTESTR, \<^verbatim>\<open>mmu040.S\<close>): the parameter
  \<open>get_physical\<close>.  The copy loops are entered with at least one byte to go; \<open>p\<close> is the page offset
  of the mapped pointer in its slot.
\<close>

fun copy_from_loop ::
  "(mmu \<Rightarrow> u32 \<Rightarrow> u32) \<Rightarrow> nat \<Rightarrow> u32 \<Rightarrow> nat \<Rightarrow> nat \<Rightarrow> mmu \<Rightarrow> (bytes \<times> mmu) option" where
  "copy_from_loop get_physical 0 src slot p s = Some ([], s)"
| "copy_from_loop get_physical (Suc n) src slot p s = do {
     c \<leftarrow> mread_byte s slot p;
     let src = src + 1;
     (cs, s) \<leftarrow>
       (if n = 0 then Some ([], s)
        else if src AND MMU_PAGE_MASK = 0 then do {
          let s = mapping_pop s;
          let phys = get_physical s src;
          (slot, s) \<leftarrow> mapping_push phys s;
          copy_from_loop get_physical n src slot (unat (phys AND MMU_PAGE_MASK)) s }
        else copy_from_loop get_physical n src slot (Suc p) s);
     Some (c # cs, s) }"

text \<open>The result is the sequence of bytes stored from \<^verbatim>\<open>dst\<close> on.\<close>

definition mmu040_copy_from_userspace ::
  "(mmu \<Rightarrow> u32 \<Rightarrow> u32) \<Rightarrow> u32 \<Rightarrow> nat \<Rightarrow> mmu \<Rightarrow> (bytes \<times> mmu) option" where
  "mmu040_copy_from_userspace get_physical src sz s =
     (if sz = 0 then Some ([], s)
      else do {
        let phys = get_physical s src;
        (slot, s) \<leftarrow> mapping_push phys s;
        (cs, s) \<leftarrow> copy_from_loop get_physical sz src slot (unat (phys AND MMU_PAGE_MASK)) s;
        Some (cs, mapping_pop s) })"

fun copy_to_loop ::
  "(mmu \<Rightarrow> u32 \<Rightarrow> u32) \<Rightarrow> bytes \<Rightarrow> u32 \<Rightarrow> nat \<Rightarrow> nat \<Rightarrow> mmu \<Rightarrow> mmu option" where
  "copy_to_loop get_physical [] dst slot p s = Some s"
| "copy_to_loop get_physical (c # cs) dst slot p s = do {
     s \<leftarrow> mwrite_byte s slot p c;
     let dst = dst + 1;
     if cs = [] then Some s
     else if dst AND MMU_PAGE_MASK = 0 then do {
       let s = mapping_pop s;
       let phys = get_physical s dst;
       (slot, s) \<leftarrow> mapping_push phys s;
       copy_to_loop get_physical cs dst slot (unat (phys AND MMU_PAGE_MASK)) s }
     else copy_to_loop get_physical cs dst slot (Suc p) s }"

text \<open>\<open>src\<close> is the sequence of \<^verbatim>\<open>size\<close> bytes to copy.\<close>

definition mmu040_copy_to_userspace ::
  "(mmu \<Rightarrow> u32 \<Rightarrow> u32) \<Rightarrow> u32 \<Rightarrow> bytes \<Rightarrow> mmu \<Rightarrow> mmu option" where
  "mmu040_copy_to_userspace get_physical dst src s =
     (if src = [] then Some s
      else do {
        let phys = get_physical s dst;
        (slot, s) \<leftarrow> mapping_push phys s;
        s \<leftarrow> copy_to_loop get_physical src dst slot (unat (phys AND MMU_PAGE_MASK)) s;
        Some (mapping_pop s) })"

definition mmu040_map_current_userspace :: "mmu \<Rightarrow> mmu option" where
  "mmu040_map_current_userspace s = do {
     let ph = push_bit SRP_URP_DESCRIPTOR_BITS (root_pointer (srp s));
     (slot_s, s) \<leftarrow> mapping_push ph s;
     let supervisor_root = REPAGE ph slot_s;
     let ph = push_bit SRP_URP_DESCRIPTOR_BITS (root_pointer (urp s));
     (slot_u, s) \<leftarrow> mapping_push ph s;
     let user_root = REPAGE ph slot_u;
     let s = fold (\<lambda>i s. mwrite s supervisor_root i (mread s user_root i))
               [0..<(ROOT_LEVEL_DESCRIPTORS div 4) * 3] s;
     Some (mapping_pop (mapping_pop s)) }"

declare link_frames.simps [code]

end
