(* ===== verification/MmuSpec.thy ===== *)
theory MmuSpec
  imports Mmu040 "HOL-Library.Sublist"
begin

text \<open>
  What the memory manager promises: the free-frame list as a pool of frames, a translation tree
  in memory as a partial function on page indices, and the refinement of \<^verbatim>\<open>mmu040_alloc_at\<close> to an
  update of that function.
\<close>

section \<open>Specification vocabulary\<close>

text \<open>The frame an address lies in.\<close>

definition page_of :: "u32 \<Rightarrow> u32" where
  "page_of a = a AND NOT MMU_PAGE_MASK"

definition zero_page :: "u32 \<Rightarrow> (u32 \<Rightarrow> u32) \<Rightarrow> (u32 \<Rightarrow> u32)" where
  "zero_page f m = (\<lambda>a. if page_of a = f then 0 else m a)"

text \<open>The free list as a list of frames: each free frame holds the address of the next.\<close>

fun frame_chain :: "(u32 \<Rightarrow> u32) \<Rightarrow> u32 \<Rightarrow> u32 list \<Rightarrow> bool" where
  "frame_chain m f [] \<longleftrightarrow> f = 0"
| "frame_chain m f (g # gs) \<longleftrightarrow> f = g \<and> g \<noteq> 0 \<and> page_of g = g \<and> g \<notin> set gs \<and> frame_chain m (m g) gs"

section \<open>Descriptor fields\<close>

lemmas mmu_field_defs =
  ROOT_LEVEL_ADDR_FIELD_def ROOT_LEVEL_FIELD_ADDR_def POINTER_LEVEL_ADDR_FIELD_def
  POINTER_LEVEL_FIELD_ADDR_def PAGE_LEVEL_ADDR_FIELD_def PAGE_LEVEL_FIELD_ADDR_def
  root_pointer_def set_root_pointer_def root_table_address_def set_root_table_address_def
  pointer_table_address_def set_pointer_table_address_def upper_level_descriptor_type_def
  set_upper_level_descriptor_type_def physical_address_def set_physical_address_def
  page_supervisor_def set_page_supervisor_def cache_mode_def set_cache_mode_def
  write_protected_def set_write_protected_def page_descriptor_type_def
  set_page_descriptor_type_def

lemmas mmu_constants =
  MMU040_UPPER_LEVEL_DESCRIPTOR_TYPE_INVALID_def MMU040_UPPER_LEVEL_DESCRIPTOR_TYPE_RESIDENT_def
  MMU040_UPPER_LEVEL_DESCRIPTOR_TYPE_RESIDENT_ALT_def MMU040_PAGE_DESCRIPTOR_TYPE_INVALID_def
  MMU040_PAGE_DESCRIPTOR_TYPE_RESIDENT_def MMU040_PAGE_DESCRIPTOR_TYPE_RESIDENT_ALT_def
  MMU040_CACHE_MODE_CACHE_COPY_BACK_def

lemma page_mask: "MMU_PAGE_MASK = mask 12"
  by (simp add: MMU_PAGE_MASK_def mask_eq_exp_minus_1)

lemma bit_page_of: "bit (page_of a) n \<longleftrightarrow> 12 \<le> n \<and> bit a n"
  by (auto simp: page_of_def page_mask bit_and_iff bit_not_iff bit_mask_iff dest: bit_imp_le_length)

lemma page_of_shift: "push_bit 12 (drop_bit 12 a) = page_of a"
  by (rule bit_eqI) (auto simp: bit_page_of bit_push_bit_iff bit_drop_bit_eq)

lemma page_of_idem [simp]: "page_of (page_of a) = page_of a"
  by (rule bit_eqI) (simp add: bit_page_of)

lemma page_of_0 [simp]: "page_of 0 = 0"
  by (simp add: page_of_def)

text \<open>The address a field of an aligned frame refers to is the frame itself.\<close>

lemma page_field_addr [simp]:
  "PAGE_LEVEL_FIELD_ADDR (physical_address (set_physical_address w (PAGE_LEVEL_ADDR_FIELD f))) = page_of f"
  by (rule bit_eqI)
    (auto simp: mmu_field_defs bit_page_of bit_push_bit_iff bit_take_bit_iff bit_drop_bit_eq dest: bit_imp_le_length)

lemma root_field_addr:
  "page_of f = f \<Longrightarrow>
   ROOT_LEVEL_FIELD_ADDR (root_table_address (set_root_table_address w (ROOT_LEVEL_ADDR_FIELD f))) = f"
  by (rule bit_eqI)
    (subst (asm) bit_eq_iff, auto simp: mmu_field_defs bit_page_of bit_push_bit_iff bit_take_bit_iff bit_drop_bit_eq dest: bit_imp_le_length)

lemma small_word_bits:
  assumes "unat x < 2 ^ k" "bit (x :: u32) n"
  shows "n < k"
proof -
  from assms(1) have "take_bit k (unat x) = unat x" by (rule take_bit_nat_eq_self)
  moreover from assms(2) have "bit (unat x) n"
    by (auto simp: bit_unsigned_iff dest: bit_imp_le_length)
  ultimately show ?thesis by (metis bit_take_bit_iff)
qed

lemma page_of_offset:
  assumes "page_of f = f" "unat x < 4096"
  shows "page_of (f + x) = f" "(f + x) AND MMU_PAGE_MASK = x"
proof -
  have f: "bit f n \<Longrightarrow> 12 \<le> n" for n using assms(1) bit_page_of by metis
  have x: "bit x n \<Longrightarrow> n < 12" for n using small_word_bits [of x 12 n] assms(2) by simp
  have fx: "\<not> (bit f n \<and> bit x n)" for n using f [of n] x [of n] by linarith
  then have "f AND x = 0"
    by (intro bit_eqI) (simp add: bit_and_iff)
  then have sum: "f + x = f OR x" by (rule disjunctive_add_eq_or)
  show "page_of (f + x) = f"
    unfolding sum by (rule bit_eqI) (use f x in \<open>force simp: bit_page_of bit_or_iff\<close>)
  show "(f + x) AND MMU_PAGE_MASK = x"
    unfolding sum
    by (rule bit_eqI) (use f x in \<open>force simp: page_mask bit_or_iff bit_and_iff bit_mask_iff\<close>)
qed

lemma page_plus_offset: "page_of a + (a AND MMU_PAGE_MASK) = a"
proof -
  have "page_of a AND (a AND MMU_PAGE_MASK) = 0"
    by (rule bit_eqI) (auto simp: bit_page_of bit_and_iff page_mask bit_mask_iff)
  then have "page_of a + (a AND MMU_PAGE_MASK) = page_of a OR (a AND MMU_PAGE_MASK)"
    by (rule disjunctive_add_eq_or)
  also have "\<dots> = a"
    by (rule bit_eqI) (auto simp: bit_page_of bit_or_iff bit_and_iff page_mask bit_mask_iff)
  finally show ?thesis .
qed

section \<open>The mapper\<close>

definition mapper_ok :: "mmu \<Rightarrow> bool" where
  "mapper_ok s \<longleftrightarrow> length (page_descriptor s) = MAPPER_PAGES \<and> mapping s \<le> MAPPER_PAGES"

definition mdesc :: "u32 \<Rightarrow> u32" where
  "mdesc ph = set_page_descriptor_type
     (set_page_supervisor (set_physical_address 0 (PAGE_LEVEL_ADDR_FIELD ph)) True)
     MMU040_PAGE_DESCRIPTOR_TYPE_RESIDENT"

lemma mdesc_base [simp]: "PAGE_LEVEL_FIELD_ADDR (physical_address (mdesc ph)) = page_of ph"
proof -
  have "physical_address (mdesc ph) = physical_address (set_physical_address 0 (PAGE_LEVEL_ADDR_FIELD ph))"
    by (simp add: mdesc_def physical_address_def set_page_descriptor_type_def set_page_supervisor_def)
  then show ?thesis by simp
qed

lemma mapping_push_eq:
  assumes "mapper_ok s"
  shows "mapping_push ph s =
    (if mapping s < MAPPER_PAGES
     then Some (mapping s, s\<lparr>page_descriptor := (page_descriptor s)[mapping s := mdesc ph],
                            mapping := Suc (mapping s)\<rparr>)
     else None)"
  using assms by (simp add: mapping_push_def mapper_ok_def mdesc_def [symmetric] Let_def not_le [symmetric])

lemma mapping_push_full: "mapper_ok s \<Longrightarrow> mapping s = MAPPER_PAGES \<Longrightarrow> mapping_push ph s = None"
  by (simp add: mapping_push_eq)

lemma alloc_frame_eq:
  assumes "mapper_ok s" "mapping s < MAPPER_PAGES"
  shows "alloc_frame s =
    (if free_frames s = 0 then Some (0, s)
     else Some (free_frame s,
       s\<lparr>free_frames := free_frames s - 1, free_frame := pmem s (page_of (free_frame s)),
         pmem := zero_page (page_of (free_frame s)) (pmem s),
         page_descriptor := (page_descriptor s)[mapping s := mdesc (free_frame s)]\<rparr>))"
  using assms
  by (cases s) (simp add: alloc_frame_def mapping_push_eq mapper_ok_def Let_def mapping_pop_def zero_4k_def
      maddr_def mread_def zero_page_def page_of_def [symmetric] MAPPER_PAGES_def cong: if_cong)

lemma free_frame_eq:
  assumes "mapper_ok s" "mapping s < MAPPER_PAGES"
  shows "free_frame_op f s =
    Some (s\<lparr>free_frame := f, pmem := (pmem s)(page_of f := free_frame s),
            page_descriptor := (page_descriptor s)[mapping s := mdesc f]\<rparr>)"
  using assms
  by (cases s) (simp add: free_frame_op_def mapping_push_eq mapper_ok_def Let_def mapping_pop_def
      maddr_def mwrite_def MAPPER_PAGES_def)

section \<open>The free-frame list\<close>

lemma frame_chain_cong:
  "\<forall>g \<in> set gs. m' g = m g \<Longrightarrow> frame_chain m' f gs = frame_chain m f gs"
  by (induction gs arbitrary: f) auto

lemma frame_chain_distinct: "frame_chain m f gs \<Longrightarrow> distinct gs"
  by (induction gs arbitrary: f) auto

lemma frame_chain_aligned: "frame_chain m f gs \<Longrightarrow> g \<in> set gs \<Longrightarrow> page_of g = g \<and> g \<noteq> 0"
  by (induction gs arbitrary: f) auto

lemma zero_page_other [simp]: "page_of a \<noteq> f \<Longrightarrow> zero_page f m a = m a"
  by (simp add: zero_page_def)

lemma zero_page_same [simp]: "page_of a = f \<Longrightarrow> zero_page f m a = 0"
  by (simp add: zero_page_def)

text \<open>
  A pool of frames handed out one by one: what \<^verbatim>\<open>mmu040_alloc_at\<close>, \<^verbatim>\<open>mmu040_clone_userspace\<close> and
  \<^verbatim>\<open>mmu040_init_userspace\<close> need of \<^verbatim>\<open>_alloc_frame\<close> and \<^verbatim>\<open>_free_frame\<close>.  \<open>credit\<close> is the number of
  frames the pool is willing to hand out, \<open>pool s fs\<close> says that \<open>fs\<close> are the frames it holds.
\<close>

locale frame_pool =
  fixes take :: "'s \<Rightarrow> ('f \<times> 's) option"
    and give :: "'f \<Rightarrow> 's \<Rightarrow> 's option"
    and pool :: "'s \<Rightarrow> 'f list \<Rightarrow> bool"
    and credit :: "'s \<Rightarrow> nat"
    and legal :: "'f \<Rightarrow> bool"
    and nothing :: 'f
  assumes take_first: "pool s (f # fs) \<Longrightarrow> 0 < credit s \<Longrightarrow>
      \<exists>s'. take s = Some (f, s') \<and> pool s' fs \<and> Suc (credit s') = credit s"
    and take_refuses: "credit s = 0 \<Longrightarrow> take s = Some (nothing, s)"
    and give_first: "pool s fs \<Longrightarrow> legal f \<Longrightarrow> f \<notin> set fs \<Longrightarrow>
      \<exists>s'. give f s = Some s' \<and> pool s' (f # fs) \<and> credit s' = credit s"
    and pool_legal: "pool s fs \<Longrightarrow> f \<in> set fs \<Longrightarrow> legal f"
    and pool_distinct: "pool s fs \<Longrightarrow> distinct fs"
begin

fun take_many :: "nat \<Rightarrow> 's \<Rightarrow> ('f list \<times> 's) option" where
  "take_many 0 s = Some ([], s)"
| "take_many (Suc n) s = do { (f, s) \<leftarrow> take s; (fs, s) \<leftarrow> take_many n s; Some (f # fs, s) }"

lemma take_many_prefix:
  "pool s fs \<Longrightarrow> n \<le> length fs \<Longrightarrow> n \<le> credit s \<Longrightarrow>
   \<exists>s'. take_many n s = Some (List.take n fs, s') \<and> pool s' (drop n fs) \<and> credit s' + n = credit s"
proof (induction n arbitrary: s fs)
  case (Suc n)
  then obtain f gs where fs: "fs = f # gs" by (cases fs) auto
  with Suc.prems obtain s1 where s1: "take s = Some (f, s1)" "pool s1 gs" "Suc (credit s1) = credit s"
    using take_first [of s f gs] by auto
  moreover from Suc.IH [OF s1(2)] Suc.prems fs s1(3) obtain s2 where
    "take_many n s1 = Some (List.take n gs, s2)" "pool s2 (drop n gs)" "credit s2 + n = credit s1"
    by auto
  ultimately show ?case using fs by simp
qed simp

definition use_and_return :: "'s \<Rightarrow> 's option" where
  "use_and_return s = do { (f, s) \<leftarrow> take s; give f s }"

lemma use_and_return_once:
  assumes "pool s (f # fs)" "0 < credit s"
  shows "\<exists>s'. use_and_return s = Some s' \<and> pool s' (f # fs) \<and> Suc (credit s') = credit s"
proof -
  from assms obtain s1 where s1: "take s = Some (f, s1)" "pool s1 fs" "Suc (credit s1) = credit s"
    using take_first by blast
  moreover have "legal f" "f \<notin> set fs" using assms(1) pool_legal pool_distinct by fastforce+
  ultimately obtain s2 where "give f s1 = Some s2" "pool s2 (f # fs)" "credit s2 = credit s1"
    using give_first by blast
  with s1 show ?thesis by (simp add: use_and_return_def)
qed

lemma use_and_return_drains:
  "pool s (f # fs) \<Longrightarrow> n \<le> credit s \<Longrightarrow>
   \<exists>s'. ((\<lambda>r. r \<bind> use_and_return) ^^ n) (Some s) = Some s' \<and> pool s' (f # fs) \<and> credit s' + n = credit s"
proof (induction n)
  case (Suc n)
  then obtain s1 where s1: "((\<lambda>r. r \<bind> use_and_return) ^^ n) (Some s) = Some s1" "pool s1 (f # fs)"
    "credit s1 + n = credit s" by auto
  with Suc.prems use_and_return_once [of s1 f fs] obtain s2 where
    "use_and_return s1 = Some s2" "pool s2 (f # fs)" "Suc (credit s2) = credit s1" by auto
  with s1 show ?case by (auto intro!: exI [of _ s2])
qed simp

end

definition frame_pool_inv :: "mmu \<Rightarrow> u32 list \<Rightarrow> bool" where
  "frame_pool_inv s fs \<longleftrightarrow> mapper_ok s \<and> mapping s < MAPPER_PAGES \<and> frame_chain (pmem s) (free_frame s) fs"

lemma alloc_frame_first:
  assumes "frame_pool_inv s (f # fs)" "0 < unat (free_frames s)"
  shows "\<exists>s'. alloc_frame s = Some (f, s') \<and> frame_pool_inv s' fs \<and> Suc (unat (free_frames s')) = unat (free_frames s)"
proof -
  have f: "free_frame s = f" "page_of f = f" and chain: "frame_chain (pmem s) (pmem s f) fs" "f \<notin> set fs"
    and s: "mapper_ok s" "mapping s < MAPPER_PAGES"
    using assms(1) by (auto simp: frame_pool_inv_def)
  have "frame_chain (zero_page f (pmem s)) (pmem s f) fs"
    using chain frame_chain_aligned [OF chain(1)] by (subst frame_chain_cong) (auto simp: zero_page_def)
  moreover have "Suc (unat (free_frames s - 1)) = unat (free_frames s)"
    using assms(2) by (intro unat_pred) auto
  moreover have "free_frames s \<noteq> 0" using assms(2) by auto
  ultimately show ?thesis
    using s f by (simp add: alloc_frame_eq frame_pool_inv_def mapper_ok_def)
qed

lemma free_frame_first:
  assumes "frame_pool_inv s fs" "f \<noteq> 0 \<and> page_of f = f" "f \<notin> set fs"
  shows "\<exists>s'. free_frame_op f s = Some s' \<and> frame_pool_inv s' (f # fs) \<and> unat (free_frames s') = unat (free_frames s)"
proof -
  have s: "mapper_ok s" "mapping s < MAPPER_PAGES" and chain: "frame_chain (pmem s) (free_frame s) fs"
    using assms(1) by (auto simp: frame_pool_inv_def)
  have "frame_chain ((pmem s)(f := free_frame s)) (free_frame s) fs"
    using chain assms(3) by (subst frame_chain_cong) auto
  with s assms show ?thesis by (simp add: free_frame_eq frame_pool_inv_def mapper_ok_def)
qed

interpretation frames: frame_pool alloc_frame free_frame_op frame_pool_inv "\<lambda>s. unat (free_frames s)"
  "\<lambda>f. f \<noteq> 0 \<and> page_of f = f" 0
proof unfold_locales
  show "unat (free_frames s) = 0 \<Longrightarrow> alloc_frame s = Some (0, s)" for s
    by (simp add: alloc_frame_def)
  show "frame_pool_inv s fs \<Longrightarrow> distinct fs" for s fs
    by (auto simp: frame_pool_inv_def dest: frame_chain_distinct)
  show "frame_pool_inv s fs \<Longrightarrow> f \<in> set fs \<Longrightarrow> f \<noteq> 0 \<and> page_of f = f" for s fs f
    by (auto simp: frame_pool_inv_def dest: frame_chain_aligned)
qed (fact alloc_frame_first free_frame_first)+

section \<open>The translation tree\<close>

text \<open>
  Number of entries of a table, whether an entry leads on, and where to, by level: 0 for the root
  table, 1 for pointer tables, 2 for page tables.
\<close>

definition entries_at :: "nat \<Rightarrow> nat" where
  "entries_at l = (if l = 0 then ROOT_LEVEL_DESCRIPTORS else if l = 1 then POINTER_LEVEL_DESCRIPTORS
     else PAGE_DESCRIPTORS)"

definition resident_at :: "nat \<Rightarrow> u32 \<Rightarrow> bool" where
  "resident_at l d = (if l < 2 then UDT_IS_RESIDENT (upper_level_descriptor_type d)
     else PDT_IS_RESIDENT (page_descriptor_type d))"

definition target_at :: "nat \<Rightarrow> u32 \<Rightarrow> u32" where
  "target_at l d = (if l = 0 then ROOT_LEVEL_FIELD_ADDR (root_table_address d)
     else if l = 1 then POINTER_LEVEL_FIELD_ADDR (pointer_table_address d)
     else PAGE_LEVEL_FIELD_ADDR (physical_address d))"

text \<open>
  A path is the list of the indices taken, the last one first.  \<open>table_at\<close> is the address the path
  leads to (a table, or a frame after three steps), \<open>entry_at\<close> the address of its last entry.
\<close>

fun table_at :: "(u32 \<Rightarrow> u32) \<Rightarrow> u32 \<Rightarrow> nat list \<Rightarrow> u32 option" where
  "table_at m R [] = Some R"
| "table_at m R (i # q) =
     (case table_at m R q of None \<Rightarrow> None
      | Some t \<Rightarrow>
          if i < entries_at (length q) \<and> length q < 3 \<and> resident_at (length q) (m (t + 4 * of_nat i))
          then Some (target_at (length q) (m (t + 4 * of_nat i))) else None)"

fun entry_at :: "(u32 \<Rightarrow> u32) \<Rightarrow> u32 \<Rightarrow> nat list \<Rightarrow> u32 option" where
  "entry_at m R [] = None"
| "entry_at m R (i # q) =
     (case table_at m R q of None \<Rightarrow> None
      | Some t \<Rightarrow> if i < entries_at (length q) \<and> length q < 3 then Some (t + 4 * of_nat i) else None)"

text \<open>The address space: what the processor's table search finds for a page.\<close>

definition page_attributes :: "u32 \<Rightarrow> u32 \<times> bool \<times> bool \<times> u32" where
  "page_attributes d = (PAGE_LEVEL_FIELD_ADDR (physical_address d), page_supervisor d = 1,
     write_protected d = 1, cache_mode d)"

definition addr_space :: "(u32 \<Rightarrow> u32) \<Rightarrow> u32 \<Rightarrow> nat list \<Rightarrow> (u32 \<times> bool \<times> bool \<times> u32) option" where
  "addr_space m R q =
     (if length q = 3 \<and> table_at m R q \<noteq> None
      then map_option (page_attributes \<circ> m) (entry_at m R q) else None)"

text \<open>
  The tree is separated: entries reached by different paths are different long words, none of
  them lies in a free frame or in a mapped frame, and no mapped frame is free.
\<close>

definition separated :: "(u32 \<Rightarrow> u32) \<Rightarrow> u32 \<Rightarrow> u32 list \<Rightarrow> bool" where
  "separated m R fs \<longleftrightarrow>
     (\<forall>p q a. entry_at m R p = Some a \<longrightarrow> entry_at m R q = Some a \<longrightarrow> p = q) \<and>
     (\<forall>p a. entry_at m R p = Some a \<longrightarrow> page_of a \<notin> set fs) \<and>
     (\<forall>q f p a. length q = 3 \<longrightarrow> table_at m R q = Some f \<longrightarrow> entry_at m R p = Some a \<longrightarrow> page_of a \<noteq> f) \<and>
     (\<forall>q f. length q = 3 \<longrightarrow> table_at m R q = Some f \<longrightarrow> f \<noteq> 0 \<and> f \<notin> set fs)"

lemma table_at_Cons_iff:
  "table_at m R (i # q) = Some t \<longleftrightarrow>
     (\<exists>a. entry_at m R (i # q) = Some a \<and> resident_at (length q) (m a) \<and> t = target_at (length q) (m a))"
  by (auto split: option.splits)

lemma entry_at_Cons_iff:
  "entry_at m R (i # q) = Some a \<longleftrightarrow>
     (\<exists>t. table_at m R q = Some t \<and> i < entries_at (length q) \<and> length q < 3 \<and> a = t + 4 * of_nat i)"
  by (auto split: option.splits)

lemma separated_inj: "separated m R fs \<Longrightarrow> entry_at m R p = Some a \<Longrightarrow> entry_at m R q = Some a \<Longrightarrow> p = q"
  unfolding separated_def by blast

lemma separated_free: "separated m R fs \<Longrightarrow> entry_at m R p = Some a \<Longrightarrow> page_of a \<notin> set fs"
  unfolding separated_def by blast

lemma separated_frame:
  "separated m R fs \<Longrightarrow> length q = 3 \<Longrightarrow> table_at m R q = Some f \<Longrightarrow> entry_at m R p = Some a \<Longrightarrow> page_of a \<noteq> f"
  unfolding separated_def by blast

lemma separated_mapped:
  "separated m R fs \<Longrightarrow> length q = 3 \<Longrightarrow> table_at m R q = Some f \<Longrightarrow> f \<noteq> 0 \<and> f \<notin> set fs"
  unfolding separated_def by blast

lemma entry_at_ne [simp]: "entry_at m R p = Some a \<Longrightarrow> p \<noteq> []"
  by (cases p) auto

text \<open>Entries take four bytes each, so two entries of one table differ.\<close>

lemma entries_at_le: "entries_at l \<le> 128"
  by (simp add: entries_at_def ROOT_LEVEL_DESCRIPTORS_def POINTER_LEVEL_DESCRIPTORS_def PAGE_DESCRIPTORS_def)

lemma entry_offset: "i < 128 \<Longrightarrow> unat (4 * of_nat i :: u32) = 4 * i"
  using unat_of_nat [of "4 * i", where ?'a = 32] by simp

lemma table_at_cong:
  "(\<And>p a. suffix p q \<Longrightarrow> entry_at m R p = Some a \<Longrightarrow> m' a = m a) \<Longrightarrow> table_at m' R q = table_at m R q"
proof (induction q)
  case (Cons i q)
  have IH: "table_at m' R q = table_at m R q"
    by (rule Cons.IH) (use Cons.prems in \<open>auto simp: suffix_Cons\<close>)
  have "entry_at m R (i # q) = Some a \<Longrightarrow> m' a = m a" for a using Cons.prems by blast
  with IH show ?case by (auto split: option.splits)
qed simp

lemma table_at_beyond: "table_at m R p = None \<or> 3 \<le> length p \<Longrightarrow> u \<noteq> [] \<Longrightarrow> table_at m R (u @ p) = None"
proof (induction u)
  case (Cons i u)
  then show ?case by (cases "u = []") (auto split: option.splits)
qed simp

lemma resident_at_0 [simp]: "\<not> resident_at l 0"
  by (simp add: resident_at_def UDT_IS_RESIDENT_def PDT_IS_RESIDENT_def mmu_constants
      upper_level_descriptor_type_def page_descriptor_type_def bf_get_def)

text \<open>
  Clearing a frame that no entry lies in and then writing an entry that leads to it changes the
  tree at the path of that entry only.
\<close>

lemma table_at_write:
  assumes sep: "separated m R fs" and e: "entry_at m R p = Some a"
    and f: "page_of f = f" "\<And>q b. entry_at m R q = Some b \<Longrightarrow> page_of b \<noteq> f"
    and v: "resident_at (length p - 1) v" "target_at (length p - 1) v = f"
    and fresh: "table_at m R p = None \<or> length p = 3"
  shows "table_at ((zero_page f m)(a := v)) R q = (if q = p then Some f else table_at m R q)"
proof -
  let ?m = "(zero_page f m)(a := v)"
  have same: "table_at ?m R q = table_at m R q" if "\<not> suffix p q" for q
  proof (rule table_at_cong)
    fix p' b assume "suffix p' q" "entry_at m R p' = Some b"
    moreover from this that have "b \<noteq> a" using separated_inj [OF sep] e by blast
    ultimately show "?m b = m b" using f(2) by simp
  qed
  obtain i t where p: "p = i # t" using e by (cases p) auto
  have "table_at ?m R t = table_at m R t"
    by (rule same) (auto simp: p dest: suffix_length_le)
  then have here: "table_at ?m R p = Some f"
    using e v by (auto simp: p entry_at_Cons_iff split: option.splits if_splits)
  show ?thesis
  proof (cases "suffix p q \<and> q \<noteq> p")
    case True
    then obtain u x where q: "q = u @ x # p" by (metis append_Nil rev_exhaust suffix_def append.assoc append_Cons)
    have "x < entries_at (length p) \<Longrightarrow> ?m (f + 4 * of_nat x) = 0"
      using f page_of_offset [OF f(1), of "4 * of_nat x"] entries_at_le [of "length p"] entry_offset [of x] f(2) [OF e]
      by auto
    then have "table_at ?m R (x # p) = None" using here by auto
    then have "table_at ?m R q = None" unfolding q
      by (cases "u = []") (simp_all add: table_at_beyond)
    moreover have "table_at m R q = None"
      using fresh table_at_beyond [of m R p "u @ [x]"] by (auto simp: q)
    ultimately show ?thesis using True by simp
  qed (use here same in auto)
qed

lemma separatedI:
  assumes "\<And>p q a. entry_at m R p = Some a \<Longrightarrow> entry_at m R q = Some a \<Longrightarrow> p = q"
    "\<And>p a. entry_at m R p = Some a \<Longrightarrow> page_of a \<notin> set fs"
    "\<And>q f p a. length q = 3 \<Longrightarrow> table_at m R q = Some f \<Longrightarrow> entry_at m R p = Some a \<Longrightarrow> page_of a \<noteq> f"
    "\<And>q f. length q = 3 \<Longrightarrow> table_at m R q = Some f \<Longrightarrow> f \<noteq> 0 \<and> f \<notin> set fs"
  shows "separated m R fs"
  using assms unfolding separated_def by blast

text \<open>The long words that no allocation may write: outside the free frames and not an entry.\<close>

definition untouched :: "(u32 \<Rightarrow> u32) \<Rightarrow> u32 \<Rightarrow> u32 list \<Rightarrow> u32 \<Rightarrow> bool" where
  "untouched m R fs b \<longleftrightarrow> page_of b \<notin> set fs \<and> (\<forall>p. entry_at m R p \<noteq> Some b)"

text \<open>A new table is hung below an entry that led nowhere: the address space stays as it was.\<close>

lemma entry_at_same_table:
  "table_at m' R (tl q) = table_at m R (tl q) \<Longrightarrow> entry_at m' R q = entry_at m R q"
  by (cases q) auto

lemma entry_page:
  assumes "page_of f = f" "i < entries_at l"
  shows "page_of (f + 4 * of_nat i) = f"
  using page_of_offset [OF assms(1), of "4 * of_nat i"] entries_at_le [of l] entry_offset [of i] assms(2) by simp

lemma entry_offset_inj:
  assumes "f + 4 * of_nat i = f + (4 * of_nat j :: u32)" "i < entries_at l" "j < entries_at l"
  shows "i = j"
proof -
  have "i < 128" "j < 128" using assms(2,3) entries_at_le [of l] by linarith+
  moreover have "unat (4 * of_nat i :: u32) = unat (4 * of_nat j :: u32)" using assms(1) by (simp only: add_left_cancel)
  ultimately show ?thesis by (simp only: entry_offset mult_left_cancel)
qed

lemma grow_table:
  assumes sep: "separated m R (f # fs)" and e: "entry_at m R p = Some a"
    and f: "page_of f = f" "f \<notin> set fs"
    and v: "resident_at (length p - 1) v" "target_at (length p - 1) v = f"
    and new: "table_at m R p = None" "length p < 3"
  defines "m' \<equiv> (zero_page f m)(a := v)"
  shows "separated m' R fs" "addr_space m' R = addr_space m R" "table_at m' R p = Some f"
    "untouched m R (f # fs) b \<Longrightarrow> untouched m' R fs b \<and> m' b = m b"
    "q \<noteq> p \<Longrightarrow> table_at m' R q = table_at m R q"
    "entry_at m' R q = Some b \<Longrightarrow> entry_at m R q = Some b \<or> page_of b = f"
proof -
  have nof: "entry_at m R q = Some b \<Longrightarrow> page_of b \<noteq> f" for q b
    using separated_free [OF sep] by force
  have T: "table_at m' R q = (if q = p then Some f else table_at m R q)" for q
    unfolding m'_def by (rule table_at_write [OF sep e f(1) _ v]) (use nof new in auto)
  then show "table_at m' R p = Some f" "q \<noteq> p \<Longrightarrow> table_at m' R q = table_at m R q" by simp_all
  have E: "entry_at m' R q = Some b \<longleftrightarrow> entry_at m R q = Some b \<or>
     (\<exists>i. q = i # p \<and> i < entries_at (length p) \<and> b = f + 4 * of_nat i)" for q b
    using new T by (cases q) (auto split: option.splits)
  have new_in_f: "i < entries_at (length p) \<Longrightarrow> page_of (f + 4 * of_nat i) = f" for i
    using entry_page f(1) by blast
  then show "entry_at m' R q = Some b \<Longrightarrow> entry_at m R q = Some b \<or> page_of b = f"
    unfolding E by blast
  show "untouched m R (f # fs) b \<Longrightarrow> untouched m' R fs b \<and> m' b = m b"
    using e new_in_f unfolding untouched_def E by (auto simp: m'_def)
  show "separated m' R fs"
  proof (rule separatedI)
    fix p q b assume "entry_at m' R p = Some b" "entry_at m' R q = Some b"
    then show "p = q" unfolding E
      using separated_inj [OF sep] nof new_in_f entry_offset_inj by metis
  next
    fix q b assume "entry_at m' R q = Some b"
    then show "page_of b \<notin> set fs" unfolding E
      using separated_free [OF sep] new_in_f f(2) by auto
  next
    fix q g q' b assume q: "length q = 3" "table_at m' R q = Some g" and "entry_at m' R q' = Some b"
    moreover from q new have g: "table_at m R q = Some g" by (auto simp: T split: if_splits)
    ultimately show "page_of b \<noteq> g" unfolding E
      using separated_frame [OF sep q(1) g] separated_mapped [OF sep q(1) g] new_in_f by auto
  next
    fix q g assume "length q = 3" "table_at m' R q = Some g"
    then show "g \<noteq> 0 \<and> g \<notin> set fs" using new separated_mapped [OF sep, of q g] by (auto simp: T split: if_splits)
  qed
  show "addr_space m' R = addr_space m R"
  proof
    fix q show "addr_space m' R q = addr_space m R q"
    proof (cases "length q = 3 \<and> table_at m R q \<noteq> None")
      case True
      then obtain b where b: "entry_at m R q = Some b" by (cases q) (auto split: option.splits if_splits)
      with True new e have "b \<noteq> a" using separated_inj [OF sep e, of q] by force
      then have "m' b = m b" using nof [OF b] by (simp add: m'_def)
      with True b new show ?thesis using T [of q] E [of q b] by (auto simp: addr_space_def)
    qed (use T new in \<open>auto simp: addr_space_def\<close>)
  qed
qed

text \<open>An entry of a page table is set to a cleared frame: one page of the address space changes.\<close>

lemma install_frame:
  assumes sep: "separated m R fs" and e: "entry_at m R p = Some a" and p: "length p = 3"
    and f: "page_of f = f" "f \<notin> set fs" "f \<noteq> 0" "\<forall>q b. entry_at m R q = Some b \<longrightarrow> page_of b \<noteq> f"
    and v: "resident_at 2 v" "target_at 2 v = f"
  defines "m' \<equiv> (zero_page f m)(a := v)"
  shows "separated m' R fs" "addr_space m' R = (addr_space m R)(p \<mapsto> page_attributes v)"
    "untouched m R fs b \<Longrightarrow> page_of b \<noteq> f \<Longrightarrow> m' b = m b"
    "table_at m' R q = (if q = p then Some f else table_at m R q)" "entry_at m' R q = entry_at m R q"
proof -
  have T: "table_at m' R q = (if q = p then Some f else table_at m R q)" for q
    unfolding m'_def by (rule table_at_write [OF sep e f(1)]) (use f(4) p v in auto)
  have E: "entry_at m' R q = entry_at m R q" for q
  proof (cases "tl q = p")
    case True with p show ?thesis by (cases q) (auto split: option.splits)
  qed (rule entry_at_same_table, simp add: T)
  show "table_at m' R q = (if q = p then Some f else table_at m R q)" "entry_at m' R q = entry_at m R q"
    by (fact T E)+
  show "untouched m R fs b \<Longrightarrow> page_of b \<noteq> f \<Longrightarrow> m' b = m b"
    using e by (auto simp: untouched_def m'_def)
  show "separated m' R fs"
    by (rule separatedI, unfold E)
      (use f in \<open>auto simp: T split: if_splits dest: separated_inj [OF sep] separated_free [OF sep]
         separated_frame [OF sep] separated_mapped [OF sep]\<close>)
  show "addr_space m' R = (addr_space m R)(p \<mapsto> page_attributes v)"
  proof
    fix q
    show "addr_space m' R q = ((addr_space m R)(p \<mapsto> page_attributes v)) q"
    proof (cases "entry_at m R q")
      case (Some b)
      show ?thesis
      proof (cases "q = p")
        case True
        then show ?thesis using e p T [of p] E [of p] by (simp add: addr_space_def m'_def)
      next
        case False
        then have "b \<noteq> a" using Some separated_inj [OF sep e, of q] by blast
        then have "m' b = m b" using f(4) Some by (simp add: m'_def)
        with False Some show ?thesis using T [of q] E [of q] by (simp add: addr_space_def)
      qed
    next
      case None
      with e have "q \<noteq> p" by auto
      with None show ?thesis using T [of q] E [of q] by (simp add: addr_space_def)
    qed
  qed
qed

section \<open>Tables seen through the mapper\<close>

text \<open>
  \<open>points s p t\<close>: the mapped pointer \<open>p\<close> denotes physical address \<open>t\<close>.  \<open>above s s'\<close>: from \<open>s\<close> to \<open>s'\<close>
  the mappings that were in place have stayed.
\<close>

definition points :: "mmu \<Rightarrow> mptr \<Rightarrow> u32 \<Rightarrow> bool" where
  "points s p t \<longleftrightarrow> fst p < mapping s \<and> maddr s p = t"

definition above :: "mmu \<Rightarrow> mmu \<Rightarrow> bool" where
  "above s s' \<longleftrightarrow> mapper_ok s' \<and> mapping s \<le> mapping s' \<and>
     (\<forall>i < mapping s. page_descriptor s' ! i = page_descriptor s ! i) \<and>
     srp s' = srp s \<and> urp s' = urp s \<and> total_frames s' = total_frames s"

lemma points_above: "points s p t \<Longrightarrow> above s s' \<Longrightarrow> points s' p t"
  by (auto simp: points_def above_def maddr_def)

lemma above_trans: "above s s' \<Longrightarrow> above s' s'' \<Longrightarrow> above s s''"
  by (auto simp: above_def)

lemma mread_points: "points s p t \<Longrightarrow> mread s p j = pmem s (t + 4 * of_nat j)"
  by (simp add: points_def mread_def)

lemma mwrite_points: "points s p t \<Longrightarrow> mwrite s p j v = s\<lparr>pmem := (pmem s)(t + 4 * of_nat j := v)\<rparr>"
  by (simp add: points_def mwrite_def)

lemma points_pmem [simp]: "points (s\<lparr>pmem := m\<rparr>) p t = points s p t"
  by (simp add: points_def maddr_def)

lemma mapper_ok_pmem [simp]: "mapper_ok (s\<lparr>pmem := m\<rparr>) = mapper_ok s"
  by (simp add: mapper_ok_def)

lemma above_pmem [simp]: "above s (s'\<lparr>pmem := m\<rparr>) = above s s'"
  by (simp add: above_def)

lemma push_points:
  assumes "mapper_ok s" "mapping s < MAPPER_PAGES"
  shows "\<exists>s'. mapping_push ph s = Some (mapping s, s') \<and> points s' (REPAGE ph (mapping s)) ph \<and>
    points s' (mapping s, 0) (page_of ph) \<and> above s s' \<and> mapping s' = Suc (mapping s) \<and>
    pmem s' = pmem s \<and> free_frames s' = free_frames s \<and> free_frame s' = free_frame s"
  using assms
  by (simp add: mapping_push_eq points_def REPAGE_def maddr_def mapper_ok_def page_plus_offset above_def)

lemma pool_frame_points:
  assumes "frame_pool_inv s (f # fs)" "free_frames s \<noteq> 0"
  shows "\<exists>s'. alloc_frame s = Some (f, s') \<and> frame_pool_inv s' fs \<and> pmem s' = zero_page f (pmem s) \<and>
    above s s' \<and> mapping s' = mapping s \<and> free_frames s' = free_frames s - 1"
proof -
  from assms have eq: "alloc_frame s = Some (f, s\<lparr>free_frames := free_frames s - 1, free_frame := pmem s f,
         pmem := zero_page f (pmem s), page_descriptor := (page_descriptor s)[mapping s := mdesc f]\<rparr>)"
    by (auto simp: frame_pool_inv_def alloc_frame_eq)
  moreover have "unat (free_frames s) > 0" using assms(2) by (simp add: unat_gt_0)
  from alloc_frame_first [OF assms(1) this] eq
  have "frame_pool_inv (s\<lparr>free_frames := free_frames s - 1, free_frame := pmem s f,
         pmem := zero_page f (pmem s), page_descriptor := (page_descriptor s)[mapping s := mdesc f]\<rparr>) fs"
    by auto
  ultimately show ?thesis using assms(1) by (auto simp: frame_pool_inv_def above_def mapper_ok_def)
qed

lemma chain_push:
  assumes "frame_chain (pmem s) (free_frame s) fs" "page_of a \<notin> set fs"
  shows "frame_chain ((pmem s)(a := v)) (free_frame s) fs"
  using assms frame_chain_aligned [OF assms(1)] by (subst frame_chain_cong) auto

text \<open>The two intermediate levels treat their tables alike.\<close>

definition set_target_at :: "nat \<Rightarrow> u32 \<Rightarrow> u32 \<Rightarrow> u32" where
  "set_target_at l d f = set_upper_level_descriptor_type
     (if l = 0 then set_root_table_address d (ROOT_LEVEL_ADDR_FIELD f)
      else set_pointer_table_address d (POINTER_LEVEL_ADDR_FIELD f))
     MMU040_UPPER_LEVEL_DESCRIPTOR_TYPE_RESIDENT"

lemma set_target_resident [simp]: "l < 2 \<Longrightarrow> resident_at l (set_target_at l d f)"
  by (simp add: resident_at_def set_target_at_def UDT_IS_RESIDENT_def upper_level_descriptor_type_def
      set_upper_level_descriptor_type_def mmu_constants take_bit_eq_mask mask_eq_exp_minus_1)

lemma pointer_field_addr:
  "page_of f = f \<Longrightarrow>
   POINTER_LEVEL_FIELD_ADDR (pointer_table_address (set_pointer_table_address w (POINTER_LEVEL_ADDR_FIELD f))) = f"
  by (rule bit_eqI)
    (subst (asm) bit_eq_iff, auto simp: mmu_field_defs bit_page_of bit_push_bit_iff bit_take_bit_iff
      bit_drop_bit_eq dest: bit_imp_le_length)

lemma set_target_target [simp]:
  assumes "l < 2" "page_of f = f"
  shows "target_at l (set_target_at l d f) = f"
proof -
  have "root_table_address (set_upper_level_descriptor_type w x) = root_table_address w"
    "pointer_table_address (set_upper_level_descriptor_type w x) = pointer_table_address w" for w x
    by (simp_all add: root_table_address_def pointer_table_address_def set_upper_level_descriptor_type_def)
  then show ?thesis using assms root_field_addr [OF assms(2)] pointer_field_addr [OF assms(2)]
    by (simp add: target_at_def set_target_at_def)
qed

definition descend_at :: "nat \<Rightarrow> mptr \<Rightarrow> nat \<Rightarrow> mmu \<Rightarrow> (mptr \<times> mmu) option" where
  "descend_at l tbl i s =
     (if resident_at l (mread s tbl i)
      then do { let ph = target_at l (mread s tbl i); (slot, s) \<leftarrow> mapping_push ph s; Some (REPAGE ph slot, s) }
      else do {
        (ph, s) \<leftarrow> alloc_frame s;
        (slot, s) \<leftarrow> mapping_push ph s;
        let s = mwrite s tbl i (set_target_at l (mread s tbl i) ph);
        Some ((slot, 0), s) })"

lemma mread_mwrite_same: "mread (mwrite s p i v) p i = v"
  by (simp add: mread_def mwrite_def maddr_def)

lemma mwrite_mwrite_same: "mwrite (mwrite s p i v) p i w = mwrite s p i w"
  by (simp add: mwrite_def maddr_def)

lemma descend_root_at: "descend_root tbl i s = descend_at 0 tbl i s"
  by (simp add: descend_root_def descend_at_def resident_at_def target_at_def set_target_at_def Let_def
      mread_mwrite_same mwrite_mwrite_same)

lemma descend_pointer_at: "descend_pointer tbl i s = descend_at 1 tbl i s"
  by (simp add: descend_pointer_def descend_at_def resident_at_def target_at_def set_target_at_def Let_def
      mread_mwrite_same mwrite_mwrite_same)

text \<open>The invariant of the memory manager: a sound free list next to a separated tree.\<close>

definition vm_inv :: "mmu \<Rightarrow> u32 \<Rightarrow> u32 list \<Rightarrow> bool" where
  "vm_inv s R fs \<longleftrightarrow> frame_pool_inv s fs \<and> separated (pmem s) R fs"

lemma frame_pool_inv_update:
  assumes "frame_pool_inv s fs" "above s s'" "pmem s' = pmem s" "free_frame s' = free_frame s"
    "mapping s' < MAPPER_PAGES"
  shows "frame_pool_inv s' fs"
  using assms by (simp add: frame_pool_inv_def above_def)

lemma frame_pool_inv_write:
  assumes "frame_pool_inv s fs" "page_of a \<notin> set fs"
  shows "frame_pool_inv (s\<lparr>pmem := (pmem s)(a := v)\<rparr>) fs"
  using assms chain_push [of s fs a v] by (simp add: frame_pool_inv_def)

text \<open>What is spent: at most \<open>n\<close> frames from the front of the free list, each one counted.\<close>

definition spends :: "nat \<Rightarrow> mmu \<Rightarrow> u32 list \<Rightarrow> mmu \<Rightarrow> u32 list \<Rightarrow> bool" where
  "spends n s fs s' fs' \<longleftrightarrow> (\<exists>us. fs = us @ fs' \<and> length us \<le> n) \<and>
     unat (free_frames s) \<le> unat (free_frames s') + n"

lemma spends_trans: "spends n s fs s' fs' \<Longrightarrow> spends n' s' fs' s'' fs'' \<Longrightarrow> spends (n + n') s fs s'' fs''"
  by (force simp: spends_def)

lemma descend_at_finds:
  assumes inv: "vm_inv s R fs" and room: "Suc (mapping s) < MAPPER_PAGES"
    and t: "points s tbl t" "table_at (pmem s) R q = Some t"
    and i: "length q < 2" "i < entries_at (length q)"
    and res: "resident_at (length q) (pmem s (t + 4 * of_nat i))"
  shows "\<exists>p s' u. descend_at (length q) tbl i s = Some (p, s') \<and> points s' p u \<and>
    table_at (pmem s') R (i # q) = Some u \<and> vm_inv s' R fs \<and> above s s' \<and> mapping s' = Suc (mapping s) \<and>
    pmem s' = pmem s \<and> spends 1 s fs s' fs"
proof -
  from inv have s: "mapper_ok s" "mapping s < MAPPER_PAGES" "frame_pool_inv s fs"
    by (auto simp: vm_inv_def frame_pool_inv_def)
  let ?ph = "target_at (length q) (pmem s (t + 4 * of_nat i))"
  from push_points [OF s(1,2), of ?ph] obtain s' where s': "mapping_push ?ph s = Some (mapping s, s')"
    "points s' (REPAGE ?ph (mapping s)) ?ph" "above s s'" "mapping s' = Suc (mapping s)" "pmem s' = pmem s"
    "free_frames s' = free_frames s" "free_frame s' = free_frame s" by blast
  then have "vm_inv s' R fs" using inv room frame_pool_inv_update [OF s(3) s'(3,5,7)] by (simp add: vm_inv_def)
  with s' t i res show ?thesis
    by (auto simp: descend_at_def mread_points [OF t(1)] Let_def spends_def)
qed

lemma descend_at_grows:
  assumes inv: "vm_inv s R (f # fs)" and room: "Suc (mapping s) < MAPPER_PAGES"
    and t: "points s tbl t" "table_at (pmem s) R q = Some t"
    and i: "length q < 2" "i < entries_at (length q)"
    and res: "\<not> resident_at (length q) (pmem s (t + 4 * of_nat i))" and credit: "free_frames s \<noteq> 0"
  shows "\<exists>p s'. descend_at (length q) tbl i s = Some (p, s') \<and> points s' p f \<and>
    table_at (pmem s') R (i # q) = Some f \<and> vm_inv s' R fs \<and> above s s' \<and> mapping s' = Suc (mapping s) \<and>
    addr_space (pmem s') R = addr_space (pmem s) R \<and> spends 1 s (f # fs) s' fs \<and>
    (\<forall>b. untouched (pmem s) R (f # fs) b \<longrightarrow> untouched (pmem s') R fs b \<and> pmem s' b = pmem s b)"
proof -
  let ?a = "t + 4 * of_nat i"
  from inv have s: "frame_pool_inv s (f # fs)" and sep: "separated (pmem s) R (f # fs)" by (auto simp: vm_inv_def)
  then have f: "page_of f = f" "f \<notin> set fs" by (auto simp: frame_pool_inv_def)
  from t i have e: "entry_at (pmem s) R (i # q) = Some ?a" by simp
  then have a: "page_of ?a \<notin> set (f # fs)" using separated_free [OF sep] by blast
  from pool_frame_points [OF s credit] obtain s1 where s1: "alloc_frame s = Some (f, s1)" "frame_pool_inv s1 fs"
    "pmem s1 = zero_page f (pmem s)" "above s s1" "mapping s1 = mapping s" "free_frames s1 = free_frames s - 1" by blast
  from s1(2) have "mapper_ok s1" "mapping s1 < MAPPER_PAGES" by (auto simp: frame_pool_inv_def)
  from push_points [OF this, of f] f obtain s2 where s2: "mapping_push f s1 = Some (mapping s, s2)"
    "points s2 (mapping s, 0) f" "above s1 s2" "mapping s2 = Suc (mapping s)" "pmem s2 = pmem s1"
    "free_frames s2 = free_frames s1" "free_frame s2 = free_frame s1" using s1(5) by metis
  let ?v = "set_target_at (length q) (pmem s ?a) f"
  let ?s = "s2\<lparr>pmem := (pmem s2)(?a := ?v)\<rparr>"
  have ab: "above s s2" using above_trans s1(4) s2(3) by blast
  then have tbl: "points s2 tbl t" using points_above t(1) by blast
  have run: "descend_at (length q) tbl i s = Some ((mapping s, 0), ?s)"
    using res s1 s2 a by (simp add: descend_at_def mread_points [OF t(1)] mread_points [OF tbl] mwrite_points [OF tbl] Let_def)
  have none: "table_at (pmem s) R (i # q) = None" using res t by simp
  have v: "resident_at (length (i # q) - 1) ?v" "target_at (length (i # q) - 1) ?v = f" using i f by simp_all
  have m: "pmem ?s = (zero_page f (pmem s))(?a := ?v)" using s1 s2 by simp
  note grown = grow_table [OF sep e f v none, folded m]
  have "frame_pool_inv ?s fs"
    using frame_pool_inv_write [OF frame_pool_inv_update [OF s1(2) s2(3,5,7)]] room s2 a by simp
  moreover have "spends 1 s (f # fs) ?s fs"
    using unat_pred [OF credit] s1 s2 by (simp add: spends_def)
  moreover have "points ?s (mapping s, 0) f" "above s ?s" "mapping ?s = Suc (mapping s)"
    using s2 ab by simp_all
  moreover have "separated (pmem ?s) R fs" "table_at (pmem ?s) R (i # q) = Some f"
    "addr_space (pmem ?s) R = addr_space (pmem s) R"
    "\<forall>b. untouched (pmem s) R (f # fs) b \<longrightarrow> untouched (pmem ?s) R fs b \<and> pmem ?s b = pmem s b"
    using grown i by simp_all
  ultimately show ?thesis using run unfolding vm_inv_def by blast
qed

lemma descend_at_ok:
  assumes inv: "vm_inv s R fs" and room: "Suc (mapping s) < MAPPER_PAGES"
    and t: "points s tbl t" "table_at (pmem s) R q = Some t"
    and i: "length q < 2" "i < entries_at (length q)"
    and some: "fs \<noteq> []" "free_frames s \<noteq> 0"
  shows "\<exists>p s' u fs'. descend_at (length q) tbl i s = Some (p, s') \<and> points s' p u \<and>
    table_at (pmem s') R (i # q) = Some u \<and> vm_inv s' R fs' \<and> above s s' \<and> mapping s' = Suc (mapping s) \<and>
    addr_space (pmem s') R = addr_space (pmem s) R \<and> spends 1 s fs s' fs' \<and>
    (\<forall>b. untouched (pmem s) R fs b \<longrightarrow> untouched (pmem s') R fs' b \<and> pmem s' b = pmem s b)"
proof (cases "resident_at (length q) (pmem s (t + 4 * of_nat i))")
  case True
  from descend_at_finds [OF inv room t i True] show ?thesis by metis
next
  case False
  from some(1) obtain f gs where fs: "fs = f # gs" by (cases fs) auto
  from descend_at_grows [OF inv [unfolded fs] room t i False some(2)] show ?thesis unfolding fs by blast
qed

section \<open>Installing a page\<close>

definition page_desc :: "u32 \<Rightarrow> u32 \<Rightarrow> bool \<Rightarrow> bool \<Rightarrow> u32" where
  "page_desc d f supervisor wp =
     set_page_descriptor_type (set_write_protected (set_cache_mode (set_page_supervisor
       (set_physical_address d (PAGE_LEVEL_ADDR_FIELD f)) supervisor)
       MMU040_CACHE_MODE_CACHE_COPY_BACK) wp) MMU040_PAGE_DESCRIPTOR_TYPE_RESIDENT"

lemma one_bit_of_bool: "take_bit 1 (of_bool b :: u32) = of_bool b"
  by (cases b) simp_all

lemma page_desc_attributes:
  assumes "page_of f = f"
  shows "page_attributes (page_desc d f supervisor wp) =
    (f, supervisor, wp, MMU040_CACHE_MODE_CACHE_COPY_BACK)"
    "resident_at 2 (page_desc d f supervisor wp)" "target_at 2 (page_desc d f supervisor wp) = f"
proof -
  have pa: "physical_address (page_desc d f supervisor wp) =
      physical_address (set_physical_address d (PAGE_LEVEL_ADDR_FIELD f))"
    by (simp add: page_desc_def physical_address_def set_page_descriptor_type_def set_write_protected_def
        set_cache_mode_def set_page_supervisor_def)
  then show "target_at 2 (page_desc d f supervisor wp) = f"
    using page_field_addr [of d f] assms by (simp add: target_at_def)
  show "page_attributes (page_desc d f supervisor wp) =
    (f, supervisor, wp, MMU040_CACHE_MODE_CACHE_COPY_BACK)"
    using page_field_addr [of d f] assms
    by (simp add: page_attributes_def pa)
      (simp add: page_desc_def page_supervisor_def write_protected_def cache_mode_def one_bit_of_bool
        set_page_descriptor_type_def set_write_protected_def set_cache_mode_def set_page_supervisor_def
        mmu_constants take_bit_eq_mask mask_eq_exp_minus_1)
  show "resident_at 2 (page_desc d f supervisor wp)"
    by (simp add: resident_at_def page_desc_def page_descriptor_type_def set_page_descriptor_type_def
        PDT_IS_RESIDENT_def mmu_constants take_bit_eq_mask mask_eq_exp_minus_1)
qed

text \<open>The stores that \<open>install_page\<close> makes to the entry amount to one.\<close>

lemma install_page_eq:
  "install_page pt k supervisor wp s = do {
     s \<leftarrow> (if PDT_IS_RESIDENT (page_descriptor_type (mread s pt k))
          then do {
            let d = set_write_protected (mread s pt k) wp;
            free_frame_op (PAGE_LEVEL_FIELD_ADDR (physical_address d)) (mwrite s pt k d) }
          else Some s);
     (f, s) \<leftarrow> alloc_frame s;
     Some (f, mwrite s pt k (page_desc (mread s pt k) f supervisor wp)) }"
  by (simp add: install_page_def mread_mwrite_same mwrite_mwrite_same Let_def page_desc_def)

definition page_installed :: "mmu \<Rightarrow> u32 \<Rightarrow> u32 list \<Rightarrow> nat list \<Rightarrow> bool \<Rightarrow> bool \<Rightarrow> u32 \<Rightarrow> mmu \<Rightarrow> u32 list \<Rightarrow> bool" where
  "page_installed s R fs q supervisor wp f s' fs' \<longleftrightarrow>
     vm_inv s' R fs' \<and> above s s' \<and> mapping s' = mapping s \<and> spends 1 s fs s' fs' \<and>
     addr_space (pmem s') R = (addr_space (pmem s) R)(q \<mapsto> (f, supervisor, wp, MMU040_CACHE_MODE_CACHE_COPY_BACK)) \<and>
     (\<forall>b. page_of b = f \<longrightarrow> pmem s' b = 0) \<and>
     (\<forall>b. untouched (pmem s) R fs b \<longrightarrow> page_of b \<noteq> f \<longrightarrow> pmem s' b = pmem s b)"

lemma page_installedI:
  assumes sep: "separated (pmem s) R fs'" and e: "entry_at (pmem s) R q = Some a" "length q = 3"
    and f: "page_of f = f" "f \<notin> set fs'" "f \<noteq> 0" "\<forall>q b. entry_at (pmem s) R q = Some b \<longrightarrow> page_of b \<noteq> f"
    and s': "frame_pool_inv s' fs'" "above s s'" "mapping s' = mapping s" "spends 1 s fs s' fs'"
    and m: "pmem s' = (zero_page f (pmem s))(a := page_desc d f supervisor wp)"
    and sub: "set fs' \<subseteq> set fs"
  shows "page_installed s R fs q supervisor wp f s' fs'"
proof -
  note attr = page_desc_attributes [OF f(1), of d supervisor wp]
  note i = install_frame [OF sep e f attr(2,3), folded m]
  have "page_of b = f \<Longrightarrow> pmem s' b = 0" for b using f(4) e(1) by (auto simp: m)
  moreover have "untouched (pmem s) R fs b \<Longrightarrow> page_of b \<noteq> f \<Longrightarrow> pmem s' b = pmem s b" for b
    using i(3) sub by (auto simp: untouched_def)
  ultimately show ?thesis using i(1,2) attr(1) s' by (simp add: page_installed_def vm_inv_def)
qed

lemma install_page_fresh:
  assumes inv: "vm_inv s R (f # fs)" and t: "points s pt t" "table_at (pmem s) R q = Some t" "length q = 2"
    and k: "k < PAGE_DESCRIPTORS" and new: "\<not> resident_at 2 (pmem s (t + 4 * of_nat k))"
    and credit: "free_frames s \<noteq> 0"
  shows "\<exists>s'. install_page pt k supervisor wp s = Some (f, s') \<and>
    page_installed s R (f # fs) (k # q) supervisor wp f s' fs"
proof -
  let ?a = "t + 4 * of_nat k"
  from inv have s: "frame_pool_inv s (f # fs)" and sep: "separated (pmem s) R (f # fs)" by (auto simp: vm_inv_def)
  from s have f: "page_of f = f" "f \<notin> set fs" "f \<noteq> 0" by (auto simp: frame_pool_inv_def)
  have e: "entry_at (pmem s) R (k # q) = Some ?a" using t k by (simp add: entries_at_def)
  have nof: "\<forall>p b. entry_at (pmem s) R p = Some b \<longrightarrow> page_of b \<noteq> f" using separated_free [OF sep] by force
  have a: "page_of ?a \<notin> set (f # fs)" using separated_free [OF sep e] .
  have sep': "separated (pmem s) R fs"
    using sep unfolding separated_def by simp
  from pool_frame_points [OF s credit] obtain s1 where s1: "alloc_frame s = Some (f, s1)" "frame_pool_inv s1 fs"
    "pmem s1 = zero_page f (pmem s)" "above s s1" "mapping s1 = mapping s" "free_frames s1 = free_frames s - 1" by blast
  note pt = points_above [OF t(1) s1(4)]
  let ?s = "s1\<lparr>pmem := (pmem s1)(?a := page_desc (pmem s ?a) f supervisor wp)\<rparr>"
  have "install_page pt k supervisor wp s = Some (f, ?s)"
    using new s1 a by (simp add: install_page_eq mread_points [OF t(1)] mread_points [OF pt] mwrite_points [OF pt]
        resident_at_def)
  moreover have "page_installed s R (f # fs) (k # q) supervisor wp f ?s fs"
  proof (rule page_installedI [OF sep' e _ f nof])
    show "frame_pool_inv ?s fs" using frame_pool_inv_write [OF s1(2)] a by simp
    show "spends 1 s (f # fs) ?s fs" using unat_pred [OF credit] s1 by (simp add: spends_def)
  qed (use s1 t in auto)
  ultimately show ?thesis by blast
qed

text \<open>
  A page that is already mapped gives its frame back and, the free list being a stack, gets the
  same frame again, cleared.
\<close>

lemma write_protected_keeps_frame [simp]:
  "physical_address (set_write_protected d wp) = physical_address d"
  by (simp add: physical_address_def set_write_protected_def)

lemma target_2_aligned [simp]: "page_of (target_at 2 d) = target_at 2 d"
  by (rule bit_eqI) (auto simp: target_at_def bit_page_of PAGE_LEVEL_FIELD_ADDR_def bit_push_bit_iff)

lemma install_page_replace:
  assumes inv: "vm_inv s R fs" and t: "points s pt t" "table_at (pmem s) R q = Some t" "length q = 2"
    and k: "k < PAGE_DESCRIPTORS" and old: "resident_at 2 (pmem s (t + 4 * of_nat k))"
    and credit: "free_frames s \<noteq> 0"
  shows "\<exists>f s'. install_page pt k supervisor wp s = Some (f, s') \<and>
    page_installed s R fs (k # q) supervisor wp f s' fs \<and> table_at (pmem s) R (k # q) = Some f"
proof -
  let ?a = "t + 4 * of_nat k"
  let ?f = "target_at 2 (pmem s ?a)"
  let ?d = "set_write_protected (pmem s ?a) wp"
  let ?m = "(pmem s)(?a := ?d)"
  from inv have s: "frame_pool_inv s fs" and sep: "separated (pmem s) R fs" by (auto simp: vm_inv_def)
  have e: "entry_at (pmem s) R (k # q) = Some ?a" using t k by (simp add: entries_at_def)
  have T: "table_at (pmem s) R (k # q) = Some ?f" using t k old by (simp add: entries_at_def)
  then have f: "?f \<noteq> 0" "?f \<notin> set fs" "\<forall>p b. entry_at (pmem s) R p = Some b \<longrightarrow> page_of b \<noteq> ?f"
    using separated_mapped [OF sep _ T] separated_frame [OF sep _ T] t(3) by auto
  have a: "page_of ?a \<notin> set fs" using separated_free [OF sep e] .
  let ?s1 = "s\<lparr>pmem := ?m\<rparr>"
  have p1: "frame_pool_inv ?s1 fs" using frame_pool_inv_write [OF s a] .
  then have ok: "mapper_ok ?s1" "mapping ?s1 < MAPPER_PAGES" by (auto simp: frame_pool_inv_def)
  from free_frame_first [OF p1, of ?f] f free_frame_eq [OF ok, of ?f] obtain s2 where
    s2: "free_frame_op ?f ?s1 = Some s2" "frame_pool_inv s2 (?f # fs)" by auto
  then have s2': "above s s2" "mapping s2 = mapping s" "pmem s2 = ?m(?f := free_frame s)" "free_frames s2 = free_frames s"
    using free_frame_eq [OF ok, of ?f] ok by (auto simp: above_def mapper_ok_def)
  from pool_frame_points [OF s2(2)] s2'(4) credit obtain s3 where
    s3: "alloc_frame s2 = Some (?f, s3)" "frame_pool_inv s3 fs" "pmem s3 = zero_page ?f (pmem s2)"
    "above s2 s3" "mapping s3 = mapping s" "free_frames s3 = free_frames s - 1" using s2'(2) by auto
  have ab: "above s s3" using above_trans s2'(1) s3(4) by blast
  note pt = points_above [OF t(1) ab]
  let ?s = "s3\<lparr>pmem := (pmem s3)(?a := page_desc ?d ?f supervisor wp)\<rparr>"
  have af: "page_of ?a \<noteq> ?f" "?a \<noteq> ?f" using f(3) e target_2_aligned by metis+
  have m: "pmem s3 = (zero_page ?f (pmem s))(?a := ?d)"
    using s3(3) s2'(3) af by (auto simp: zero_page_def fun_eq_iff)
  have "install_page pt k supervisor wp s = Some (?f, ?s)"
    using old s2(1) s3(1) m by (simp add: install_page_eq mread_points [OF t(1)] mread_points [OF pt]
        mwrite_points [OF t(1)] mwrite_points [OF pt] resident_at_def target_at_def)
  moreover have "page_installed s R fs (k # q) supervisor wp ?f ?s fs"
  proof (rule page_installedI [OF sep e _ target_2_aligned f(2,1,3)])
    show "frame_pool_inv ?s fs" using frame_pool_inv_write [OF s3(2) a] .
    show "spends 1 s fs ?s fs" using unat_pred [OF credit] s3(6) by (simp add: spends_def)
    show "pmem ?s = (zero_page ?f (pmem s))(?a := page_desc ?d ?f supervisor wp)" by (simp add: m)
  qed (use ab s3 t in auto)
  ultimately show ?thesis using T by blast
qed

lemma install_page_ok:
  assumes inv: "vm_inv s R fs" and t: "points s pt t" "table_at (pmem s) R q = Some t" "length q = 2"
    and k: "k < PAGE_DESCRIPTORS" and some: "fs \<noteq> []" "free_frames s \<noteq> 0"
  shows "\<exists>f s' fs'. install_page pt k supervisor wp s = Some (f, s') \<and>
    page_installed s R fs (k # q) supervisor wp f s' fs' \<and>
    (f \<in> set fs \<or> table_at (pmem s) R (k # q) = Some f)"
proof (cases "resident_at 2 (pmem s (t + 4 * of_nat k))")
  case True
  from install_page_replace [OF inv t k True some(2)] show ?thesis by blast
next
  case False
  from some(1) obtain f gs where fs: "fs = f # gs" by (cases fs) auto
  from install_page_fresh [OF inv [unfolded fs] t k False some(2)] show ?thesis unfolding fs by fastforce
qed

section \<open>Mapping a page\<close>

lemma addr_space_resident: "addr_space m R q = Some (f, attr) \<Longrightarrow> table_at m R q = Some f \<and> length q = 3"
  by (cases q) (auto simp: addr_space_def page_attributes_def target_at_def split: if_splits option.splits)

lemma addr_space_unmapped: "table_at m R q = None \<Longrightarrow> addr_space m R q = None"
  by (simp add: addr_space_def)

lemma addr_space_mapped: "length q = 3 \<Longrightarrow> table_at m R q = Some f \<Longrightarrow> \<exists>attr. addr_space m R q = Some (f, attr)"
  by (cases q) (auto simp: addr_space_def page_attributes_def target_at_def split: option.splits if_splits)

text \<open>The path of a virtual address, and the root table of the space an allocation is for.\<close>

definition path_of :: "u32 \<Rightarrow> nat list" where
  "path_of virt = (case get_table_indices virt of (i, j, k) \<Rightarrow> [k, j, i])"

definition root_of :: "bool \<Rightarrow> mmu \<Rightarrow> u32" where
  "root_of supervisor s = push_bit SRP_URP_DESCRIPTOR_BITS (root_pointer (if supervisor then srp s else urp s))"

lemma mask_less:
  assumes "x AND mask n = (x :: u32)" "n < 32"
  shows "unat x < 2 ^ n"
proof -
  have "x = take_bit n x" using assms(1) by (simp add: take_bit_eq_mask)
  then have "unat x = take_bit n (unat x)" by (metis unsigned_take_bit_eq)
  then show ?thesis by (metis take_bit_nat_less_exp)
qed

lemma table_indices_bounds:
  assumes "get_table_indices virt = (i, j, k)"
  shows "i < 128" "j < 128" "k < 64"
  using assms mask_less [of "drop_bit 25 virt AND 127" 7] mask_less [of "drop_bit 18 virt AND 127" 7]
    mask_less [of "drop_bit 12 virt AND 63" 6]
  by (auto simp: get_table_indices_def mask_eq_exp_minus_1 and.assoc)

lemma pop_three:
  assumes "mapping s' = mapping s + 3"
  shows "mapping_pop (mapping_pop (mapping_pop s')) = s'\<lparr>mapping := mapping s\<rparr>"
  using assms by (cases s') (simp add: mapping_pop_def)

lemma vm_inv_pop:
  assumes "vm_inv s' R fs" "above s s'" "mapping s < MAPPER_PAGES"
  shows "vm_inv (s'\<lparr>mapping := mapping s\<rparr>) R fs"
  using assms by (auto simp: vm_inv_def frame_pool_inv_def mapper_ok_def above_def)

lemma spends_room:
  assumes "spends n s fs s' fs'" "n < length fs" "n < unat (free_frames s)"
  shows "fs' \<noteq> []" "free_frames s' \<noteq> 0"
  using assms by (auto simp: spends_def)

lemma alloc_at_ok:
  assumes R_def: "R = root_of supervisor s"
    and inv: "vm_inv s R fs" and room: "mapping s + 4 \<le> MAPPER_PAGES"
    and some: "3 \<le> length fs" "3 \<le> unat (free_frames s)"
  shows "\<exists>f s' fs'. mmu040_alloc_at virt supervisor wp s = Some (f, s') \<and>
    addr_space (pmem s') R =
      (addr_space (pmem s) R)(path_of virt \<mapsto> (f, supervisor, wp, MMU040_CACHE_MODE_CACHE_COPY_BACK)) \<and>
    (\<forall>b. page_of b = f \<longrightarrow> pmem s' b = 0) \<and>
    (\<forall>q g b. length q = 3 \<longrightarrow> table_at (pmem s) R q = Some g \<longrightarrow> g \<noteq> f \<longrightarrow> page_of b = g \<longrightarrow>
       pmem s' b = pmem s b) \<and>
    vm_inv s' R fs' \<and> mapping s' = mapping s \<and> spends 3 s fs s' fs' \<and>
    srp s' = srp s \<and> urp s' = urp s \<and>
    (f \<in> set fs \<or> (\<exists>attr. addr_space (pmem s) R (path_of virt) = Some (f, attr)))"
proof -
  obtain i j k where ix: "get_table_indices virt = (i, j, k)" by (metis prod_cases3)
  note bd = table_indices_bounds [OF ix]
  have ok: "mapper_ok s" "mapping s < MAPPER_PAGES" and fp: "frame_pool_inv s fs"
    using inv by (auto simp: vm_inv_def frame_pool_inv_def)
  from push_points [OF ok, of R] obtain s1 where s1: "mapping_push R s = Some (mapping s, s1)"
    "points s1 (REPAGE R (mapping s)) R" "above s s1" "mapping s1 = Suc (mapping s)" "pmem s1 = pmem s"
    "free_frames s1 = free_frames s" "free_frame s1 = free_frame s" by blast
  have v1: "vm_inv s1 R fs"
    using inv room s1 frame_pool_inv_update [OF fp s1(3,5,7)] by (simp add: vm_inv_def)
  have r1: "Suc (mapping s1) < MAPPER_PAGES" "fs \<noteq> []" "free_frames s1 \<noteq> 0" using room some s1 by auto
  have root: "table_at (pmem s1) R [] = Some R" "length ([] :: nat list) < 2" "i < entries_at (length ([] :: nat list))"
    using bd by (auto simp: entries_at_def ROOT_LEVEL_DESCRIPTORS_def)
  from descend_at_ok [OF v1 r1(1) s1(2) root r1(2,3)] obtain p2 s2 t2 fs2 where
    s2: "descend_root (REPAGE R (mapping s)) i s1 = Some (p2, s2)" "points s2 p2 t2" "table_at (pmem s2) R [i] = Some t2"
    "vm_inv s2 R fs2" "above s1 s2" "mapping s2 = Suc (mapping s1)" "addr_space (pmem s2) R = addr_space (pmem s) R"
    "spends 1 s1 fs s2 fs2"
    "\<forall>b. untouched (pmem s) R fs b \<longrightarrow> untouched (pmem s2) R fs2 b \<and> pmem s2 b = pmem s b"
    by (auto simp: descend_root_at s1(5))
  have r2: "Suc (mapping s2) < MAPPER_PAGES" "fs2 \<noteq> []" "free_frames s2 \<noteq> 0"
    using room some s1 s2(6) spends_room [OF s2(8)] by auto
  have ptr: "length [i] < 2" "j < entries_at (length [i])"
    using bd by (auto simp: entries_at_def POINTER_LEVEL_DESCRIPTORS_def)
  from descend_at_ok [OF s2(4) r2(1) s2(2,3) ptr r2(2,3)] obtain p3 s3 t3 fs3 where
    s3: "descend_pointer p2 j s2 = Some (p3, s3)" "points s3 p3 t3" "table_at (pmem s3) R [j, i] = Some t3"
    "vm_inv s3 R fs3" "above s2 s3" "mapping s3 = Suc (mapping s2)" "addr_space (pmem s3) R = addr_space (pmem s) R"
    "spends 1 s2 fs2 s3 fs3"
    "\<forall>b. untouched (pmem s2) R fs2 b \<longrightarrow> untouched (pmem s3) R fs3 b \<and> pmem s3 b = pmem s2 b"
    by (auto simp: descend_pointer_at s2(7))
  have sp: "spends 2 s1 fs s3 fs3" using spends_trans [OF s2(8) s3(8)] by (simp add: numeral_2_eq_2)
  have r3: "fs3 \<noteq> []" "free_frames s3 \<noteq> 0" using some s1(6) spends_room [OF sp] by auto
  have pg: "length [j, i] = 2" "k < PAGE_DESCRIPTORS" using bd by (auto simp: PAGE_DESCRIPTORS_def)
  from install_page_ok [OF s3(4) s3(2,3) pg r3, of supervisor wp] obtain f s4 fs4 where
    s4: "install_page p3 k supervisor wp s3 = Some (f, s4)" "page_installed s3 R fs3 [k, j, i] supervisor wp f s4 fs4"
    "f \<in> set fs3 \<or> table_at (pmem s3) R [k, j, i] = Some f" by blast
  note d4 = s4(2) [unfolded page_installed_def]
  have ab: "above s s4" using above_trans [OF above_trans [OF above_trans [OF s1(3) s2(5)] s3(5)]] d4 by simp
  have mp: "mapping s4 = mapping s + 3" using s1(4) s2(6) s3(6) d4 by simp
  let ?s = "s4\<lparr>mapping := mapping s\<rparr>"
  have sp4: "spends 3 s1 fs s4 fs4" using spends_trans [OF sp, of 1] d4 by simp
  have run: "mmu040_alloc_at virt supervisor wp s = Some (f, ?s)"
    using s1(1) s2(1) s3(1) s4(1) pop_three [OF mp]
    by (simp add: mmu040_alloc_at_def ix Let_def R_def root_of_def [symmetric])
  have keep: "pmem ?s b = pmem s b"
    if q: "length q = 3" "table_at (pmem s) R q = Some g" "g \<noteq> f" "page_of b = g" for q g b
  proof -
    have sep: "separated (pmem s) R fs" using inv by (simp add: vm_inv_def)
    have "untouched (pmem s) R fs b"
      using q separated_mapped [OF sep q(1,2)] separated_frame [OF sep q(1,2)] by (auto simp: untouched_def)
    then show ?thesis using s2(9) s3(9) d4 q by simp
  qed
  have "vm_inv ?s R fs4" using vm_inv_pop [OF _ ab ok(2)] d4 by blast
  moreover have "spends 3 s fs ?s fs4" using sp4 s1(6) by (simp add: spends_def)
  moreover have "srp ?s = srp s" "urp ?s = urp s" using ab by (simp_all add: above_def)
  moreover have "f \<in> set fs \<or> (\<exists>attr. addr_space (pmem s) R (path_of virt) = Some (f, attr))"
  proof -
    have "set fs3 \<subseteq> set fs" using sp by (auto simp: spends_def)
    moreover have "addr_space (pmem s3) R = addr_space (pmem s) R" using s1(5) s2(7) s3(7) by simp
    ultimately show ?thesis using s4(3) addr_space_mapped [of "[k, j, i]" "pmem s3" R f] by (auto simp: path_of_def ix)
  qed
  ultimately show ?thesis using run d4 s3(7) keep
    by (intro exI [of _ f] exI [of _ ?s] exI [of _ fs4]) (simp add: path_of_def ix)
qed

text \<open>
  C1. With three frames to spare and four free mapper pages, \<^verbatim>\<open>mmu040_alloc_at\<close> returns a cleared
  frame and refines a single update of the address space: the page of the given virtual address
  is mapped to that frame, with the requested protection and copy-back caching, and every other
  page is mapped as before; the contents of every other mapped frame stay, the temporary mappings
  are all released, and the invariant of free list and tables holds again.
\<close>

theorem mmu040_alloc_at_maps_page:
  assumes R_def: "R = root_of supervisor s"
    and inv: "vm_inv s R fs" and room: "mapping s + 4 \<le> MAPPER_PAGES"
    and some: "3 \<le> length fs" "3 \<le> unat (free_frames s)"
  shows "\<exists>f s' fs'. mmu040_alloc_at virt supervisor wp s = Some (f, s') \<and>
    addr_space (pmem s') R =
      (addr_space (pmem s) R)(path_of virt \<mapsto> (f, supervisor, wp, MMU040_CACHE_MODE_CACHE_COPY_BACK)) \<and>
    (\<forall>b. page_of b = f \<longrightarrow> pmem s' b = 0) \<and>
    (\<forall>q g b. length q = 3 \<longrightarrow> table_at (pmem s) R q = Some g \<longrightarrow> g \<noteq> f \<longrightarrow> page_of b = g \<longrightarrow>
       pmem s' b = pmem s b) \<and>
    vm_inv s' R fs' \<and> mapping s' = mapping s \<and> spends 3 s fs s' fs'"
  using alloc_at_ok [OF assms, of virt wp] by blast

definition boot_mmu :: mmu where
  "boot_mmu = \<lparr>pmem = (\<lambda>_. 0)(0x80001000 := 0x80002000, 0x80002000 := 0x80003000),
     free_frames = 3, total_frames = 4, free_frame = 0x80001000, srp = 0x80000000, urp = 0x80000000,
     page_descriptor = replicate MAPPER_PAGES 0, mapping = 0\<rparr>"

text \<open>A cleared root table is an empty address space.\<close>

lemma table_at_cleared:
  assumes "page_of R = R" "\<forall>b. page_of b = R \<longrightarrow> m b = 0" "q \<noteq> []"
  shows "table_at m R q = None"
proof -
  from assms(3) obtain u i where q: "q = u @ [i]" by (metis rev_exhaust)
  have "i < entries_at 0 \<Longrightarrow> m (R + 4 * of_nat i) = 0" using assms entry_page [of R i 0] by blast
  then have "table_at m R [i] = None" by auto
  then show ?thesis unfolding q by (cases "u = []") (simp_all add: table_at_beyond)
qed

lemma separated_cleared:
  assumes "page_of R = R" "\<forall>b. page_of b = R \<longrightarrow> m b = 0" "R \<notin> set fs"
  shows "separated m R fs" "addr_space m R = Map.empty"
proof -
  have T: "table_at m R q = Some t \<longleftrightarrow> q = [] \<and> t = R" for q t
    using table_at_cleared [OF assms(1,2)] by (cases "q = []") auto
  have E: "entry_at m R q = Some a \<longleftrightarrow> (\<exists>i. q = [i] \<and> i < entries_at 0 \<and> a = R + 4 * of_nat i)" for q a
    by (cases q) (auto simp: entry_at_Cons_iff T simp del: entry_at.simps(2))
  show "separated m R fs"
    using entry_page [OF assms(1)] assms(3)
    by (intro separatedI) (auto simp: E T dest: entry_offset_inj)
  show "addr_space m R = Map.empty"
    by (auto simp: addr_space_def fun_eq_iff T)
qed

lemma boot_mmu_empty: "addr_space (pmem boot_mmu) (root_of False boot_mmu) = Map.empty"
proof -
  have "root_of False boot_mmu = 0x80000000" "page_of 0x80000000 = 0x80000000" "page_of 0x80001000 = 0x80001000"
    "page_of 0x80002000 = 0x80002000"
    by (simp_all add: root_of_def boot_mmu_def root_pointer_def bf_get_def SRP_URP_DESCRIPTOR_BITS_def
        take_bit_eq_mask mask_eq_exp_minus_1 page_of_def MMU_PAGE_MASK_def)
  then show ?thesis by (intro separated_cleared(2) [where fs = "[]"]) (auto simp: boot_mmu_def)
qed

lemma boot_mmu_inv: "vm_inv boot_mmu (root_of False boot_mmu) [0x80001000, 0x80002000, 0x80003000]"
proof -
  have R: "root_of False boot_mmu = 0x80000000"
    by (simp add: root_of_def boot_mmu_def root_pointer_def bf_get_def SRP_URP_DESCRIPTOR_BITS_def
        take_bit_eq_mask mask_eq_exp_minus_1)
  have P: "page_of 0x80000000 = 0x80000000" "page_of 0x80001000 = 0x80001000" "page_of 0x80002000 = 0x80002000"
    "page_of 0x80003000 = 0x80003000"
    by (simp_all add: page_of_def MMU_PAGE_MASK_def)
  have "separated (pmem boot_mmu) 0x80000000 [0x80001000, 0x80002000, 0x80003000]"
    by (rule separated_cleared) (use P in \<open>auto simp: boot_mmu_def\<close>)
  with P show ?thesis unfolding R
    by (simp add: vm_inv_def frame_pool_inv_def mapper_ok_def boot_mmu_def MAPPER_PAGES_def)
qed

theorem mmu040_alloc_at_maps_page_witness:
  "\<exists>f s'. mmu040_alloc_at 0x12345678 False True boot_mmu = Some (f, s') \<and>
     addr_space (pmem s') (root_of False boot_mmu) (path_of 0x12345678) =
       Some (f, False, True, MMU040_CACHE_MODE_CACHE_COPY_BACK)"
  using mmu040_alloc_at_maps_page [OF refl boot_mmu_inv, where virt = "0x12345678" and wp = True]
  by (force simp: boot_mmu_def MAPPER_PAGES_def)

lemma handle_of_frame:
  assumes "page_of f = f"
  shows "push_bit 9 (root_pointer (set_root_pointer 0 (drop_bit 9 f))) = f"
  using root_field_addr [OF assms, of 0]
  by (simp add: root_pointer_def set_root_pointer_def ROOT_LEVEL_FIELD_ADDR_def root_table_address_def
      set_root_table_address_def ROOT_LEVEL_ADDR_FIELD_def)

text \<open>
  C20. \<^verbatim>\<open>mmu040_init_userspace\<close> takes the first free frame as the root table of a new address space: the
  handle it stores and the user root pointer denote that frame, the space is empty and, with the
  rest of the free list, satisfies the memory manager's invariant; when no frame may be handed
  out it fails with \<^verbatim>\<open>-ENOMEM\<close> and changes nothing.
\<close>

theorem mmu040_init_userspace_empty:
  assumes inv: "frame_pool_inv s (f # fs)"
  shows "if free_frames s = 0 then mmu040_init_userspace (Some h) s = Some (- errno ENOMEM, Some 0, s)
    else \<exists>h' s'. mmu040_init_userspace (Some h) s = Some (0, Some h', s') \<and> urp s' = h' \<and>
      root_of False s' = f \<and> addr_space (pmem s') f = Map.empty \<and> vm_inv s' f fs \<and>
      Suc (unat (free_frames s')) = unat (free_frames s)"
proof (cases "free_frames s = 0")
  case False
  from pool_frame_points [OF inv False] obtain s1 where s1: "alloc_frame s = Some (f, s1)" "frame_pool_inv s1 fs"
    "pmem s1 = zero_page f (pmem s)" "free_frames s1 = free_frames s - 1" by blast
  have f: "page_of f = f" "f \<notin> set fs" "f \<noteq> 0" using inv by (auto simp: frame_pool_inv_def)
  let ?h = "set_root_pointer 0 (drop_bit SRP_URP_DESCRIPTOR_BITS f)"
  have run: "mmu040_init_userspace (Some h) s = Some (0, Some ?h, s1\<lparr>urp := ?h\<rparr>)"
    using s1 f by (simp add: mmu040_init_userspace_def Let_def)
  have "\<forall>b. page_of b = f \<longrightarrow> pmem s1 b = 0" using s1(3) by simp
  note clear = separated_cleared [OF f(1) this f(2)]
  with s1 f have "vm_inv (s1\<lparr>urp := ?h\<rparr>) f fs"
    by (simp add: vm_inv_def frame_pool_inv_def mapper_ok_def)
  then show ?thesis using False run clear s1(4) unat_pred [OF False] handle_of_frame [OF f(1)]
    by (simp add: root_of_def SRP_URP_DESCRIPTOR_BITS_def)
qed (simp add: mmu040_init_userspace_def alloc_frame_def)

theorem mmu040_init_userspace_empty_witness:
  "\<exists>h' s'. mmu040_init_userspace (Some 0) boot_mmu = Some (0, Some h', s') \<and>
     root_of False s' = 0x80001000 \<and> addr_space (pmem s') 0x80001000 = Map.empty"
proof -
  have "frame_pool_inv boot_mmu [0x80001000, 0x80002000, 0x80003000]"
    using boot_mmu_inv by (simp add: vm_inv_def)
  from mmu040_init_userspace_empty [OF this, of 0] show ?thesis
    by (auto simp: boot_mmu_def)
qed

text \<open>
  C21. \<^verbatim>\<open>_free_frame\<close> puts a frame back on the free list but does not count it: after as many
  allocations, each followed by the release of the frame, as there were free frames at the start,
  the free list is what it was and still \<^verbatim>\<open>_alloc_frame\<close> reports that memory is exhausted.
\<close>

theorem free_frame_is_not_counted:
  assumes "frame_pool_inv s (f # fs)"
  shows "\<exists>s'. ((\<lambda>r. do { s \<leftarrow> r; (g, s) \<leftarrow> alloc_frame s; free_frame_op g s }) ^^ unat (free_frames s)) (Some s) = Some s' \<and>
    frame_pool_inv s' (f # fs) \<and> alloc_frame s' = Some (0, s')"
  using frames.use_and_return_drains [OF assms order_refl] frames.take_refuses
  by (auto simp: frames.use_and_return_def [abs_def])

theorem free_frame_is_not_counted_witness:
  "\<exists>s'. ((\<lambda>r. do { s \<leftarrow> r; (g, s) \<leftarrow> alloc_frame s; free_frame_op g s }) ^^ 3) (Some boot_mmu) = Some s' \<and>
    frame_pool_inv s' [0x80001000, 0x80002000, 0x80003000] \<and> alloc_frame s' = Some (0, s')"
proof -
  have "frame_pool_inv boot_mmu [0x80001000, 0x80002000, 0x80003000]" "unat (free_frames boot_mmu) = 3"
    using boot_mmu_inv by (auto simp: vm_inv_def boot_mmu_def)
  then show ?thesis using free_frame_is_not_counted [of boot_mmu] by metis
qed

end
