(* ===== verification/KHeap.thy ===== *)
theory KHeap
  imports Mmu040
begin

text \<open>
  The kernel heap, \<^verbatim>\<open>kernel/util/mem.c\<close>: \<^verbatim>\<open>memset\<close>, \<^verbatim>\<open>memcpy\<close>, \<^verbatim>\<open>ksbrk\<close> and the quick-fit allocator
  (\<^verbatim>\<open>STRATEGY 4\<close>, the one that is compiled) with its four quick lists and its general list.

  Kernel memory is a function from addresses divisible by four to long words; a \<^verbatim>\<open>Header\<close> at
  address \<open>a\<close> is the two words \<open>a\<close> (its \<^verbatim>\<open>size\<close>) and \<open>a + 4\<close> (its \<^verbatim>\<open>next\<close>).
\<close>

section \<open>Memory blocks\<close>

text \<open>Both loops run from the last byte down to the first.\<close>

fun memset :: "bytes \<Rightarrow> u8 \<Rightarrow> nat \<Rightarrow> bytes option" where
  "memset p c 0 = Some p"
| "memset p c (Suc n) = do { p \<leftarrow> wr p n c; memset p c n }"

fun memcpy :: "bytes \<Rightarrow> bytes \<Rightarrow> nat \<Rightarrow> bytes option" where
  "memcpy dest src 0 = Some dest"
| "memcpy dest src (Suc n) = do { c \<leftarrow> rd src n; dest \<leftarrow> wr dest n c; memcpy dest src n }"

section \<open>The heap\<close>

definition sizeof_Header :: u32 where "sizeof_Header = 8"
definition NRQUICKLISTS :: nat where "NRQUICKLISTS = 4"

definition ALIGN :: "u32 \<Rightarrow> u32" where "ALIGN x = (x + 3) AND NOT 3"
definition ALIGNWITH :: "u32 \<Rightarrow> u32 \<Rightarrow> u32" where "ALIGNWITH x y = (x + (y - 1)) AND NOT (y - 1)"

record kheap =
  hmem :: "u32 \<Rightarrow> u32"
  freelist :: "u32 list"
  heap_end :: u32
  malloc_used_mem :: u32
  kmmu :: mmu

text \<open>\<^verbatim>\<open>ksbrk\<close>: the pages between the old and the new end of the heap are mapped one by one.\<close>

definition ksbrk :: "u32 \<Rightarrow> kheap \<Rightarrow> (u32 \<times> kheap) option" where
  "ksbrk increment h = do {
     let old_heap_end = heap_end h;
     mm \<leftarrow>
       (if sint increment > 0 then
          let tmp = (heap_end h + (MMU_PAGE_SIZE - 1)) AND NOT MMU_PAGE_MASK;
              new = (heap_end h + increment + (MMU_PAGE_SIZE - 1)) AND NOT MMU_PAGE_MASK;
              pages = (new - tmp) div MMU_PAGE_SIZE
          in for_loop [0..<unat pages]
               (\<lambda>i mm. map_option snd (mmu040_alloc_at (tmp + of_nat i * MMU_PAGE_SIZE) True False mm)) (kmmu h)
        else Some (kmmu h));
     Some (old_heap_end, h\<lparr>heap_end := heap_end h + increment, kmmu := mm\<rparr>) }"

definition hsize :: "kheap \<Rightarrow> u32 \<Rightarrow> u32" where "hsize h a = hmem h a"
definition hnext :: "kheap \<Rightarrow> u32 \<Rightarrow> u32" where "hnext h a = hmem h (a + 4)"
definition set_hsize :: "kheap \<Rightarrow> u32 \<Rightarrow> u32 \<Rightarrow> kheap" where
  "set_hsize h a v = h\<lparr>hmem := (hmem h)(a := v)\<rparr>"
definition set_hnext :: "kheap \<Rightarrow> u32 \<Rightarrow> u32 \<Rightarrow> kheap" where
  "set_hnext h a v = h\<lparr>hmem := (hmem h)(a + 4 := v)\<rparr>"

text \<open>A \<^verbatim>\<open>Header **\<close>: the address of a list head or of the \<^verbatim>\<open>next\<close> field of a block.\<close>

datatype hlink = Freelist nat | NextOf u32

primrec get_link :: "kheap \<Rightarrow> hlink \<Rightarrow> u32 option" where
  "get_link h (Freelist i) = rd (freelist h) i"
| "get_link h (NextOf a) = Some (hnext h a)"

primrec set_link :: "kheap \<Rightarrow> hlink \<Rightarrow> u32 \<Rightarrow> kheap option" where
  "set_link h (Freelist i) v = map_option (\<lambda>fl. h\<lparr>freelist := fl\<rparr>) (wr (freelist h) i v)"
| "set_link h (NextOf a) v = Some (set_hnext h a v)"

text \<open>\<^verbatim>\<open>for(list = 0; list < NRQUICKLISTS && size > (8 << list); list++);\<close>\<close>

definition quicklist :: "u32 \<Rightarrow> nat" where
  "quicklist sz = find_slot (\<lambda>l. \<not> sz > push_bit l 8) [0..<NRQUICKLISTS]"

definition getmore :: "u32 \<Rightarrow> kheap \<Rightarrow> (u32 \<times> kheap) option" where
  "getmore sz h = do {
     let sz = ALIGNWITH (sz + sizeof_Header) MMU_PAGE_SIZE;
     let h = h\<lparr>malloc_used_mem := malloc_used_mem h + sz\<rparr>;
     (header, h) \<leftarrow> ksbrk sz h;
     if header = - 1 then Some (0, h)
     else Some (header, set_hsize h header (sz - sizeof_Header)) }"

text \<open>
  \<^verbatim>\<open>kfree\<close> on the general list: one pass of the loop with its \<^verbatim>\<open>goto redo\<close>.
\<close>

partial_function (option) kfree_scan :: "hlink \<Rightarrow> u32 \<Rightarrow> bool \<Rightarrow> kheap \<Rightarrow> kheap option" where
  "kfree_scan iter header hasmerged h = do {
     p \<leftarrow> get_link h iter;
     if p = 0 then
       (if hasmerged then Some h
        else do {
          f \<leftarrow> rd (freelist h) NRQUICKLISTS;
          set_link (set_hnext h header f) (Freelist NRQUICKLISTS) header })
     else if p + hsize h p + sizeof_Header = header then do {
       let h = set_hsize h p (hsize h p + (sizeof_Header + hsize h header));
       h \<leftarrow> set_link h iter (hnext h p);
       kfree_scan (Freelist NRQUICKLISTS) p hasmerged h }
     else if header + sizeof_Header + hsize h header = p then do {
       let h = set_hsize h header (hsize h header + (sizeof_Header + hsize h p));
       let h = set_hnext h header (hnext h p);
       h \<leftarrow> set_link h iter header;
       kfree_scan (NextOf header) header True h }
     else kfree_scan (NextOf p) header hasmerged h }"

definition kfree :: "u32 \<Rightarrow> kheap \<Rightarrow> kheap option" where
  "kfree ptr h =
     (if ptr = 0 then Some h
      else do {
        let header = ptr - sizeof_Header;
        let list = quicklist (hsize h header);
        if list < NRQUICKLISTS then do {
          f \<leftarrow> rd (freelist h) list;
          set_link (set_hnext h header f) (Freelist list) header }
        else kfree_scan (Freelist NRQUICKLISTS) header False h })"

text \<open>\<^verbatim>\<open>kmalloc\<close>: the search of a list for the first block that is large enough.\<close>

partial_function (option) find_fit :: "u32 \<Rightarrow> hlink \<Rightarrow> kheap \<Rightarrow> hlink option" where
  "find_fit sz iter h = do {
     p \<leftarrow> get_link h iter;
     if p \<noteq> 0 \<and> hsize h p < sz then find_fit sz (NextOf p) h else Some iter }"

text \<open>The block \<^verbatim>\<open>*iter\<close> is taken off its list, or its tail replaces it there.\<close>

definition take_block :: "u32 \<Rightarrow> hlink \<Rightarrow> u32 \<Rightarrow> kheap \<Rightarrow> kheap option" where
  "take_block sz iter header h =
     (if ALIGN (hsize h header) > ALIGN sz + sizeof_Header
      then do {
        let newheader = header + sizeof_Header + ALIGN sz;
        let h = set_hsize h newheader (ALIGN (hsize h header) - (ALIGN sz + sizeof_Header));
        let h = set_hsize h header (ALIGN sz);
        let h = set_hnext h newheader (hnext h header);
        set_link h iter newheader }
      else set_link h iter (hnext h header))"

text \<open>
  A new block is cut into pieces of one quick-list sz.  The pointer \<^verbatim>\<open>tmp\<close> is \<^term>\<open>None\<close> while it
  is the address of the local variable \<^verbatim>\<open>header\<close>; \<open>cur\<close> is \<^verbatim>\<open>*tmp\<close>.
\<close>

fun cut_pieces :: "nat \<Rightarrow> u32 \<Rightarrow> u32 option \<Rightarrow> u32 \<Rightarrow> kheap \<Rightarrow> u32 option \<times> kheap" where
  "cut_pieces 0 piece tmp cur h = (tmp, h)"
| "cut_pieces (Suc n) piece tmp cur h =
     (let h = set_hsize h cur piece;
          h = set_hnext h cur (cur + piece + sizeof_Header)
      in cut_pieces n piece (Some cur) (hnext h cur) h)"

definition fill_quicklist :: "nat \<Rightarrow> u32 \<Rightarrow> kheap \<Rightarrow> kheap option" where
  "fill_quicklist list header h = do {
     let total = hsize h header + sizeof_Header;
     let piece = push_bit list 8;
     let (tmp, h) = cut_pieces (unat (total div (piece + sizeof_Header))) piece None header h;
     f \<leftarrow> rd (freelist h) list;
     case tmp of
       None \<Rightarrow> set_link h (Freelist list) f
     | Some a \<Rightarrow> set_link (set_hnext h a f) (Freelist list) header }"

partial_function (option) kmalloc_loop :: "nat \<Rightarrow> u32 \<Rightarrow> kheap \<Rightarrow> (u32 \<times> kheap) option" where
  "kmalloc_loop list sz h = do {
     iter \<leftarrow> find_fit sz (Freelist list) h;
     header \<leftarrow> get_link h iter;
     if header \<noteq> 0 then do {
       h \<leftarrow> take_block sz iter header h;
       Some (header + sizeof_Header, h) }
     else do {
       (header, h) \<leftarrow> getmore sz h;
       if header = 0 then Some (0, h)
       else do {
         h \<leftarrow> (if list < NRQUICKLISTS then fill_quicklist list header h
               else kfree (header + sizeof_Header) h);
         kmalloc_loop list sz h } } }"

definition kmalloc :: "u32 \<Rightarrow> kheap \<Rightarrow> (u32 \<times> kheap) option" where
  "kmalloc sz h = (if sz = 0 then Some (0, h) else kmalloc_loop (quicklist sz) sz h)"

text \<open>\<^verbatim>\<open>memcpy\<close> between two places of the heap, from the last byte down.\<close>

fun heap_memcpy :: "u32 \<Rightarrow> u32 \<Rightarrow> nat \<Rightarrow> kheap \<Rightarrow> kheap" where
  "heap_memcpy dst src 0 h = h"
| "heap_memcpy dst src (Suc n) h =
     heap_memcpy dst src n
       (h\<lparr>hmem := set_byte (hmem h) (dst + of_nat n) (byte_at (hmem h) (src + of_nat n))\<rparr>)"

text \<open>When \<^verbatim>\<open>kmalloc\<close> fails the copy goes to address zero, which is not heap memory.\<close>

definition krealloc :: "u32 \<Rightarrow> u32 \<Rightarrow> kheap \<Rightarrow> (u32 \<times> kheap) option" where
  "krealloc ptr sz h =
     (if ptr = 0 then kmalloc sz h
      else if sz = 0 then map_option (Pair 0) (kfree ptr h)
      else do {
        (tmp, h) \<leftarrow> kmalloc sz h;
        let header = ptr - sizeof_Header;
        if tmp = 0 then None
        else do {
          let h = heap_memcpy tmp ptr (unat (if hsize h header > sz then sz else hsize h header)) h;
          h \<leftarrow> kfree ptr h;
          Some (tmp, h) } })"

end
