(* ===== verification/KHeapSpec.thy ===== *)
theory KHeapSpec
  imports KHeap MmuSpec "HOL-Library.Multiset"
begin

text \<open>
  The soundness of the kernel heap: blocks never overlap, the free lists are what the headers in
  memory say, and no two free blocks of the general list touch.  \<^verbatim>\<open>kmalloc\<close> and \<^verbatim>\<open>kfree\<close> keep this
  invariant and always return; the memory manager's readiness to map pages is what they need
  for it.
\<close>

section \<open>Blocks\<close>

text \<open>
  A block at \<open>a\<close> occupies the bytes from its header up to, not including, \<open>bend m a\<close>.
\<close>

definition bend :: "(u32 \<Rightarrow> u32) \<Rightarrow> u32 \<Rightarrow> nat" where
  "bend m a = unat a + 8 + unat (m a)"

definition block_ok :: "(u32 \<Rightarrow> u32) \<Rightarrow> nat \<Rightarrow> u32 \<Rightarrow> bool" where
  "block_ok m e a \<longleftrightarrow> a \<noteq> 0 \<and> bend m a \<le> e \<and> 4 dvd unat a \<and> 4 dvd unat (m a)"

definition apart :: "(u32 \<Rightarrow> u32) \<Rightarrow> u32 \<Rightarrow> u32 \<Rightarrow> bool" where
  "apart m a b \<longleftrightarrow> bend m a \<le> unat b \<or> bend m b \<le> unat a"

text \<open>The blocks of a heap whose end is \<open>e\<close>: sound, and no two of them overlap.\<close>

fun blocks_ok :: "(u32 \<Rightarrow> u32) \<Rightarrow> nat \<Rightarrow> u32 list \<Rightarrow> bool" where
  "blocks_ok m e [] \<longleftrightarrow> e < 2 ^ 32"
| "blocks_ok m e (a # bs) \<longleftrightarrow> block_ok m e a \<and> (\<forall>b \<in> set bs. apart m a b) \<and> blocks_ok m e bs"

text \<open>The chain of free blocks from \<open>p\<close> on.\<close>

fun hchain :: "(u32 \<Rightarrow> u32) \<Rightarrow> u32 \<Rightarrow> u32 list \<Rightarrow> bool" where
  "hchain m p [] \<longleftrightarrow> p = 0"
| "hchain m p (b # bs) \<longleftrightarrow> p = b \<and> b \<noteq> 0 \<and> hchain m (m (b + 4)) bs"

definition list_count :: nat where "list_count = Suc NRQUICKLISTS"

definition chains :: "kheap \<Rightarrow> (nat \<Rightarrow> u32 list) \<Rightarrow> bool" where
  "chains h FS \<longleftrightarrow> length (freelist h) = list_count \<and>
     (\<forall>i < list_count. hchain (hmem h) (freelist h ! i) (FS i) \<and> distinct (FS i))"

definition pool :: "(nat \<Rightarrow> u32 list) \<Rightarrow> u32 list" where
  "pool FS = concat (map FS [0..<list_count])"

text \<open>No free block of the general list ends where another one starts.\<close>

definition coalesced :: "(u32 \<Rightarrow> u32) \<Rightarrow> u32 list \<Rightarrow> bool" where
  "coalesced m xs \<longleftrightarrow> (\<forall>a \<in> set xs. \<forall>b \<in> set xs. bend m a \<noteq> unat b)"

text \<open>
  The invariant of the heap: \<open>FS i\<close> are the free blocks of list \<open>i\<close> and \<open>A\<close> the blocks handed out.
\<close>

definition heap_ok :: "kheap \<Rightarrow> (nat \<Rightarrow> u32 list) \<Rightarrow> u32 list \<Rightarrow> bool" where
  "heap_ok h FS A \<longleftrightarrow> chains h FS \<and> blocks_ok (hmem h) (unat (heap_end h)) (pool FS @ A) \<and>
     coalesced (hmem h) (FS NRQUICKLISTS) \<and> 4 dvd unat (heap_end h) \<and> heap_end h \<noteq> 0"

lemma apart_sym: "apart m a b \<Longrightarrow> apart m b a"
  by (auto simp: apart_def)

lemma apart_neq: "apart m a b \<Longrightarrow> a \<noteq> b"
  by (auto simp: apart_def bend_def)

lemma blocks_ok_iff:
  "blocks_ok m e bs \<longleftrightarrow> e < 2 ^ 32 \<and> distinct bs \<and> (\<forall>a \<in> set bs. block_ok m e a) \<and>
     (\<forall>a \<in> set bs. \<forall>b \<in> set bs. a \<noteq> b \<longrightarrow> apart m a b)"
proof (induction bs)
  case (Cons a bs)
  have eq: "(\<forall>b \<in> set bs. apart m a b) \<longleftrightarrow> (\<forall>b \<in> set bs. a \<noteq> b \<and> apart m a b \<and> apart m b a)"
    by (rule ball_cong) (auto intro: apart_sym dest: apart_neq)
  show ?case unfolding blocks_ok.simps Cons.IH eq by auto
qed simp

lemma blocks_ok_mset: "mset bs = mset cs \<Longrightarrow> blocks_ok m e bs = blocks_ok m e cs"
  using mset_eq_imp_distinct_iff [of bs cs] mset_eq_setD [of bs cs] by (simp add: blocks_ok_iff)

lemma blocks_ok_cong: "\<forall>a \<in> set bs. m' a = m a \<Longrightarrow> blocks_ok m' e bs = blocks_ok m e bs"
  unfolding blocks_ok_iff by (auto simp: block_ok_def apart_def bend_def)

lemma blocks_ok_less: "blocks_ok m e bs \<Longrightarrow> e < 2 ^ 32"
  by (induction bs) auto

lemma block_words:
  assumes "blocks_ok m e bs" "a \<in> set bs" "b \<in> set bs"
  shows "a + 4 \<noteq> b"
proof
  assume b: "a + 4 = b"
  have a: "unat a + 8 \<le> e" and e: "e < 2 ^ 32"
    using assms by (auto simp: blocks_ok_iff block_ok_def bend_def)
  then have "unat (a + 4) = unat a + 4"
    by (subst unat_add_lem [THEN iffD1]) auto
  with assms b have "apart m a b" "unat b = unat a + 4" by (auto simp: blocks_ok_iff)
  then show False by (auto simp: apart_def bend_def)
qed

lemma unat_bend:
  assumes "block_ok m e a" "e < 2 ^ 32"
  shows "unat (a + m a + 8) = bend m a" "unat (a + 8 + m a) = bend m a"
proof -
  have 1: "unat a + unat (m a) + 8 < 2 ^ 32" using assms by (simp add: block_ok_def bend_def)
  have 2: "unat (a + m a) = unat a + unat (m a)" using 1 by (subst unat_add_lem [THEN iffD1]) auto
  show "unat (a + m a + 8) = bend m a"
    using 1 2 by (subst unat_add_lem [THEN iffD1]) (auto simp: bend_def)
  then show "unat (a + 8 + m a) = bend m a" by (simp add: ac_simps)
qed

text \<open>Merging two blocks of which one ends where the other starts.\<close>

lemma blocks_ok_merge:
  assumes ok: "blocks_ok m e (p # q # bs)" and adj: "bend m p = unat q"
  shows "blocks_ok (m(p := m p + (8 + m q))) e (p # bs)"
    "unat (m p + (8 + m q)) = unat (m p) + 8 + unat (m q)"
proof -
  have e: "e < 2 ^ 32" using ok blocks_ok_less by blast
  have q: "bend m q \<le> e" "4 dvd unat (m q)" "4 dvd unat (m p)" using ok by (auto simp: block_ok_def)
  have sum: "unat (m p) + (8 + unat (m q)) < 2 ^ 32" using q e adj by (auto simp: bend_def)
  have "unat (8 + m q) = 8 + unat (m q)" using sum by (subst unat_add_lem [THEN iffD1]) auto
  then show un: "unat (m p + (8 + m q)) = unat (m p) + 8 + unat (m q)"
    using sum by (subst unat_add_lem [THEN iffD1]) auto
  let ?m = "m(p := m p + (8 + m q))"
  have be: "bend ?m p = bend m q" using un adj by (simp add: bend_def)
  have ne: "b \<in> set bs \<Longrightarrow> b \<noteq> p" for b using ok by (auto dest: apart_neq)
  have "block_ok ?m e p" using ok q un be by (simp add: block_ok_def)
  moreover have "apart ?m p b" if b: "b \<in> set bs" for b
  proof -
    have "apart m p b" "apart m q b" using ok b by auto
    then show ?thesis using ne [OF b] be adj by (auto simp: apart_def bend_def)
  qed
  moreover have "blocks_ok ?m e bs" using ok ne by (subst blocks_ok_cong) auto
  ultimately show "blocks_ok ?m e (p # bs)" by simp
qed

text \<open>Cutting a block in two.\<close>

lemma blocks_ok_split:
  assumes ok: "blocks_ok m e (p # bs)" and n: "unat n + 8 < unat (m p)" "4 dvd unat n"
  defines "q \<equiv> p + 8 + n"
  defines "m' \<equiv> m(q := m p - (n + 8), p := n)"
  shows "blocks_ok m' e (p # q # bs)" "q \<noteq> p" "bend m' q = bend m p" "unat q = bend m' p"
proof -
  have e: "e < 2 ^ 32" using ok blocks_ok_less by blast
  have p: "bend m p \<le> e" "p \<noteq> 0" "4 dvd unat p" "4 dvd unat (m p)" using ok by (auto simp: block_ok_def)
  have "unat (p + 8) = unat p + 8" using p e by (subst unat_add_lem [THEN iffD1]) (auto simp: bend_def)
  then have uq: "unat q = unat p + 8 + unat n"
    unfolding q_def using p e n by (subst unat_add_lem [THEN iffD1]) (auto simp: bend_def)
  then show qp: "q \<noteq> p" by auto
  have n8: "unat (n + 8) = unat n + 8"
    using p e n by (subst unat_add_lem [THEN iffD1]) (auto simp: bend_def)
  have mq: "unat (m p - (n + 8)) = unat (m p) - (unat n + 8)"
    using n n8 by (subst unat_sub) (auto simp: word_le_nat_alt)
  have ms: "m' q = m p - (n + 8)" "m' p = n" using qp by (auto simp: m'_def)
  show bp: "unat q = bend m' p" using uq ms by (simp add: bend_def)
  show bq: "bend m' q = bend m p" using uq ms mq n by (simp add: bend_def)
  have ne: "b \<noteq> p" "b \<noteq> q" if "b \<in> set bs" for b
  proof -
    have "apart m p b" using ok that by auto
    then show "b \<noteq> p" "b \<noteq> q" using uq n by (auto simp: apart_def bend_def)
  qed
  have rest: "blocks_ok m' e bs" using ok ne by (subst blocks_ok_cong) (auto simp: m'_def)
  have "4 dvd unat (m' q)" using ms mq n p by (simp add: dvd_diff_nat)
  then have okq: "block_ok m' e q" using bq p uq n by (auto simp: block_ok_def)
  have okp: "block_ok m' e p" using ms p bp bq uq n by (auto simp: block_ok_def bend_def)
  have "apart m' p b \<and> apart m' q b" if b: "b \<in> set bs" for b
  proof -
    have "apart m p b" "m' b = m b" using ok b ne [OF b] by (auto simp: m'_def)
    then show ?thesis using bp bq uq n by (auto simp: apart_def bend_def)
  qed
  moreover have "apart m' p q" using bp by (simp add: apart_def)
  ultimately show "blocks_ok m' e (p # q # bs)" using rest okp okq by simp
qed

section \<open>Lists of free blocks\<close>

text \<open>The link that leads to what follows the blocks \<open>pre\<close> of list \<open>l\<close>.\<close>

definition link_after :: "nat \<Rightarrow> u32 list \<Rightarrow> hlink" where
  "link_after l pre = (if pre = [] then Freelist l else NextOf (last pre))"

lemma link_after_Nil [simp]: "link_after l [] = Freelist l"
  by (simp add: link_after_def)

lemma link_after_snoc [simp]: "link_after l (pre @ [p]) = NextOf p"
  by (simp add: link_after_def)

definition head_of :: "u32 list \<Rightarrow> u32" where
  "head_of xs = (case xs of [] \<Rightarrow> 0 | x # _ \<Rightarrow> x)"

lemma head_of_simps [simp]: "head_of [] = 0" "head_of (x # xs) = x"
  by (simp_all add: head_of_def)

lemma hchain_cong: "\<forall>x \<in> set xs. m' (x + 4) = m (x + 4) \<Longrightarrow> hchain m' p xs = hchain m p xs"
  by (induction xs arbitrary: p) auto


lemma hchain_head: "hchain m p xs \<Longrightarrow> p = head_of xs"
  by (cases xs) auto

lemma hchain_after: "hchain m p (pre @ post) \<Longrightarrow> pre \<noteq> [] \<Longrightarrow> hchain m (m (last pre + 4)) post"
proof (induction pre arbitrary: p)
  case (Cons x pre)
  then show ?case by (cases "pre = []") auto
qed simp

lemma hchain_relink:
  "hchain m p (pre @ mid) \<Longrightarrow> pre \<noteq> [] \<Longrightarrow> distinct pre \<Longrightarrow> hchain (m(last pre + 4 := v)) v ys \<Longrightarrow>
   hchain (m(last pre + 4 := v)) p (pre @ ys)"
proof (induction pre arbitrary: p)
  case (Cons x pre)
  then show ?case by (cases "pre = []") auto
qed simp

lemma get_link_after:
  assumes "chains h FS" "l < list_count" "FS l = pre @ post"
  shows "get_link h (link_after l pre) = Some (head_of post)"
proof -
  have c: "hchain (hmem h) (freelist h ! l) (pre @ post)" "length (freelist h) = list_count"
    using assms by (auto simp: chains_def)
  show ?thesis
  proof (cases "pre = []")
    case True with c assms(2) show ?thesis by (auto dest: hchain_head)
  next
    case False
    with hchain_after [OF c(1)] have "hnext h (last pre) = head_of post"
      by (auto simp: hnext_def dest: hchain_head)
    with False show ?thesis by (simp add: link_after_def)
  qed
qed

lemma hchain_hnext:
  assumes "chains h FS" "l < list_count" "FS l = pre @ p # post"
  shows "hchain (hmem h) (hnext h p) post" "hnext h p = head_of post"
proof -
  have "hchain (hmem h) (freelist h ! l) ((pre @ [p]) @ post)" using assms by (auto simp: chains_def)
  from hchain_after [OF this] show "hchain (hmem h) (hnext h p) post" by (simp add: hnext_def)
  then show "hnext h p = head_of post" by (rule hchain_head)
qed

text \<open>Storing into a link replaces what follows it; nothing else of the heap changes.\<close>

lemma set_link_after:
  assumes c: "chains h FS" and l: "l < list_count" and xs: "FS l = pre @ mid"
    and ys: "hchain (hmem h) v ys" "distinct (pre @ ys)"
    and other: "\<And>i. i < list_count \<Longrightarrow> i \<noteq> l \<Longrightarrow> set (FS i) \<inter> set pre = {}"
  shows "\<exists>h'. set_link h (link_after l pre) v = Some h' \<and> chains h' (FS(l := pre @ ys)) \<and>
    heap_end h' = heap_end h \<and> kmmu h' = kmmu h \<and> malloc_used_mem h' = malloc_used_mem h \<and>
    (\<forall>a. (\<forall>x \<in> set pre. a \<noteq> x + 4) \<longrightarrow> hmem h' a = hmem h a)"
proof (cases "pre = []")
  case True
  have "wr (freelist h) l v = Some ((freelist h)[l := v])" using c l by (simp add: chains_def)
  moreover have "chains (h\<lparr>freelist := (freelist h)[l := v]\<rparr>) (FS(l := ys))"
    using c l ys by (auto simp: chains_def nth_list_update)
  ultimately show ?thesis using True by simp
next
  case False
  let ?m = "(hmem h)(last pre + 4 := v)"
  have cl: "hchain (hmem h) (freelist h ! l) (pre @ mid)" using c l xs by (auto simp: chains_def)
  have "last pre \<in> set pre" using False by simp
  then have "last pre \<notin> set ys" using ys(2) by (auto simp: disjoint_iff)
  then have "hchain ?m v ys" using ys(1) by (subst hchain_cong) auto
  from hchain_relink [OF cl False _ this] ys have "hchain ?m (freelist h ! l) (pre @ ys)" by simp
  moreover have "hchain ?m (freelist h ! i) (FS i)" if i: "i < list_count" "i \<noteq> l" for i
  proof -
    have "last pre \<notin> set (FS i)" using other [OF i] False by auto
    moreover have "hchain (hmem h) (freelist h ! i) (FS i)" using c i by (auto simp: chains_def)
    ultimately show ?thesis by (subst hchain_cong) auto
  qed
  ultimately have "chains (set_hnext h (last pre) v) (FS(l := pre @ ys))"
    using c ys by (auto simp: chains_def set_hnext_def)
  then show ?thesis using False by (auto simp: link_after_def set_hnext_def)
qed

lemma find_fit_after:
  assumes "chains h FS" "l < list_count" "FS l = pre @ post"
  shows "find_fit sz (link_after l pre) h = Some (link_after l (pre @ takeWhile (\<lambda>p. hsize h p < sz) post))"
  using assms(3)
proof (induction post arbitrary: pre)
  case Nil
  then show ?case using get_link_after [OF assms(1,2) Nil] by (subst find_fit.simps) simp
next
  case (Cons p post)
  have "p \<noteq> 0" using assms(1,2) Cons.prems
    by (auto simp: chains_def dest!: spec [of _ l]) (metis hchain.simps(2) hchain_after append_Nil)
  with Cons.IH [of "pre @ [p]"] Cons.prems get_link_after [OF assms(1,2) Cons.prems]
  show ?case by (subst find_fit.simps) simp
qed

lemma chains_write:
  assumes "chains h FS" "\<And>x i. i < list_count \<Longrightarrow> x \<in> set (FS i) \<Longrightarrow> m (x + 4) = hmem h (x + 4)"
  shows "chains (h\<lparr>hmem := m\<rparr>) FS"
  using assms hchain_cong [of _ m "hmem h"] by (simp add: chains_def)

lemma mset_pool:
  assumes "l < list_count"
  shows "mset (pool (FS(l := ys))) + mset (FS l) = mset (pool FS) + mset ys"
proof -
  have "mset (concat (map (FS(l := ys)) is)) + mset (FS l) = mset (concat (map FS is)) + mset ys"
    if "l \<in> set is" "distinct is" for "is"
    using that
  proof (induction "is")
    case (Cons i "is")
    show ?case
    proof (cases "i = l")
      case True
      with Cons.prems have "map (FS(l := ys)) is = map FS is" by auto
      note same = this
      show ?thesis unfolding True list.map concat.simps mset_append same by simp
    qed (use Cons in auto)
  qed simp
  from this [of "[0..<list_count]"] assms show ?thesis by (simp add: pool_def)
qed

lemma in_pool: "i < list_count \<Longrightarrow> x \<in> set (FS i) \<Longrightarrow> x \<in> set (pool FS)"
  by (auto simp: pool_def)

lemma pool_disjoint:
  assumes "distinct (pool FS)" "i < list_count" "j < list_count" "i \<noteq> j"
  shows "set (FS i) \<inter> set (FS j) = {}"
proof -
  have "distinct (concat (map FS is)) \<Longrightarrow> i \<in> set is \<Longrightarrow> j \<in> set is \<Longrightarrow> set (FS i) \<inter> set (FS j) = {}" for "is"
    using assms(4) by (induction "is") auto
  from this [of "[0..<list_count]"] assms show ?thesis by (simp add: pool_def)
qed

section \<open>Releasing a block\<close>

definition heap_shape :: "kheap \<Rightarrow> (nat \<Rightarrow> u32 list) \<Rightarrow> u32 list \<Rightarrow> bool" where
  "heap_shape h FS A \<longleftrightarrow> chains h FS \<and> blocks_ok (hmem h) (unat (heap_end h)) (pool FS @ A) \<and>
     4 dvd unat (heap_end h) \<and> heap_end h \<noteq> 0"

lemma heap_ok_shape: "heap_ok h FS A \<longleftrightarrow> heap_shape h FS A \<and> coalesced (hmem h) (FS NRQUICKLISTS)"
  by (auto simp: heap_ok_def heap_shape_def)

lemma heap_shape_distinct: "heap_shape h FS A \<Longrightarrow> distinct (pool FS @ A)"
  by (simp add: heap_shape_def blocks_ok_iff)

lemma heap_shape_disjoint:
  "heap_shape h FS A \<Longrightarrow> i < list_count \<Longrightarrow> j < list_count \<Longrightarrow> i \<noteq> j \<Longrightarrow> set (FS i) \<inter> set (FS j) = {}"
  using heap_shape_distinct pool_disjoint by (metis distinct_append)

lemma heap_shape_fresh:
  "heap_shape h FS (H # A) \<Longrightarrow> i < list_count \<Longrightarrow> H \<notin> set (FS i)"
  using heap_shape_distinct [of h FS "H # A"] in_pool [of i H FS] by auto

text \<open>The same heap but for its memory and lists; the blocks of \<open>A\<close> keep their sizes.\<close>

definition heap_step :: "u32 list \<Rightarrow> kheap \<Rightarrow> kheap \<Rightarrow> bool" where
  "heap_step A h h' \<longleftrightarrow> heap_end h' = heap_end h \<and> kmmu h' = kmmu h \<and>
     malloc_used_mem h' = malloc_used_mem h \<and> (\<forall>a \<in> set A. hsize h' a = hsize h a)"

lemma heap_step_trans: "heap_step A h h' \<Longrightarrow> heap_step A h' h'' \<Longrightarrow> heap_step A h h''"
  by (simp add: heap_step_def)

lemma heap_step_mono: "heap_step A h h' \<Longrightarrow> set B \<subseteq> set A \<Longrightarrow> heap_step B h h'"
  by (auto simp: heap_step_def)

text \<open>
  All changes of the free lists have one form: some sizes are rewritten, then one link.
\<close>

lemma relink:
  assumes c: "chains h FS" and l: "l < list_count" and xs: "FS l = pre @ mid"
    and v: "v = head_of ys" "hchain (hmem h) v ys" "distinct (pre @ ys)"
    and other: "\<And>i. i < list_count \<Longrightarrow> i \<noteq> l \<Longrightarrow> set (FS i) \<inter> set pre = {}"
    and ok: "blocks_ok (hmem h) (unat (heap_end h)) bs" "mset bs = mset (pool (FS(l := pre @ ys)) @ A)"
    and e: "4 dvd unat (heap_end h)" "heap_end h \<noteq> 0"
  shows "\<exists>h'. set_link h (link_after l pre) v = Some h' \<and> heap_shape h' (FS(l := pre @ ys)) A \<and>
     heap_step bs h h'"
proof -
  from set_link_after [OF c l xs v(2,3) other] obtain h' where h': "set_link h (link_after l pre) v = Some h'"
    "chains h' (FS(l := pre @ ys))" "heap_end h' = heap_end h" "kmmu h' = kmmu h"
    "malloc_used_mem h' = malloc_used_mem h" "\<forall>a. (\<forall>x \<in> set pre. a \<noteq> x + 4) \<longrightarrow> hmem h' a = hmem h a"
    by blast
  have "x \<in> set pre \<Longrightarrow> x \<in> set (pool (FS(l := pre @ ys)))" for x
    by (rule in_pool [OF l]) simp
  then have "set pre \<subseteq> set bs" using mset_eq_setD [OF ok(2)] by auto
  then have "a \<in> set bs \<Longrightarrow> x \<in> set pre \<Longrightarrow> a \<noteq> x + 4" for a x using block_words [OF ok(1), of x a] by auto
  then have same: "\<forall>a \<in> set bs. hmem h' a = hmem h a" using h'(6) by simp
  then have "blocks_ok (hmem h') (unat (heap_end h')) bs" using ok(1) h'(3) by (subst blocks_ok_cong) auto
  then have "heap_shape h' (FS(l := pre @ ys)) A"
    using h' e blocks_ok_mset [OF ok(2)] by (simp add: heap_shape_def)
  moreover have "heap_step bs h h'" using h' same by (simp add: heap_step_def hsize_def)
  ultimately show ?thesis using h'(1) by blast
qed

lemma push_block:
  assumes ok: "heap_shape h FS (H # A)" and l: "l < list_count"
  shows "\<exists>h'. (do { f \<leftarrow> rd (freelist h) l; set_link (set_hnext h H f) (Freelist l) H }) = Some h' \<and>
    heap_shape h' (FS(l := H # FS l)) A \<and> heap_step (pool FS @ H # A) h h'"
proof -
  have c: "chains h FS" and len: "length (freelist h) = list_count"
    and b: "blocks_ok (hmem h) (unat (heap_end h)) (pool FS @ H # A)"
    using ok by (auto simp: heap_shape_def chains_def)
  let ?f = "freelist h ! l"
  let ?h = "set_hnext h H ?f"
  have c1: "chains ?h FS"
    unfolding set_hnext_def by (rule chains_write [OF c]) (use heap_shape_fresh [OF ok] in auto)
  have w: "a \<in> set (pool FS @ H # A) \<Longrightarrow> hmem ?h a = hmem h a" for a
    using block_words [OF b, of H a] by (auto simp: set_hnext_def)
  have b1: "blocks_ok (hmem ?h) (unat (heap_end ?h)) (pool FS @ H # A)"
    using b w by (subst blocks_ok_cong) (auto simp: set_hnext_def)
  have H: "H \<noteq> 0" using b by (auto simp: blocks_ok_iff block_ok_def)
  have "hchain (hmem ?h) ?f (FS l)" using c1 l by (auto simp: chains_def set_hnext_def)
  then have ch: "hchain (hmem ?h) H (H # FS l)" using H by (simp add: set_hnext_def)
  have d: "distinct ([] @ H # FS l)" using heap_shape_fresh [OF ok l] c l by (auto simp: chains_def)
  have ms: "mset (pool FS @ H # A) = mset (pool (FS(l := [] @ H # FS l)) @ A)"
    using mset_pool [OF l, of FS "H # FS l"] by simp
  have "\<exists>h'. set_link ?h (link_after l []) H = Some h' \<and> heap_shape h' (FS(l := [] @ H # FS l)) A \<and>
      heap_step (pool FS @ H # A) ?h h'"
    by (rule relink [OF c1 l, of "[]" "FS l"]) (use ch d ms b1 ok in \<open>auto simp: heap_shape_def set_hnext_def\<close>)
  then obtain h' where h': "set_link ?h (Freelist l) H = Some h'" "heap_shape h' (FS(l := H # FS l)) A"
    "heap_step (pool FS @ H # A) ?h h'" by auto
  have "heap_step (pool FS @ H # A) h ?h" using w by (simp add: heap_step_def set_hnext_def hsize_def)
  then show ?thesis using h' l len heap_step_trans by fastforce
qed

lemma general_list [simp]: "NRQUICKLISTS < list_count"
  by (simp add: list_count_def)

lemma chains_distinct: "chains h FS \<Longrightarrow> l < list_count \<Longrightarrow> FS l = xs \<Longrightarrow> distinct xs"
  by (auto simp: chains_def)

lemma pool_take_out:
  assumes "l < list_count" "FS l = pre @ p # post"
  shows "mset (pool FS @ A) = mset (p # pool (FS(l := pre @ post)) @ A)"
    "mset (x # pool (FS(l := pre @ post)) @ A) = mset (pool (FS(l := pre @ x # post)) @ A)"
    "set (pool (FS(l := pre @ post))) \<subseteq> set (pool FS)"
proof -
  show 1: "mset (pool FS @ A) = mset (p # pool (FS(l := pre @ post)) @ A)" for A
    using mset_pool [OF assms(1), of FS "pre @ post"] assms(2) by simp
  show "mset (x # pool (FS(l := pre @ post)) @ A) = mset (pool (FS(l := pre @ x # post)) @ A)"
    using mset_pool [OF assms(1), of "FS(l := pre @ x # post)" "pre @ post"] by simp
  show "set (pool (FS(l := pre @ post))) \<subseteq> set (pool FS)"
    using mset_eq_setD [OF 1 [of "[]"]] by auto
qed

text \<open>\<^term>\<open>p\<close>, a free block below \<^term>\<open>H\<close>, takes it in and leaves the list.\<close>

lemma merge_lower:
  assumes ok: "heap_shape h FS (H # A)" and l: "l < list_count" and xs: "FS l = pre @ p # post"
    and adj: "bend (hmem h) p = unat H"
  shows "\<exists>h'. (let h = set_hsize h p (hsize h p + (sizeof_Header + hsize h H)) in set_link h (link_after l pre) (hnext h p))
      = Some h' \<and> heap_shape h' (FS(l := pre @ post)) (p # A) \<and>
    unat (hsize h' p) = unat (hsize h p) + 8 + unat (hsize h H) \<and>
    (\<forall>a \<in> set (pool (FS(l := pre @ post)) @ A). hsize h' a = hsize h a) \<and> heap_step A h h'"
proof -
  have c: "chains h FS" and b: "blocks_ok (hmem h) (unat (heap_end h)) (pool FS @ H # A)"
    using ok by (auto simp: heap_shape_def)
  let ?h = "set_hsize h p (hsize h p + (sizeof_Header + hsize h H))"
  let ?F = "FS(l := pre @ post)"
  have p: "p \<in> set (pool FS)" using in_pool [OF l, of p FS] xs by simp
  have "mset (pool FS @ H # A) = mset (p # H # pool ?F @ A)" using pool_take_out(1) [where FS = FS, OF l xs, of "H # A"] by simp
  from b [unfolded blocks_ok_mset [OF this]] have b2: "blocks_ok (hmem h) (unat (heap_end h)) (p # H # pool ?F @ A)" .
  note m = blocks_ok_merge [OF this adj]
  have c1: "chains ?h FS"
    unfolding set_hsize_def
  proof (rule chains_write [OF c])
    fix x i assume "i < list_count" "x \<in> set (FS i)"
    then have "x \<in> set (pool FS)" by (rule in_pool)
    then have "x + 4 \<noteq> p" using block_words [OF b, of x p] p by simp
    then show "((hmem h)(p := hsize h p + (sizeof_Header + hsize h H))) (x + 4) = hmem h (x + 4)" by simp
  qed
  have d: "distinct (pre @ post)" using chains_distinct [OF c l xs] by auto
  have pA: "a \<in> set (pool ?F @ A) \<Longrightarrow> a \<noteq> p" for a using b2 by (auto dest: apart_neq)
  have "\<exists>h'. set_link ?h (link_after l pre) (hnext ?h p) = Some h' \<and> heap_shape h' ?F (p # A) \<and>
      heap_step (p # pool ?F @ A) ?h h'"
  proof (rule relink [OF c1 l xs])
    show "hnext ?h p = head_of post" "hchain (hmem ?h) (hnext ?h p) post" using hchain_hnext [OF c1 l xs] by auto
    show "blocks_ok (hmem ?h) (unat (heap_end ?h)) (p # pool ?F @ A)"
      using m by (simp add: set_hsize_def hsize_def sizeof_Header_def)
    show "i < list_count \<Longrightarrow> i \<noteq> l \<Longrightarrow> set (FS i) \<inter> set pre = {}" for i
      using heap_shape_disjoint [OF ok, of i l] l xs by auto
  qed (use d ok in \<open>auto simp: heap_shape_def set_hsize_def\<close>)
  then obtain h' where h': "set_link ?h (link_after l pre) (hnext ?h p) = Some h'" "heap_shape h' ?F (p # A)"
    "heap_step (p # pool ?F @ A) ?h h'" by blast
  have "hsize h' p = hsize h p + (8 + hsize h H)" using h'(3) by (simp add: heap_step_def hsize_def set_hsize_def sizeof_Header_def)
  then have sz: "unat (hsize h' p) = unat (hsize h p) + 8 + unat (hsize h H)" using m(2) by (simp add: hsize_def)
  have keep: "\<forall>a \<in> set (pool ?F @ A). hsize h' a = hsize h a"
    using h'(3) pA by (auto simp: heap_step_def hsize_def set_hsize_def)
  then have "heap_step A h h'" using h'(3) by (simp add: heap_step_def set_hsize_def)
  then show ?thesis using h'(1,2) sz keep by (simp add: Let_def)
qed

text \<open>\<^term>\<open>H\<close> takes in \<^term>\<open>p\<close>, a free block above it, and its place in the list.\<close>

lemma merge_upper:
  assumes ok: "heap_shape h FS (H # A)" and l: "l < list_count" and xs: "FS l = pre @ p # post"
    and adj: "bend (hmem h) H = unat p"
  shows "\<exists>h'. (let h = set_hsize h H (hsize h H + (sizeof_Header + hsize h p)); h = set_hnext h H (hnext h p)
      in set_link h (link_after l pre) H) = Some h' \<and> heap_shape h' (FS(l := pre @ H # post)) A \<and>
    unat (hsize h' H) = unat (hsize h H) + 8 + unat (hsize h p) \<and>
    (\<forall>a \<in> set (pool (FS(l := pre @ post)) @ A). hsize h' a = hsize h a) \<and> heap_step A h h'"
proof -
  have c: "chains h FS" and b: "blocks_ok (hmem h) (unat (heap_end h)) (pool FS @ H # A)"
    using ok by (auto simp: heap_shape_def)
  let ?h1 = "set_hsize h H (hsize h H + (sizeof_Header + hsize h p))"
  let ?h = "set_hnext ?h1 H (hnext ?h1 p)"
  let ?F = "FS(l := pre @ post)"
  have p: "p \<in> set (pool FS)" using in_pool [OF l, of p FS] xs by simp
  have "mset (pool FS @ H # A) = mset (H # p # pool ?F @ A)" using pool_take_out(1) [where FS = FS, OF l xs, of "H # A"] by simp
  from b [unfolded blocks_ok_mset [OF this]] have b2: "blocks_ok (hmem h) (unat (heap_end h)) (H # p # pool ?F @ A)" .
  note m = blocks_ok_merge [OF this adj]
  have HA: "a \<in> set (pool ?F @ A) \<Longrightarrow> a \<noteq> H" for a using b2 by (auto dest: apart_neq)
  have c1: "chains ?h FS"
    unfolding set_hsize_def set_hnext_def kheap.update_convs
  proof (simp, rule chains_write [OF c])
    fix x i assume i: "i < list_count" "x \<in> set (FS i)"
    then have "x \<in> set (pool FS)" by (rule in_pool)
    then have "x + 4 \<noteq> H" using block_words [OF b, of x H] by simp
    moreover have "x \<noteq> H" using heap_shape_fresh [OF ok] i by auto
    ultimately show "((hmem h)(H := hsize h H + (sizeof_Header + hsize h p),
        H + 4 := hnext (h\<lparr>hmem := (hmem h)(H := hsize h H + (sizeof_Header + hsize h p))\<rparr>) p)) (x + 4) = hmem h (x + 4)" by simp
  qed
  have d: "distinct (pre @ H # post)"
    using chains_distinct [OF c l xs] heap_shape_fresh [OF ok l] xs by auto
  have "p + 4 \<noteq> H" using block_words [OF b, of p H] p by simp
  moreover have "p \<noteq> H" using heap_shape_fresh [OF ok l] xs by auto
  ultimately have nx: "hnext ?h1 p = hnext h p" "hnext ?h p = hnext h p"
    by (auto simp: hnext_def set_hsize_def set_hnext_def)
  have ch: "hchain (hmem ?h) H (H # post)"
    using hchain_hnext [OF c1 l xs] b nx by (simp add: blocks_ok_iff block_ok_def hnext_def set_hnext_def)
  have w: "a \<in> set (H # pool ?F @ A) \<Longrightarrow> hmem ?h a = hmem ?h1 a" for a
    using block_words [OF b2, of H a] by (auto simp: set_hnext_def)
  have b1: "blocks_ok (hmem ?h) (unat (heap_end ?h)) (H # pool ?F @ A)"
    using m(1) w by (subst blocks_ok_cong [of _ _ "hmem ?h1"]) (auto simp: set_hsize_def set_hnext_def hsize_def sizeof_Header_def)
  have "\<exists>h'. set_link ?h (link_after l pre) H = Some h' \<and> heap_shape h' (FS(l := pre @ H # post)) A \<and>
      heap_step (H # pool ?F @ A) ?h h'"
  proof (rule relink [OF c1 l xs _ ch d _ b1 pool_take_out(2) [where FS = FS, OF l xs]])
    show "i < list_count \<Longrightarrow> i \<noteq> l \<Longrightarrow> set (FS i) \<inter> set pre = {}" for i
      using heap_shape_disjoint [OF ok, of i l] l xs by auto
  qed (use ok in \<open>auto simp: heap_shape_def set_hsize_def set_hnext_def\<close>)
  then obtain h' where h': "set_link ?h (link_after l pre) H = Some h'" "heap_shape h' (FS(l := pre @ H # post)) A"
    "heap_step (H # pool ?F @ A) ?h h'" by blast
  have "hsize h' H = hsize h H + (8 + hsize h p)"
    using h'(3) w [of H] by (simp add: heap_step_def hsize_def set_hsize_def sizeof_Header_def)
  then have sz: "unat (hsize h' H) = unat (hsize h H) + 8 + unat (hsize h p)" using m(2) by (simp add: hsize_def)
  have keep: "\<forall>a \<in> set (pool ?F @ A). hsize h' a = hsize h a"
    using h'(3) HA w by (auto simp: heap_step_def hsize_def set_hsize_def)
  then have "heap_step A h h'" using h'(3) by (simp add: heap_step_def set_hsize_def set_hnext_def)
  then show ?thesis using h'(1,2) sz keep by (simp add: Let_def)
qed

text \<open>The two tests of the scan, read as statements about where blocks end.\<close>

lemma adjacency_tests:
  assumes "block_ok (hmem h) e a" "e < 2 ^ 32"
  shows "a + hsize h a + sizeof_Header = b \<longleftrightarrow> bend (hmem h) a = unat b"
    "a + sizeof_Header + hsize h a = b \<longleftrightarrow> bend (hmem h) a = unat b"
  using unat_bend [OF assms] by (auto simp: hsize_def sizeof_Header_def word_unat_eq_iff)

lemma heap_shape_block:
  assumes "heap_shape h FS A" "a \<in> set (pool FS @ A)"
  shows "block_ok (hmem h) (unat (heap_end h)) a" "a \<noteq> 0"
  using assms by (auto simp: heap_shape_def blocks_ok_iff block_ok_def)

lemma heap_shape_tests:
  assumes "heap_shape h FS A" "a \<in> set (pool FS @ A)"
  shows "a + hsize h a + sizeof_Header = b \<longleftrightarrow> bend (hmem h) a = unat b"
    "a + sizeof_Header + hsize h a = b \<longleftrightarrow> bend (hmem h) a = unat b"
proof -
  have "unat (heap_end h) < 2 ^ 32" using assms(1) blocks_ok_less unfolding heap_shape_def by blast
  from adjacency_tests [OF heap_shape_block(1) [OF assms] this]
  show "a + hsize h a + sizeof_Header = b \<longleftrightarrow> bend (hmem h) a = unat b"
    "a + sizeof_Header + hsize h a = b \<longleftrightarrow> bend (hmem h) a = unat b" by blast+
qed

lemma bend_self: "bend m a \<noteq> unat a"
  by (simp add: bend_def)

lemma scan_end:
  assumes "chains h FS" "FS NRQUICKLISTS = pre"
  shows "kfree_scan (link_after NRQUICKLISTS pre) H merged h =
    (if merged then Some h else do { f \<leftarrow> rd (freelist h) NRQUICKLISTS; set_link (set_hnext h H f) (Freelist NRQUICKLISTS) H })"
  using get_link_after [OF assms(1) general_list, of pre "[]"] assms(2) by (subst kfree_scan.simps) simp

text \<open>A block that no free block touches is passed by.\<close>

lemma scan_pass:
  assumes "chains h FS" "FS NRQUICKLISTS = pre @ p # post" "p \<noteq> 0"
    "p + hsize h p + sizeof_Header \<noteq> H" "H + sizeof_Header + hsize h H \<noteq> p"
  shows "kfree_scan (link_after NRQUICKLISTS pre) H merged h = kfree_scan (link_after NRQUICKLISTS (pre @ [p])) H merged h"
  using get_link_after [OF assms(1) general_list assms(2)] assms(3-)
  by (subst kfree_scan.simps) simp

lemma scan_lower:
  assumes "chains h FS" "FS NRQUICKLISTS = pre @ p # post" "p \<noteq> 0" "p + hsize h p + sizeof_Header = H"
  shows "kfree_scan (link_after NRQUICKLISTS pre) H merged h =
    (let h = set_hsize h p (hsize h p + (sizeof_Header + hsize h H)) in set_link h (link_after NRQUICKLISTS pre) (hnext h p))
      \<bind> kfree_scan (Freelist NRQUICKLISTS) p merged"
  using get_link_after [OF assms(1) general_list assms(2)] assms(3-)
  by (subst kfree_scan.simps) (simp add: Let_def)

lemma scan_upper:
  assumes "chains h FS" "FS NRQUICKLISTS = pre @ p # post" "p \<noteq> 0" "p + hsize h p + sizeof_Header \<noteq> H"
    "H + sizeof_Header + hsize h H = p"
  shows "kfree_scan (link_after NRQUICKLISTS pre) H merged h =
    (let h = set_hsize h H (hsize h H + (sizeof_Header + hsize h p)); h = set_hnext h H (hnext h p)
      in set_link h (link_after NRQUICKLISTS pre) H) \<bind> kfree_scan (NextOf H) H True"
  using get_link_after [OF assms(1) general_list assms(2)] assms(3-)
  by (subst kfree_scan.simps) (simp add: Let_def)

lemma scan_pass_all:
  assumes "chains h FS" "FS NRQUICKLISTS = pre @ post"
    "\<forall>p \<in> set post. p \<noteq> 0 \<and> p + hsize h p + sizeof_Header \<noteq> H \<and> H + sizeof_Header + hsize h H \<noteq> p"
  shows "kfree_scan (link_after NRQUICKLISTS pre) H merged h =
    (if merged then Some h else do { f \<leftarrow> rd (freelist h) NRQUICKLISTS; set_link (set_hnext h H f) (Freelist NRQUICKLISTS) H })"
  using assms(2,3)
proof (induction post arbitrary: pre)
  case Nil
  then show ?case using scan_end [OF assms(1)] by simp
next
  case (Cons p post)
  then have "kfree_scan (link_after NRQUICKLISTS pre) H merged h = kfree_scan (link_after NRQUICKLISTS (pre @ [p])) H merged h"
    by (intro scan_pass [OF assms(1)]) auto
  with Cons show ?case by simp
qed


text \<open>Taking a free block off its list, whatever is written into its size field first.\<close>

lemma drop_block:
  assumes ok: "heap_shape h FS A" and l: "l < list_count" and xs: "FS l = pre @ p # post"
  shows "\<exists>h'. (let h = set_hsize h p v in set_link h (link_after l pre) (hnext h p)) = Some h' \<and>
    heap_shape h' (FS(l := pre @ post)) A \<and> hsize h' p = v \<and>
    (\<forall>a \<in> set (pool (FS(l := pre @ post)) @ A). hsize h' a = hsize h a) \<and> heap_step A h h'"
proof -
  have c: "chains h FS" and b: "blocks_ok (hmem h) (unat (heap_end h)) (pool FS @ A)"
    using ok by (auto simp: heap_shape_def)
  let ?h = "set_hsize h p v"
  let ?F = "FS(l := pre @ post)"
  have p: "p \<in> set (pool FS)" using in_pool [OF l, of p FS] xs by simp
  have "mset (pool FS @ A) = mset (p # pool ?F @ A)" using pool_take_out(1) [where FS = FS, OF l xs] .
  from b [unfolded blocks_ok_mset [OF this]] have b2: "blocks_ok (hmem h) (unat (heap_end h)) (p # pool ?F @ A)" .
  have pA: "a \<in> set (pool ?F @ A) \<Longrightarrow> a \<noteq> p" for a using b2 by (auto dest: apart_neq)
  have c1: "chains ?h FS"
    unfolding set_hsize_def
  proof (rule chains_write [OF c])
    fix x i assume "i < list_count" "x \<in> set (FS i)"
    then have "x \<in> set (pool FS)" by (rule in_pool)
    then have "x + 4 \<noteq> p" using block_words [OF b, of x p] p by simp
    then show "((hmem h)(p := v)) (x + 4) = hmem h (x + 4)" by simp
  qed
  have d: "distinct (pre @ p # post)" using chains_distinct [OF c l xs] .
  have other: "set (FS i) \<inter> set pre = {}" if "i < list_count" "i \<noteq> l" for i
    using heap_shape_disjoint [OF ok that(1) l that(2)] xs by auto
  from d have d': "distinct (pre @ post)" by auto
  from set_link_after [OF c1 l xs hchain_hnext(1) [OF c1 l xs] d' other]
  obtain h' where h': "set_link ?h (link_after l pre) (hnext ?h p) = Some h'" "chains h' ?F"
    "heap_end h' = heap_end ?h" "kmmu h' = kmmu ?h" "malloc_used_mem h' = malloc_used_mem ?h"
    "\<forall>a. (\<forall>x \<in> set pre. a \<noteq> x + 4) \<longrightarrow> hmem h' a = hmem ?h a" by blast
  have "a \<in> set (p # pool ?F @ A) \<Longrightarrow> x \<in> set pre \<Longrightarrow> a \<noteq> x + 4" for a x
    using block_words [OF b2, of x a] in_pool [OF l, of x ?F] by auto
  then have same: "a \<in> set (p # pool ?F @ A) \<Longrightarrow> hmem h' a = hmem ?h a" for a using h'(6) by blast
  have keep: "\<forall>a \<in> set (pool ?F @ A). hmem h' a = hmem h a" using same pA by (simp add: set_hsize_def)
  then have "heap_shape h' ?F A" using h' b2 ok
    by (simp add: heap_shape_def set_hsize_def blocks_ok_cong [of "pool ?F @ A" "hmem h'" "hmem h"])
  then show ?thesis using h' keep same [of p] by (simp add: Let_def heap_step_def hsize_def set_hsize_def)
qed

text \<open>
  The rest of the scan once the block has taken the place of its upper neighbour.  A lower
  neighbour further down the list is taken off the list and lost.
\<close>

lemma scan_merged:
  assumes ok: "heap_shape h FS A" and xs: "FS NRQUICKLISTS = pre @ post" and H: "H \<in> set pre"
    and adj: "\<forall>a \<in> set (FS NRQUICKLISTS). \<forall>b \<in> set (FS NRQUICKLISTS).
      bend (hmem h) a = unat b \<longrightarrow> b = H \<and> a \<in> set post"
  shows "\<exists>h' FS'. kfree_scan (link_after NRQUICKLISTS pre) H True h = Some h' \<and> heap_ok h' FS' A \<and>
    (\<forall>i. i \<noteq> NRQUICKLISTS \<longrightarrow> FS' i = FS i) \<and> H \<in> set (FS' NRQUICKLISTS) \<and> hsize h' H = hsize h H \<and> heap_step A h h'"
  using xs H adj
proof (induction post arbitrary: pre)
  case Nil
  then have "coalesced (hmem h) (FS NRQUICKLISTS)" by (auto simp: coalesced_def)
  then show ?case using Nil ok scan_end [of h FS pre H True]
    by (auto simp: heap_ok_shape heap_shape_def heap_step_def)
next
  case (Cons q post)
  let ?m = "hmem h"
  have c: "chains h FS" using ok by (simp add: heap_shape_def)
  have inl: "x \<in> set (FS NRQUICKLISTS) \<Longrightarrow> x \<in> set (pool FS @ A)" for x
    using in_pool [OF general_list, of x FS] by simp
  have q: "q \<in> set (FS NRQUICKLISTS)" "H \<in> set (FS NRQUICKLISTS)" using Cons.prems by auto
  have nz: "x \<in> set (FS NRQUICKLISTS) \<Longrightarrow> x \<noteq> 0" for x using heap_shape_block [OF ok inl] by blast
  note tq = heap_shape_tests [OF ok inl [OF q(1)]] and tH = heap_shape_tests [OF ok inl [OF q(2)]]
  have d: "distinct (pre @ q # post)" using chains_distinct [OF c general_list Cons.prems(1)] .
  then have qH: "q \<noteq> H" using Cons.prems(2) by auto
  have up: "bend ?m H \<noteq> unat q" using Cons.prems(3) q qH by blast
  show ?case
  proof (cases "bend ?m q = unat H")
    case False
    have "kfree_scan (link_after NRQUICKLISTS pre) H True h = kfree_scan (link_after NRQUICKLISTS (pre @ [q])) H True h"
      using False up tq tH nz q by (intro scan_pass [OF c Cons.prems(1)]) auto
    moreover have "\<forall>a \<in> set (FS NRQUICKLISTS). \<forall>b \<in> set (FS NRQUICKLISTS).
      bend ?m a = unat b \<longrightarrow> b = H \<and> a \<in> set post" using Cons.prems(3) False by force
    note IH = Cons.IH [of "pre @ [q]", OF _ _ this]
    ultimately show ?thesis using IH Cons.prems(1,2) by (simp del: link_after_snoc)
  next
    case True
    let ?F = "FS(NRQUICKLISTS := pre @ post)"
    let ?v = "hsize h q + (sizeof_Header + hsize h H)"
    from drop_block [OF ok general_list Cons.prems(1), of ?v] obtain h1 where
      h1: "(let h = set_hsize h q ?v in set_link h (link_after NRQUICKLISTS pre) (hnext h q)) = Some h1"
      "heap_shape h1 ?F A" "hsize h1 q = ?v" "\<forall>a \<in> set (pool ?F @ A). hsize h1 a = hsize h a" "heap_step A h h1" by blast
    have inF: "x \<in> set (pre @ post) \<Longrightarrow> x \<in> set (pool ?F @ A)" for x using in_pool [OF general_list, of x ?F] by simp
    have bends: "x \<in> set (pre @ post) \<Longrightarrow> bend (hmem h1) x = bend ?m x" for x
      using h1(4) inF [of x] by (simp add: bend_def hsize_def)
    have c1: "chains h1 ?F" using h1(2) by (simp add: heap_shape_def)
    have vq: "q + sizeof_Header + ?v = H + sizeof_Header + hsize h H"
      using True tq(1) [of H] by (simp add: ac_simps)
    have none: "x \<noteq> 0 \<and> x + hsize h1 x + sizeof_Header \<noteq> q \<and> q + sizeof_Header + hsize h1 q \<noteq> x"
      if x: "x \<in> set (pre @ post)" for x
    proof -
      have xl: "x \<in> set (FS NRQUICKLISTS)" using x Cons.prems(1) by auto
      have "bend ?m x \<noteq> unat q" using Cons.prems(3) xl q(1) qH by blast
      then have "bend (hmem h1) x \<noteq> unat q" using bends [OF x] by simp
      moreover have "bend ?m H \<noteq> unat x"
        using Cons.prems(3) xl q(2) bend_self [of ?m H] by metis
      ultimately show ?thesis
        using heap_shape_tests [OF h1(2) inF [OF x]] tH nz [OF xl] h1(3) vq by metis
    qed
    have "kfree_scan (link_after NRQUICKLISTS []) q True h1 = Some h1"
      using scan_pass_all [OF c1, of "[]" "pre @ post" q True] none by simp
    then have run: "kfree_scan (link_after NRQUICKLISTS pre) H True h = Some h1"
      using scan_lower [OF c Cons.prems(1) nz [OF q(1)], of H True] True tq h1(1) by simp
    have "coalesced (hmem h1) (?F NRQUICKLISTS)"
      unfolding coalesced_def
    proof (intro ballI notI)
      fix a b assume ab: "a \<in> set (?F NRQUICKLISTS)" "b \<in> set (?F NRQUICKLISTS)" "bend (hmem h1) a = unat b"
      then have al: "a \<in> set (FS NRQUICKLISTS)" "b \<in> set (FS NRQUICKLISTS)" and "bend ?m a = unat b" "a \<noteq> q"
        using Cons.prems(1) bends d by auto
      with Cons.prems(3) have "bend ?m a = unat H" by blast
      moreover have "apart ?m a q" using ok inl [OF al(1)] inl [OF q(1)] \<open>a \<noteq> q\<close>
        by (simp add: heap_shape_def blocks_ok_iff)
      ultimately show False using True by (auto simp: apart_def bend_def)
    qed
    then have "heap_ok h1 ?F A" using h1(2) by (simp add: heap_ok_shape)
    moreover have "hsize h1 H = hsize h H" using h1(4) inF [of H] Cons.prems(2) by simp
    ultimately show ?thesis using run h1(5) Cons.prems(2)
      by (intro exI [of _ h1] exI [of _ ?F] conjI) (simp_all del: fun_upd_apply add: fun_upd_same fun_upd_other)
  qed
qed

text \<open>The bytes of a block with its header.\<close>

definition block_bytes :: "kheap \<Rightarrow> u32 \<Rightarrow> nat set" where
  "block_bytes h q = {unat q ..< bend (hmem h) q}"

lemma block_bytes_eq: "hsize h' q = hsize h q \<Longrightarrow> block_bytes h' q = block_bytes h q"
  by (simp add: block_bytes_def bend_def hsize_def)

lemma scan_ok:
  assumes "heap_ok h FS (H # A)" "FS NRQUICKLISTS = pre @ post"
    "\<forall>p \<in> set pre. bend (hmem h) p \<noteq> unat H \<and> bend (hmem h) H \<noteq> unat p"
  shows "\<exists>h' FS'. kfree_scan (link_after NRQUICKLISTS pre) H False h = Some h' \<and> heap_ok h' FS' A \<and>
    (\<forall>i. i \<noteq> NRQUICKLISTS \<longrightarrow> FS' i = FS i) \<and> heap_step A h h' \<and>
    (\<exists>b \<in> set (FS' NRQUICKLISTS). hsize h H \<le> hsize h' b \<and> block_bytes h H \<subseteq> block_bytes h' b)"
  using assms
proof (induction "length (FS NRQUICKLISTS)" arbitrary: h FS H pre post rule: less_induct)
  case less
  note outer = less.hyps
  have ok: "heap_shape h FS (H # A)" and co: "coalesced (hmem h) (FS NRQUICKLISTS)"
    using less.prems(1) by (auto simp: heap_ok_shape)
  have c: "chains h FS" using ok by (simp add: heap_shape_def)
  let ?m = "hmem h"
  have inl: "x \<in> set (FS NRQUICKLISTS) \<Longrightarrow> x \<in> set (pool FS @ H # A)" for x
    using in_pool [OF general_list, of x FS] by simp
  have HH: "H \<in> set (pool FS @ H # A)" by simp
  note tH = heap_shape_tests [OF ok HH]
  from less.prems(2,3) show ?case
  proof (induction post arbitrary: pre)
    case Nil
    from push_block [OF ok general_list] obtain h' where h':
      "(do { f \<leftarrow> rd (freelist h) NRQUICKLISTS; set_link (set_hnext h H f) (Freelist NRQUICKLISTS) H }) = Some h'"
      "heap_shape h' (FS(NRQUICKLISTS := H # FS NRQUICKLISTS)) A" "heap_step (pool FS @ H # A) h h'" by blast
    have sz: "a \<in> set (pool FS @ H # A) \<Longrightarrow> hmem h' a = ?m a" for a
      using h'(3) by (auto simp: heap_step_def hsize_def)
    have "coalesced (hmem h') (H # FS NRQUICKLISTS)"
      using co Nil sz inl bend_self by (auto simp: coalesced_def bend_def)
    then have "heap_ok h' (FS(NRQUICKLISTS := H # FS NRQUICKLISTS)) A" using h'(2) by (simp add: heap_ok_shape)
    moreover have "kfree_scan (link_after NRQUICKLISTS pre) H False h = Some h'"
      using scan_end [OF c, of pre H False] Nil h'(1) by simp
    moreover have "heap_step A h h'" by (rule heap_step_mono [OF h'(3)]) auto
    moreover have "hsize h' H = hsize h H" using sz [of H] by (simp add: hsize_def)
    moreover from this have "block_bytes h' H = block_bytes h H" by (rule block_bytes_eq)
    ultimately show ?case by (intro exI [of _ h'] exI [of _ "FS(NRQUICKLISTS := H # FS NRQUICKLISTS)"] conjI)
        (simp_all del: fun_upd_apply add: fun_upd_same fun_upd_other)
  next
    case (Cons p post)
    have p: "p \<in> set (FS NRQUICKLISTS)" using Cons.prems(1) by simp
    note tp = heap_shape_tests [OF ok inl [OF p]]
    have p0: "p \<noteq> 0" using heap_shape_block [OF ok inl [OF p]] by blast
    let ?F = "FS(NRQUICKLISTS := pre @ post)"
    consider (low) "bend ?m p = unat H" | (up) "bend ?m p \<noteq> unat H" "bend ?m H = unat p"
      | (no) "bend ?m p \<noteq> unat H" "bend ?m H \<noteq> unat p" by blast
    then show ?case
    proof cases
      case no
      then have "kfree_scan (link_after NRQUICKLISTS pre) H False h = kfree_scan (link_after NRQUICKLISTS (pre @ [p])) H False h"
        using tp tH p0 by (intro scan_pass [OF c Cons.prems(1)]) auto
      moreover have "\<forall>q \<in> set (pre @ [p]). bend ?m q \<noteq> unat H \<and> bend ?m H \<noteq> unat q" using Cons.prems(2) no by auto
      note Cons.IH [OF _ this]
      ultimately show ?thesis using Cons.prems(1) by (simp del: link_after_snoc)
    next
      case low
      from merge_lower [OF ok general_list Cons.prems(1) low] obtain h1 where
        h1: "(let h = set_hsize h p (hsize h p + (sizeof_Header + hsize h H)) in set_link h (link_after NRQUICKLISTS pre) (hnext h p)) = Some h1"
        "heap_shape h1 ?F (p # A)" "unat (hsize h1 p) = unat (hsize h p) + 8 + unat (hsize h H)"
        "\<forall>a \<in> set (pool ?F @ A). hsize h1 a = hsize h a" "heap_step A h h1" by blast
      have "a \<in> set (pre @ post) \<Longrightarrow> hsize h1 a = hsize h a" for a
        using h1(4) in_pool [OF general_list, of a ?F] by simp
      then have "coalesced (hmem h1) (?F NRQUICKLISTS)"
        using co Cons.prems(1) by (auto simp: coalesced_def bend_def hsize_def)
      then have "heap_ok h1 ?F (p # A)" using h1(2) by (simp add: heap_ok_shape)
      from outer [OF _ this, of "[]" "pre @ post"] Cons.prems(1) obtain h' FS' where
        r: "kfree_scan (Freelist NRQUICKLISTS) p False h1 = Some h'" "heap_ok h' FS' A"
        "\<forall>i. i \<noteq> NRQUICKLISTS \<longrightarrow> FS' i = ?F i" "heap_step A h1 h'"
        "\<exists>b \<in> set (FS' NRQUICKLISTS). hsize h1 p \<le> hsize h' b \<and> block_bytes h1 p \<subseteq> block_bytes h' b" by auto
      have "kfree_scan (link_after NRQUICKLISTS pre) H False h = Some h'"
        using scan_lower [OF c Cons.prems(1) p0, of H False] low tp(1) h1(1) r(1) by simp
      moreover have "hsize h H \<le> hsize h1 p" using h1(3) by (simp add: word_le_nat_alt)
      moreover have "block_bytes h H \<subseteq> block_bytes h1 p" using h1(3) low by (auto simp: block_bytes_def bend_def hsize_def)
      ultimately show ?thesis using r heap_step_trans [OF h1(5) r(4)]
        by (intro exI [of _ h'] exI [of _ FS'] conjI) (auto intro: order_trans)
    next
      case up
      let ?G = "FS(NRQUICKLISTS := pre @ H # post)"
      from merge_upper [OF ok general_list Cons.prems(1) up(2)] obtain h1 where
        h1: "(let h = set_hsize h H (hsize h H + (sizeof_Header + hsize h p)); h = set_hnext h H (hnext h p)
            in set_link h (link_after NRQUICKLISTS pre) H) = Some h1"
        "heap_shape h1 ?G A" "unat (hsize h1 H) = unat (hsize h H) + 8 + unat (hsize h p)"
        "\<forall>a \<in> set (pool ?F @ A). hsize h1 a = hsize h a" "heap_step A h h1" by blast
      have keep: "a \<in> set (pre @ post) \<Longrightarrow> bend (hmem h1) a = bend ?m a" for a
        using h1(4) in_pool [OF general_list, of a ?F] by (simp add: bend_def hsize_def)
      have bH: "bend (hmem h1) H = bend ?m p" using h1(3) up(2) by (simp add: bend_def hsize_def)
      have adj: "\<forall>a \<in> set (?G NRQUICKLISTS). \<forall>b \<in> set (?G NRQUICKLISTS). bend (hmem h1) a = unat b \<longrightarrow> b = H \<and> a \<in> set post"
      proof (intro ballI impI)
        fix a b assume ab: "a \<in> set (?G NRQUICKLISTS)" "b \<in> set (?G NRQUICKLISTS)" "bend (hmem h1) a = unat b"
        let ?a = "if a = H then p else a"
        have a: "?a \<in> set (FS NRQUICKLISTS)" "bend ?m ?a = unat b"
          using ab keep bH Cons.prems(1) by (auto split: if_splits)
        then have "b = H" using co ab(2) Cons.prems(1) by (auto simp: coalesced_def)
        moreover have "a \<noteq> H" using a(2) \<open>b = H\<close> up(1) by auto
        moreover have "a \<notin> set pre" using Cons.prems(2) a(2) calculation by auto
        ultimately show "b = H \<and> a \<in> set post" using ab(1) by auto
      qed
      have "\<exists>h' FS'. kfree_scan (link_after NRQUICKLISTS (pre @ [H])) H True h1 = Some h' \<and> heap_ok h' FS' A \<and>
          (\<forall>i. i \<noteq> NRQUICKLISTS \<longrightarrow> FS' i = ?G i) \<and> H \<in> set (FS' NRQUICKLISTS) \<and> hsize h' H = hsize h1 H \<and> heap_step A h1 h'"
        by (rule scan_merged [OF h1(2) _ _ adj]) auto
      then obtain h' FS' where r: "kfree_scan (NextOf H) H True h1 = Some h'" "heap_ok h' FS' A"
        "\<forall>i. i \<noteq> NRQUICKLISTS \<longrightarrow> FS' i = FS i" "H \<in> set (FS' NRQUICKLISTS)" "hsize h' H = hsize h1 H" "heap_step A h1 h'" by auto
      have "kfree_scan (link_after NRQUICKLISTS pre) H False h = Some h'"
        using scan_upper [OF c Cons.prems(1) p0, of H False] up tp(1) tH(2) h1(1) r(1) by simp
      moreover have "hsize h H \<le> hsize h' H" using h1(3) r(5) by (simp add: word_le_nat_alt)
      moreover have "block_bytes h H \<subseteq> block_bytes h' H" using h1(3) r(5) by (auto simp: block_bytes_def bend_def hsize_def)
      ultimately show ?thesis using r heap_step_trans [OF h1(5) r(6)] by blast
    qed
  qed
qed

text \<open>
  What \<^verbatim>\<open>kfree\<close> writes: the headers of the block and of the blocks on the general list.  \<open>S\<close> are the blocks
  the scan may come across.
\<close>

definition links_in :: "u32 set \<Rightarrow> kheap \<Rightarrow> bool" where
  "links_in S h \<longleftrightarrow> (\<forall>f. rd (freelist h) NRQUICKLISTS = Some f \<longrightarrow> f \<in> insert 0 S) \<and> (\<forall>x \<in> S. hnext h x \<in> insert 0 S)"

definition link_of :: "u32 set \<Rightarrow> hlink \<Rightarrow> bool" where
  "link_of S it \<longleftrightarrow> it = Freelist NRQUICKLISTS \<or> (\<exists>x \<in> S. it = NextOf x)"

definition same_but :: "u32 set \<Rightarrow> kheap \<Rightarrow> kheap \<Rightarrow> bool" where
  "same_but S h h' \<longleftrightarrow> (\<forall>a. (\<forall>x \<in> S. a \<noteq> x \<and> a \<noteq> x + 4) \<longrightarrow> hmem h' a = hmem h a)"

lemma same_but_trans: "same_but S h h1 \<Longrightarrow> same_but S h1 h2 \<Longrightarrow> same_but S h h2"
  by (simp add: same_but_def)

lemma same_but_refl: "same_but S h h"
  by (simp add: same_but_def)

lemma get_link_in: "links_in S h \<Longrightarrow> link_of S it \<Longrightarrow> get_link h it = Some p \<Longrightarrow> p = 0 \<or> p \<in> S"
  by (auto simp: links_in_def link_of_def)

lemma set_hsize_in:
  assumes "\<forall>x \<in> S. \<forall>y \<in> S. x + 4 \<noteq> y" "G \<subseteq> S" "links_in G h" "x \<in> S"
  shows "links_in G (set_hsize h x v) \<and> same_but S h (set_hsize h x v)"
proof -
  have "hnext (set_hsize h x v) y = hnext h y" if "y \<in> G" for y
  proof -
    have "y + 4 \<noteq> x" using assms(1,2,4) that by blast
    then show ?thesis by (simp add: set_hsize_def hnext_def)
  qed
  then have "links_in G (set_hsize h x v)" using assms(3) by (simp add: links_in_def set_hsize_def)
  then show ?thesis using assms(4) by (auto simp: same_but_def set_hsize_def)
qed

lemma set_hnext_in:
  assumes "links_in G h" "x \<in> S" "v = 0 \<or> v \<in> G"
  shows "links_in (insert x G) (set_hnext h x v) \<and> same_but S h (set_hnext h x v)"
  using assms by (auto simp: links_in_def same_but_def set_hnext_def hnext_def)

lemma set_link_in:
  assumes "links_in G h" "G \<subseteq> S" "link_of G it" "v = 0 \<or> v \<in> G" "set_link h it v = Some h'"
  shows "links_in G h' \<and> same_but S h h'"
proof (cases it)
  case (Freelist i)
  then have "i = NRQUICKLISTS" using assms(3) by (auto simp: link_of_def)
  then have "h' = h\<lparr>freelist := (freelist h)[NRQUICKLISTS := v]\<rparr>" using assms(5) Freelist by (auto simp: wr_eq_Some)
  then show ?thesis using assms(1,4) by (auto simp: links_in_def same_but_def hnext_def rd_eq_Some)
next
  case (NextOf x)
  then show ?thesis using assms set_hnext_in [of G h x S v] by (auto simp: link_of_def insert_absorb)
qed

lemma scan_frame:
  "kfree_scan it H mg h = Some h' \<Longrightarrow> \<forall>x \<in> S. \<forall>y \<in> S. x + 4 \<noteq> y \<Longrightarrow>
    \<forall>G. G \<subseteq> S \<longrightarrow> H \<in> S \<longrightarrow> link_of G it \<longrightarrow> links_in G h \<longrightarrow> same_but S h h'"
proof (induction rule: kfree_scan.raw_induct [rotated, consumes 1, case_names 1])
  case (1 scan it H mg h h')
  show ?case
  proof (intro allI impI)
    fix G assume a: "G \<subseteq> S" "H \<in> S" "link_of G it" "links_in G h"
    note IH = 1(1) [OF _ 1(3), rule_format]
    have link: "link_of (insert x G) it" "link_of G (Freelist NRQUICKLISTS)" "link_of (insert x G) (NextOf x)" for x
      using a(3) by (auto simp: link_of_def)
    from 1(2) obtain p where p: "get_link h it = Some p" by (auto simp: bind_eq_Some_conv)
    consider (stop) "p = 0" | (low) "p \<in> G" "p \<noteq> 0" "p + hsize h p + sizeof_Header = H"
      | (up) "p \<in> G" "p \<noteq> 0" "p + hsize h p + sizeof_Header \<noteq> H" "H + sizeof_Header + hsize h H = p"
      | (pass) "p \<in> G" "p \<noteq> 0" "p + hsize h p + sizeof_Header \<noteq> H" "H + sizeof_Header + hsize h H \<noteq> p"
      using get_link_in [OF a(4,3) p] by blast
    then show "same_but S h h'"
    proof cases
      case stop
      show ?thesis
      proof (cases mg)
        case False
        then obtain f where f: "rd (freelist h) NRQUICKLISTS = Some f"
          "set_link (set_hnext h H f) (Freelist NRQUICKLISTS) H = Some h'"
          using 1(2) p stop by (auto simp: bind_eq_Some_conv)
        have "f = 0 \<or> f \<in> G" using f(1) a(4) by (auto simp: links_in_def)
        note s1 = set_hnext_in [OF a(4,2) this]
        have "same_but S (set_hnext h H f) h'"
          using set_link_in [OF conjunct1 [OF s1] _ _ _ f(2)] a(1,2) by (simp add: link_of_def)
        then show ?thesis using s1 same_but_trans by blast
      qed (use 1(2) p stop same_but_refl in simp)
    next
      case low
      let ?h = "set_hsize h p (hsize h p + (sizeof_Header + hsize h H))"
      obtain h1 where h1: "set_link ?h it (hnext ?h p) = Some h1" "scan (Freelist NRQUICKLISTS) p mg h1 = Some h'"
        using 1(2) p low by (auto simp: bind_eq_Some_conv Let_def)
      have pS: "p \<in> S" using low(1) a(1) by blast
      note s1 = set_hsize_in [OF 1(3) a(1,4) pS, of "hsize h p + (sizeof_Header + hsize h H)"]
      have "hnext ?h p = 0 \<or> hnext ?h p \<in> G" using s1 low(1) by (auto simp: links_in_def)
      note s2 = set_link_in [OF conjunct1 [OF s1] a(1,3) this h1(1)]
      have "same_but S h1 h'" using IH [OF h1(2) a(1) pS link(2)] s2 by blast
      then show ?thesis using s1 s2 same_but_trans by blast
    next
      case up
      let ?h1 = "set_hsize h H (hsize h H + (sizeof_Header + hsize h p))"
      let ?h = "set_hnext ?h1 H (hnext ?h1 p)"
      obtain h1 where h1: "set_link ?h it H = Some h1" "scan (NextOf H) H True h1 = Some h'"
        using 1(2) p up by (auto simp: bind_eq_Some_conv Let_def)
      have GS: "insert H G \<subseteq> S" using a(1,2) by simp
      note s1 = set_hsize_in [OF 1(3) a(1,4,2), of "hsize h H + (sizeof_Header + hsize h p)"]
      have "hnext ?h1 p = 0 \<or> hnext ?h1 p \<in> G" using s1 up(1) by (auto simp: links_in_def)
      note s2 = set_hnext_in [OF conjunct1 [OF s1] a(2) this]
      have "H = 0 \<or> H \<in> insert H G" by simp
      note s3 = set_link_in [OF conjunct1 [OF s2] GS link(1) this h1(1)]
      have "same_but S h1 h'" using IH [OF h1(2) GS a(2) link(3)] s3 by blast
      then show ?thesis using s1 s2 s3 same_but_trans by blast
    next
      case pass
      then have "scan (NextOf p) H mg h = Some h'" using 1(2) p by simp
      moreover have "link_of G (NextOf p)" using pass(1) by (auto simp: link_of_def)
      ultimately show ?thesis using IH a(1,2,4) by blast
    qed
  qed
qed

lemma hchain_links: "hchain m p xs \<Longrightarrow> (p = 0 \<or> p \<in> set xs) \<and> (\<forall>x \<in> set xs. m (x + 4) = 0 \<or> m (x + 4) \<in> set xs)"
  by (induction xs arbitrary: p) fastforce+

lemma kfree_general:
  assumes ok: "heap_ok h FS (H # A)" and l: "quicklist (hsize h H) = NRQUICKLISTS"
  shows "\<exists>h' FS'. kfree (H + sizeof_Header) h = Some h' \<and> heap_ok h' FS' A \<and> heap_step A h h' \<and>
    (\<exists>b \<in> set (FS' NRQUICKLISTS). hsize h H \<le> hsize h' b \<and> block_bytes h H \<subseteq> block_bytes h' b)"
proof -
  have b: "block_ok (hmem h) (unat (heap_end h)) H" "unat (heap_end h) < 2 ^ 32"
    using ok by (auto simp: heap_ok_def blocks_ok_iff)
  then have "unat (H + 8) = unat H + 8" by (subst unat_add_lem [THEN iffD1]) (auto simp: block_ok_def bend_def)
  then have "H + 8 \<noteq> 0" by auto
  with scan_ok [OF ok, of "[]" "FS NRQUICKLISTS"] l show ?thesis
    by (auto simp: kfree_def Let_def sizeof_Header_def)
qed

lemma quicklist_le [simp]: "quicklist s \<le> NRQUICKLISTS" "quicklist s < list_count"
  using find_slot_le [of "\<lambda>l. \<not> s > push_bit l 8" "[0..<NRQUICKLISTS]"]
  by (simp_all add: quicklist_def list_count_def)

lemma kfree_ok:
  assumes ok: "heap_ok h FS (H # A)"
  shows "\<exists>h' FS'. kfree (H + sizeof_Header) h = Some h' \<and> heap_ok h' FS' A \<and> heap_step A h h' \<and>
    (\<exists>b \<in> set (pool FS'). block_bytes h H \<subseteq> block_bytes h' b)"
proof (cases "quicklist (hsize h H) = NRQUICKLISTS")
  case True
  then show ?thesis using kfree_general [OF ok] in_pool [OF general_list] by metis
next
  case False
  let ?l = "quicklist (hsize h H)"
  have less: "?l < NRQUICKLISTS" "?l < list_count" using False le_neq_implies_less [OF quicklist_le(1)] by simp_all
  have shape: "heap_shape h FS (H # A)" and co: "coalesced (hmem h) (FS NRQUICKLISTS)" using ok by (auto simp: heap_ok_shape)
  from push_block [OF shape less(2)] obtain h' where
    h': "(do { f \<leftarrow> rd (freelist h) ?l; set_link (set_hnext h H f) (Freelist ?l) H }) = Some h'"
    "heap_shape h' (FS(?l := H # FS ?l)) A" "heap_step (pool FS @ H # A) h h'" by blast
  have b: "block_ok (hmem h) (unat (heap_end h)) H" "unat (heap_end h) < 2 ^ 32"
    using ok by (auto simp: heap_ok_def blocks_ok_iff)
  then have "unat (H + 8) = unat H + 8" by (subst unat_add_lem [THEN iffD1]) (auto simp: block_ok_def bend_def)
  then have "H + 8 \<noteq> 0" by auto
  then have run: "kfree (H + sizeof_Header) h = Some h'"
    using h'(1) less by (simp add: kfree_def Let_def sizeof_Header_def)
  have "a \<in> set (FS NRQUICKLISTS) \<Longrightarrow> hmem h' a = hmem h a" for a
    using h'(3) in_pool [OF general_list, of a FS] by (auto simp: heap_step_def hsize_def)
  then have "coalesced (hmem h') ((FS(?l := H # FS ?l)) NRQUICKLISTS)"
    using co False by (auto simp: coalesced_def bend_def)
  then have "heap_ok h' (FS(?l := H # FS ?l)) A" using h'(2) by (simp add: heap_ok_shape)
  moreover have "heap_step A h h'" by (rule heap_step_mono [OF h'(3)]) auto
  moreover have "block_bytes h' H = block_bytes h H" using h'(3) by (intro block_bytes_eq) (simp add: heap_step_def)
  moreover have "H \<in> set (pool (FS(?l := H # FS ?l)))" by (rule in_pool [OF less(2)]) simp
  ultimately show ?thesis using run by blast
qed

lemma kfree_frame:
  assumes ok: "heap_ok h FS (H # A)" and r: "kfree (H + sizeof_Header) h = Some h'" and B: "B \<in> set A"
    and a: "unat B + 8 \<le> unat a" "unat a < bend (hmem h) B"
  shows "hmem h' a = hmem h a"
proof -
  have c: "chains h FS" and b: "blocks_ok (hmem h) (unat (heap_end h)) (pool FS @ H # A)"
    using ok by (auto simp: heap_ok_def)
  let ?S = "insert H (set (FS NRQUICKLISTS))"
  have S: "?S \<subseteq> set (pool FS @ H # A)" using in_pool [OF general_list, of _ FS] by auto
  have away: "a \<noteq> x \<and> a \<noteq> x + 4" if x: "x \<in> set (pool FS @ H # A)" "x \<noteq> B" for x
  proof -
    have "B \<in> set (pool FS @ H # A)" using B by simp
    then have "apart (hmem h) x B" "block_ok (hmem h) (unat (heap_end h)) x" "unat (heap_end h) < 2 ^ 32"
      using b x by (simp_all add: blocks_ok_iff del: set_append set_simps)
    then have "apart (hmem h) x B" "bend (hmem h) x < 2 ^ 32" by (simp_all add: block_ok_def)
    moreover from this(2) have "unat (x + 4) = unat x + 4" by (subst unat_add_lem [THEN iffD1]) (auto simp: bend_def)
    ultimately show ?thesis using a by (auto simp: apart_def bend_def)
  qed
  have BS: "B \<notin> ?S" using b B in_pool [OF general_list, of _ FS] by (auto simp: blocks_ok_iff)
  have head: "\<forall>x \<in> ?S. a \<noteq> x \<and> a \<noteq> x + 4" using away S BS by blast
  show ?thesis
  proof (cases "quicklist (hsize h H) < NRQUICKLISTS")
    case True
    then show ?thesis using r head
      by (auto simp: kfree_def Let_def sizeof_Header_def bind_eq_Some_conv set_hnext_def split: if_splits)
  next
    case False
    have w: "\<forall>x \<in> ?S. \<forall>y \<in> ?S. x + 4 \<noteq> y" using block_words [OF b] S by blast
    have "hchain (hmem h) (freelist h ! NRQUICKLISTS) (FS NRQUICKLISTS)" using c by (simp add: chains_def)
    from hchain_links [OF this] have l: "links_in (set (FS NRQUICKLISTS)) h" by (auto simp: links_in_def hnext_def rd_eq_Some)
    have "kfree_scan (Freelist NRQUICKLISTS) H False h = Some h' \<or> h' = h"
      using r False by (auto simp: kfree_def Let_def sizeof_Header_def split: if_splits)
    then have "same_but ?S h h'"
      using scan_frame [OF _ w, rule_format, OF _ subset_insertI insertI1 _ l] same_but_refl [of ?S h] by (auto simp: link_of_def)
    then show ?thesis using head by (simp add: same_but_def)
  qed
qed

section \<open>Allocating a block\<close>

lemma unat_and_not_mask:
  "unat ((w :: u32) AND NOT (mask n)) = unat w div 2 ^ n * 2 ^ n" if "n < 32"
proof -
  have "w AND NOT (mask n) = push_bit n (drop_bit n w)"
    by (rule bit_eqI) (auto simp: bit_and_iff bit_not_iff bit_mask_iff bit_push_bit_iff bit_drop_bit_eq)
  moreover have "unat (push_bit n (drop_bit n w)) = take_bit 32 (push_bit n (unat w div 2 ^ n))"
  proof -
    have "unat w < 2 ^ 32" using unsigned_less [of w] by simp
    then have "take_bit 32 (unat w) = unat w" by (rule take_bit_nat_eq_self)
    then have "unat (drop_bit n w) = unat w div 2 ^ n"
      by (simp add: unsigned_drop_bit_eq) (simp add: drop_bit_eq_div)
    then show ?thesis by (simp add: unsigned_push_bit_eq)
  qed
  moreover have "unat w div 2 ^ n * 2 ^ n < 2 ^ 32"
  proof (rule le_less_trans)
    show "unat w div 2 ^ n * 2 ^ n \<le> unat w" by (rule div_times_less_eq_dividend)
    show "unat w < 2 ^ 32" using unsigned_less [of w] by simp
  qed
  ultimately show ?thesis by (simp add: push_bit_eq_mult take_bit_nat_eq_self)
qed


lemma unat_ALIGNWITH:
  assumes "unat x + 2 ^ n \<le> 2 ^ 32" "n < 32"
  shows "unat (ALIGNWITH x (2 ^ n)) = (unat x + (2 ^ n - 1)) div 2 ^ n * 2 ^ n"
    "unat x \<le> unat (ALIGNWITH x (2 ^ n))"
proof -
  have m: "(2 :: u32) ^ n - 1 = mask n" by (simp add: mask_eq_exp_minus_1)
  have um: "unat (mask n :: u32) = 2 ^ n - 1"
  proof -
    have less: "(2 :: nat) ^ n < 2 ^ 32" using assms(2) by (rule power_strict_increasing) simp
    have "mask n = (of_nat (2 ^ n - 1) :: u32)" by (simp add: mask_eq_exp_minus_1 of_nat_diff)
    then show ?thesis using less by (simp add: unat_of_nat del: of_nat_diff)
  qed
  have "unat (x + mask n) = unat x + (2 ^ n - 1)"
    using assms um by (subst unat_add_lem [THEN iffD1]) auto
  then show eq: "unat (ALIGNWITH x (2 ^ n)) = (unat x + (2 ^ n - 1)) div 2 ^ n * 2 ^ n"
    using unat_and_not_mask [OF assms(2)] by (simp add: ALIGNWITH_def m)
  have "unat x + (2 ^ n - 1) < Suc ((unat x + (2 ^ n - 1)) div 2 ^ n) * 2 ^ n"
    by (metis dividend_less_div_times zero_less_numeral zero_less_power mult_Suc add.commute)
  then show "unat x \<le> unat (ALIGNWITH x (2 ^ n))" unfolding eq by simp
qed

lemma ALIGN_with: "ALIGN x = ALIGNWITH x (2 ^ 2)"
  by (simp add: ALIGN_def ALIGNWITH_def)

text \<open>Rounding up to a multiple of four stays within any multiple of four above.\<close>

lemma ALIGN_bounds:
  assumes "x \<le> y" "4 dvd unat y"
  shows "x \<le> ALIGN x" "ALIGN x \<le> y" "4 dvd unat (ALIGN x)" "ALIGN y = y"
proof -
  have y: "unat x \<le> unat y" "unat y + 4 \<le> 2 ^ 32"
  proof -
    have "unat y < 2 ^ 32" using unsigned_less [of y] by simp
    moreover have "(4 :: nat) dvd 2 ^ 32" by simp
    ultimately show "unat y + 4 \<le> 2 ^ 32" using assms(2) by presburger
  qed (use assms(1) in \<open>simp add: word_le_nat_alt\<close>)
  have fx: "unat (ALIGN x) = (unat x + 3) div 4 * 4" "unat x \<le> unat (ALIGN x)"
    using unat_ALIGNWITH [of x 2] y by (simp_all add: ALIGN_with)
  have fy: "unat (ALIGN y) = (unat y + 3) div 4 * 4"
    using unat_ALIGNWITH [of y 2] y by (simp add: ALIGN_with)
  show "x \<le> ALIGN x" using fx by (simp add: word_le_nat_alt)
  show "4 dvd unat (ALIGN x)" using fx by simp
  obtain k where k: "unat y = 4 * k" using assms(2) by blast
  have "(a + 3) div 4 * 4 \<le> 4 * k" "(4 * k + 3) div 4 * 4 = 4 * k" if "a \<le> 4 * k" for a using that by presburger+
  with y(1) k have "(unat x + 3) div 4 * 4 \<le> unat y" "(unat y + 3) div 4 * 4 = unat y" by simp_all
  then show "ALIGN x \<le> y" "ALIGN y = y" unfolding word_le_nat_alt word_unat_eq_iff fx(1) fy by blast+
qed

lemma take_block_ok:
  assumes ok: "heap_ok h FS A" and l: "l < list_count" and xs: "FS l = pre @ H # post" and fit: "s \<le> hsize h H"
  shows "\<exists>h' FS'. take_block s (link_after l pre) H h = Some h' \<and> heap_ok h' FS' (H # A) \<and>
    s \<le> hsize h' H \<and> heap_step A h h'"
proof -
  have shape: "heap_shape h FS A" and co: "coalesced (hmem h) (FS NRQUICKLISTS)"
    using ok by (auto simp: heap_ok_shape)
  have c: "chains h FS" and b: "blocks_ok (hmem h) (unat (heap_end h)) (pool FS @ A)"
    using shape by (auto simp: heap_shape_def)
  let ?F = "FS(l := pre @ post)"
  have ms: "mset (pool FS @ A) = mset (H # pool ?F @ A)" by (rule pool_take_out(1) [where FS = FS, OF l xs])
  from b [unfolded blocks_ok_mset [OF ms]] have b2: "blocks_ok (hmem h) (unat (heap_end h)) (H # pool ?F @ A)" .
  have HA: "a \<in> set (pool ?F @ A) \<Longrightarrow> a \<noteq> H" for a using b2 by (auto dest: apart_neq)
  have d: "distinct (pre @ H # post)" using chains_distinct [OF c l xs] .
  have other: "i < list_count \<Longrightarrow> i \<noteq> l \<Longrightarrow> set (FS i) \<inter> set pre = {}" for i
    using heap_shape_disjoint [OF shape, of i l] l xs by auto
  have al: "s \<le> ALIGN s" "ALIGN s \<le> hsize h H" "4 dvd unat (ALIGN s)" "ALIGN (hsize h H) = hsize h H"
    using ALIGN_bounds [OF fit] b2 by (auto simp: block_ok_def hsize_def)
  have small: "unat (hsize h H) + 8 < 2 ^ 32" using b2 blocks_ok_less [OF b2] by (auto simp: block_ok_def bend_def hsize_def)
  then have n8: "unat (ALIGN s + 8) = unat (ALIGN s) + 8"
    using al(2) by (subst unat_add_lem [THEN iffD1]) (auto simp: word_le_nat_alt)
  show ?thesis
  proof (cases "hsize h H > ALIGN s + sizeof_Header")
    case False
    have "\<exists>h'. set_link h (link_after l pre) (hnext h H) = Some h' \<and> heap_shape h' ?F (H # A) \<and>
        heap_step (H # pool ?F @ A) h h'"
      by (rule relink [OF c l xs hchain_hnext(2) [OF c l xs] hchain_hnext(1) [OF c l xs] _ other b2])
        (use d shape in \<open>auto simp: heap_shape_def\<close>)
    then obtain h' where h': "set_link h (link_after l pre) (hnext h H) = Some h'" "heap_shape h' ?F (H # A)"
      "heap_step (H # pool ?F @ A) h h'" by blast
    have "a \<in> set (?F NRQUICKLISTS) \<Longrightarrow> hmem h' a = hmem h a" for a
      using h'(3) in_pool [OF general_list, of a ?F] by (auto simp: heap_step_def hsize_def)
    then have "coalesced (hmem h') (?F NRQUICKLISTS)"
      using co xs by (auto simp: coalesced_def bend_def split: if_splits)
    then have "heap_ok h' ?F (H # A)" using h'(2) by (simp add: heap_ok_shape)
    moreover have "take_block s (link_after l pre) H h = Some h'" using False al h'(1) by (simp add: take_block_def)
    moreover have "s \<le> hsize h' H" using h'(3) fit by (simp add: heap_step_def)
    moreover have "heap_step A h h'" by (rule heap_step_mono [OF h'(3)]) auto
    ultimately show ?thesis by blast
  next
    case True
    define N where "N = H + 8 + ALIGN s"
    let ?n = "ALIGN s"
    let ?m = "(hmem h)(N := hsize h H - (?n + 8), H := ?n)"
    have lt: "unat ?n + 8 < unat (hmem h H)" using True n8 by (simp add: word_less_nat_alt hsize_def sizeof_Header_def)
    note sp = blocks_ok_split [OF b2 lt al(3), folded hsize_def N_def]
    let ?h = "h\<lparr>hmem := ?m(N + 4 := hmem h (H + 4))\<rparr>"
    have w: "a \<in> set (H # N # pool ?F @ A) \<Longrightarrow> a \<noteq> N + 4 \<and> H + 4 \<noteq> a" for a
      using block_words [OF sp(1), of N a] block_words [OF sp(1), of H a] by auto
    have inU: "x \<in> set (FS i) \<Longrightarrow> i < list_count \<Longrightarrow> x \<in> set (H # pool ?F @ A)" for x i
      using in_pool [of i x FS] mset_eq_setD [OF ms] by auto
    have NU: "N \<notin> set (H # pool ?F @ A)" using sp(1,2) by (auto dest: apart_neq)
    have c1: "chains ?h FS"
    proof (rule chains_write [OF c])
      fix x i assume "i < list_count" "x \<in> set (FS i)"
      then have x: "x \<in> set (H # pool ?F @ A)" by (intro inU)
      then have "x \<noteq> N" "x + 4 \<noteq> N" "x + 4 \<noteq> H"
        using NU block_words [OF sp(1), of x N] block_words [OF sp(1), of x H] by auto
      then show "(?m(N + 4 := hmem h (H + 4))) (x + 4) = hmem h (x + 4)" by simp
    qed
    have b3: "blocks_ok (hmem ?h) (unat (heap_end ?h)) (H # N # pool ?F @ A)"
      using sp(1) w by (subst blocks_ok_cong [of _ _ ?m]) (auto simp: hsize_def)
    have N0: "N \<noteq> 0" using b3 by (auto simp: block_ok_def)
    have ch: "hchain (hmem ?h) N (N # post)"
      using hchain_hnext(1) [OF c1 l xs] N0 w [of N] sp(2) by (simp add: hnext_def)
    have Npre: "N \<notin> set (pre @ H # post)" using NU inU [of N l] xs l by auto
    let ?G = "FS(l := pre @ N # post)"
    have "mset (H # N # pool ?F @ A) = mset (pool ?G @ H # A)"
      using pool_take_out(2) [where FS = FS, OF l xs, of N "H # A"] by simp
    then have "\<exists>h'. set_link ?h (link_after l pre) N = Some h' \<and> heap_shape h' ?G (H # A) \<and>
        heap_step (H # N # pool ?F @ A) ?h h'"
      by (intro relink [OF c1 l xs _ ch _ other b3]) (use d Npre shape in \<open>auto simp: heap_shape_def\<close>)
    then obtain h' where h': "set_link ?h (link_after l pre) N = Some h'" "heap_shape h' ?G (H # A)"
      "heap_step (H # N # pool ?F @ A) ?h h'" by blast
    have sz: "a \<in> set (H # N # pool ?F @ A) \<Longrightarrow> hmem h' a = ?m a" for a
      using h'(3) w by (auto simp: heap_step_def hsize_def)
    have same: "a \<in> set (pool ?F @ A) \<Longrightarrow> hmem h' a = hmem h a" for a
      using sz [of a] HA [of a] NU by auto
    have bN: "bend (hmem h') N = bend (hmem h) H" "bend (hmem h') H = unat N"
      using sz [of N] sz [of H] sp(2-4) by (auto simp: bend_def hsize_def)
    have co': "coalesced (hmem h') (?G NRQUICKLISTS)"
      unfolding coalesced_def
    proof (intro ballI notI)
      fix x y assume xy: "x \<in> set (?G NRQUICKLISTS)" "y \<in> set (?G NRQUICKLISTS)" "bend (hmem h') x = unat y"
      have mem: "z \<in> set (?G NRQUICKLISTS) \<Longrightarrow> z \<noteq> N \<Longrightarrow>
          z \<in> set (pool ?F @ A) \<and> z \<in> set (FS NRQUICKLISTS) \<and> bend (hmem h') z = bend (hmem h) z" for z
        using in_pool [OF general_list, of z ?F] same xs d by (auto simp: bend_def split: if_splits)
      have Hin: "H \<in> set (FS NRQUICKLISTS)" if "N \<in> set (?G NRQUICKLISTS)"
        using that NU inU [OF _ general_list, of N] xs by (auto split: if_splits)
      show False
      proof (cases "y = N")
        case True
        then have "x \<noteq> N" using xy(3) bend_self by metis
        then have x: "x \<in> set (pool ?F @ A)" "bend (hmem h) x = unat N" using mem [OF xy(1)] xy(3) True by auto
        then have "apart (hmem h) H x" using b2 by auto
        then show False using x(2) bN lt sz [of H] by (auto simp: apart_def bend_def)
      next
        case False
        let ?x = "if x = N then H else x"
        have "?x \<in> set (FS NRQUICKLISTS)" "bend (hmem h) ?x = unat y" using mem xy Hin bN by auto
        then show False using co mem [OF xy(2) False] unfolding coalesced_def by blast
      qed
    qed
    have "take_block s (link_after l pre) H h = Some h'"
    proof -
      have "set_hnext (set_hsize (set_hsize h N (hsize h H - (?n + 8))) H ?n) N
          (hnext (set_hsize (set_hsize h N (hsize h H - (?n + 8))) H ?n) H) = ?h"
        using w [of N] w [of H] by (simp add: set_hnext_def set_hsize_def hnext_def)
      then show ?thesis using True al(4) h'(1) by (simp add: take_block_def Let_def sizeof_Header_def N_def)
    qed
    moreover have "heap_ok h' ?G (H # A)" using h'(2) co' by (simp only: heap_ok_shape simp_thms)
    moreover have "s \<le> hsize h' H" using sz [of H] al(1) sp(2) by (simp add: hsize_def)
    moreover have "heap_step A h h'" using h'(3) same by (auto simp: heap_step_def hsize_def)
    ultimately show ?thesis by blast
  qed
qed

lemma kmalloc_found:
  assumes ok: "heap_ok h FS A" and l: "l < list_count" and fit: "b \<in> set (FS l)" "s \<le> hsize h b"
  shows "\<exists>H h' FS'. kmalloc_loop l s h = Some (H + sizeof_Header, h') \<and> heap_ok h' FS' (H # A) \<and>
    s \<le> hsize h' H \<and> heap_step A h h'"
proof -
  have c: "chains h FS" using ok by (simp add: heap_ok_def)
  let ?pre = "takeWhile (\<lambda>p. hsize h p < s) (FS l)"
  have ne: "dropWhile (\<lambda>p. hsize h p < s) (FS l) \<noteq> []" using fit by (auto simp: dropWhile_eq_Nil_conv not_less)
  then obtain H post where dw: "dropWhile (\<lambda>p. hsize h p < s) (FS l) = H # post" by (meson neq_Nil_conv)
  have xs: "FS l = ?pre @ H # post" using takeWhile_dropWhile_id [of "\<lambda>p. hsize h p < s" "FS l"] dw by simp
  have "\<not> hsize h H < s" using hd_dropWhile [OF ne] dw by simp
  then have H: "s \<le> hsize h H" by simp
  have find: "find_fit s (Freelist l) h = Some (link_after l ?pre)"
    using find_fit_after [OF c l, of "[]"] by simp
  have "H \<in> set (FS l)" by (subst xs) simp
  then have "H \<noteq> 0" using ok in_pool [OF l, of H FS] by (auto simp: heap_ok_def blocks_ok_iff block_ok_def)
  with take_block_ok [OF ok l xs H] find get_link_after [OF c l xs] show ?thesis
    by (subst kmalloc_loop.simps) auto
qed

section \<open>Growing the heap\<close>

lemma ksbrk_result:
  assumes "ksbrk n h = Some (p, h')"
  shows "p = heap_end h" "heap_end h' = heap_end h + n" "hmem h' = hmem h" "freelist h' = freelist h"
    "malloc_used_mem h' = malloc_used_mem h"
  using assms by (auto simp: ksbrk_def Let_def bind_eq_Some_conv)

lemma ksbrk_used:
  "ksbrk n (h\<lparr>malloc_used_mem := u\<rparr>) = map_option (\<lambda>(p, h). (p, h\<lparr>malloc_used_mem := u\<rparr>)) (ksbrk n h)"
  by (auto simp: ksbrk_def Let_def split: Option.bind_splits)

lemma blocks_ok_mono: "blocks_ok m e bs \<Longrightarrow> e \<le> e' \<Longrightarrow> e' < 2 ^ 32 \<Longrightarrow> blocks_ok m e' bs"
  by (induction bs) (auto simp: block_ok_def)

lemma add_block_on_top:
  assumes ok: "heap_ok h FS A" and n: "8 \<le> unat n" "4 dvd unat n" "unat (heap_end h) + unat n < 2 ^ 32"
    and h': "heap_end h' = heap_end h + n" "hmem h' = (hmem h)(heap_end h := n - 8)" "freelist h' = freelist h"
  shows "heap_ok h' FS (heap_end h # A)" "unat (n - 8) = unat n - 8"
proof -
  let ?H = "heap_end h"
  show n8: "unat (n - 8) = unat n - 8" using n(1) by (subst unat_sub) (auto simp: word_le_nat_alt)
  have e: "unat (heap_end h') = unat ?H + unat n" using h'(1) n(3) by (subst h'(1), subst unat_add_lem [THEN iffD1]) auto
  have b: "blocks_ok (hmem h) (unat ?H) (pool FS @ A)" using ok by (simp add: heap_ok_def)
  have below: "a \<in> set (pool FS @ A) \<Longrightarrow> bend (hmem h) a \<le> unat ?H" for a
    using b by (auto simp: blocks_ok_iff block_ok_def)
  then have ne: "a \<in> set (pool FS @ A) \<Longrightarrow> a \<noteq> ?H" for a by (fastforce simp: bend_def)
  have same: "a \<in> set (pool FS @ A) \<Longrightarrow> hmem h' a = hmem h a" for a using ne h'(2) by simp
  have bH: "bend (hmem h') ?H = unat (heap_end h')" using n8 n(1) e h'(2) by (simp add: bend_def)
  have "blocks_ok (hmem h') (unat (heap_end h')) (?H # pool FS @ A)"
  proof -
    have "blocks_ok (hmem h) (unat (heap_end h')) (pool FS @ A)"
      using blocks_ok_mono [OF b] e n(3) by simp
    then have "blocks_ok (hmem h') (unat (heap_end h')) (pool FS @ A)" using same by (subst blocks_ok_cong) auto
    moreover have "block_ok (hmem h') (unat (heap_end h')) ?H"
      using ok bH n n8 h'(2) by (simp add: block_ok_def heap_ok_def dvd_diff_nat)
    moreover have "\<forall>a \<in> set (pool FS @ A). apart (hmem h') ?H a"
      using below same by (auto simp: apart_def bend_def)
    ultimately show ?thesis by simp
  qed
  then have "blocks_ok (hmem h') (unat (heap_end h')) (pool FS @ ?H # A)"
    using blocks_ok_mset [of "pool FS @ ?H # A" "?H # pool FS @ A"] by simp
  moreover have "chains h' FS"
  proof -
    have "x + 4 \<noteq> ?H" if "x \<in> set (pool FS)" for x
    proof
      assume "x + 4 = ?H"
      moreover have "unat x + 8 \<le> unat ?H" "unat ?H < 2 ^ 32" using below [of x] that b by (auto simp: bend_def dest: blocks_ok_less)
      moreover from this have "unat (x + 4) = unat x + 4" by (subst unat_add_lem [THEN iffD1]) auto
      ultimately show False by simp
    qed
    then have "chains (h\<lparr>hmem := hmem h'\<rparr>) FS"
      using ok in_pool h'(2) by (intro chains_write) (auto simp: heap_ok_def)
    then show ?thesis using h'(3) by (simp add: chains_def)
  qed
  moreover have "coalesced (hmem h') (FS NRQUICKLISTS)"
    using ok same in_pool [OF general_list, of _ FS] by (auto simp: heap_ok_def coalesced_def bend_def)
  moreover have "4 dvd unat (heap_end h')" "heap_end h' \<noteq> 0" using e ok n by (auto simp: heap_ok_def)
  ultimately show "heap_ok h' FS (?H # A)" by (simp add: heap_ok_def)
qed

text \<open>Cutting a block into equal pieces.\<close>

fun pieces :: "nat \<Rightarrow> u32 \<Rightarrow> u32 \<Rightarrow> u32 list" where
  "pieces 0 piece a = []"
| "pieces (Suc n) piece a = a # pieces n piece (a + piece + 8)"

lemma pieces_last_above:
  assumes "unat a + (unat piece + 8) * Suc k < 2 ^ 32"
  shows "\<forall>x \<in> set (pieces (Suc k) piece a). unat a \<le> unat x \<and> unat x + 8 < 2 ^ 32"
  using assms
proof (induction k arbitrary: a)
  case (Suc k)
  have "unat (a + piece) = unat a + unat piece" using Suc.prems by (subst unat_add_lem [THEN iffD1]) auto
  then have u: "unat (a + piece + 8) = unat a + unat piece + 8" using Suc.prems by (subst unat_add_lem [THEN iffD1]) auto
  have "unat (a + piece + 8) + (unat piece + 8) * Suc k < 2 ^ 32" using Suc.prems u by simp
  from Suc.IH [OF this] u Suc.prems show ?case by auto
qed auto

lemma unat_plus_small: "unat (a :: u32) + n < 2 ^ 32 \<Longrightarrow> unat (a + of_nat n) = unat a + n"
  by (subst unat_add_lem [THEN iffD1]) (auto simp: unat_of_nat)

lemma next_piece:
  assumes "unat a + (unat piece + 8) < 2 ^ 32"
  shows "unat (a + piece + (8 :: u32)) = unat a + (unat piece + 8)"
proof -
  have "unat (a + piece) = unat a + unat piece" using assms by (subst unat_add_lem [THEN iffD1]) auto
  then show ?thesis using assms unat_plus_small [of "a + piece" 8] by simp
qed

lemma pieces_ok:
  assumes "unat a + (unat piece + 8) * n \<le> e" "e < 2 ^ 32" "a \<noteq> 0" "4 dvd unat a" "4 dvd unat piece"
    "\<forall>x \<in> set (pieces n piece a). m x = piece"
    "blocks_ok m e bs" "\<forall>b \<in> set bs. bend m b \<le> unat a"
  shows "blocks_ok m e (pieces n piece a @ bs) \<and>
    (\<forall>x \<in> set (pieces n piece a). unat a \<le> unat x)"
  using assms
proof (induction n arbitrary: a)
  case (Suc n)
  let ?b = "a + piece + 8"
  show ?case
  proof (cases n)
    case 0
    then show ?thesis using Suc.prems by (auto simp: block_ok_def bend_def apart_def)
  next
    case (Suc k)
    have u: "unat ?b = unat a + (unat piece + 8)" using Suc.prems Suc by (intro next_piece) auto
    have IH: "blocks_ok m e (pieces n piece ?b @ bs)" "\<forall>x \<in> set (pieces n piece ?b). unat ?b \<le> unat x"
    proof -
      have "unat ?b + (unat piece + 8) * n \<le> e" using Suc.prems(1) u by simp
      moreover have "?b \<noteq> 0" using u by auto
      moreover have "4 dvd unat ?b" unfolding u using Suc.prems(4,5) by simp
      moreover have "\<forall>b \<in> set bs. bend m b \<le> unat ?b" using Suc.prems(8) u by auto
      moreover have "\<forall>x \<in> set (pieces n piece ?b). m x = piece" using Suc.prems(6) by simp
      ultimately show "blocks_ok m e (pieces n piece ?b @ bs)" "\<forall>x \<in> set (pieces n piece ?b). unat ?b \<le> unat x"
        using Suc.IH [of ?b] Suc.prems(2,5,7) by blast+
    qed
    have ba: "bend m a = unat ?b" using u Suc.prems(6) by (simp add: bend_def)
    have "block_ok m e a" using Suc.prems ba u by (simp add: block_ok_def)
    moreover have "apart m a x" if "x \<in> set (pieces n piece ?b @ bs)" for x
      using that IH(2) ba Suc.prems(8) by (auto simp: apart_def)
    ultimately have "blocks_ok m e (pieces (Suc n) piece a @ bs)" using IH(1) by simp
    moreover have "\<forall>x \<in> set (pieces (Suc n) piece a). unat a \<le> unat x"
      using IH(2) u by (simp add: ball_conj_distrib) (metis add_leE)
    ultimately show ?thesis by blast
  qed
qed simp

lemma cut_pieces_ok:
  assumes "unat cur + (unat piece + 8) * Suc k < 2 ^ 32" "cur \<noteq> 0" "cut_pieces (Suc k) piece tmp cur h = (t, h')"
  shows "t = Some (last (pieces (Suc k) piece cur)) \<and> freelist h' = freelist h \<and> heap_end h' = heap_end h \<and>
    kmmu h' = kmmu h \<and> malloc_used_mem h' = malloc_used_mem h \<and>
    (\<forall>a. unat a < unat cur \<longrightarrow> hmem h' a = hmem h a) \<and>
    (\<forall>x \<in> set (pieces (Suc k) piece cur). hmem h' x = piece) \<and>
    (\<forall>f fs. hchain (hmem h) f fs \<longrightarrow> (\<forall>x \<in> set fs. unat x + 4 < unat cur) \<longrightarrow>
       hchain ((hmem h')(last (pieces (Suc k) piece cur) + 4 := f)) cur (pieces (Suc k) piece cur @ fs))"
  using assms
proof (induction k arbitrary: cur tmp h)
  case (0 cur tmp h)
  have c4: "cur \<noteq> cur + 4" by simp
  have u4: "unat (cur + 4) = unat cur + 4" using 0 unat_plus_small [of cur 4] by simp
  have ch: "hchain ((hmem h)(cur := piece, cur + 4 := f)) f fs"
    if "hchain (hmem h) f fs" "\<forall>x \<in> set fs. unat x + 4 < unat cur" for f fs
  proof -
    have "x + 4 \<noteq> cur" "x \<noteq> cur" if "x \<in> set fs" for x
      using that \<open>\<forall>x \<in> set fs. unat x + 4 < unat cur\<close> 0 unat_plus_small [of x 4] by force+
    then show ?thesis using that(1) by (subst hchain_cong [of fs _ "hmem h"]) auto
  qed
  have m: "hmem h' = (hmem h)(cur := piece, cur + 4 := cur + piece + sizeof_Header)"
    using 0 by (auto simp: set_hsize_def set_hnext_def Let_def)
  have "t = Some cur" "freelist h' = freelist h" "heap_end h' = heap_end h" "kmmu h' = kmmu h" "malloc_used_mem h' = malloc_used_mem h"
    using 0 by (auto simp: set_hsize_def set_hnext_def Let_def)
  moreover have "(hmem h')(cur + 4 := f) = (hmem h)(cur := piece, cur + 4 := f)" for f using m by simp
  then have "hchain ((hmem h')(cur + 4 := f)) cur (cur # fs)"
    if "hchain (hmem h) f fs" "\<forall>x \<in> set fs. unat x + 4 < unat cur" for f fs
    using ch [OF that] 0(2) by simp
  moreover have "\<forall>a. unat a < unat cur \<longrightarrow> hmem h' a = hmem h a" "hmem h' cur = piece" using m u4 by auto
  ultimately show ?case by (simp del: fun_upd_apply add: fun_upd_same)
next
  case (Suc k cur tmp h)
  let ?b = "cur + piece + 8"
  let ?h = "set_hnext (set_hsize h cur piece) cur ?b"
  have u: "unat ?b = unat cur + (unat piece + 8)" using Suc.prems(1) by (intro next_piece) auto
  have u4: "unat (cur + 4) = unat cur + 4" using Suc.prems(1) unat_plus_small [of cur 4] by simp
  have m: "hmem ?h = (hmem h)(cur := piece, cur + 4 := ?b)" by (simp add: set_hsize_def set_hnext_def)
  have run: "cut_pieces (Suc k) piece (Some cur) ?b ?h = (t, h')"
    using Suc.prems(3) by (simp add: Let_def hnext_def m sizeof_Header_def)
  have "unat ?b + (unat piece + 8) * Suc k < 2 ^ 32" "?b \<noteq> 0" using Suc.prems(1) u by auto
  note IH = Suc.IH [OF this run] and above = pieces_last_above [OF this(1)]
  let ?ps = "pieces (Suc k) piece ?b"
  have ne: "?ps \<noteq> []" by simp
  have lst: "last (pieces (Suc (Suc k)) piece cur) = last ?ps" by simp
  have keep: "hmem h' a = hmem ?h a" if "unat a < unat ?b" for a using IH that by blast
  have hc: "hmem h' cur = piece" "hmem h' (cur + 4) = ?b"
    using keep [of cur] keep [of "cur + 4"] u u4 m by auto
  have lo: "hmem h' a = hmem h a" if a: "unat a < unat cur" for a
  proof -
    have "a \<noteq> cur" "a \<noteq> cur + 4" using a u4 by auto
    then show ?thesis using keep [of a] u m a by simp
  qed
  have ch: "hchain ((hmem h')(last ?ps + 4 := f)) cur (pieces (Suc (Suc k)) piece cur @ fs)"
    if f: "hchain (hmem h) f fs" "\<forall>x \<in> set fs. unat x + 4 < unat cur" for f fs
  proof -
    have "x + 4 \<noteq> cur" "x \<noteq> cur" if "x \<in> set fs" for x
      using that f(2) Suc.prems(1) unat_plus_small [of x 4] by force+
    then have "hchain (hmem ?h) f fs" using f(1) m by (subst hchain_cong [of fs _ "hmem h"]) auto
    moreover have "\<forall>x \<in> set fs. unat x + 4 < unat ?b" using f(2) u by auto
    ultimately have "hchain ((hmem h')(last ?ps + 4 := f)) ?b (?ps @ fs)" using IH by blast
    moreover have "unat ?b \<le> unat (last ?ps)" using above last_in_set [OF ne] by blast
    with u have "unat (last ?ps) \<noteq> unat cur" by linarith
    then have "last ?ps \<noteq> cur" by (rule contrapos_nn) (rule arg_cong)
    ultimately show ?thesis using hc Suc.prems(2) by simp
  qed
  have sz: "\<forall>x \<in> set (pieces (Suc (Suc k)) piece cur). hmem h' x = piece" using IH hc by auto
  have "t = Some (last ?ps)" "freelist h' = freelist h" "heap_end h' = heap_end h" "kmmu h' = kmmu h"
    "malloc_used_mem h' = malloc_used_mem h" using IH by (auto simp: set_hsize_def set_hnext_def)
  then show ?case unfolding lst using lo ch sz by blast
qed

lemma pool_distinct:
  assumes "distinct (pool FS)" "i < list_count"
  shows "distinct (FS i)"
proof -
  have "distinct (concat (map FS is)) \<Longrightarrow> i \<in> set is \<Longrightarrow> distinct (FS i)" for "is" by (induction "is") auto
  from this [of "[0..<list_count]"] assms show ?thesis by (simp add: pool_def)
qed

lemma quicklist_piece:
  assumes "quicklist s < NRQUICKLISTS"
  shows "s \<le> push_bit (quicklist s) 8" "unat (push_bit (quicklist s) 8 :: u32) = 8 * 2 ^ quicklist s"
    "unat (push_bit (quicklist s) 8 :: u32) \<le> 64"
proof -
  let ?P = "\<lambda>l. \<not> s > push_bit l 8"
  have "find_slot ?P [0..<NRQUICKLISTS] < length [0..<NRQUICKLISTS]" using assms by (simp add: quicklist_def)
  from find_slot_holds [OF this] show "s \<le> push_bit (quicklist s) 8"
    using assms by (simp add: quicklist_def)
  have "quicklist s = 0 \<or> quicklist s = 1 \<or> quicklist s = 2 \<or> quicklist s = 3"
    using assms by (auto simp: NRQUICKLISTS_def)
  then show "unat (push_bit (quicklist s) 8 :: u32) = 8 * 2 ^ quicklist s"
    "unat (push_bit (quicklist s) 8 :: u32) \<le> 64"
    by (auto simp: push_bit_eq_mult)
qed

text \<open>The new block of a quick list, cut up; it is the topmost block of the heap.\<close>

lemma fill_quicklist_ok:
  assumes ok: "heap_ok h FS (H # A)" and top: "\<forall>a \<in> set (pool FS @ A). bend (hmem h) a \<le> unat H"
    and l: "l < NRQUICKLISTS" and piece: "unat (push_bit l 8 :: u32) = 8 * 2 ^ l"
    and big: "unat (push_bit l 8 :: u32) \<le> unat (hsize h H)"
  shows "\<exists>h' FS'. fill_quicklist l H h = Some h' \<and> heap_ok h' FS' A \<and> heap_step A h h' \<and>
    H \<in> set (FS' l) \<and> hsize h' H = push_bit l 8"
proof -
  let ?p = "push_bit l 8 :: u32"
  have lc: "l < list_count" "l \<noteq> NRQUICKLISTS" using l by (auto simp: list_count_def)
  have c: "chains h FS" and b: "blocks_ok (hmem h) (unat (heap_end h)) (pool FS @ H # A)" using ok by (auto simp: heap_ok_def)
  have bb: "blocks_ok (hmem h) (unat (heap_end h)) (H # pool FS @ A)"
    using b blocks_ok_mset [of "pool FS @ H # A" "H # pool FS @ A"] by simp
  then have H: "bend (hmem h) H \<le> unat (heap_end h)" "H \<noteq> 0" "4 dvd unat H" and e: "unat (heap_end h) < 2 ^ 32"
    using blocks_ok_less [OF bb] by (auto simp: block_ok_def)
  let ?tot = "hsize h H + sizeof_Header"
  let ?n = "unat (?tot div (?p + sizeof_Header))"
  have ut: "unat ?tot = unat (hsize h H) + 8" "unat (?p + sizeof_Header) = unat ?p + 8"
    using H(1) e big unat_plus_small [of "hsize h H" 8] unat_plus_small [of ?p 8]
    by (auto simp: bend_def hsize_def sizeof_Header_def)
  have n: "?n = (unat (hsize h H) + 8) div (unat ?p + 8)" using ut by (simp add: unat_div)
  have "1 \<le> ?n" unfolding n using big by (simp add: div_greater_zero_iff Suc_le_eq)
  then obtain k where k: "?n = Suc k" by (cases ?n) auto
  have room: "(unat ?p + 8) * Suc k \<le> unat (hsize h H) + 8"
    unfolding k [symmetric] n by (rule times_div_less_eq_dividend)
  have fits: "unat H + (unat ?p + 8) * Suc k \<le> unat (heap_end h)" using room H(1) by (simp add: bend_def hsize_def)
  obtain t h1 where cut: "cut_pieces (Suc k) ?p None H h = (t, h1)" by force
  let ?ps = "pieces (Suc k) ?p H"
  have lt: "unat H + (unat ?p + 8) * Suc k < 2 ^ 32" using fits e by linarith
  note r = cut_pieces_ok [OF lt H(2) cut]
  let ?f = "freelist h ! l"
  let ?h = "set_hnext h1 (last ?ps) ?f"
  have above: "\<forall>x \<in> set ?ps. unat H \<le> unat x \<and> unat x + 8 < 2 ^ 32" using pieces_last_above [OF lt] .
  have lst: "last ?ps \<in> set ?ps" by (rule last_in_set) simp
  have ul: "unat (last ?ps + 4) = unat (last ?ps) + 4" "unat H \<le> unat (last ?ps)"
  proof -
    have "unat (last ?ps) + 8 < 2 ^ 32 \<and> unat H \<le> unat (last ?ps)" using above lst by blast
    then show "unat (last ?ps + 4) = unat (last ?ps) + 4" "unat H \<le> unat (last ?ps)"
      using unat_plus_small [of "last ?ps" 4] by simp_all
  qed
  have below: "unat a + 8 \<le> unat H" if "a \<in> set (pool FS @ A)" for a using top that by (force simp: bend_def)
  have m1: "hmem ?h a = hmem h a" if "unat a < unat H" for a
  proof -
    have "unat a \<noteq> unat (last ?ps + 4)" using that ul by linarith
    then have "a \<noteq> last ?ps + 4" by (rule contrapos_nn) (rule arg_cong)
    then show ?thesis using r that by (simp add: set_hnext_def)
  qed
  have sz: "hmem ?h x = ?p" if "x \<in> set ?ps" for x
  proof -
    have "blocks_ok (\<lambda>_. ?p) (unat (heap_end h)) (?ps @ [])"
      using pieces_ok [of H ?p "Suc k" "unat (heap_end h)" "\<lambda>_. ?p" "[]"] fits e H piece by auto
    from block_words [OF this, of "last ?ps" x] have "last ?ps + 4 \<noteq> x" using lst that by simp
    then show ?thesis using r that by (auto simp: set_hnext_def)
  qed
  have old: "blocks_ok (hmem ?h) (unat (heap_end h)) (pool FS @ A)"
  proof -
    have "\<forall>a \<in> set (pool FS @ A). hmem ?h a = hmem h a" using m1 below by (meson add_lessD1 le_less_trans less_add_same_cancel1 order_less_le_trans zero_less_numeral)
    then show ?thesis using bb blocks_ok_cong by fastforce
  qed
  let ?F = "FS(l := ?ps @ FS l)"
  have same: "hmem ?h a = hmem h a" if "a \<in> set (pool FS @ A)" for a using m1 [of a] below [OF that] by simp
  have top': "\<forall>a \<in> set (pool FS @ A). bend (hmem ?h) a \<le> unat H" using top same by (simp add: bend_def)
  have "blocks_ok (hmem ?h) (unat (heap_end h)) (?ps @ pool FS @ A)"
    using pieces_ok [OF fits e H(2,3) _ _ old top'] sz piece by simp
  moreover have "mset (pool ?F @ A) = mset (?ps @ pool FS @ A)"
    using mset_pool [OF lc(1), of FS "?ps @ FS l"] by simp
  ultimately have blk: "blocks_ok (hmem ?h) (unat (heap_end h)) (pool ?F @ A)" using blocks_ok_mset by blast
  then have dist: "distinct (pool ?F)" by (simp add: blocks_ok_iff)
  let ?h' = "?h\<lparr>freelist := (freelist h)[l := H]\<rparr>"
  have len: "length (freelist h) = list_count" using c by (simp add: chains_def)
  have x4: "unat (x + 4) < unat H" if "x \<in> set (FS i)" "i < list_count" for x i
    using below [of x] in_pool [of i x FS] that unat_plus_small [of x 4] H(1) e by (simp add: bend_def)
  have "chains ?h' ?F"
    unfolding chains_def
  proof (intro conjI allI impI)
    fix i assume i: "i < list_count"
    have old: "hchain (hmem h) (freelist h ! i) (FS i)" using c i by (simp add: chains_def)
    show "hchain (hmem ?h') (freelist ?h' ! i) (?F i)"
    proof (cases "i = l")
      case True
      have "\<forall>x \<in> set (FS l). unat x + 4 < unat H" using below in_pool [OF lc(1), of _ FS] by fastforce
      then have "hchain ((hmem h1)(last ?ps + 4 := ?f)) H (?ps @ FS l)" using r old True by blast
      then show ?thesis using True len lc by (simp del: pieces.simps add: set_hnext_def)
    next
      case False
      have "hchain (hmem ?h) (freelist h ! i) (FS i)" using old m1 x4 [OF _ i] by (subst hchain_cong) auto
      then show ?thesis using False by simp
    qed
    show "distinct (?F i)" by (rule pool_distinct [OF dist i])
  qed (simp add: len)
  moreover have "coalesced (hmem ?h') (?F NRQUICKLISTS)"
    using ok lc same in_pool [OF general_list, of _ FS] by (auto simp: heap_ok_def coalesced_def bend_def)
  ultimately have "heap_ok ?h' ?F A" using blk ok r by (simp add: heap_ok_def set_hnext_def)
  moreover have "fill_quicklist l H h = Some ?h'"
    using cut k r len lc by (simp add: fill_quicklist_def Let_def set_hnext_def)
  moreover have "heap_step A h ?h'" using same r by (auto simp: heap_step_def hsize_def set_hnext_def)
  moreover have "hsize ?h' H = ?p" using sz [of H] by (simp add: hsize_def)
  ultimately show ?thesis by (intro exI [of _ ?h'] exI [of _ ?F] conjI) (simp_all del: fun_upd_apply add: fun_upd_same)
qed

text \<open>What \<^verbatim>\<open>getmore\<close> asks of \<^verbatim>\<open>ksbrk\<close>.\<close>

definition grow_size :: "u32 \<Rightarrow> u32" where
  "grow_size s = ALIGNWITH (s + sizeof_Header) MMU_PAGE_SIZE"

lemma grow_size_facts:
  assumes "unat s + 8 + 4096 \<le> 2 ^ 32"
  shows "4096 dvd unat (grow_size s)" "unat s + 8 \<le> unat (grow_size s)" "4096 \<le> unat (grow_size s)"
proof -
  have u: "unat (s + sizeof_Header) = unat s + 8" using assms unat_plus_small [of s 8] by (simp add: sizeof_Header_def)
  have p: "MMU_PAGE_SIZE = 2 ^ 12" by (simp add: MMU_PAGE_SIZE_def)
  note a = unat_ALIGNWITH [of "s + sizeof_Header" 12, folded p grow_size_def]
  show le: "unat s + 8 \<le> unat (grow_size s)" using a(2) u assms by simp
  show dv: "4096 dvd unat (grow_size s)" using a(1) u assms by simp
  show "4096 \<le> unat (grow_size s)" using dvd_imp_le [OF dv] le by linarith
qed

lemma getmore_ok:
  assumes ok: "heap_ok h FS A" and s: "unat s + 8 + 4096 \<le> 2 ^ 32"
    and room: "unat (heap_end h) + unat (grow_size s) < 2 ^ 32" and brk: "ksbrk (grow_size s) h \<noteq> None"
  shows "\<exists>h'. getmore s h = Some (heap_end h, h') \<and> heap_ok h' FS (heap_end h # A) \<and>
    unat (hsize h' (heap_end h)) = unat (grow_size s) - 8 \<and> (\<forall>a \<in> set (pool FS @ A). hmem h' a = hmem h a)"
proof -
  let ?n = "grow_size s" and ?H = "heap_end h"
  note g = grow_size_facts [OF s]
  obtain p h1 where "ksbrk ?n h = Some (p, h1)" using brk by force
  note k = this ksbrk_result [OF this]
  let ?h = "set_hsize (h1\<lparr>malloc_used_mem := malloc_used_mem h + ?n\<rparr>) ?H (?n - sizeof_Header)"
  have "?H \<noteq> - 1"
  proof
    assume "?H = - 1"
    then have "unat ?H = 2 ^ 32 - 1" by (simp add: unsigned_minus_1_eq_mask mask_eq_exp_minus_1)
    then show False using room g by simp
  qed
  then have run: "getmore s h = Some (?H, ?h)"
    using k(1,2) by (simp add: getmore_def Let_def ksbrk_used grow_size_def [symmetric])
  have "(4 :: nat) dvd unat ?n" using g(1) by (rule dvd_trans [rotated]) simp
  then have top: "heap_ok ?h FS (?H # A)" "unat (?n - 8) = unat ?n - 8"
    using add_block_on_top [OF ok _ _ room, of ?h] g k by (simp_all add: set_hsize_def sizeof_Header_def)
  have "a \<noteq> ?H" if "a \<in> set (pool FS @ A)" for a
  proof -
    have "bend (hmem h) a \<le> unat ?H" using ok that by (simp add: heap_ok_def blocks_ok_iff block_ok_def)
    then show ?thesis by (auto simp: bend_def)
  qed
  then have "\<forall>a \<in> set (pool FS @ A). hmem ?h a = hmem h a" using k by (simp add: set_hsize_def)
  moreover have "unat (hsize ?h ?H) = unat ?n - 8" using top(2) by (simp add: hsize_def set_hsize_def sizeof_Header_def)
  ultimately show ?thesis using run top by blast
qed

lemma quicklist_big: "unat s > 64 \<Longrightarrow> quicklist s = NRQUICKLISTS"
proof (rule ccontr)
  assume "unat s > 64" "quicklist s \<noteq> NRQUICKLISTS"
  then have "quicklist s < NRQUICKLISTS" using le_neq_implies_less [OF quicklist_le(1)] by simp
  from quicklist_piece [OF this] \<open>unat s > 64\<close> show False by (simp add: word_le_nat_alt)
qed

lemma kmalloc_ok:
  assumes ok: "heap_ok h FS A" and s: "s \<noteq> 0" "unat s + 8 + 4096 \<le> 2 ^ 32"
    and room: "unat (heap_end h) + unat (grow_size s) < 2 ^ 32" and brk: "ksbrk (grow_size s) h \<noteq> None"
  shows "\<exists>H h' FS'. kmalloc s h = Some (H + sizeof_Header, h') \<and> heap_ok h' FS' (H # A) \<and> s \<le> hsize h' H \<and>
    (\<forall>a \<in> set A. hsize h' a = hsize h a)"
proof -
  let ?l = "quicklist s"
  have c: "chains h FS" using ok by (simp add: heap_ok_def)
  have loop: "\<exists>H h' FS'. kmalloc_loop ?l s h = Some (H + sizeof_Header, h') \<and> heap_ok h' FS' (H # A) \<and> s \<le> hsize h' H \<and>
    (\<forall>a \<in> set A. hsize h' a = hsize h a)"
  proof (cases "\<exists>b \<in> set (FS ?l). s \<le> hsize h b")
    case True
    then show ?thesis using kmalloc_found [OF ok quicklist_le(2)] unfolding heap_step_def by meson
  next
    case False
    then have all: "takeWhile (\<lambda>p. hsize h p < s) (FS ?l) = FS ?l" by (auto simp: takeWhile_eq_all_conv not_le)
    then have find: "find_fit s (Freelist ?l) h = Some (link_after ?l (FS ?l))"
      using find_fit_after [OF c quicklist_le(2), of s "[]" "FS ?l" s] by (simp only: all append_Nil link_after_Nil)
    have none: "get_link h (link_after ?l (FS ?l)) = Some 0"
      using get_link_after [OF c quicklist_le(2), of s "FS ?l" "[]"] by simp
    let ?H = "heap_end h"
    from getmore_ok [OF ok s(2) room brk] obtain h1 where
      h1: "getmore s h = Some (?H, h1)" "heap_ok h1 FS (?H # A)" "unat (hsize h1 ?H) = unat (grow_size s) - 8"
      "\<forall>a \<in> set (pool FS @ A). hmem h1 a = hmem h a" by blast
    note g = grow_size_facts [OF s(2)]
    have H0: "?H \<noteq> 0" using ok by (simp add: heap_ok_def)
    have "\<exists>h2 FS2. (if ?l < NRQUICKLISTS then fill_quicklist ?l ?H h1 else kfree (?H + sizeof_Header) h1) = Some h2 \<and>
        heap_ok h2 FS2 A \<and> heap_step A h1 h2 \<and> (\<exists>b \<in> set (FS2 ?l). s \<le> hsize h2 b)"
    proof (cases "?l < NRQUICKLISTS")
      case True
      note q = quicklist_piece [OF True]
      have top: "\<forall>a \<in> set (pool FS @ A). bend (hmem h1) a \<le> unat ?H"
        using ok h1(4) by (auto simp: heap_ok_def blocks_ok_iff block_ok_def bend_def)
      have "unat (push_bit ?l 8 :: u32) \<le> unat (hsize h1 ?H)" using q(3) h1(3) g by linarith
      from fill_quicklist_ok [OF h1(2) top True q(2) this] obtain h2 FS2 where
        "fill_quicklist ?l ?H h1 = Some h2" "heap_ok h2 FS2 A" "heap_step A h1 h2" "?H \<in> set (FS2 ?l)"
        "hsize h2 ?H = push_bit ?l 8" by blast
      then show ?thesis using q(1) True by (intro exI [of _ h2] exI [of _ FS2]) (simp, force)
    next
      case False
      then have l: "?l = NRQUICKLISTS" using quicklist_le(1) [of s] by linarith
      have "quicklist (hsize h1 ?H) = NRQUICKLISTS" using h1(3) g by (intro quicklist_big) simp
      moreover have "s \<le> hsize h1 ?H" using h1(3) g by (simp add: word_le_nat_alt)
      ultimately show ?thesis using kfree_general [OF h1(2)] l order_trans by (simp add: False) blast
    qed
    then obtain h2 FS2 b where h2: "(if ?l < NRQUICKLISTS then fill_quicklist ?l ?H h1 else kfree (?H + sizeof_Header) h1) = Some h2"
      "heap_ok h2 FS2 A" "heap_step A h1 h2" "b \<in> set (FS2 ?l)" "s \<le> hsize h2 b" by blast
    from kmalloc_found [OF h2(2) quicklist_le(2) h2(4,5)] obtain H h3 FS3 where
      h3: "kmalloc_loop ?l s h2 = Some (H + sizeof_Header, h3)" "heap_ok h3 FS3 (H # A)" "s \<le> hsize h3 H" "heap_step A h2 h3"
      by blast
    have "kmalloc_loop ?l s h = Some (H + sizeof_Header, h3)"
      using find none h1(1) H0 h2(1) h3(1) by (subst kmalloc_loop.simps) simp
    moreover have "\<forall>a \<in> set A. hsize h3 a = hsize h a"
      using h1(4) h2(3) h3(4) by (simp add: heap_step_def hsize_def)
    ultimately show ?thesis using h3(2,3) by blast
  qed
  then show ?thesis using s(1) by (simp add: kmalloc_def)
qed

section \<open>Memory for the heap\<close>

text \<open>
  What \<^verbatim>\<open>ksbrk\<close> needs of the memory manager: a state that is ready for \<open>n\<close> pages maps any page and
  is then ready for one page less.
\<close>

locale page_source =
  fixes map_page :: "u32 \<Rightarrow> 's \<Rightarrow> 's option"
    and ready :: "nat \<Rightarrow> 's \<Rightarrow> bool"
  assumes maps: "ready (Suc n) s \<Longrightarrow> \<exists>s'. map_page v s = Some s' \<and> ready n s'"
begin

lemma maps_all: "ready (length is + n) s \<Longrightarrow> \<exists>s'. for_loop is (\<lambda>i. map_page (f i)) s = Some s' \<and> ready n s'"
proof (induction "is" arbitrary: s)
  case (Cons i "is")
  then obtain s1 where "map_page (f i) s = Some s1" "ready (length is + n) s1"
    using maps [of "length is + n" s "f i"] by auto
  with Cons.IH show ?case by simp
qed simp

end

definition kernel_ready :: "nat \<Rightarrow> mmu \<Rightarrow> bool" where
  "kernel_ready n s \<longleftrightarrow> mapping s + 4 \<le> MAPPER_PAGES \<and>
     (\<exists>fs. vm_inv s (root_of True s) fs \<and> 3 * n \<le> length fs \<and> 3 * n \<le> unat (free_frames s))"

lemma kernel_ready_step:
  assumes "kernel_ready (Suc n) s"
  shows "\<exists>s'. map_option snd (mmu040_alloc_at v True False s) = Some s' \<and> kernel_ready n s'"
proof -
  from assms obtain fs where fs: "vm_inv s (root_of True s) fs" "3 * Suc n \<le> length fs" "3 * Suc n \<le> unat (free_frames s)"
    and room: "mapping s + 4 \<le> MAPPER_PAGES" by (auto simp: kernel_ready_def)
  have "3 \<le> length fs" "3 \<le> unat (free_frames s)" using fs by auto
  from alloc_at_ok [OF refl fs(1) room this, of v False] obtain f s' fs' where
    s': "mmu040_alloc_at v True False s = Some (f, s')" "vm_inv s' (root_of True s) fs'" "mapping s' = mapping s"
    "spends 3 s fs s' fs'" "srp s' = srp s" by blast
  then have "root_of True s' = root_of True s" by (simp add: root_of_def)
  then have "kernel_ready n s'" using s' room fs(2,3) by (auto simp: kernel_ready_def spends_def)
  then show ?thesis using s'(1) by simp
qed

interpretation kernel_pages: page_source "\<lambda>v s. map_option snd (mmu040_alloc_at v True False s)" kernel_ready
  by unfold_locales (rule kernel_ready_step)

text \<open>The number of pages that \<^verbatim>\<open>ksbrk(n)\<close> maps.\<close>

definition heap_pages :: "kheap \<Rightarrow> u32 \<Rightarrow> nat" where
  "heap_pages h n = unat ((((heap_end h + n + (MMU_PAGE_SIZE - 1)) AND NOT MMU_PAGE_MASK)
     - ((heap_end h + (MMU_PAGE_SIZE - 1)) AND NOT MMU_PAGE_MASK)) div MMU_PAGE_SIZE)"

lemma ksbrk_succeeds:
  assumes "kernel_ready (heap_pages h n) (kmmu h)"
  shows "ksbrk n h \<noteq> None"
proof -
  have "kernel_ready (length [0..<heap_pages h n] + 0) (kmmu h)" using assms by simp
  from kernel_pages.maps_all [OF this, where f = "\<lambda>i. ((heap_end h + (MMU_PAGE_SIZE - 1)) AND NOT MMU_PAGE_MASK)
      + of_nat i * MMU_PAGE_SIZE"] show ?thesis
    by (auto simp: ksbrk_def Let_def heap_pages_def split: if_splits)
qed

section \<open>The allocator's contract\<close>

text \<open>
  What the rest of the kernel may rely on.  \<open>live s bs\<close> says that \<open>bs\<close> are the blocks handed out,
  \<open>area s b\<close> the bytes of block \<open>b\<close> that belong to its owner.
\<close>

locale block_allocator =
  fixes alloc :: "u32 \<Rightarrow> 's \<Rightarrow> (u32 \<times> 's) option"
    and release :: "u32 \<Rightarrow> 's \<Rightarrow> 's option"
    and live :: "'s \<Rightarrow> u32 list \<Rightarrow> bool"
    and area :: "'s \<Rightarrow> u32 \<Rightarrow> nat set"
    and can_alloc :: "u32 \<Rightarrow> 's \<Rightarrow> bool"
  assumes alloc_live: "live s bs \<Longrightarrow> can_alloc n s \<Longrightarrow>
      \<exists>p s'. alloc n s = Some (p, s') \<and> live s' (p # bs) \<and> unat n \<le> card (area s' p) \<and> (\<forall>b \<in> set bs. area s' b = area s b)"
    and release_live: "live s (p # bs) \<Longrightarrow> \<exists>s'. release p s = Some s' \<and> live s' bs \<and> (\<forall>b \<in> set bs. area s' b = area s b)"
    and live_disjoint: "live s bs \<Longrightarrow> distinct bs \<and> (\<forall>p \<in> set bs. \<forall>q \<in> set bs. p \<noteq> q \<longrightarrow> area s p \<inter> area s q = {})"
begin

lemma alloc_fresh:
  assumes "live s bs" "can_alloc n s"
  shows "\<exists>p s'. alloc n s = Some (p, s') \<and> live s' (p # bs) \<and> unat n \<le> card (area s' p) \<and>
    p \<notin> set bs \<and> (\<forall>b \<in> set bs. area s' b = area s b \<and> area s' p \<inter> area s b = {})"
proof -
  from alloc_live [OF assms] obtain p s' where s': "alloc n s = Some (p, s')" "live s' (p # bs)"
    "unat n \<le> card (area s' p)" "\<forall>b \<in> set bs. area s' b = area s b" by blast
  moreover have "p \<notin> set bs" "\<forall>b \<in> set bs. area s' p \<inter> area s' b = {}" using live_disjoint [OF s'(2)] by auto
  ultimately show ?thesis by auto
qed

lemma alloc_release:
  assumes "live s bs" "can_alloc n s"
  shows "\<exists>p s' s''. alloc n s = Some (p, s') \<and> release p s' = Some s'' \<and> live s'' bs \<and> (\<forall>b \<in> set bs. area s'' b = area s b)"
proof -
  from alloc_live [OF assms] obtain p s' where s': "alloc n s = Some (p, s')" "live s' (p # bs)"
    "\<forall>b \<in> set bs. area s' b = area s b" by blast
  with release_live [OF s'(2)] show ?thesis by force
qed

end

definition heap_live :: "kheap \<Rightarrow> u32 list \<Rightarrow> bool" where
  "heap_live h ps \<longleftrightarrow> (\<exists>FS. heap_ok h FS (map (\<lambda>p. p - sizeof_Header) ps))"

definition heap_area :: "kheap \<Rightarrow> u32 \<Rightarrow> nat set" where
  "heap_area h p = {unat (p - sizeof_Header) + 8 ..< bend (hmem h) (p - sizeof_Header)}"

definition can_kmalloc :: "u32 \<Rightarrow> kheap \<Rightarrow> bool" where
  "can_kmalloc n h \<longleftrightarrow> n \<noteq> 0 \<and> unat n + 8 + 4096 \<le> 2 ^ 32 \<and> unat (heap_end h) + unat (grow_size n) < 2 ^ 32 \<and>
     kernel_ready (heap_pages h (grow_size n)) (kmmu h)"

lemma heap_area_size: "card (heap_area h p) = unat (hsize h (p - sizeof_Header))"
  by (simp add: heap_area_def bend_def hsize_def)

lemma kmalloc_live:
  assumes "heap_live h ps" "can_kmalloc n h"
  shows "\<exists>p h'. kmalloc n h = Some (p, h') \<and> heap_live h' (p # ps) \<and> unat n \<le> card (heap_area h' p) \<and>
    (\<forall>b \<in> set ps. heap_area h' b = heap_area h b)"
proof -
  from assms(1) obtain FS where ok: "heap_ok h FS (map (\<lambda>p. p - sizeof_Header) ps)" by (auto simp: heap_live_def)
  have c: "n \<noteq> 0" "unat n + 8 + 4096 \<le> 2 ^ 32" "unat (heap_end h) + unat (grow_size n) < 2 ^ 32"
    "ksbrk (grow_size n) h \<noteq> None"
    using assms(2) ksbrk_succeeds by (auto simp: can_kmalloc_def)
  from kmalloc_ok [OF ok c] obtain H h' FS' where r: "kmalloc n h = Some (H + sizeof_Header, h')"
    "heap_ok h' FS' (H # map (\<lambda>p. p - sizeof_Header) ps)" "n \<le> hsize h' H"
    "\<forall>a \<in> set (map (\<lambda>p. p - sizeof_Header) ps). hsize h' a = hsize h a" by blast
  then have "heap_live h' ((H + sizeof_Header) # ps)" by (auto simp: heap_live_def)
  moreover have "\<forall>b \<in> set ps. heap_area h' b = heap_area h b"
    using r(4) by (simp add: heap_area_def bend_def hsize_def)
  ultimately show ?thesis using r(1,3) by (auto simp: heap_area_size word_le_nat_alt)
qed

lemma kfree_live:
  assumes "heap_live h (p # ps)"
  shows "\<exists>h'. kfree p h = Some h' \<and> heap_live h' ps \<and> (\<forall>b \<in> set ps. heap_area h' b = heap_area h b)"
proof -
  from assms obtain FS where "heap_ok h FS ((p - sizeof_Header) # map (\<lambda>p. p - sizeof_Header) ps)"
    by (auto simp: heap_live_def)
  from kfree_ok [OF this] show ?thesis
    by (fastforce simp: heap_live_def heap_step_def heap_area_def bend_def hsize_def)
qed

text \<open>The block \<open>q\<close>, an address of a header, is on one of the free lists.\<close>

definition on_free_list :: "kheap \<Rightarrow> u32 \<Rightarrow> bool" where
  "on_free_list h q \<longleftrightarrow> (\<exists>i < list_count. \<exists>xs. hchain (hmem h) (freelist h ! i) xs \<and> q \<in> set xs)"

lemma kfree_gives_back:
  assumes "heap_live h (p # ps)"
  shows "\<exists>h' q. kfree p h = Some h' \<and> heap_live h' ps \<and>
    (\<forall>b \<in> set ps. heap_area h' b = heap_area h b \<and> (\<forall>a. unat a \<in> heap_area h b \<longrightarrow> hmem h' a = hmem h a)) \<and>
    on_free_list h' q \<and> block_bytes h (p - sizeof_Header) \<subseteq> block_bytes h' q \<and>
    (\<forall>b \<in> set ps. block_bytes h' q \<inter> block_bytes h' (b - sizeof_Header) = {})"
proof -
  let ?H = "p - sizeof_Header" and ?A = "map (\<lambda>p. p - sizeof_Header) ps"
  from assms obtain FS where ok: "heap_ok h FS (?H # ?A)" by (auto simp: heap_live_def)
  from kfree_ok [OF ok] obtain h' FS' q where r: "kfree p h = Some h'" "heap_ok h' FS' ?A" "heap_step ?A h h'"
    "q \<in> set (pool FS')" "block_bytes h ?H \<subseteq> block_bytes h' q" by auto
  have "hmem h' a = hmem h a" if "b \<in> set ps" "unat a \<in> heap_area h b" for a b
    using kfree_frame [OF ok, of h' "b - sizeof_Header" a] r(1) that by (simp add: heap_area_def)
  moreover have "heap_area h' b = heap_area h b" if "b \<in> set ps" for b
    using r(3) that by (simp add: heap_step_def heap_area_def bend_def hsize_def)
  moreover have "on_free_list h' q"
    using r(2,4) unfolding on_free_list_def heap_ok_def chains_def pool_def by fastforce
  moreover have "block_bytes h' q \<inter> block_bytes h' (b - sizeof_Header) = {}" if "b \<in> set ps" for b
  proof -
    have "b - sizeof_Header \<in> set ?A" using that by simp
    moreover from this have "q \<noteq> b - sizeof_Header" using r(2,4) by (auto simp: heap_ok_def blocks_ok_iff)
    ultimately have "apart (hmem h') q (b - sizeof_Header)"
      using r(2,4) unfolding heap_ok_def blocks_ok_iff set_append by blast
    then show ?thesis by (auto simp: block_bytes_def apart_def bend_def)
  qed
  moreover have "heap_live h' ps" using r(2) by (auto simp: heap_live_def)
  ultimately show ?thesis using r(1,5) by blast
qed

lemma heap_live_disjoint:
  assumes "heap_live h ps"
  shows "distinct ps \<and> (\<forall>p \<in> set ps. \<forall>q \<in> set ps. p \<noteq> q \<longrightarrow> heap_area h p \<inter> heap_area h q = {})"
proof -
  from assms obtain FS where "blocks_ok (hmem h) (unat (heap_end h)) (pool FS @ map (\<lambda>p. p - sizeof_Header) ps)"
    by (auto simp: heap_live_def heap_ok_def)
  then have d: "distinct (map (\<lambda>p. p - sizeof_Header) ps)"
    and ap: "\<forall>p \<in> set ps. \<forall>q \<in> set ps. p - sizeof_Header \<noteq> q - sizeof_Header \<longrightarrow>
      apart (hmem h) (p - sizeof_Header) (q - sizeof_Header)"
    by (auto simp: blocks_ok_iff)
  have "heap_area h p \<inter> heap_area h q = {}" if "p \<in> set ps" "q \<in> set ps" "p \<noteq> q" for p q
  proof -
    have "apart (hmem h) (p - sizeof_Header) (q - sizeof_Header)" using ap that by auto
    then show ?thesis by (auto simp: heap_area_def apart_def bend_def)
  qed
  then show ?thesis using d by (auto simp: distinct_map)
qed

interpretation kernel_heap: block_allocator kmalloc kfree heap_live heap_area can_kmalloc
  by unfold_locales (fact kmalloc_live kfree_live heap_live_disjoint)+

section \<open>Properties\<close>

text \<open>
  C4. \<^verbatim>\<open>kmalloc\<close> on a sound heap, with enough memory behind it, returns a block of at least the
  requested size whose bytes are disjoint from those of every block in use; the blocks in use
  keep their places and sizes, and the heap is sound again.  It always returns: the search, the
  refill of a quick list and the growth of the general list end.
\<close>

theorem kmalloc_returns_disjoint_block:
  assumes "heap_live h ps" "can_kmalloc n h"
  shows "\<exists>p h'. kmalloc n h = Some (p, h') \<and> heap_live h' (p # ps) \<and> unat n \<le> card (heap_area h' p) \<and>
    p \<notin> set ps \<and> (\<forall>b \<in> set ps. heap_area h' b = heap_area h b \<and> heap_area h' p \<inter> heap_area h b = {})"
  using assms by (rule kernel_heap.alloc_fresh)

definition empty_heap :: kheap where
  "empty_heap = \<lparr>hmem = \<lambda>_. 0, freelist = replicate 5 0, heap_end = 0xE1000000, malloc_used_mem = 0, kmmu = boot_mmu\<rparr>"

lemma empty_heap_live: "heap_live empty_heap []"
proof -
  have "pool (\<lambda>_. []) = []" by (simp add: pool_def concat_eq_Nil_conv)
  then have "heap_ok empty_heap (\<lambda>_. []) []"
    by (simp add: heap_ok_def chains_def coalesced_def empty_heap_def list_count_def NRQUICKLISTS_def)
  then show ?thesis by (auto simp: heap_live_def)
qed

lemma empty_heap_can: "can_kmalloc 24 empty_heap"
proof -
  have g: "grow_size 24 = 4096"
    by (simp add: grow_size_def ALIGNWITH_def sizeof_Header_def MMU_PAGE_SIZE_def)
  have p: "heap_pages empty_heap 4096 = 1"
    by (simp add: heap_pages_def empty_heap_def MMU_PAGE_SIZE_def MMU_PAGE_MASK_def)
  have "root_of True boot_mmu = root_of False boot_mmu" by (simp add: root_of_def boot_mmu_def)
  then have "kernel_ready 1 boot_mmu"
    using boot_mmu_inv unfolding kernel_ready_def
    by (intro conjI exI [of _ "[0x80001000, 0x80002000, 0x80003000]"]) (simp_all add: boot_mmu_def MAPPER_PAGES_def)
  then show ?thesis using g p by (simp add: can_kmalloc_def empty_heap_def)
qed

theorem kmalloc_returns_disjoint_block_witness:
  "\<exists>p h'. kmalloc 24 empty_heap = Some (p, h') \<and> heap_live h' [p] \<and> 24 \<le> card (heap_area h' p)"
  using kmalloc_returns_disjoint_block [OF empty_heap_live empty_heap_can] by auto

text \<open>
  C7. \<^verbatim>\<open>kfree\<close> of a block in use always returns and gives the block back: afterwards all its bytes, the header
  included, belong to a block \<open>q\<close> that is on a free list and overlaps no block in use.  The heap is sound again,
  and every other block in use has kept its place, its size and every word of its contents,
  whatever merges of neighbouring free blocks were performed.
\<close>

theorem kfree_keeps_heap_sound:
  assumes "heap_live h (p # ps)"
  shows "\<exists>h' q. kfree p h = Some h' \<and> heap_live h' ps \<and>
    (\<forall>b \<in> set ps. heap_area h' b = heap_area h b \<and> (\<forall>a. unat a \<in> heap_area h b \<longrightarrow> hmem h' a = hmem h a)) \<and>
    on_free_list h' q \<and> block_bytes h (p - sizeof_Header) \<subseteq> block_bytes h' q \<and>
    (\<forall>b \<in> set ps. block_bytes h' q \<inter> block_bytes h' (b - sizeof_Header) = {})"
  using assms by (rule kfree_gives_back)

theorem kfree_keeps_heap_sound_witness:
  "\<exists>p h' h'' q. kmalloc 24 empty_heap = Some (p, h') \<and> kfree p h' = Some h'' \<and> heap_live h'' [] \<and>
    on_free_list h'' q \<and> block_bytes h' (p - sizeof_Header) \<subseteq> block_bytes h'' q"
proof -
  from kernel_heap.alloc_live [OF empty_heap_live empty_heap_can] obtain p h' where
    "kmalloc 24 empty_heap = Some (p, h')" "heap_live h' [p]" by blast
  with kfree_keeps_heap_sound [of h' p "[]"] show ?thesis by blast
qed

definition leak_heap :: "mmu \<Rightarrow> kheap" where
  "leak_heap mm = \<lparr>hmem = (\<lambda>_. 0)(0x2000 := 0x100, 0x2004 := 0x1000, 0x1000 := 0xF8, 0x1100 := 0xEF8),
     freelist = [0, 0, 0, 0, 0x2000], heap_end = 0x3000, malloc_used_mem = 0, kmmu = mm\<rparr>"

text \<open>
  \<^verbatim>\<open>kfree\<close> may lose a free block.  When the upper neighbour of the block being freed comes before
  its lower neighbour in the general list, the block is merged into the upper one's place and then
  the lower one is taken off the list and nothing puts it back: here the block at 0x1000 was free
  and afterwards the list holds the block at 0x1100 alone.
\<close>

lemma kfree_loses_lower_neighbour:
  "map_option (\<lambda>h. (freelist h ! NRQUICKLISTS, hnext h 0x1100, hsize h 0x1100)) (kfree 0x1108 (leak_heap mm)) =
     Some (0x1100, 0, 0x1000)"
proof -
  have q: "quicklist 0xEF8 = 4" using quicklist_big [of "0xEF8"] by (simp add: NRQUICKLISTS_def)
  show ?thesis
    apply (simp add: kfree_def leak_heap_def hsize_def sizeof_Header_def q NRQUICKLISTS_def Let_def)
    apply (subst kfree_scan.simps, simp add: hsize_def hnext_def sizeof_Header_def set_hsize_def set_hnext_def NRQUICKLISTS_def Let_def)+
    done
qed

lemma memcpy_eq:
  "memcpy dest src n = (if n \<le> length src \<and> n \<le> length dest then Some (take n src @ drop n dest) else None)"
proof (induction n arbitrary: dest)
  case (Suc n)
  show ?case
  proof (cases "n < length src \<and> n < length dest")
    case True
    then have "take n src @ drop n (dest[n := src ! n]) = take (Suc n) src @ drop (Suc n) dest"
      by (simp add: take_Suc_conv_app_nth Cons_nth_drop_Suc [symmetric])
    then show ?thesis using True Suc.IH [of "dest[n := src ! n]"] by simp
  qed (auto simp: not_less)
qed simp

lemma memset_eq: "memset p c n = (if n \<le> length p then Some (replicate n c @ drop n p) else None)"
proof (induction n arbitrary: p)
  case (Suc n)
  show ?case
  proof (cases "n < length p")
    case True
    then have "replicate n c @ drop n (p[n := c]) = replicate (Suc n) c @ drop (Suc n) p"
      by (simp add: Cons_nth_drop_Suc [symmetric] replicate_app_Cons_same)
    then show ?thesis using True Suc.IH [of "p[n := c]"] by simp
  qed simp
qed simp

text \<open>
  \<^verbatim>\<open>memcpy\<close> copies exactly the first \<open>n\<close> bytes, and \<^verbatim>\<open>memset\<close> sets exactly the first \<open>n\<close> bytes,
  when the buffers are long enough; otherwise the access leaves a buffer.
\<close>

lemma memcpy_memset_exact:
  "memcpy dest src n = (if n \<le> length src \<and> n \<le> length dest then Some (take n src @ drop n dest) else None) \<and>
   memset p c n = (if n \<le> length p then Some (replicate n c @ drop n p) else None)"
  by (simp add: memcpy_eq memset_eq)

end
