(* ===== verification/Process.thy ===== *)
theory Process
  imports KHeap
begin

text \<open>
  Processes, \<^verbatim>\<open>kernel/process.c\<close> and \<^verbatim>\<open>include/trollos/process.h\<close>: the table of 1024 pointers, creation,
  exit, waiting, and the round-robin scheduler.

  The objects that the table and the callback lists point to live at the addresses \<^verbatim>\<open>kmalloc\<close> returned;
  \<open>pobj\<close> and \<open>cbobj\<close> are the stores of the two kinds of objects, and reading where there is none is
  undefined.  A \<^verbatim>\<open>pid_t\<close> is a signed 32-bit number.  The kernel heap, and in it the memory manager,
  is part of the state.
\<close>

section \<open>Data\<close>

definition MAX_PROCESS_FILES :: nat where "MAX_PROCESS_FILES = 64"
definition MAX_PROCESSES :: int where "MAX_PROCESSES = 1024"

datatype ProcessState = PROCESS_STATE_RUNNING | PROCESS_STATE_BLOCKED | PROCESS_STATE_ZOMBIE

text \<open>The only function a callback is ever set to is \<^verbatim>\<open>kill_callback\<close>.\<close>

datatype callback_func = Kill_callback

record ProcessCallback =
  cb_func :: callback_func
  cb_owner :: int
  cb_args :: u32
  cb_next :: u32

record proc_reg =
  reg_status :: u32
  reg_pc :: u32
  reg_stack :: u32
  reg_general :: "u32 list"

record Process =
  p_pid :: int
  p_parent :: int
  p_state :: ProcessState
  p_callback :: u32
  p_return_value :: int
  p_userspace :: u32
  p_user :: int
  p_group :: int
  p_time_started :: int
  p_file :: "int list"
  p_reg :: proc_reg

definition sizeof_Process :: u32 where "sizeof_Process = 368"
definition sizeof_ProcessCallback :: u32 where "sizeof_ProcessCallback = 16"

record procs =
  process :: "u32 list"
  pobj :: "u32 \<Rightarrow> Process option"
  cbobj :: "u32 \<Rightarrow> ProcessCallback option"
  process_current :: int
  process_last :: int
  kheap_of :: kheap

text \<open>\<^verbatim>\<open>_process[pid]\<close>, and the object it points to (undefined for a null pointer).\<close>

definition proc_ptr :: "procs \<Rightarrow> int \<Rightarrow> u32 option" where
  "proc_ptr s pid = (if pid < 0 then None else rd (process s) (nat pid))"

definition proc_at :: "procs \<Rightarrow> int \<Rightarrow> Process option" where
  "proc_at s pid = do { p \<leftarrow> proc_ptr s pid; if p = 0 then None else pobj s p }"

definition proc_update :: "int \<Rightarrow> (Process \<Rightarrow> Process) \<Rightarrow> procs \<Rightarrow> procs option" where
  "proc_update pid f s = do {
     p \<leftarrow> proc_ptr s pid;
     o1 \<leftarrow> (if p = 0 then None else pobj s p);
     Some (s\<lparr>pobj := (pobj s)(p \<mapsto> f o1)\<rparr>) }"

definition with_mmu :: "(mmu \<Rightarrow> (('a \<times> mmu) option)) \<Rightarrow> procs \<Rightarrow> ('a \<times> procs) option" where
  "with_mmu f s = do {
     (a, mm) \<leftarrow> f (kmmu (kheap_of s));
     Some (a, s\<lparr>kheap_of := (kheap_of s)\<lparr>kmmu := mm\<rparr>\<rparr>) }"

section \<open>Operations\<close>

text \<open>\<^verbatim>\<open>_process[owner]->state = PROCESS_STATE_RUNNING; return true;\<close>\<close>

definition kill_callback :: "int \<Rightarrow> procs \<Rightarrow> (bool \<times> procs) option" where
  "kill_callback owner s = do {
     s \<leftarrow> proc_update owner (\<lambda>p. p\<lparr>p_state := PROCESS_STATE_RUNNING\<rparr>) s;
     Some (True, s) }"

text \<open>
  The search for a free slot.  The result is the slot, or \<^term>\<open>None\<close> inside for the early return,
  and the new \<^verbatim>\<open>_process_last\<close>; incrementing it beyond the largest \<^verbatim>\<open>pid_t\<close> is undefined.
\<close>

partial_function (option) find_pid :: "int \<Rightarrow> int \<Rightarrow> u32 list \<Rightarrow> (int option \<times> int) option" where
  "find_pid tried lst tab =
     (if lst + 1 > 2 ^ 31 - 1 then None
      else do {
        let lst = lst + 1;
        let pid = lst mod MAX_PROCESSES;
        if pid = tried then Some (None, lst)
        else do {
          p \<leftarrow> rd tab (nat pid);
          if p \<noteq> 0 then find_pid tried lst tab else Some (Some pid, lst) } })"

text \<open>\<open>fresh\<close> is what the memory of the new object holds before it is filled in.\<close>

definition process_create :: "Process \<Rightarrow> int \<Rightarrow> int \<Rightarrow> procs \<Rightarrow> (int \<times> procs) option" where
  "process_create fresh uid gid s = do {
     (found, lst) \<leftarrow> find_pid (process_last s) (process_last s) (process s);
     let s = s\<lparr>process_last := lst\<rparr>;
     case found of
       None \<Rightarrow> Some (- errno EAGAIN, s)
     | Some pid \<Rightarrow> do {
         (p, h) \<leftarrow> kmalloc sizeof_Process (kheap_of s);
         let s = s\<lparr>kheap_of := h\<rparr>;
         if p = 0 then Some (- errno ENOMEM, s)
         else do {
           (userspace, s) \<leftarrow> with_mmu (\<lambda>mm. do {
               (r, hnd, mm) \<leftarrow> mmu040_init_userspace (Some (p_userspace fresh)) mm;
               u \<leftarrow> hnd;
               Some (u, mm) }) s;
           let proc = fresh\<lparr>p_pid := pid, p_state := PROCESS_STATE_RUNNING, p_user := uid, p_group := gid,
                            p_time_started := 1337, p_userspace := userspace,
                            p_file := replicate MAX_PROCESS_FILES (- 1)\<rparr>;
           tab \<leftarrow> wr (process s) (nat pid) p;
           Some (pid, s\<lparr>pobj := (pobj s)(p \<mapsto> proc), process := tab\<rparr>) } } }"

definition process_switch_to :: "int \<Rightarrow> procs \<Rightarrow> procs option" where
  "process_switch_to pid s = do {
     p \<leftarrow> proc_at s pid;
     (_, s) \<leftarrow> with_mmu (\<lambda>mm. do {
        let (r, mm) = mmu040_switch_userspace (Some (p_userspace p)) mm;
        mm \<leftarrow> mmu040_map_current_userspace mm;
        Some ((), mm) }) s;
     Some (s\<lparr>process_current := pid\<rparr>) }"

text \<open>
  The callback loop of \<^verbatim>\<open>process_exit\<close>.  The loop variable is the address of a pointer to a callback:
  the field of the process, or the \<^verbatim>\<open>next\<close> field of a callback (of the null pointer, too: then
  reading it is undefined).
\<close>

datatype cblink = HeadOf u32 | NextCb u32

primrec get_cblink :: "procs \<Rightarrow> cblink \<Rightarrow> u32 option" where
  "get_cblink s (HeadOf p) = map_option p_callback (pobj s p)"
| "get_cblink s (NextCb c) = (if c = 0 then None else map_option cb_next (cbobj s c))"

primrec set_cblink :: "procs \<Rightarrow> cblink \<Rightarrow> u32 \<Rightarrow> procs option" where
  "set_cblink s (HeadOf p) v =
     map_option (\<lambda>pr. s\<lparr>pobj := (pobj s)(p \<mapsto> pr\<lparr>p_callback := v\<rparr>)\<rparr>) (pobj s p)"
| "set_cblink s (NextCb c) v =
     (if c = 0 then None
      else map_option (\<lambda>cb. s\<lparr>cbobj := (cbobj s)(c \<mapsto> cb\<lparr>cb_next := v\<rparr>)\<rparr>) (cbobj s c))"

partial_function (option) run_callbacks :: "cblink \<Rightarrow> procs \<Rightarrow> procs option" where
  "run_callbacks callback s = do {
     c \<leftarrow> get_cblink s callback;
     if c = 0 then Some s
     else do {
       cb \<leftarrow> cbobj s c;
       (r, s) \<leftarrow> (case cb_func cb of Kill_callback \<Rightarrow> kill_callback (cb_owner cb) s);
       s \<leftarrow> (if r then do {
              cb \<leftarrow> cbobj s c;
              s \<leftarrow> set_cblink s callback (cb_next cb);
              h \<leftarrow> kfree c (kheap_of s);
              Some (s\<lparr>kheap_of := h, cbobj := (cbobj s)(c := None)\<rparr>) }
            else Some s);
       nxt \<leftarrow> get_cblink s callback;
       run_callbacks (NextCb nxt) s } }"

text \<open>\<^verbatim>\<open>for(next = from; cond(next); next = (next + 1) % MAX_PROCESSES);\<close>\<close>

partial_function (option) next_process :: "(int \<Rightarrow> bool option) \<Rightarrow> int \<Rightarrow> int option" where
  "next_process skip nxt = do {
     b \<leftarrow> skip nxt;
     if b then next_process skip ((nxt + 1) mod MAX_PROCESSES) else Some nxt }"

definition is_empty_slot :: "procs \<Rightarrow> int \<Rightarrow> bool option" where
  "is_empty_slot s pid = map_option (\<lambda>p. p = 0) (proc_ptr s pid)"

text \<open>Killing process 0 or 1 is a panic.\<close>

definition process_exit :: "int \<Rightarrow> int \<Rightarrow> procs \<Rightarrow> procs option" where
  "process_exit pid return_value s =
     (if pid < 0 \<or> pid \<ge> MAX_PROCESSES then Some s
      else do {
        p \<leftarrow> proc_ptr s pid;
        if p = 0 then Some s
        else if pid = 0 then None
        else if pid = 1 then None
        else do {
          s \<leftarrow> run_callbacks (HeadOf p) s;
          s \<leftarrow> (if process_current s = pid then do {
                  nxt \<leftarrow> next_process (is_empty_slot s) ((pid + 1) mod MAX_PROCESSES);
                  process_switch_to nxt s }
                else Some s);
          pr \<leftarrow> proc_at s pid;
          (_, s) \<leftarrow> with_mmu (\<lambda>mm. map_option (Pair ()) (mmu040_free_userspace (p_userspace pr) mm)) s;
          proc_update pid (\<lambda>q. q\<lparr>p_return_value := return_value, p_state := PROCESS_STATE_ZOMBIE\<rparr>) s } })"

definition process_set_pc :: "int \<Rightarrow> u32 \<Rightarrow> procs \<Rightarrow> procs option" where
  "process_set_pc pid pc s =
     (if pid < 0 \<or> pid \<ge> MAX_PROCESSES then Some s
      else do {
        p \<leftarrow> proc_ptr s pid;
        if p = 0 then Some s
        else proc_update pid (\<lambda>q. q\<lparr>p_reg := (p_reg q)\<lparr>reg_pc := pc\<rparr>\<rparr>) s })"

text \<open>When \<^verbatim>\<open>kmalloc\<close> fails the callback is written to address zero: undefined.\<close>

definition process_wait :: "int \<Rightarrow> procs \<Rightarrow> (int \<times> procs) option" where
  "process_wait pid s =
     (if pid < 0 \<or> pid \<ge> MAX_PROCESSES then Some (- errno EINVAL, s)
      else do {
        p \<leftarrow> proc_ptr s pid;
        if p = 0 then Some (- errno ESRCH, s)
        else do {
          pr \<leftarrow> pobj s p;
          if p_state pr = PROCESS_STATE_ZOMBIE then do {
            let return_value = p_return_value pr;
            h \<leftarrow> kfree p (kheap_of s);
            tab \<leftarrow> wr (process s) (nat pid) 0;
            Some (return_value, s\<lparr>kheap_of := h, pobj := (pobj s)(p := None), process := tab\<rparr>) }
          else do {
            (c, h) \<leftarrow> kmalloc sizeof_ProcessCallback (kheap_of s);
            if c = 0 then None
            else do {
              let cb = \<lparr>cb_func = Kill_callback, cb_owner = process_current s, cb_args = 0, cb_next = p_callback pr\<rparr>;
              let s = s\<lparr>kheap_of := h, cbobj := (cbobj s)(c \<mapsto> cb)\<rparr>;
              s \<leftarrow> proc_update pid (\<lambda>q. q\<lparr>p_callback := c\<rparr>) s;
              s \<leftarrow> proc_update (process_current s) (\<lambda>q. q\<lparr>p_state := PROCESS_STATE_BLOCKED\<rparr>) s;
              Some (- 1000, s) } } } })"

text \<open>\<^verbatim>\<open>process_from_pid\<close> returns a pointer, 0 for \<^verbatim>\<open>NULL\<close>.\<close>

definition process_from_pid :: "int \<Rightarrow> procs \<Rightarrow> u32 option" where
  "process_from_pid pid s = (if pid < 0 \<or> pid \<ge> MAX_PROCESSES then Some 0 else proc_ptr s pid)"

definition process_save_context :: "u32 \<Rightarrow> u32 \<Rightarrow> u32 \<Rightarrow> u32 list \<Rightarrow> procs \<Rightarrow> procs option" where
  "process_save_context status_reg stack_pointer program_counter regs_tmp s =
     (if length regs_tmp < 15 then None
      else proc_update (process_current s)
        (\<lambda>q. q\<lparr>p_reg := \<lparr>reg_status = status_reg AND 0xFFFF, reg_pc = program_counter, reg_stack = stack_pointer,
                         reg_general = take 15 regs_tmp\<rparr>\<rparr>) s)"

definition is_skipped :: "procs \<Rightarrow> int \<Rightarrow> bool option" where
  "is_skipped s pid = do {
     p \<leftarrow> proc_ptr s pid;
     if p = 0 then Some True
     else do { pr \<leftarrow> pobj s p; Some (p_state pr = PROCESS_STATE_BLOCKED) } }"

text \<open>The result is the process whose registers are loaded next.\<close>

definition scheduler :: "procs \<Rightarrow> (int \<times> procs) option" where
  "scheduler s = do {
     nxt \<leftarrow> next_process (is_skipped s) ((process_current s + 1) mod MAX_PROCESSES);
     s \<leftarrow> process_switch_to nxt s;
     Some (nxt, s) }"

end
