(* ===== verification/ProcessSpec.thy ===== *)
theory ProcessSpec
  imports Process MmuSpec
begin

text \<open>
  The process table and the scheduler: the search of the table as a walk round a ring of 1024
  slots, fairness of the round robin, creation of processes, and the inputs on which creation,
  exit and scheduling do not return.
\<close>

section \<open>Searching the process table\<close>

lemma next_process_finds:
  assumes "0 \<le> from" "from < MAX_PROCESSES" "skip ((from + int k) mod MAX_PROCESSES) = Some False"
    "\<forall>j < k. skip ((from + int j) mod MAX_PROCESSES) = Some True"
  shows "next_process skip from = Some ((from + int k) mod MAX_PROCESSES)"
  using assms
proof (induction k arbitrary: "from")
  case 0
  then show ?case by (subst next_process.simps) simp
next
  case (Suc k)
  let ?n = "(from + 1) mod MAX_PROCESSES"
  have N: "(0 :: int) < MAX_PROCESSES" by (simp add: MAX_PROCESSES_def)
  have shift: "(?n + int j) mod MAX_PROCESSES = (from + int (Suc j)) mod MAX_PROCESSES" for j
    unfolding mod_add_left_eq by (simp add: ac_simps)
  have "skip ((from + int 0) mod MAX_PROCESSES) = Some True" using Suc.prems(4) by blast
  then have "skip from = Some True" using Suc.prems(1,2) by simp
  moreover have "next_process skip ?n = Some ((?n + int k) mod MAX_PROCESSES)"
    using Suc.prems N by (intro Suc.IH) (auto simp: shift)
  ultimately show ?case using shift [of k] by (subst next_process.simps) simp
qed

text \<open>The distance that a search starting after \<open>c\<close> goes to reach \<open>p\<close>.\<close>

definition ring_dist :: "int \<Rightarrow> int \<Rightarrow> nat" where
  "ring_dist c p = nat ((p - c - 1) mod MAX_PROCESSES)"

lemma ring_dist_less: "ring_dist c p < nat MAX_PROCESSES"
  by (simp add: ring_dist_def MAX_PROCESSES_def)

lemma ring_dist_at:
  assumes "0 \<le> p" "p < MAX_PROCESSES"
  shows "((c + 1) mod MAX_PROCESSES + int (ring_dist c p)) mod MAX_PROCESSES = p"
proof -
  have "((c + 1) mod MAX_PROCESSES + (p - c - 1) mod MAX_PROCESSES) mod MAX_PROCESSES = (c + 1 + (p - c - 1)) mod MAX_PROCESSES"
    by (rule mod_add_eq)
  moreover have "int (ring_dist c p) = (p - c - 1) mod MAX_PROCESSES"
    by (simp add: ring_dist_def MAX_PROCESSES_def)
  ultimately show ?thesis using assms by simp
qed

lemma ring_dist_step:
  assumes "k < ring_dist c p"
  shows "ring_dist (((c + 1) mod MAX_PROCESSES + int k) mod MAX_PROCESSES) p = ring_dist c p - k - 1"
proof -
  let ?N = "MAX_PROCESSES"
  let ?d = "(p - c - 1) mod ?N"
  have d: "int (ring_dist c p) = ?d" "0 \<le> ?d" "?d < ?N"
    by (simp_all add: ring_dist_def MAX_PROCESSES_def)
  have "(p - ((c + 1) mod ?N + int k) mod ?N - 1) mod ?N = ((p - 1) - (c + 1 + int k) mod ?N) mod ?N"
    unfolding mod_add_left_eq by (simp add: algebra_simps)
  also have "\<dots> = ((p - c - 1) - (int k + 1)) mod ?N"
    unfolding mod_diff_right_eq by (simp add: algebra_simps)
  also have "\<dots> = (?d - (int k + 1)) mod ?N" by (rule mod_diff_left_eq [symmetric])
  also have "\<dots> = ?d - (int k + 1)" using d assms by (intro mod_pos_pos_trivial) linarith+
  finally have "(p - ((c + 1) mod ?N + int k) mod ?N - 1) mod ?N = ?d - (int k + 1)" .
  then show ?thesis using d assms by (simp add: ring_dist_def)
qed

section \<open>The scheduler\<close>

lemma mwrite_shape [simp]:
  "page_descriptor (mwrite s p i v) = page_descriptor s" "mapping (mwrite s p i v) = mapping s"
  by (simp_all add: mwrite_def)

lemma fold_mwrite_shape [simp]:
  "page_descriptor (fold (\<lambda>i s. mwrite s p i (mread s q i)) is s) = page_descriptor s"
  "mapping (fold (\<lambda>i s. mwrite s p i (mread s q i)) is s) = mapping s"
  by (induction "is" arbitrary: s) simp_all

lemma map_current_userspace_total:
  assumes "mapper_ok mm" "mapping mm + 2 \<le> MAPPER_PAGES"
  shows "\<exists>mm'. mmu040_map_current_userspace mm = Some mm' \<and> mapper_ok mm' \<and> mapping mm' = mapping mm"
proof -
  let ?a = "push_bit SRP_URP_DESCRIPTOR_BITS (root_pointer (srp mm))"
  from push_points [OF assms(1), of ?a] assms(2) obtain m1 where
    m1: "mapping_push ?a mm = Some (mapping mm, m1)" "mapper_ok m1" "mapping m1 = Suc (mapping mm)"
    by (auto simp: above_def)
  let ?b = "push_bit SRP_URP_DESCRIPTOR_BITS (root_pointer (urp m1))"
  from push_points [OF m1(2), of ?b] assms(2) m1(3) obtain m2 where
    m2: "mapping_push ?b m1 = Some (mapping m1, m2)" "mapper_ok m2" "mapping m2 = Suc (mapping m1)"
    by (auto simp: above_def)
  show ?thesis using m1 m2
    by (auto simp: mmu040_map_current_userspace_def Let_def mapping_pop_def mapper_ok_def intro!: exI)
qed

text \<open>
  What the scheduler needs: a table of the right size whose pointers lead to objects, a current
  process inside it, and two free pages of the memory manager's mapper.
\<close>

definition sched_inv :: "procs \<Rightarrow> bool" where
  "sched_inv s \<longleftrightarrow> length (process s) = nat MAX_PROCESSES \<and>
     0 \<le> process_current s \<and> process_current s < MAX_PROCESSES \<and>
     (\<forall>p \<in> set (process s). p \<noteq> 0 \<longrightarrow> pobj s p \<noteq> None) \<and>
     mapper_ok (kmmu (kheap_of s)) \<and> mapping (kmmu (kheap_of s)) + 2 \<le> MAPPER_PAGES"

definition runnable :: "procs \<Rightarrow> int \<Rightarrow> bool" where
  "runnable s pid \<longleftrightarrow> 0 \<le> pid \<and> pid < MAX_PROCESSES \<and> is_skipped s pid = Some False"

lemma is_skipped_total:
  assumes "sched_inv s" "0 \<le> pid" "pid < MAX_PROCESSES"
  shows "\<exists>b. is_skipped s pid = Some b"
proof -
  have i: "nat pid < length (process s)" using assms by (simp add: sched_inv_def)
  then have "process s ! nat pid \<in> set (process s)" by simp
  then show ?thesis using assms i by (auto simp: is_skipped_def proc_ptr_def sched_inv_def)
qed

lemma runnable_proc_at: "runnable s pid \<Longrightarrow> \<exists>pr. proc_at s pid = Some pr"
  by (auto simp: runnable_def is_skipped_def proc_at_def bind_eq_Some_conv split: if_splits)

lemma process_switch_to_total:
  assumes "sched_inv s" "proc_at s pid = Some pr" "0 \<le> pid" "pid < MAX_PROCESSES"
  shows "\<exists>s'. process_switch_to pid s = Some s' \<and> process_current s' = pid \<and> process s' = process s \<and>
    pobj s' = pobj s \<and> sched_inv s'"
proof -
  let ?mm = "(kmmu (kheap_of s))\<lparr>urp := p_userspace pr\<rparr>"
  have "mapper_ok ?mm" "mapping ?mm + 2 \<le> MAPPER_PAGES" using assms(1) by (simp_all add: sched_inv_def mapper_ok_def)
  from map_current_userspace_total [OF this] obtain mm' where
    "mmu040_map_current_userspace ?mm = Some mm'" "mapper_ok mm'" "mapping mm' = mapping ?mm" by blast
  then show ?thesis using assms
    by (simp add: process_switch_to_def with_mmu_def mmu040_switch_userspace_def sched_inv_def)
qed

text \<open>The scheduler's choice: the first process after the current one that is not blocked.\<close>

lemma scheduler_picks:
  assumes inv: "sched_inv s" and p: "runnable s p"
  shows "\<exists>k s'. k \<le> ring_dist (process_current s) p \<and>
    scheduler s = Some (((process_current s + 1) mod MAX_PROCESSES + int k) mod MAX_PROCESSES, s') \<and>
    process_current s' = ((process_current s + 1) mod MAX_PROCESSES + int k) mod MAX_PROCESSES \<and>
    runnable s (process_current s') \<and>
    (\<forall>j < k. \<not> runnable s (((process_current s + 1) mod MAX_PROCESSES + int j) mod MAX_PROCESSES)) \<and>
    process s' = process s \<and> pobj s' = pobj s \<and> sched_inv s'"
proof -
  let ?c = "process_current s" and ?N = MAX_PROCESSES
  let ?at = "\<lambda>j. ((?c + 1) mod ?N + int j) mod ?N"
  have N: "(0 :: int) < ?N" by (simp add: MAX_PROCESSES_def)
  have range: "0 \<le> ?at j" "?at j < ?N" for j using N by simp_all
  define k where "k = (LEAST j. is_skipped s (?at j) = Some False)"
  have "is_skipped s (?at (ring_dist ?c p)) = Some False"
    using p ring_dist_at [of p ?c] by (simp add: runnable_def)
  then have k: "is_skipped s (?at k) = Some False" "k \<le> ring_dist ?c p"
    unfolding k_def by (rule LeastI, rule Least_le)
  have before: "is_skipped s (?at j) \<noteq> Some False" if "j < k" for j
    using that not_less_Least unfolding k_def by blast
  then have "\<forall>j < k. is_skipped s (?at j) = Some True"
    using is_skipped_total [OF inv range] by (metis (full_types))
  then have nxt: "next_process (is_skipped s) ((?c + 1) mod ?N) = Some (?at k)"
    using k(1) N by (intro next_process_finds) simp_all
  have run: "runnable s (?at k)" using k(1) range by (simp add: runnable_def)
  from runnable_proc_at [OF this] obtain pr where "proc_at s (?at k) = Some pr" by blast
  from process_switch_to_total [OF inv this range] obtain s' where s': "process_switch_to (?at k) s = Some s'"
    "process_current s' = ?at k" "process s' = process s" "pobj s' = pobj s" "sched_inv s'" by blast
  have "\<forall>j < k. \<not> runnable s (?at j)" using before by (auto simp: runnable_def)
  then show ?thesis using k(2) nxt s' run by (intro exI [of _ k] exI [of _ s']) (simp add: scheduler_def)
qed

fun sched_trace :: "nat \<Rightarrow> procs \<Rightarrow> (int list \<times> procs) option" where
  "sched_trace 0 s = Some ([], s)"
| "sched_trace (Suc n) s = do { (p, s) \<leftarrow> scheduler s; (ps, s) \<leftarrow> sched_trace n s; Some (p # ps, s) }"

lemma runnable_same:
  assumes "process s' = process s" "pobj s' = pobj s"
  shows "runnable s' p = runnable s p"
  using assms by (simp add: runnable_def is_skipped_def proc_ptr_def cong: if_cong)

lemma sched_trace_total:
  assumes "sched_inv s" "runnable s p"
  shows "\<exists>ps s'. sched_trace n s = Some (ps, s') \<and> length ps = n \<and>
    (ring_dist (process_current s) p < n \<longrightarrow> p \<in> set ps)"
  using assms
proof (induction n arbitrary: s)
  case (Suc n)
  let ?c = "process_current s"
  from scheduler_picks [OF Suc.prems] obtain k s1 where
    s1: "k \<le> ring_dist ?c p" "scheduler s = Some (process_current s1, s1)"
    "process_current s1 = ((?c + 1) mod MAX_PROCESSES + int k) mod MAX_PROCESSES"
    "process s1 = process s" "pobj s1 = pobj s" "sched_inv s1" by metis
  from Suc.IH [OF s1(6)] Suc.prems(2) runnable_same [OF s1(4,5)] obtain ps s' where
    r: "sched_trace n s1 = Some (ps, s')" "length ps = n" "ring_dist (process_current s1) p < n \<longrightarrow> p \<in> set ps" by auto
  have "p = process_current s1 \<or> p \<in> set ps" if "ring_dist ?c p < Suc n"
  proof (cases "k = ring_dist ?c p")
    case True
    then show ?thesis using ring_dist_at [of p ?c] Suc.prems(2) s1(3) by (simp add: runnable_def)
  next
    case False
    then have "k < ring_dist ?c p" using s1(1) by simp
    from ring_dist_step [OF this] s1(3) have "ring_dist (process_current s1) p < n" using that \<open>k < ring_dist ?c p\<close> by simp
    then show ?thesis using r(3) by blast
  qed
  then show ?case using s1(2) r by auto
qed simp

lemma next_process_diverges:
  assumes "\<And>i. 0 \<le> i \<Longrightarrow> i < MAX_PROCESSES \<Longrightarrow> skip i = Some True" "0 \<le> from" "from < MAX_PROCESSES"
  shows "next_process skip from = None"
proof (rule ccontr)
  assume "next_process skip from \<noteq> None"
  then obtain r where r: "next_process skip from = Some r" by auto
  let ?P = "\<lambda>sk fr (r :: int). (\<forall>i. 0 \<le> i \<longrightarrow> i < MAX_PROCESSES \<longrightarrow> sk i = Some True) \<longrightarrow>
    0 \<le> fr \<longrightarrow> fr < MAX_PROCESSES \<longrightarrow> False"
  have "?P skip from r"
  proof (rule next_process.raw_induct [of ?P, OF _ r])
    fix np sk fr r
    assume IH: "\<And>sk fr r. np sk fr = Some r \<Longrightarrow> ?P sk fr r"
      and step: "sk fr \<bind> (\<lambda>b. if b then np sk ((fr + 1) mod MAX_PROCESSES) else Some fr) = Some r"
    have "(0 :: int) < MAX_PROCESSES" by (simp add: MAX_PROCESSES_def)
    then show "?P sk fr r" using step IH [of sk "(fr + 1) mod MAX_PROCESSES" r]
      by (auto simp: bind_eq_Some_conv split: if_splits)
  qed
  then show False using assms by blast
qed

lemma find_pid_result:
  assumes "find_pid tried lst tab = Some (r, lst')"
  shows "\<exists>k. lst' = lst + 1 + int k \<and> (\<forall>j < k. \<exists>p. rd tab (nat ((lst + 1 + int j) mod MAX_PROCESSES)) = Some p \<and> p \<noteq> 0) \<and>
    (case r of None \<Rightarrow> lst' mod MAX_PROCESSES = tried
     | Some pid \<Rightarrow> pid = lst' mod MAX_PROCESSES \<and> rd tab (nat pid) = Some 0)"
proof -
  let ?P = "\<lambda>tried lst tab (r, lst'). \<exists>k. lst' = lst + 1 + int k \<and>
    (\<forall>j < k. \<exists>p. rd tab (nat ((lst + 1 + int j) mod MAX_PROCESSES)) = Some p \<and> p \<noteq> (0 :: u32)) \<and>
    (case r of None \<Rightarrow> lst' mod MAX_PROCESSES = tried
     | Some pid \<Rightarrow> pid = lst' mod MAX_PROCESSES \<and> rd tab (nat pid) = Some 0)"
  have "?P tried lst tab (r, lst')"
  proof (rule find_pid.raw_induct [of ?P, OF _ assms])
    fix fp tried lst tab and y :: "int option \<times> int"
    assume IH: "\<And>a b c d. fp a b c = Some d \<Longrightarrow> ?P a b c d"
      and step: "(if 2 ^ 31 - 1 < lst + 1 then None
        else let lst = lst + 1; pid = lst mod MAX_PROCESSES
             in if pid = tried then Some (None, lst)
                else rd tab (nat pid) \<bind> (\<lambda>p. if p \<noteq> 0 then fp tried lst tab else Some (Some pid, lst))) = Some y"
    consider (here) "y = (None, lst + 1)" "(lst + 1) mod MAX_PROCESSES = tried"
      | (free) "y = (Some ((lst + 1) mod MAX_PROCESSES), lst + 1)" "rd tab (nat ((lst + 1) mod MAX_PROCESSES)) = Some 0"
      | (on) p where "rd tab (nat ((lst + 1) mod MAX_PROCESSES)) = Some p" "p \<noteq> 0" "fp tried (lst + 1) tab = Some y"
      using step by (auto simp: Let_def bind_eq_Some_conv split: if_splits)
    then show "?P tried lst tab y"
    proof cases
      case on
      obtain r l where y: "y = (r, l)" by (cases y)
      from IH [OF on(3)] y obtain k where k: "l = lst + 1 + 1 + int k"
        "\<forall>j < k. \<exists>p. rd tab (nat ((lst + 1 + 1 + int j) mod MAX_PROCESSES)) = Some p \<and> p \<noteq> 0"
        "case r of None \<Rightarrow> l mod MAX_PROCESSES = tried | Some pid \<Rightarrow> pid = l mod MAX_PROCESSES \<and> rd tab (nat pid) = Some 0" by auto
      have "\<exists>p. rd tab (nat ((lst + 1 + int j) mod MAX_PROCESSES)) = Some p \<and> p \<noteq> 0" if "j < Suc k" for j
        using that on(1,2) k(2) by (cases j) (auto simp: ac_simps)
      then show ?thesis using k(1,3) y by (auto intro!: exI [of _ "Suc k"])
    qed auto
  qed
  then show ?thesis by simp
qed

text \<open>A search with a full table: where it ends, and that it need not end.\<close>

lemma find_pid_full:
  assumes full: "\<forall>p \<in> set tab. p \<noteq> 0" "length tab = nat MAX_PROCESSES"
    and d: "0 \<le> tried" "tried < MAX_PROCESSES" "ring_dist lst tried = n" "- 1 \<le> lst" "lst + 1 + int n \<le> 2 ^ 31 - 1"
  shows "find_pid tried lst tab = Some (None, lst + 1 + int n)"
  using d
proof (induction n arbitrary: lst)
  case 0
  then have "((lst + 1) mod MAX_PROCESSES) mod MAX_PROCESSES = tried" using ring_dist_at [of tried lst] by simp
  then have "(lst + 1) mod MAX_PROCESSES = tried" by simp
  then show ?case using 0 by (subst find_pid.simps) (simp add: Let_def)
next
  case (Suc n)
  let ?p = "(lst + 1) mod MAX_PROCESSES"
  have p: "0 \<le> ?p" "?p < MAX_PROCESSES" by (simp_all add: MAX_PROCESSES_def)
  have dist: "ring_dist ?p tried = n" using ring_dist_step [of 0 lst tried] Suc.prems(3) by simp
  have same: "ring_dist ?p tried = ring_dist (lst + 1) tried"
  proof -
    have "(tried - 1 - (lst + 1) mod MAX_PROCESSES) mod MAX_PROCESSES = (tried - 1 - (lst + 1)) mod MAX_PROCESSES"
      by (rule mod_diff_right_eq)
    then show ?thesis by (simp add: ring_dist_def algebra_simps)
  qed
  have ne: "?p \<noteq> tried"
  proof
    assume "?p = tried"
    then have "ring_dist lst tried = ring_dist lst ?p" by simp
    also have "\<dots> = nat (((lst + 1) mod MAX_PROCESSES - (lst + 1)) mod MAX_PROCESSES)" by (simp add: ring_dist_def algebra_simps)
    also have "\<dots> = 0" by (simp add: mod_diff_left_eq)
    finally show False using Suc.prems(3) by simp
  qed
  have "rd tab (nat ?p) = Some (tab ! nat ?p)" "tab ! nat ?p \<noteq> 0" using full p by (simp_all add: nat_less_iff)
  moreover have "find_pid tried (lst + 1) tab = Some (None, lst + 1 + 1 + int n)"
    using Suc.prems dist same by (intro Suc.IH) auto
  ultimately show ?case using ne Suc.prems by (subst find_pid.simps) (simp add: Let_def)
qed

lemma find_pid_hangs:
  assumes "\<forall>p \<in> set tab. p \<noteq> 0" "MAX_PROCESSES \<le> tried"
  shows "find_pid tried lst tab = None"
proof (rule ccontr)
  assume "find_pid tried lst tab \<noteq> None"
  then obtain r where r: "find_pid tried lst tab = Some r" by auto
  let ?P = "\<lambda>tr l tb (r :: int option \<times> int). (\<forall>p \<in> set tb. p \<noteq> (0 :: u32)) \<longrightarrow> MAX_PROCESSES \<le> tr \<longrightarrow> False"
  have "?P tried lst tab r"
  proof (rule find_pid.raw_induct [of ?P, OF _ r])
    fix fp tried lst tab y
    assume IH: "\<And>a b c d. fp a b c = Some d \<Longrightarrow> ?P a b c d"
      and step: "(if 2 ^ 31 - 1 < lst + 1 then None
        else let lst = lst + 1; pid = lst mod MAX_PROCESSES
             in if pid = tried then Some (None, lst)
                else rd tab (nat pid) \<bind> (\<lambda>p. if p \<noteq> 0 then fp tried lst tab else Some (Some pid, lst))) = Some y"
    have "(lst + 1) mod MAX_PROCESSES < MAX_PROCESSES" by (simp add: MAX_PROCESSES_def)
    then show "?P tried lst tab y"
      using step IH [of tried "lst + 1" tab y] by (auto simp: Let_def bind_eq_Some_conv rd_eq_Some split: if_splits)
  qed
  then show False using assms by blast
qed

section \<open>Properties\<close>

text \<open>
  C6. Round robin: when there is a process that is not blocked, \<^verbatim>\<open>scheduler\<close> returns the first such process
  after the current one in the cyclic order of the table and makes it the current one, with the table
  and the process objects unchanged; and it is fair: in any 1024 consecutive calls, each of which
  returns, every process that is not blocked is chosen at least once.
\<close>

theorem scheduler_is_fair:
  assumes "sched_inv s" "runnable s p"
  defines "after \<equiv> \<lambda>k. (process_current s + 1 + int k) mod MAX_PROCESSES"
  shows "(\<exists>k s'. scheduler s = Some (after k, s') \<and> process_current s' = after k \<and> runnable s (after k) \<and>
      (\<forall>j < k. \<not> runnable s (after j)) \<and> process s' = process s \<and> pobj s' = pobj s) \<and>
    (\<exists>ps s'. sched_trace (nat MAX_PROCESSES) s = Some (ps, s') \<and> length ps = nat MAX_PROCESSES \<and> p \<in> set ps)"
proof -
  have "((process_current s + 1) mod MAX_PROCESSES + int k) mod MAX_PROCESSES = after k" for k
    unfolding after_def by (rule mod_add_left_eq)
  note picks = scheduler_picks [OF assms(1,2), unfolded this]
  show ?thesis using picks sched_trace_total [OF assms(1,2), of "nat MAX_PROCESSES"] ring_dist_less by metis
qed

definition demo_process :: "int \<Rightarrow> ProcessState \<Rightarrow> Process" where
  "demo_process pid st = \<lparr>p_pid = pid, p_parent = 0, p_state = st, p_callback = 0, p_return_value = 0,
     p_userspace = 0, p_user = 0, p_group = 0, p_time_started = 1337, p_file = replicate MAX_PROCESS_FILES (- 1),
     p_reg = \<lparr>reg_status = 0, reg_pc = 0, reg_stack = 0, reg_general = replicate 15 0\<rparr>\<rparr>"

definition demo_procs :: "u32 list \<Rightarrow> int \<Rightarrow> procs" where
  "demo_procs tab lst = \<lparr>process = tab,
     pobj = [0x100 \<mapsto> demo_process 0 PROCESS_STATE_RUNNING, 0x300 \<mapsto> demo_process 1 PROCESS_STATE_BLOCKED,
             0x500 \<mapsto> (demo_process 2 PROCESS_STATE_RUNNING)\<lparr>p_callback := 0x700\<rparr>],
     cbobj = [0x700 \<mapsto> \<lparr>cb_func = Kill_callback, cb_owner = 1, cb_args = 0, cb_next = 0\<rparr>],
     process_current = 0, process_last = lst,
     kheap_of = \<lparr>hmem = \<lambda>_. 0, freelist = replicate 5 0, heap_end = 0xE1000000, malloc_used_mem = 0, kmmu = boot_mmu\<rparr>\<rparr>"

lemma demo_sched_inv: "set tab \<subseteq> {0, 0x100, 0x300, 0x500} \<Longrightarrow> length tab = nat MAX_PROCESSES \<Longrightarrow> sched_inv (demo_procs tab lst)"
  by (auto simp: sched_inv_def demo_procs_def MAX_PROCESSES_def boot_mmu_def mapper_ok_def MAPPER_PAGES_def)

theorem scheduler_is_fair_witness:
  "(\<exists>s'. scheduler (demo_procs (0x100 # 0x300 # 0x500 # replicate 1021 0) 2) = Some (2, s') \<and> process_current s' = 2) \<and>
   (\<exists>ps s'. sched_trace (nat MAX_PROCESSES) (demo_procs (0x100 # 0x300 # 0x500 # replicate 1021 0) 2) = Some (ps, s') \<and> 2 \<in> set ps)"
proof -
  let ?s = "demo_procs (0x100 # 0x300 # 0x500 # replicate 1021 0) 2"
  have "sched_inv ?s" by (rule demo_sched_inv) (auto simp: MAX_PROCESSES_def)
  moreover have "runnable ?s 2"
    by (simp add: runnable_def is_skipped_def proc_ptr_def demo_procs_def demo_process_def MAX_PROCESSES_def rd_def)
  moreover have "\<not> runnable ?s ((process_current ?s + 1 + int 0) mod MAX_PROCESSES)"
    by (simp add: runnable_def is_skipped_def proc_ptr_def demo_procs_def demo_process_def MAX_PROCESSES_def rd_def)
  moreover have at: "(process_current ?s + 1 + int 1) mod MAX_PROCESSES = 2" by (simp add: demo_procs_def MAX_PROCESSES_def)
  moreover obtain k s' where k: "scheduler ?s = Some ((process_current ?s + 1 + int k) mod MAX_PROCESSES, s')"
    "process_current s' = (process_current ?s + 1 + int k) mod MAX_PROCESSES"
    "runnable ?s ((process_current ?s + 1 + int k) mod MAX_PROCESSES)"
    "\<forall>j < k. \<not> runnable ?s ((process_current ?s + 1 + int j) mod MAX_PROCESSES)"
    using scheduler_is_fair [OF calculation(1,2)] by blast
  ultimately have "k = 1" using not_less_iff_gr_or_eq [of k 1] by (metis less_one)
  then show ?thesis using k(1,2) at scheduler_is_fair [OF \<open>sched_inv ?s\<close> \<open>runnable ?s 2\<close>] by (metis (no_types))
qed

text \<open>
  C24. If every process is blocked \<^verbatim>\<open>scheduler\<close> never returns: the search goes round the table for ever.
\<close>

theorem scheduler_hangs_when_all_blocked:
  assumes "\<forall>pid. 0 \<le> pid \<longrightarrow> pid < MAX_PROCESSES \<longrightarrow> is_skipped s pid = Some True"
  shows "scheduler s = None"
  using assms next_process_diverges [of "is_skipped s" "(process_current s + 1) mod MAX_PROCESSES"]
  by (simp add: scheduler_def MAX_PROCESSES_def)

theorem scheduler_hangs_when_all_blocked_witness:
  "scheduler (demo_procs (replicate 1024 0x300) 2) = None"
  by (rule scheduler_hangs_when_all_blocked)
    (simp add: is_skipped_def proc_ptr_def demo_procs_def demo_process_def MAX_PROCESSES_def rd_def nat_less_iff)

text \<open>A successful creation, step by step: the slot, the object, and the new address space, if there was a frame for it.\<close>

lemma process_create_result:
  assumes "process_create fresh uid gid s = Some (pid, s')" "0 \<le> pid"
  obtains k lst p h u mm where "lst = process_last s + 1 + int k" "pid = lst mod MAX_PROCESSES"
    "\<forall>j < k. \<exists>q. proc_ptr s ((process_last s + 1 + int j) mod MAX_PROCESSES) = Some q \<and> q \<noteq> 0"
    "proc_ptr s pid = Some 0" "kmalloc sizeof_Process (kheap_of s) = Some (p, h)" "p \<noteq> 0"
    "\<exists>r. mmu040_init_userspace (Some (p_userspace fresh)) (kmmu h) = Some (r, Some u, mm)" "nat pid < length (process s)"
    "s' = s\<lparr>process_last := lst, kheap_of := h\<lparr>kmmu := mm\<rparr>, process := (process s)[nat pid := p],
       pobj := (pobj s)(p \<mapsto> fresh\<lparr>p_pid := pid, p_state := PROCESS_STATE_RUNNING, p_user := uid, p_group := gid,
         p_time_started := 1337, p_userspace := u, p_file := replicate MAX_PROCESS_FILES (- 1)\<rparr>)\<rparr>"
proof -
  from assms obtain lst p h userspace s1 tab where
    f: "find_pid (process_last s) (process_last s) (process s) = Some (Some pid, lst)" and
    k: "kmalloc sizeof_Process (kheap_of s) = Some (p, h)" and
    p: "p \<noteq> 0" and
    w: "with_mmu (\<lambda>mm. do { (r, hnd, mm) \<leftarrow> mmu040_init_userspace (Some (p_userspace fresh)) mm; u \<leftarrow> hnd; Some (u, mm) })
      (s\<lparr>process_last := lst, kheap_of := h\<rparr>) = Some (userspace, s1)" and
    t: "wr (process s1) (nat pid) p = Some tab" and
    s': "s' = s1\<lparr>pobj := (pobj s1)(p \<mapsto> fresh\<lparr>p_pid := pid, p_state := PROCESS_STATE_RUNNING, p_user := uid, p_group := gid,
        p_time_started := 1337, p_userspace := userspace, p_file := replicate MAX_PROCESS_FILES (- 1)\<rparr>), process := tab\<rparr>"
    by (auto simp: process_create_def Let_def bind_eq_Some_conv split: option.splits if_splits)
  let ?mm = "kmmu (kheap_of s1)"
  have mm: "\<exists>r. mmu040_init_userspace (Some (p_userspace fresh)) (kmmu h) = Some (r, Some userspace, ?mm)"
    "s1 = s\<lparr>process_last := lst, kheap_of := h\<lparr>kmmu := ?mm\<rparr>\<rparr>"
    using w by (auto simp: with_mmu_def bind_eq_Some_conv)
  have max: "\<not> x mod MAX_PROCESSES < 0" for x by (simp add: MAX_PROCESSES_def)
  from find_pid_result [OF f] obtain k where "lst = process_last s + 1 + int k" "pid = lst mod MAX_PROCESSES"
    "\<forall>j < k. \<exists>q. proc_ptr s ((process_last s + 1 + int j) mod MAX_PROCESSES) = Some q \<and> q \<noteq> 0"
    "proc_ptr s pid = Some 0" using assms(2) by (auto simp: proc_ptr_def max)
  moreover have "process s1 = process s" "pobj s1 = pobj s" using mm(2) by (metis procs.select_convs(1,2) procs.surjective procs.update_convs(5,6))+
  then have "tab = (process s)[nat pid := p]" "nat pid < length (process s)" "pobj s1 = pobj s" using t by (auto simp: wr_eq_Some)
  ultimately show ?thesis using that [of lst k p h userspace ?mm] k p s' mm by simp
qed

text \<open>
  C22. A process that \<^verbatim>\<open>process_create\<close> returns took the first free slot after the last one used: counting
  up from \<^verbatim>\<open>_process_last\<close>, modulo the size of the table, every slot before it is occupied and it is
  free, and \<^verbatim>\<open>_process_last\<close> is left where the count stopped.  The slot now points to a process object
  with that pid, running, owned by the given user and group, without open files, and the other
  slots are as before.
\<close>

theorem process_create_fills_free_slot:
  assumes "process_create fresh uid gid s = Some (pid, s')" "0 \<le> pid"
  shows "(\<exists>k. process_last s' = process_last s + 1 + int k \<and> pid = process_last s' mod MAX_PROCESSES \<and>
       (\<forall>j < k. \<exists>p. proc_ptr s ((process_last s + 1 + int j) mod MAX_PROCESSES) = Some p \<and> p \<noteq> 0)) \<and>
    proc_ptr s pid = Some 0 \<and>
    (\<exists>pr. proc_at s' pid = Some pr \<and> p_pid pr = pid \<and> p_state pr = PROCESS_STATE_RUNNING \<and> p_user pr = uid \<and>
       p_group pr = gid \<and> p_file pr = replicate MAX_PROCESS_FILES (- 1)) \<and>
    (\<forall>q. q \<noteq> pid \<longrightarrow> proc_ptr s' q = proc_ptr s q)"
proof -
  from process_create_result [OF assms] obtain k lst p h u mm where first: "lst = process_last s + 1 + int k"
    "pid = lst mod MAX_PROCESSES"
    "\<forall>j < k. \<exists>q. proc_ptr s ((process_last s + 1 + int j) mod MAX_PROCESSES) = Some q \<and> q \<noteq> 0"
    and r: "proc_ptr s pid = Some 0" "p \<noteq> 0" "nat pid < length (process s)"
    "s' = s\<lparr>process_last := lst, kheap_of := h\<lparr>kmmu := mm\<rparr>, process := (process s)[nat pid := p],
       pobj := (pobj s)(p \<mapsto> fresh\<lparr>p_pid := pid, p_state := PROCESS_STATE_RUNNING, p_user := uid, p_group := gid,
         p_time_started := 1337, p_userspace := u, p_file := replicate MAX_PROCESS_FILES (- 1)\<rparr>)\<rparr>" by metis
  then have "proc_ptr s' q = proc_ptr s q" if "q \<noteq> pid" for q
    using that assms(2) by (auto simp: proc_ptr_def rd_def nth_list_update eq_nat_nat_iff)
  moreover have "proc_at s' pid = pobj s' p" using r assms(2) by (simp add: proc_at_def proc_ptr_def)
  moreover have "process_last s' = lst" using r by simp
  ultimately show ?thesis using r first by auto
qed

definition roomy_procs :: procs where
  "roomy_procs = (demo_procs (replicate 1024 0) (- 1))\<lparr>kheap_of :=
     \<lparr>hmem = (\<lambda>_. 0)(0x1000 := 368), freelist = [0, 0, 0, 0, 0x1000], heap_end = 0xE1000000, malloc_used_mem = 0, kmmu = boot_mmu\<rparr>\<rparr>"

lemma roomy_kmalloc:
  "kmalloc sizeof_Process (kheap_of roomy_procs) = Some (0x1008, (kheap_of roomy_procs)\<lparr>freelist := [0, 0, 0, 0, 0]\<rparr>)"
proof -
  have q: "quicklist 368 = 4"
    by (simp add: quicklist_def NRQUICKLISTS_def push_bit_eq_mult upt_rec)
  have find: "find_fit 368 (Freelist 4) (kheap_of roomy_procs) = Some (Freelist 4)"
    by (subst find_fit.simps) (simp add: roomy_procs_def hsize_def)
  show ?thesis
    by (simp add: kmalloc_def sizeof_Process_def q, subst kmalloc_loop.simps)
      (simp add: find, simp add: roomy_procs_def take_block_def hsize_def hnext_def ALIGN_def sizeof_Header_def)
qed

theorem process_create_fills_free_slot_witness:
  "\<exists>s' pr. process_create (demo_process 7 PROCESS_STATE_ZOMBIE) 5 6 roomy_procs = Some (0, s') \<and>
     proc_at s' 0 = Some pr \<and> p_user pr = 5 \<and> p_state pr = PROCESS_STATE_RUNNING"
proof -
  have f: "find_pid (- 1) (- 1) (replicate 1024 0) = Some (Some 0, 0)"
    by (subst find_pid.simps) (simp add: MAX_PROCESSES_def rd_def)
  have "frame_pool_inv boot_mmu [0x80001000, 0x80002000, 0x80003000]" "free_frames boot_mmu \<noteq> 0"
    using boot_mmu_inv by (auto simp: vm_inv_def boot_mmu_def)
  from pool_frame_points [OF this] obtain mm where mm: "alloc_frame boot_mmu = Some (0x80001000, mm)" by blast
  have "\<exists>s'. process_create (demo_process 7 PROCESS_STATE_ZOMBIE) 5 6 roomy_procs = Some (0, s')"
    using f mm roomy_kmalloc
    by (simp add: process_create_def roomy_procs_def demo_procs_def with_mmu_def
        mmu040_init_userspace_def Let_def)
  then obtain s' where "process_create (demo_process 7 PROCESS_STATE_ZOMBIE) 5 6 roomy_procs = Some (0, s')" by blast
  from this process_create_fills_free_slot [OF this] show ?thesis by auto
qed

text \<open>
  With a full table \<^verbatim>\<open>process_create\<close> reports \<^verbatim>\<open>-EAGAIN\<close> once, after a full turn which leaves
  \<^verbatim>\<open>_process_last\<close> at 1024 or more; from then on no slot equals it and the next call never returns.
\<close>

lemma process_create_full_table:
  assumes "\<forall>p \<in> set (process s). p \<noteq> 0" "length (process s) = nat MAX_PROCESSES"
    "0 \<le> process_last s" "process_last s < MAX_PROCESSES"
  shows "process_create fresh uid gid s = Some (- errno EAGAIN, s\<lparr>process_last := process_last s + MAX_PROCESSES\<rparr>) \<and>
    process_create fresh' uid' gid' (s\<lparr>process_last := process_last s + MAX_PROCESSES\<rparr>) = None"
proof -
  have "ring_dist (process_last s) (process_last s) = nat (MAX_PROCESSES - 1)"
    by (simp add: ring_dist_def MAX_PROCESSES_def)
  then have "find_pid (process_last s) (process_last s) (process s) = Some (None, process_last s + 1 + int (nat (MAX_PROCESSES - 1)))"
    using assms by (intro find_pid_full) (auto simp: MAX_PROCESSES_def)
  moreover have "process_last s + 1 + int (nat (MAX_PROCESSES - 1)) = process_last s + MAX_PROCESSES"
    by (simp add: MAX_PROCESSES_def)
  moreover have "find_pid (process_last s + MAX_PROCESSES) (process_last s + MAX_PROCESSES) (process s) = None"
    using assms by (intro find_pid_hangs) auto
  ultimately show ?thesis by (simp add: process_create_def)
qed

text \<open>
  C23. \<^verbatim>\<open>process_exit\<close> of a process that exactly one other process waits for is undefined: the loop over
  the callbacks removes the only one and then steps through the null pointer it left behind.
\<close>

theorem process_exit_faults_with_one_waiter:
  assumes "2 \<le> pid" "pid < MAX_PROCESSES" "proc_ptr s pid = Some p" "p \<noteq> 0" "pobj s p = Some pr"
    "p_callback pr = c" "c \<noteq> 0" "cbobj s c = Some cb" "cb_next cb = 0"
  shows "process_exit pid r s = None"
proof -
  have "run_callbacks (HeadOf p) s = None"
  proof (rule ccontr)
    assume "run_callbacks (HeadOf p) s \<noteq> None"
    then obtain s' where r: "run_callbacks (HeadOf p) s = Some s'" by auto
    have null: "run_callbacks (NextCb 0) t = None" for t by (subst run_callbacks.simps) simp
    from r assms obtain s1 where k: "kill_callback (cb_owner cb) s = Some (True, s1)"
      and rest: "(do { cb \<leftarrow> cbobj s1 c; t \<leftarrow> set_cblink s1 (HeadOf p) (cb_next cb); h \<leftarrow> kfree c (kheap_of t);
          let t = t\<lparr>kheap_of := h, cbobj := (cbobj t)(c := None)\<rparr>; n \<leftarrow> get_cblink t (HeadOf p); run_callbacks (NextCb n) t }) = Some s'"
      by (subst (asm) run_callbacks.simps)
        (auto simp: bind_eq_Some_conv kill_callback_def Let_def split: callback_func.splits)
    from k have "cbobj s1 = cbobj s" by (auto simp: kill_callback_def proc_update_def bind_eq_Some_conv)
    with rest assms show False by (auto simp: bind_eq_Some_conv null Let_def)
  qed
  then show ?thesis using assms by (simp add: process_exit_def)
qed

theorem process_exit_faults_with_one_waiter_witness:
  "process_exit 2 0 (demo_procs (0x100 # 0x300 # 0x500 # replicate 1021 0) 2) = None"
  by (rule process_exit_faults_with_one_waiter [where p = "0x500" and c = "0x700" and
        pr = "(demo_process 2 PROCESS_STATE_RUNNING)\<lparr>p_callback := 0x700\<rparr>" and
        cb = "\<lparr>cb_func = Kill_callback, cb_owner = 1, cb_args = 0, cb_next = 0\<rparr>"])
    (simp_all add: demo_procs_def proc_ptr_def MAX_PROCESSES_def demo_process_def rd_def)

end
