(* ===== verification/Device.thy ===== *)
theory Device
  imports CString KHeap
begin

text \<open>
  The device registry, \<^verbatim>\<open>kernel/device.c\<close>, with the numbers of \<^verbatim>\<open>sys/types.h\<close>, and the memory-backed
  block device \<^verbatim>\<open>kernel/modules/blockdev/memblk.c\<close> that registers itself there.

  A \<^verbatim>\<open>Device *\<close> is its address.  The registry is the array of pointers to registered devices,
  \<^term>\<open>None\<close> being \<^verbatim>\<open>NULL\<close>; the records themselves come from \<^verbatim>\<open>kmalloc\<close>, whose heap is passed along.
  The contents of fresh memory, which the code does not clear, are an argument.
\<close>

section \<open>Device numbers\<close>

definition makedev :: "u32 \<Rightarrow> u32 \<Rightarrow> u32" where
  "makedev maj mnr = push_bit 16 (maj AND 0xFFFF) OR (mnr AND 0xFFFF)"
definition minor :: "u32 \<Rightarrow> u32" where "minor dev = dev AND 0xFFFF"
definition major :: "u32 \<Rightarrow> u32" where "major dev = drop_bit 16 dev"

section \<open>The registry\<close>

definition DEVICE_MAX :: nat where "DEVICE_MAX = 256"
definition DEVICE_NAME_LEN :: nat where "DEVICE_NAME_LEN = 32"

record RegisteredDevice =
  reg_name :: bytes
  reg_device :: u32

record devtab =
  device_registered :: "RegisteredDevice option list"
  major_free :: u16

definition sizeof_RegisteredDevice :: u32 where "sizeof_RegisteredDevice = 36"

text \<open>
  The check for a name or device that is taken: the loop tests the slot of the new number, not
  slot \<open>i\<close>, before it looks at slot \<open>i\<close>.
\<close>

definition register_check :: "bytes \<Rightarrow> u32 \<Rightarrow> u32 \<Rightarrow> nat \<Rightarrow> devtab \<Rightarrow> ((int \<times> devtab) + devtab) option" where
  "register_check name device devno i d = do {
     slot \<leftarrow> rd (device_registered d) (unat (major devno));
     case slot of
       None \<Rightarrow> Some (Inr d)
     | Some _ \<Rightarrow> do {
         entry \<leftarrow> rd (device_registered d) i;
         r \<leftarrow> entry;
         c \<leftarrow> strcmp (reg_name r) name;
         if c = 0 then Some (Inl (- 1, d))
         else if device = reg_device r then Some (Inl (- 1, d))
         else Some (Inr d) } }"

definition device_register ::
  "bytes \<Rightarrow> bytes \<Rightarrow> u32 \<Rightarrow> devtab \<Rightarrow> kheap \<Rightarrow> (int \<times> u32 \<times> devtab \<times> kheap) option" where
  "device_register fresh name device d h = do {
     let devno = push_bit 16 (ucast (major_free d)) OR 1;
     chk \<leftarrow> for_return [0..<DEVICE_MAX] (register_check name device devno) d;
     case chk of
       Inl (r, d) \<Rightarrow> Some (r, devno, d, h)
     | Inr d \<Rightarrow> do {
         (p, h) \<leftarrow> kmalloc sizeof_RegisteredDevice h;
         if p = 0 then Some (- errno ENOMEM, devno, d, h)
         else do {
           nm \<leftarrow> strcpy fresh name;
           tab \<leftarrow> wr (device_registered d) (unat (major_free d))
                   (Some \<lparr>reg_name = nm, reg_device = device\<rparr>);
           Some (0, devno, \<lparr>device_registered = tab, major_free = major_free d + 1\<rparr>, h) } } }"

text \<open>A null result is address 0.\<close>

definition device_lookup :: "u32 \<Rightarrow> devtab \<Rightarrow> u32 option" where
  "device_lookup device_number d = do {
     slot \<leftarrow> rd (device_registered d) (unat (major device_number));
     Some (case slot of None \<Rightarrow> 0 | Some r \<Rightarrow> reg_device r) }"

text \<open>The device number and, where the caller asked for it, the device.\<close>

fun lookup_name_from :: "bytes \<Rightarrow> nat \<Rightarrow> RegisteredDevice option list \<Rightarrow> (u32 \<times> u32) option" where
  "lookup_name_from name i [] = Some (0, 0)"
| "lookup_name_from name i (None # tab) = lookup_name_from name (Suc i) tab"
| "lookup_name_from name i (Some r # tab) = do {
     c \<leftarrow> strcmp (reg_name r) name;
     if c = 0 then Some (makedev (of_nat i) 1, reg_device r)
     else lookup_name_from name (Suc i) tab }"

definition device_lookup_name :: "bytes \<Rightarrow> devtab \<Rightarrow> (u32 \<times> u32) option" where
  "device_lookup_name name d = lookup_name_from name 0 (device_registered d)"

text \<open>
  \<^verbatim>\<open>device_list\<close>: the bound test is the wrong way round, so every valid index is refused and every
  other one reads outside the table.  The \<^verbatim>\<open>Device\<close> record behind a pointer is given by \<open>dev_type\<close>.
\<close>

definition device_list :: "(u32 \<Rightarrow> int) \<Rightarrow> bytes \<Rightarrow> int \<Rightarrow> devtab \<Rightarrow> (int + bytes \<times> u32 \<times> int) option" where
  "device_list dev_type namebuf i d =
     (if i < int DEVICE_MAX then Some (Inl (- errno ENOENT))
      else do {
        slot \<leftarrow> rd (device_registered d) (nat i);
        case slot of
          None \<Rightarrow> Some (Inl (- errno ENOENT))
        | Some r \<Rightarrow> do {
            nm \<leftarrow> strncpy namebuf (reg_name r) DEVICE_NAME_LEN;
            nm \<leftarrow> wr nm (DEVICE_NAME_LEN - 1) 0;
            Some (Inr (nm, makedev (of_int i) 1, dev_type (reg_device r))) } })"

definition device_max :: int where "device_max = int DEVICE_MAX"

section \<open>Memory-backed block devices\<close>

definition MAX_MEMBLK :: nat where "MAX_MEMBLK = 4"
definition INT_MAX :: int where "INT_MAX = 2 ^ 31 - 1"

record MemblkDescriptor =
  mb_addr :: u32
  mb_len :: int
  mb_device :: u32

definition locate_device :: "u32 \<Rightarrow> MemblkDescriptor list \<Rightarrow> int" where
  "locate_device device mbs =
     (let i = find_slot (\<lambda>m. mb_len m \<ge> 0 \<and> mb_device m = device) mbs
      in if i < length mbs then int i else - errno ENOENT)"

definition memblk_alloc :: "MemblkDescriptor list \<Rightarrow> int" where
  "memblk_alloc mbs =
     (let i = find_slot (\<lambda>m. mb_len m < 0) mbs in if i < length mbs then int i else - errno ENOENT)"

definition memblk_return :: "int \<Rightarrow> MemblkDescriptor list \<Rightarrow> MemblkDescriptor list" where
  "memblk_return d mbs =
     (if d < 0 \<or> d \<ge> int MAX_MEMBLK then mbs
      else mbs[nat d := (mbs ! nat d)\<lparr>mb_len := - 1\<rparr>])"

definition memblk_init :: "MemblkDescriptor list \<Rightarrow> MemblkDescriptor list" where
  "memblk_init mbs = fold (\<lambda>i. memblk_return (int i)) [0..<MAX_MEMBLK] mbs"

definition memblk_write :: "int \<Rightarrow> int \<Rightarrow> bytes \<Rightarrow> int" where
  "memblk_write uid blk buf = - errno EBADF"

text \<open>
  \<^verbatim>\<open>memblk_read\<close>: \<open>kmem\<close> is the memory behind the device.  The result is the return value and the
  bytes stored to \<^verbatim>\<open>buf\<close>; \<^verbatim>\<open>pos + count\<close> is a signed 64-bit sum.
\<close>

definition memblk_read ::
  "(u32 \<Rightarrow> u8) \<Rightarrow> MemblkDescriptor list \<Rightarrow> u32 \<Rightarrow> int \<Rightarrow> u32 \<Rightarrow> (int \<times> bytes) option" where
  "memblk_read kmem mbs device pos count =
     (let blk = locate_device device mbs in
      if blk < 0 then Some (blk, [])
      else if pos + uint count \<ge> 2 ^ 63 then None
      else
        let m = mbs ! nat blk in
        if mb_len m < pos + uint count \<and> mb_len m < pos then Some (- errno EIO, [])
        else
          let count = (if mb_len m < pos + uint count then word_of_int (mb_len m - pos) else count) in
          if pos < 0 then Some (- errno EIO, [])
          else Some (sint count, map (\<lambda>i. kmem (mb_addr m + word_of_int pos + of_nat i)) [0..<unat count]))"

definition memblk_blksize :: "u32 \<Rightarrow> int" where "memblk_blksize device = 512"

definition memblk_devsize :: "MemblkDescriptor list \<Rightarrow> u32 \<Rightarrow> int" where
  "memblk_devsize mbs device =
     (let blk = locate_device device mbs in if blk < 0 then blk else sint (word_of_int (mb_len (mbs ! nat blk)) :: u32))"

text \<open>\<^verbatim>\<open>dev\<close> is the address of the driver's one static \<^verbatim>\<open>Device\<close>.\<close>

definition memblk_open ::
  "bytes \<Rightarrow> u32 \<Rightarrow> u32 \<Rightarrow> u32 \<Rightarrow> MemblkDescriptor list \<Rightarrow> devtab \<Rightarrow> kheap \<Rightarrow>
     (int \<times> MemblkDescriptor list \<times> devtab \<times> kheap) option" where
  "memblk_open fresh dev ptr len mbs d h =
     (if uint len \<ge> INT_MAX then Some (- errno EINVAL, mbs, d, h)
      else do {
        let i = memblk_alloc mbs;
        if i < 0 then None
        else do {
          (ret, devno, d, h) \<leftarrow> device_register fresh (cstr ''memblk0'') dev d h;
          Some (ret, mbs[nat i := \<lparr>mb_addr = ptr, mb_len = uint len, mb_device = devno\<rparr>], d, h) } })"

end
