(* ===== verification/DeviceSpec.thy ===== *)
theory DeviceSpec
  imports Device KHeapSpec
begin

text \<open>
  The device registry behaves as a table from device numbers and names to devices, as long as names are
  new; a name that is taken is accepted as well.  A memory-backed block device reads its image.
\<close>

section \<open>The registry\<close>

text \<open>
  The state of the registry after boot: entries from slot 1 up to, not including, \<^verbatim>\<open>major_free\<close> with
  terminated names, nothing elsewhere.
\<close>

definition registry_ok :: "devtab \<Rightarrow> bool" where
  "registry_ok d \<longleftrightarrow> length (device_registered d) = DEVICE_MAX \<and> 0 < unat (major_free d) \<and>
     unat (major_free d) \<le> DEVICE_MAX \<and>
     (\<forall>i < DEVICE_MAX. (device_registered d ! i \<noteq> None \<longleftrightarrow> 0 < i \<and> i < unat (major_free d)) \<and>
        (\<forall>r. device_registered d ! i = Some r \<longrightarrow> 0 \<in> set (reg_name r)))"

text \<open>The names in use.\<close>

definition names :: "devtab \<Rightarrow> bytes set" where
  "names d = {strz (reg_name r) | r. Some r \<in> set (device_registered d)}"

lemma major_of_free [simp]: "major (push_bit 16 (ucast (m :: u16)) OR 1) = (ucast m :: u32)"
  by (rule bit_eqI) (auto simp: major_def bit_drop_bit_eq bit_or_iff bit_push_bit_iff bit_unsigned_iff bit_1_iff
      dest: bit_imp_le_length)

lemma unat_ucast_u16 [simp]: "unat (ucast (m :: u16) :: u32) = unat m"
proof -
  have "unat m < 2 ^ 16" using unsigned_less [of m] by simp
  then have "take_bit 32 (unat m) = unat m" by (intro take_bit_nat_eq_self) simp
  then show ?thesis by (simp add: unsigned_ucast_eq)
qed

lemma mask_16: "(0xFFFF :: u32) = mask 16"
  by (simp add: mask_eq_exp_minus_1)

lemma makedev_major: "makedev (ucast (m :: u16)) 1 = push_bit 16 (ucast m) OR 1"
  unfolding makedev_def mask_16
  by (rule bit_eqI) (auto simp: bit_or_iff bit_and_iff bit_push_bit_iff bit_unsigned_iff bit_1_iff bit_mask_iff
      dest: bit_imp_le_length)

text \<open>The check for duplicates looks at an empty slot only and so never finds one.\<close>

lemma register_check_idle:
  assumes "registry_ok d" "unat (major_free d) < DEVICE_MAX"
  shows "for_return is (register_check name device (push_bit 16 (ucast (major_free d)) OR 1)) d = Some (Inr d)"
proof -
  have "device_registered d ! unat (major_free d) = None" "length (device_registered d) = DEVICE_MAX"
    using assms by (auto simp: registry_ok_def)
  then have "register_check name device (push_bit 16 (ucast (major_free d)) OR 1) i d = Some (Inr d)" for i
    using assms(2) by (simp add: register_check_def)
  then show ?thesis by (induction "is") auto
qed

lemma heap_live_nonzero:
  assumes "heap_live h (p # ps)"
  shows "p \<noteq> 0"
proof
  assume "p = 0"
  with assms obtain FS where "heap_ok h FS ((- 8) # map (\<lambda>p. p - sizeof_Header) ps)"
    by (auto simp: heap_live_def sizeof_Header_def)
  then have "block_ok (hmem h) (unat (heap_end h)) (- 8)" "unat (heap_end h) < 2 ^ 32" by (auto simp: heap_ok_def blocks_ok_iff)
  then show False by (simp add: block_ok_def bend_def)
qed

lemma device_register_eq:
  assumes "registry_ok d" "unat (major_free d) < DEVICE_MAX" "heap_live h ps" "can_kmalloc sizeof_RegisteredDevice h"
    "0 \<in> set name" "length (strz name) < length fresh"
  shows "\<exists>h' p. device_register fresh name device d h =
    Some (0, push_bit 16 (ucast (major_free d)) OR 1,
      \<lparr>device_registered = (device_registered d)[unat (major_free d) :=
         Some \<lparr>reg_name = strz name @ 0 # drop (Suc (length (strz name))) fresh, reg_device = device\<rparr>],
       major_free = major_free d + 1\<rparr>, h') \<and> heap_live h' (p # ps)"
proof -
  from kmalloc_live [OF assms(3,4)] obtain p h' where k: "kmalloc sizeof_RegisteredDevice h = Some (p, h')" "heap_live h' (p # ps)"
    by blast
  have "p \<noteq> 0" using heap_live_nonzero [OF k(2)] .
  then show ?thesis using assms k register_check_idle [OF assms(1,2)]
    by (auto simp: device_register_def Let_def strcpy_eq registry_ok_def)
qed

definition has_name :: "bytes \<Rightarrow> RegisteredDevice option \<Rightarrow> bool" where
  "has_name nm e = (case e of None \<Rightarrow> False | Some r \<Rightarrow> strz (reg_name r) = nm)"

lemma has_name_simps [simp]: "\<not> has_name nm None" "has_name nm (Some r) \<longleftrightarrow> strz (reg_name r) = nm"
  by (simp_all add: has_name_def)

lemma lookup_name_from_eq:
  assumes "0 \<in> set name" "\<forall>r. Some r \<in> set tab \<longrightarrow> 0 \<in> set (reg_name r)"
  shows "lookup_name_from name i tab =
    (let k = find_slot (has_name (strz name)) tab
     in if k < length tab then Some (makedev (of_nat (i + k)) 1, reg_device (the (tab ! k))) else Some (0, 0))"
  using assms(2)
proof (induction tab arbitrary: i)
  case (Cons e tab)
  note IH = Cons.IH [of "Suc i"]
  show ?case
  proof (cases e)
    case None
    then show ?thesis using IH Cons.prems by (simp add: Let_def)
  next
    case (Some r)
    with Cons.prems obtain c where c: "strcmp (reg_name r) name = Some c" "c = 0 \<longleftrightarrow> strz (reg_name r) = strz name"
      using strcmp_total [of "reg_name r" name] assms(1) by auto
    then show ?thesis using IH Cons.prems Some by (auto simp: Let_def ac_simps)
  qed
qed simp

lemma names_iff: "nm \<in> names d \<longleftrightarrow> (\<exists>e \<in> set (device_registered d). has_name nm e)"
  by (force simp: names_def has_name_def split: option.splits)

lemma find_slot_update_new:
  assumes "i < length xs" "\<forall>x \<in> set xs. \<not> P x" "P y"
  shows "find_slot P (xs[i := y]) = i"
  using assms by (intro find_slot_eqI) auto

lemma find_slot_update_later:
  assumes "i < length xs" "find_slot P xs < i"
  shows "find_slot P (xs[i := y]) = find_slot P xs"
  using assms find_slot_holds [of P xs] find_slot_first [of _ P xs] by (intro find_slot_eqI) auto

text \<open>The registry after a successful registration.\<close>

definition registered :: "bytes \<Rightarrow> bytes \<Rightarrow> u32 \<Rightarrow> devtab \<Rightarrow> devtab" where
  "registered fresh name device d =
     \<lparr>device_registered = (device_registered d)[unat (major_free d) :=
        Some \<lparr>reg_name = strz name @ 0 # drop (Suc (length (strz name))) fresh, reg_device = device\<rparr>],
      major_free = major_free d + 1\<rparr>"

lemma registered_ok:
  assumes "registry_ok d" "unat (major_free d) < DEVICE_MAX"
  shows "registry_ok (registered fresh name device d)"
    "unat (major_free (registered fresh name device d)) = Suc (unat (major_free d))"
proof -
  have u: "unat (major_free d + 1) = Suc (unat (major_free d))"
    using assms(2) by (subst unat_add_lem [THEN iffD1]) (auto simp: DEVICE_MAX_def)
  then show "unat (major_free (registered fresh name device d)) = Suc (unat (major_free d))" by (simp add: registered_def)
  show "registry_ok (registered fresh name device d)"
    using assms u by (auto simp: registry_ok_def registered_def nth_list_update)
qed

lemma registry_tables:
  assumes "registry_ok d"
  shows "length (device_registered d) = DEVICE_MAX" "\<forall>r. Some r \<in> set (device_registered d) \<longrightarrow> 0 \<in> set (reg_name r)"
  using assms by (auto simp: registry_ok_def in_set_conv_nth)

lemma used_slots_before:
  assumes "registry_ok d" "find_slot (has_name nm) (device_registered d) < DEVICE_MAX"
  shows "find_slot (has_name nm) (device_registered d) < unat (major_free d)"
proof -
  have "has_name nm (device_registered d ! find_slot (has_name nm) (device_registered d))"
    using assms registry_tables [OF assms(1)] by (intro find_slot_holds [of "has_name nm" "device_registered d"]) simp
  then have "device_registered d ! find_slot (has_name nm) (device_registered d) \<noteq> None"
    by (metis has_name_simps(1))
  then show ?thesis using assms by (auto simp: registry_ok_def)
qed

lemma lookup_registered:
  assumes "registry_ok d" "unat (major_free d) < DEVICE_MAX" "0 \<in> set name"
  shows "device_lookup_name name (registered fresh name device d) =
    (if strz name \<in> names d then device_lookup_name name d
     else Some (push_bit 16 (ucast (major_free d)) OR 1, device))"
proof -
  let ?tab = "device_registered d" and ?m = "unat (major_free d)"
  let ?r = "\<lparr>reg_name = strz name @ 0 # drop (Suc (length (strz name))) fresh, reg_device = device\<rparr>"
  let ?tab' = "?tab[?m := Some ?r]"
  have len: "length ?tab = DEVICE_MAX" and nul: "\<forall>r. Some r \<in> set ?tab \<longrightarrow> 0 \<in> set (reg_name r)"
    using registry_tables [OF assms(1)] by auto
  have m: "?m < length ?tab" using len assms(2) by simp
  have nul': "\<forall>r. Some r \<in> set ?tab' \<longrightarrow> 0 \<in> set (reg_name r)"
    using nul set_update_subset_insert [of ?tab ?m "Some ?r"] by auto
  have hn: "has_name (strz name) (Some ?r)" using strz_no_nul [of name] by (simp add: has_name_def strz_terminated)
  have word: "(of_nat ?m :: u32) = ucast (major_free d)" by (rule word_unat_eq_iff [THEN iffD2]) (use unsigned_less [of "major_free d"] in \<open>simp add: unat_of_nat\<close>)
  show ?thesis
  proof (cases "strz name \<in> names d")
    case True
    let ?k = "find_slot (has_name (strz name)) ?tab"
    have k: "?k < DEVICE_MAX" using True len by (simp add: names_iff find_slot_less_iff [symmetric])
    then have "?k < ?m" using used_slots_before [OF assms(1)] by simp
    then show ?thesis using True k m len find_slot_update_later [OF m, of "has_name (strz name)"]
      by (simp add: device_lookup_name_def registered_def lookup_name_from_eq [OF assms(3) nul]
          lookup_name_from_eq [OF assms(3) nul'] Let_def)
  next
    case False
    then have "find_slot (has_name (strz name)) ?tab' = ?m"
      using m hn by (intro find_slot_update_new) (auto simp: names_iff)
    then show ?thesis using False m word makedev_major [of "major_free d"]
      by (simp add: device_lookup_name_def registered_def lookup_name_from_eq [OF assms(3) nul'] Let_def)
  qed
qed

lemma registered_lookup:
  assumes "registry_ok d" "unat (major_free d) < DEVICE_MAX"
  shows "device_lookup n (registered fresh name device d) =
    (if major n = ucast (major_free d) then Some device else device_lookup n d)"
proof -
  have "unat (major n) = unat (major_free d) \<longleftrightarrow> major n = ucast (major_free d)"
    by (metis unat_ucast_u16 word_unat_eq_iff)
  then show ?thesis using assms
    by (auto simp: device_lookup_def registered_def registry_ok_def rd_def nth_list_update)
qed

lemma device_register_registered:
  assumes "registry_ok d" "unat (major_free d) < DEVICE_MAX" "heap_live h ps" "can_kmalloc sizeof_RegisteredDevice h"
    "0 \<in> set name" "length (strz name) < length fresh"
  shows "\<exists>h' p. device_register fresh name device d h =
    Some (0, push_bit 16 (ucast (major_free d)) OR 1, registered fresh name device d, h') \<and> heap_live h' (p # ps)"
  using device_register_eq [OF assms] by (simp add: registered_def)

definition boot_devtab :: devtab where
  "boot_devtab = \<lparr>device_registered = replicate DEVICE_MAX None, major_free = 1\<rparr>"

lemma boot_devtab_ok: "registry_ok boot_devtab" "unat (major_free boot_devtab) < DEVICE_MAX" "names boot_devtab = {}"
  by (auto simp: registry_ok_def boot_devtab_def DEVICE_MAX_def names_def)

lemma empty_heap_can_page:
  assumes "grow_size n = 4096" "n \<noteq> 0" "unat n \<le> 4088"
  shows "can_kmalloc n empty_heap"
  using assms empty_heap_can by (simp add: can_kmalloc_def grow_size_def ALIGNWITH_def sizeof_Header_def MMU_PAGE_SIZE_def)

lemma empty_heap_can_device: "can_kmalloc sizeof_RegisteredDevice empty_heap"
  by (rule empty_heap_can_page)
    (simp_all add: grow_size_def ALIGNWITH_def sizeof_Header_def MMU_PAGE_SIZE_def sizeof_RegisteredDevice_def)

text \<open>
  C18. Registering a device under a name that is not in use succeeds while the table has room and the
  heap has memory: the number returned and the name both lead to the device, every other number
  leads where it led before, the registry stays well formed, and one block of the heap is taken.
\<close>

theorem device_register_then_lookup:
  assumes "registry_ok d" "unat (major_free d) < DEVICE_MAX" "heap_live h ps" "can_kmalloc sizeof_RegisteredDevice h"
    "0 \<in> set name" "length (strz name) < length fresh" "strz name \<notin> names d"
  shows "\<exists>devno d' h' p. device_register fresh name device d h = Some (0, devno, d', h') \<and>
    registry_ok d' \<and> heap_live h' (p # ps) \<and>
    device_lookup devno d' = Some device \<and> device_lookup_name name d' = Some (devno, device) \<and>
    (\<forall>n. major n \<noteq> major devno \<longrightarrow> device_lookup n d' = device_lookup n d)"
proof -
  let ?d = "registered fresh name device d" and ?n = "push_bit 16 (ucast (major_free d)) OR 1"
  obtain h' p where r: "device_register fresh name device d h = Some (0, ?n, ?d, h')" "heap_live h' (p # ps)"
    using device_register_registered [OF assms(1-6)] by blast
  have "device_lookup n ?d = (if major n = ucast (major_free d) then Some device else device_lookup n d)" for n
    by (rule registered_lookup [OF assms(1,2)])
  moreover have "device_lookup_name name ?d = Some (?n, device)"
    using lookup_registered [OF assms(1,2,5)] assms(7) by simp
  ultimately show ?thesis using r registered_ok(1) [OF assms(1,2)] by (intro exI [of _ ?n] exI [of _ ?d]) auto
qed

theorem device_register_then_lookup_witness:
  "\<exists>devno d' h' p. device_register (replicate 32 0) (cstr ''uart0'') 0x1000 boot_devtab empty_heap = Some (0, devno, d', h') \<and>
    registry_ok d' \<and> heap_live h' [p] \<and> device_lookup_name (cstr ''uart0'') d' = Some (devno, 0x1000)"
  using device_register_then_lookup [OF boot_devtab_ok(1,2) empty_heap_live empty_heap_can_device,
      of "cstr ''uart0''" "replicate 32 0" "0x1000"]
  by (auto simp: boot_devtab_ok(3) cstr_def strz_def)

text \<open>
  The check for duplicates inspects the slot of the new number, which is always empty, so a name
  or a device that is already registered is accepted: the call returns 0 and fills a second slot,
  and a lookup of the name still gives the first device.
\<close>

lemma device_register_accepts_duplicates:
  assumes "registry_ok d" "unat (major_free d) < DEVICE_MAX" "heap_live h ps" "can_kmalloc sizeof_RegisteredDevice h"
    "0 \<in> set name" "length (strz name) < length fresh" "strz name \<in> names d"
  shows "\<exists>devno d' h'. device_register fresh name device d h = Some (0, devno, d', h') \<and>
    device_lookup devno d' = Some device \<and> device_lookup_name name d' = device_lookup_name name d"
  using device_register_registered [OF assms(1-6), of device] registered_lookup [OF assms(1,2)] lookup_registered [OF assms(1,2,5)] assms(7)
  by fastforce

definition one_device :: devtab where
  "one_device = registered (replicate 32 0) (cstr ''uart0'') 0x1000 boot_devtab"

lemma one_device_ok: "registry_ok one_device" "unat (major_free one_device) < DEVICE_MAX"
  "strz (cstr ''uart0'') \<in> names one_device"
proof -
  show "registry_ok one_device" unfolding one_device_def by (rule registered_ok [OF boot_devtab_ok(1,2)])
  show "unat (major_free one_device) < DEVICE_MAX"
    by (simp add: one_device_def registered_def boot_devtab_def DEVICE_MAX_def)
  have "1 < length (device_registered boot_devtab)" by (simp add: boot_devtab_def DEVICE_MAX_def)
  then show "strz (cstr ''uart0'') \<in> names one_device"
    by (auto simp: names_def one_device_def registered_def boot_devtab_def cstr_def strz_def
        intro!: exI set_update_memI)
qed

lemma device_register_accepts_duplicates_example:
  "\<exists>devno d' h'. device_register (replicate 32 0) (cstr ''uart0'') 0x2000 one_device empty_heap = Some (0, devno, d', h') \<and>
    device_lookup devno d' = Some 0x2000 \<and>
    device_lookup_name (cstr ''uart0'') d' = device_lookup_name (cstr ''uart0'') one_device"
  using device_register_accepts_duplicates [OF one_device_ok(1,2) empty_heap_live empty_heap_can_device,
      of "cstr ''uart0''" "replicate 32 0" "0x2000"] one_device_ok(3)
  by (auto simp: cstr_def strz_def)

section \<open>Memory-backed block devices\<close>

text \<open>The image behind a descriptor, and the descriptor of a device number.\<close>

definition mb_image :: "(u32 \<Rightarrow> u8) \<Rightarrow> MemblkDescriptor \<Rightarrow> bytes" where
  "mb_image kmem m = map (\<lambda>i. kmem (mb_addr m + of_nat i)) [0..<nat (mb_len m)]"

definition memblk_of :: "MemblkDescriptor list \<Rightarrow> u32 \<Rightarrow> MemblkDescriptor option" where
  "memblk_of mbs device = find (\<lambda>m. mb_len m \<ge> 0 \<and> mb_device m = device) mbs"

lemma locate_device_of:
  "locate_device device mbs = (case memblk_of mbs device of None \<Rightarrow> - errno ENOENT | Some m \<Rightarrow> locate_device device mbs)"
  "memblk_of mbs device = Some m \<Longrightarrow> locate_device device mbs \<ge> 0 \<and> mbs ! nat (locate_device device mbs) = m"
proof -
  let ?P = "\<lambda>m. mb_len m \<ge> 0 \<and> mb_device m = device"
  have f: "find P xs = (if find_slot P xs < length xs then Some (xs ! find_slot P xs) else None)" for P and xs :: "MemblkDescriptor list"
    by (induction xs) auto
  show "locate_device device mbs = (case memblk_of mbs device of None \<Rightarrow> - errno ENOENT | Some m \<Rightarrow> locate_device device mbs)"
    by (auto simp: memblk_of_def locate_device_def f Let_def)
  show "memblk_of mbs device = Some m \<Longrightarrow> locate_device device mbs \<ge> 0 \<and> mbs ! nat (locate_device device mbs) = m"
    by (auto simp: memblk_of_def locate_device_def f Let_def split: if_splits)
qed

lemma memblk_ofD:
  assumes "memblk_of mbs device = Some m"
  shows "m \<in> set mbs" "0 \<le> mb_len m" "mb_device m = device"
  using assms by (auto simp: memblk_of_def find_Some_iff)

lemma memblk_read_eq:
  assumes "\<forall>m \<in> set mbs. mb_len m < INT_MAX" "pos < 2 ^ 62"
  shows "memblk_read kmem mbs device pos n =
    (case memblk_of mbs device of
       None \<Rightarrow> Some (- errno ENOENT, [])
     | Some m \<Rightarrow>
         if pos < 0 \<or> mb_len m < pos then Some (- errno EIO, [])
         else let bs = take (unat n) (drop (nat pos) (mb_image kmem m)) in Some (int (length bs), bs))"
proof (cases "memblk_of mbs device")
  case None
  then show ?thesis using locate_device_of(1) [of device mbs] by (simp add: memblk_read_def Let_def)
next
  case (Some m)
  note l = locate_device_of(2) [OF Some]
  have m: "0 \<le> mb_len m" "mb_len m < 2 ^ 31 - 1" using memblk_ofD [OF Some] assms(1) by (auto simp: INT_MAX_def)
  have c: "0 \<le> uint n" "uint n < 2 ^ 32" using uint_lt2p [of n] by simp_all
  then have big: "pos + uint n < 2 ^ 63" using assms(2) by simp
  show ?thesis
  proof (cases "pos < 0 \<or> mb_len m < pos")
    case True
    then consider "pos < 0" "\<not> mb_len m < pos" | "mb_len m < pos" "mb_len m < pos + uint n" using c(1) by linarith
    then show ?thesis using l m big Some by cases (auto simp: memblk_read_def Let_def)
  next
    case False
    let ?c = "if mb_len m < pos + uint n then word_of_int (mb_len m - pos) else n"
    let ?k = "min (unat n) (nat (mb_len m) - nat pos)"
    have u: "uint n = int (unat n)" by simp
    have k: "unat ?c = ?k"
    proof (cases "mb_len m < pos + uint n")
      case True
      have "unat (word_of_int (mb_len m - pos) :: u32) = nat (mb_len m - pos)"
        using False m by (intro unat_word_of_int_small) auto
      moreover have "nat (mb_len m - pos) \<le> unat n" using True u by linarith
      ultimately show ?thesis using True False m by (simp add: nat_diff_distrib' del: nat_le_eq_zle)
    next
      case F: False
      then have "unat n \<le> nat (mb_len m) - nat pos" using False m u by linarith
      then show ?thesis using F by simp
    qed
    have "nat (mb_len m) < 2 ^ 31" using m by (simp add: nat_less_iff)
    then have "?k < 2 ^ 31" by linarith
    with k have "unat ?c < 2 ^ 31" by (simp only: k)
    then have s: "sint ?c = int ?k" using sint_small [of ?c] k by simp
    have "map (\<lambda>i. kmem (mb_addr m + word_of_int pos + of_nat i)) [0..<?k] =
      take (unat n) (drop (nat pos) (mb_image kmem m))"
      using False m by (intro nth_equalityI) (auto simp: mb_image_def add.assoc min.commute)
    then show ?thesis using False l m c big Some k s
      by (simp add: memblk_read_def Let_def mb_image_def min.commute)
  qed
qed

text \<open>
  C25. \<^verbatim>\<open>memblk_read\<close> on every input: the error of an unknown device, the error of a position outside
  the image, and otherwise the bytes of the image from that position, as many as were asked for or
  as there are left, with their number as the result.
\<close>

theorem memblk_read_reads_image:
  assumes "\<forall>m \<in> set mbs. mb_len m < INT_MAX" "pos < 2 ^ 62"
  shows "memblk_read kmem mbs device pos n =
    (case memblk_of mbs device of
       None \<Rightarrow> Some (- errno ENOENT, [])
     | Some m \<Rightarrow>
         if pos < 0 \<or> mb_len m < pos then Some (- errno EIO, [])
         else let bs = take (unat n) (drop (nat pos) (mb_image kmem m)) in Some (int (length bs), bs))"
  using assms by (rule memblk_read_eq)

theorem memblk_read_reads_image_witness:
  "memblk_read ucast [\<lparr>mb_addr = 0x20, mb_len = 8, mb_device = 0x10001\<rparr>] 0x10001 5 16 = Some (3, [0x25, 0x26, 0x27])"
  by (subst memblk_read_reads_image)
    (simp_all add: INT_MAX_def memblk_of_def mb_image_def upt_conv_Cons)

end
