(* ===== verification/Chardev.thy ===== *)
theory Chardev
  imports Device Process
begin

text \<open>
  Devices behind the registry, \<^verbatim>\<open>include/device.h\<close>, and character devices with their queues of blocked
  readers, \<^verbatim>\<open>kernel/modules/chardev.c\<close>.

  A \<^verbatim>\<open>Device\<close> is the tagged union of the header; its function pointers are functions on the state \<open>'w\<close>
  of the drivers, \<^term>\<open>None\<close> being a null pointer.  The table \<open>devs\<close> gives the (constant) \<^verbatim>\<open>Device\<close> at an
  address; the queue pointers in it, which do change, are part of the state.  A \<^verbatim>\<open>DeviceIOQueue\<close> item
  lives at the address \<^verbatim>\<open>kmalloc\<close> returned.
\<close>

section \<open>Devices\<close>

text \<open>A read returns its result and the bytes stored to the buffer of the caller.\<close>

record 'w CharDev =
  cd_read :: "(u32 \<Rightarrow> 'w \<Rightarrow> (int \<times> bytes \<times> 'w) option) option"
  cd_write :: "(bytes \<Rightarrow> 'w \<Rightarrow> (int \<times> 'w) option) option"

text \<open>
  The block devices of the kernel read without changing a state of their own.  The arguments of
  \<^verbatim>\<open>read\<close> are the device number, the position and the number of bytes.
\<close>

record 'w BlockDev =
  bd_read :: "('w \<Rightarrow> u32 \<Rightarrow> int \<Rightarrow> u32 \<Rightarrow> (int \<times> bytes) option) option"
  bd_write :: "(bytes \<Rightarrow> 'w \<Rightarrow> (int \<times> 'w) option) option"
  bd_size :: "('w \<Rightarrow> u32 \<Rightarrow> int) option"
  bd_blksize :: "('w \<Rightarrow> u32 \<Rightarrow> int) option"

datatype 'w Device =
    DEVICE_TYPE_CHAR "'w CharDev"
  | DEVICE_TYPE_BLOCK "'w BlockDev"
  | DEVICE_TYPE_INVALID

record DeviceIOQueue =
  q_pid :: int
  q_next :: u32

definition sizeof_DeviceIOQueue :: u32 where "sizeof_DeviceIOQueue = 8"

record 'w kernel =
  k_procs :: procs
  k_devtab :: devtab
  k_queue_read :: "u32 \<Rightarrow> u32"
  k_qitems :: "u32 \<Rightarrow> DeviceIOQueue option"
  k_drv :: 'w

section \<open>Queues\<close>

text \<open>A \<^verbatim>\<open>DeviceIOQueue **\<close>: the queue pointer of a device, or the \<^verbatim>\<open>next\<close> field of an item.\<close>

datatype qlink = QHead u32 | QNext u32

primrec get_qlink :: "'w kernel \<Rightarrow> qlink \<Rightarrow> u32 option" where
  "get_qlink k (QHead dev) = Some (k_queue_read k dev)"
| "get_qlink k (QNext q) = map_option q_next (k_qitems k q)"

primrec set_qlink :: "'w kernel \<Rightarrow> qlink \<Rightarrow> u32 \<Rightarrow> 'w kernel option" where
  "set_qlink k (QHead dev) v = Some (k\<lparr>k_queue_read := (k_queue_read k)(dev := v)\<rparr>)"
| "set_qlink k (QNext q) v =
     map_option (\<lambda>it. k\<lparr>k_qitems := (k_qitems k)(q \<mapsto> it\<lparr>q_next := v\<rparr>)\<rparr>) (k_qitems k q)"

text \<open>\<^verbatim>\<open>for (; *queue; queue = &(*queue)->next);\<close>\<close>

partial_function (option) queue_end :: "'w kernel \<Rightarrow> qlink \<Rightarrow> qlink option" where
  "queue_end k queue = do {
     q \<leftarrow> get_qlink k queue;
     if q = 0 then Some queue else queue_end k (QNext q) }"

definition queue_enqueue :: "u32 \<Rightarrow> int \<Rightarrow> 'w kernel \<Rightarrow> (int \<times> 'w kernel) option" where
  "queue_enqueue dev pid k = do {
     (item, h) \<leftarrow> kmalloc sizeof_DeviceIOQueue (kheap_of (k_procs k));
     let k = k\<lparr>k_procs := (k_procs k)\<lparr>kheap_of := h\<rparr>\<rparr>;
     if item = 0 then Some (- errno ENOMEM, k)
     else do {
       let k = k\<lparr>k_qitems := (k_qitems k)(item \<mapsto> \<lparr>q_pid = pid, q_next = 0\<rparr>)\<rparr>;
       queue \<leftarrow> queue_end k (QHead dev);
       k \<leftarrow> set_qlink k queue item;
       Some (0, k) } }"

definition queue_dequeue :: "u32 \<Rightarrow> 'w kernel \<Rightarrow> u32 \<times> 'w kernel" where
  "queue_dequeue dev k =
     (if k_queue_read k dev = 0 then (0, k)
      else (k_queue_read k dev, k\<lparr>k_queue_read := (k_queue_read k)(dev := 0)\<rparr>))"

text \<open>
  \<^verbatim>\<open>_read_callback\<close>: the item that was dequeued is dropped; the process woken is that of the variable
  \<^verbatim>\<open>item\<close>, which was never assigned.  Its value is the argument \<open>item\<close>.
\<close>

definition read_callback :: "u32 \<Rightarrow> u32 \<Rightarrow> 'w kernel \<Rightarrow> (int \<times> 'w kernel) option" where
  "read_callback item dev k =
     (let (r, k) = queue_dequeue dev k in
      if r = 0 then Some (0, k)
      else do {
        it \<leftarrow> k_qitems k item;
        proc \<leftarrow> process_from_pid (q_pid it) (k_procs k);
        pr \<leftarrow> (if proc = 0 then None else pobj (k_procs k) proc);
        Some (0, k\<lparr>k_procs := (k_procs k)\<lparr>pobj :=
          (pobj (k_procs k))(proc \<mapsto> pr\<lparr>p_state := PROCESS_STATE_RUNNING\<rparr>)\<rparr>\<rparr>) })"

section \<open>Operations\<close>

text \<open>\<^verbatim>\<open>EWOULDBLOCK\<close> has the number of \<^verbatim>\<open>EAGAIN\<close>.\<close>

definition chardev_read :: "(u32 \<Rightarrow> 'w Device) \<Rightarrow> u32 \<Rightarrow> u32 \<Rightarrow> 'w kernel \<Rightarrow> (int \<times> bytes \<times> 'w kernel) option" where
  "chardev_read devs dev n k =
     (case devs dev of
        DEVICE_TYPE_CHAR c \<Rightarrow>
          (case cd_read c of
             None \<Rightarrow> Some (- errno ENOSYS, [], k)
           | Some read \<Rightarrow> do {
               (r, bs, w) \<leftarrow> read n (k_drv k);
               let k = k\<lparr>k_drv := w\<rparr>;
               if r = - errno EAGAIN then do {
                 let current = process_current (k_procs k);
                 (e, k) \<leftarrow> queue_enqueue dev current k;
                 if e < 0 then Some (- errno ENOMEM, bs, k)
                 else do {
                   proc \<leftarrow> process_from_pid current (k_procs k);
                   pr \<leftarrow> (if proc = 0 then None else pobj (k_procs k) proc);
                   Some (r, bs, k\<lparr>k_procs := (k_procs k)\<lparr>pobj :=
                     (pobj (k_procs k))(proc \<mapsto> pr\<lparr>p_state := PROCESS_STATE_BLOCKED\<rparr>)\<rparr>\<rparr>) } }
               else Some (r, bs, k) })
      | _ \<Rightarrow> Some (- errno ENOSYS, [], k))"

definition chardev_write :: "(u32 \<Rightarrow> 'w Device) \<Rightarrow> u32 \<Rightarrow> bytes \<Rightarrow> 'w kernel \<Rightarrow> (int \<times> 'w kernel) option" where
  "chardev_write devs dev buf k =
     (case devs dev of
        DEVICE_TYPE_CHAR c \<Rightarrow>
          (case cd_write c of
             None \<Rightarrow> Some (- errno ENOSYS, k)
           | Some wrt \<Rightarrow> do { (r, w) \<leftarrow> wrt buf (k_drv k); Some (r, k\<lparr>k_drv := w\<rparr>) })
      | _ \<Rightarrow> Some (- errno ENOSYS, k))"

definition chardev_ioctl :: "(u32 \<Rightarrow> 'w Device) \<Rightarrow> u32 \<Rightarrow> u32 \<Rightarrow> int" where
  "chardev_ioctl devs dev request =
     (case devs dev of DEVICE_TYPE_CHAR c \<Rightarrow> 0 | _ \<Rightarrow> - errno ENOSYS)"

end
