(* ===== verification/ChardevSpec.thy ===== *)
theory ChardevSpec
  imports Chardev DeviceSpec
begin

text \<open>
  The queue of readers of a character device as a list: a read that would block appends the process
  that reads and blocks it.
\<close>

section \<open>Queues as lists\<close>

text \<open>The items of a queue, from the one at \<open>q\<close>.\<close>

fun qlist :: "'w kernel \<Rightarrow> u32 \<Rightarrow> u32 list \<Rightarrow> bool" where
  "qlist k q [] \<longleftrightarrow> q = 0"
| "qlist k q (x # xs) \<longleftrightarrow> q = x \<and> q \<noteq> 0 \<and> (\<exists>it. k_qitems k q = Some it \<and> qlist k (q_next it) xs)"

lemma queue_end_from:
  "get_qlink k l = Some q \<Longrightarrow> qlist k q xs \<Longrightarrow> queue_end k l = Some (if xs = [] then l else QNext (last xs))"
proof (induction xs arbitrary: l q)
  case Nil
  then show ?case by (subst queue_end.simps) simp
next
  case (Cons x xs)
  then obtain it where it: "k_qitems k x = Some it" "qlist k (q_next it) xs" "q = x" "q \<noteq> 0" by auto
  have "queue_end k (QNext x) = Some (if xs = [] then QNext x else QNext (last xs))"
    using it by (intro Cons.IH) auto
  then show ?case using Cons.prems(1) it(3,4) by (subst queue_end.simps) simp
qed

lemma qlist_items: "qlist k q xs \<Longrightarrow> (\<And>x. x \<in> set xs \<Longrightarrow> k_qitems k' x = k_qitems k x) \<Longrightarrow> qlist k' q xs"
  by (induction xs arbitrary: q) auto

lemma qlist_append_item:
  assumes "qlist k q xs" "distinct xs" "xs \<noteq> []" "p \<notin> set xs" "p \<noteq> 0" "k_qitems k (last xs) = Some it"
    "k_qitems k' = (k_qitems k)(p \<mapsto> \<lparr>q_pid = pid, q_next = 0\<rparr>, last xs \<mapsto> it\<lparr>q_next := p\<rparr>)"
  shows "qlist k' q (xs @ [p])"
  using assms
proof (induction xs arbitrary: q)
  case (Cons x xs)
  show ?case
  proof (cases "xs = []")
    case True
    then show ?thesis using Cons.prems by auto
  next
    case False
    then have "last xs \<in> set xs" by simp
    then have x: "x \<noteq> last xs" "x \<noteq> p" using Cons.prems(2,4) by auto
    obtain jt where jt: "k_qitems k x = Some jt" "qlist k (q_next jt) xs" "q = x" "q \<noteq> 0" using Cons.prems(1) by auto
    have "qlist k' (q_next jt) (xs @ [p])" using Cons.prems False jt(2) by (intro Cons.IH) auto
    then show ?thesis using jt x Cons.prems(7) False by auto
  qed
qed simp

text \<open>The queue of a device is a list of items that are blocks of the heap.\<close>

definition queue_ok :: "'w kernel \<Rightarrow> u32 \<Rightarrow> u32 list \<Rightarrow> u32 list \<Rightarrow> bool" where
  "queue_ok k dev qs ps \<longleftrightarrow> qlist k (k_queue_read k dev) qs \<and> distinct qs \<and> set qs \<subseteq> set ps \<and>
     heap_live (kheap_of (k_procs k)) ps"

lemma enqueue_appends:
  assumes "queue_ok k dev qs ps" "can_kmalloc sizeof_DeviceIOQueue (kheap_of (k_procs k))"
  shows "\<exists>p k' h'. queue_enqueue dev pid k = Some (0, k') \<and> queue_ok k' dev (qs @ [p]) (p # ps) \<and>
    map_option q_pid (k_qitems k' p) = Some pid \<and> k_procs k' = (k_procs k)\<lparr>kheap_of := h'\<rparr> \<and> k_drv k' = k_drv k \<and>
    k_devtab k' = k_devtab k"
proof -
  have q: "qlist k (k_queue_read k dev) qs" "distinct qs" "set qs \<subseteq> set ps" "heap_live (kheap_of (k_procs k)) ps"
    using assms(1) by (auto simp: queue_ok_def)
  obtain p h' where m: "kmalloc sizeof_DeviceIOQueue (kheap_of (k_procs k)) = Some (p, h')" "heap_live h' (p # ps)" "p \<notin> set ps"
    using kernel_heap.alloc_fresh [OF q(4) assms(2)] by blast
  have p: "p \<noteq> 0" "p \<notin> set qs" using heap_live_nonzero [OF m(2)] m(3) q(3) by auto
  let ?it = "\<lparr>q_pid = pid, q_next = 0\<rparr>"
  define k1 where "k1 = k\<lparr>k_procs := (k_procs k)\<lparr>kheap_of := h'\<rparr>, k_qitems := (k_qitems k)(p \<mapsto> ?it)\<rparr>"
  have q1: "qlist k1 (k_queue_read k1 dev) qs" proof -
    have "k_qitems k1 x = k_qitems k x" if "x \<in> set qs" for x using that p(2) by (auto simp: k1_def)
    then have "qlist k1 (k_queue_read k dev) qs" by (rule qlist_items [OF q(1)])
    then show ?thesis by (simp add: k1_def)
  qed
  have e: "queue_end k1 (QHead dev) = Some (if qs = [] then QHead dev else QNext (last qs))"
    using queue_end_from [OF _ q1, of "QHead dev"] by simp
  have enq: "queue_enqueue dev pid k = do { k' \<leftarrow> set_qlink k1 (if qs = [] then QHead dev else QNext (last qs)) p; Some (0, k') }"
    using m(1) p(1) e by (simp add: queue_enqueue_def k1_def Let_def)
  show ?thesis
  proof (cases "qs = []")
    case True
    then show ?thesis using enq p m(2) q by (auto simp: k1_def queue_ok_def)
  next
    case False
    then have l: "last qs \<in> set qs" by simp
    have "\<exists>it. k_qitems k (last qs) = Some it" using q(1) False
    proof (induction qs arbitrary: rule: rev_induct)
      case (snoc x xs)
      have "qlist k q (xs @ [x]) \<Longrightarrow> \<exists>it. k_qitems k x = Some it" for q by (induction xs arbitrary: q) auto
      then show ?case using snoc.prems by simp
    qed simp
    then obtain it where it: "k_qitems k (last qs) = Some it" by blast
    have lp: "last qs \<noteq> p" using l p(2) by metis
    let ?k = "k1\<lparr>k_qitems := (k_qitems k1)(last qs \<mapsto> it\<lparr>q_next := p\<rparr>)\<rparr>"
    have "set_qlink k1 (QNext (last qs)) p = Some ?k" using it lp by (simp add: k1_def)
    moreover have "qlist ?k (k_queue_read k dev) (qs @ [p])"
      using qlist_append_item [OF q(1,2) False p(2,1) it, of ?k pid] by (simp add: k1_def)
    ultimately have "queue_enqueue dev pid k = Some (0, ?k)" "queue_ok ?k dev (qs @ [p]) (p # ps)"
      using enq False m(2) q(2,3) p by (auto simp: k1_def queue_ok_def)
    moreover have "map_option q_pid (k_qitems ?k p) = Some pid" "k_procs ?k = (k_procs k)\<lparr>kheap_of := h'\<rparr>" "k_drv ?k = k_drv k"
      "k_devtab ?k = k_devtab k"
      using lp by (simp_all add: k1_def)
    ultimately show ?thesis by blast
  qed
qed

text \<open>
  C26. When the driver of a character device has no data, \<^verbatim>\<open>chardev_read\<close> appends the current process to the
  queue of the device, behind those that wait already, and blocks it; the result of the driver is passed
  on and no other process changes.
\<close>

theorem chardev_read_blocks:
  assumes "devs dev = DEVICE_TYPE_CHAR c" "cd_read c = Some read" "read n (k_drv k) = Some (- errno EAGAIN, bs, w)"
    "queue_ok k dev qs ps" "can_kmalloc sizeof_DeviceIOQueue (kheap_of (k_procs k))"
    "process_from_pid (process_current (k_procs k)) (k_procs k) = Some a" "a \<noteq> 0" "pobj (k_procs k) a = Some pr"
  shows "\<exists>k' p. chardev_read devs dev n k = Some (- errno EAGAIN, bs, k') \<and> queue_ok k' dev (qs @ [p]) (p # ps) \<and>
    map_option q_pid (k_qitems k' p) = Some (process_current (k_procs k)) \<and>
    pobj (k_procs k') = (pobj (k_procs k))(a \<mapsto> pr\<lparr>p_state := PROCESS_STATE_BLOCKED\<rparr>) \<and> k_drv k' = w"
proof -
  let ?k = "k\<lparr>k_drv := w\<rparr>"
  have q: "queue_ok ?k dev qs ps" using assms(4) qlist_items [of k _ qs ?k] by (auto simp: queue_ok_def)
  have can: "can_kmalloc sizeof_DeviceIOQueue (kheap_of (k_procs ?k))" using assms(5) by simp
  obtain p k' h' where e: "queue_enqueue dev (process_current (k_procs k)) ?k = Some (0, k')" "queue_ok k' dev (qs @ [p]) (p # ps)"
    "map_option q_pid (k_qitems k' p) = Some (process_current (k_procs k))" "k_procs k' = (k_procs k)\<lparr>kheap_of := h'\<rparr>" "k_drv k' = w"
    using enqueue_appends [OF q can] by fastforce
  have f: "process_from_pid (process_current (k_procs k)) (k_procs k') = Some a" "pobj (k_procs k') a = Some pr"
    using assms(6,8) by (auto simp: e(4) process_from_pid_def proc_ptr_def split: if_splits)
  let ?k' = "k'\<lparr>k_procs := (k_procs k')\<lparr>pobj := (pobj (k_procs k'))(a \<mapsto> pr\<lparr>p_state := PROCESS_STATE_BLOCKED\<rparr>)\<rparr>\<rparr>"
  have "chardev_read devs dev n k = Some (- errno EAGAIN, bs, ?k')"
    using assms(1-3,7) e(1) f by (simp add: chardev_read_def Let_def)
  moreover have "queue_ok ?k' dev (qs @ [p]) (p # ps)"
    using e(2) qlist_items [of k' _ "qs @ [p]" ?k'] by (auto simp: queue_ok_def)
  ultimately show ?thesis using e by (intro exI [of _ ?k'] exI [of _ p]) simp
qed

text \<open>The example: one process, which is running, and a device without data.\<close>

definition idle_process :: Process where
  "idle_process = \<lparr>p_pid = 0, p_parent = 0, p_state = PROCESS_STATE_RUNNING, p_callback = 0, p_return_value = 0, p_userspace = 0,
     p_user = 0, p_group = 0, p_time_started = 0, p_file = replicate 64 (- 1),
     p_reg = \<lparr>reg_status = 0, reg_pc = 0, reg_stack = 0, reg_general = replicate 15 0\<rparr>\<rparr>"

definition one_process :: procs where
  "one_process = \<lparr>process = 0x2000 # replicate 1023 0, pobj = [0x2000 \<mapsto> idle_process], cbobj = \<lambda>_. None,
     process_current = 0, process_last = 0, kheap_of = empty_heap\<rparr>"

definition idle_kernel :: "'w \<Rightarrow> 'w kernel" where
  "idle_kernel w = \<lparr>k_procs = one_process, k_devtab = boot_devtab, k_queue_read = \<lambda>_. 0, k_qitems = \<lambda>_. None, k_drv = w\<rparr>"

definition no_data :: "unit Device" where
  "no_data = DEVICE_TYPE_CHAR \<lparr>cd_read = Some (\<lambda>_ w. Some (- errno EAGAIN, [], w)), cd_write = None\<rparr>"

theorem chardev_read_blocks_witness:
  "\<exists>k' p. chardev_read (\<lambda>_. no_data) 0x1000 4 (idle_kernel ()) = Some (- errno EAGAIN, [], k') \<and> queue_ok k' 0x1000 [p] [p] \<and>
    map_option p_state (pobj (k_procs k') 0x2000) = Some PROCESS_STATE_BLOCKED"
proof -
  have q: "queue_ok (idle_kernel ()) 0x1000 [] []"
    using empty_heap_live by (simp add: queue_ok_def idle_kernel_def one_process_def)
  have c: "can_kmalloc sizeof_DeviceIOQueue (kheap_of (k_procs (idle_kernel ())))"
    by (simp add: idle_kernel_def one_process_def)
      (rule empty_heap_can_page; simp add: sizeof_DeviceIOQueue_def grow_size_def ALIGNWITH_def sizeof_Header_def MMU_PAGE_SIZE_def)
  have p: "process_from_pid (process_current (k_procs (idle_kernel ()))) (k_procs (idle_kernel ())) = Some 0x2000"
    "pobj (k_procs (idle_kernel ())) 0x2000 = Some idle_process"
    by (simp_all add: idle_kernel_def one_process_def process_from_pid_def proc_ptr_def MAX_PROCESSES_def)
  show ?thesis using chardev_read_blocks [OF _ _ _ q c p(1) _ p(2), of "\<lambda>_. no_data" _ _ 4 "[]" "()"]
    by (fastforce simp: no_data_def)
qed

end
