(* ===== verification/Vfs.thy ===== *)
theory Vfs
  imports Chardev
begin

text \<open>
  The virtual file system, \<^verbatim>\<open>kernel/vfs.c\<close>, with \<^verbatim>\<open>include/trollos/vfs.h\<close>, \<^verbatim>\<open>include/sys/stat.h\<close> and
  \<^verbatim>\<open>include/dirent.h\<close>: the global file table, the registered file systems and the mount table.

  A file system is a record of functions on the state of the kernel; an entry of the table of file
  systems whose \<^verbatim>\<open>used\<close> is zero is \<^term>\<open>None\<close> (its function pointers are null).  Out parameters are an
  argument, the old contents, and a result, the new ones.  A path is a byte buffer.
\<close>

section \<open>Data\<close>

definition NAME_MAX :: nat where "NAME_MAX = 1024"

record stat =
  st_dev :: u32
  st_ino :: u32
  st_mode :: u16
  st_nlink :: u16
  st_uid :: int
  st_gid :: int
  st_rdev :: u32
  st_size :: int
  st_blksize :: u32
  st_blocks :: u64
  st_mtime :: int

definition S_IFMT :: u16 where "S_IFMT = 0xF000"
definition S_IFDIR :: u16 where "S_IFDIR = 0x4000"
definition S_IFCHR :: u16 where "S_IFCHR = 0x2000"
definition S_IFBLK :: u16 where "S_IFBLK = 0x6000"
definition S_IFREG :: u16 where "S_IFREG = 0x8000"
definition S_IFIFO :: u16 where "S_IFIFO = 0x1000"
definition S_IFLNK :: u16 where "S_IFLNK = 0xA000"
definition S_IFSOCK :: u16 where "S_IFSOCK = 0xC000"

definition S_ISDIR :: "u16 \<Rightarrow> bool" where "S_ISDIR mode \<longleftrightarrow> mode AND S_IFMT = S_IFDIR"
definition S_ISCHR :: "u16 \<Rightarrow> bool" where "S_ISCHR mode \<longleftrightarrow> mode AND S_IFMT = S_IFCHR"
definition S_ISBLK :: "u16 \<Rightarrow> bool" where "S_ISBLK mode \<longleftrightarrow> mode AND S_IFMT = S_IFBLK"
definition S_ISREG :: "u16 \<Rightarrow> bool" where "S_ISREG mode \<longleftrightarrow> mode AND S_IFMT = S_IFREG"

record dirent =
  d_ino :: u32
  d_mode :: u16
  d_name :: bytes

definition MAX_GLOBAL_FILES :: nat where "MAX_GLOBAL_FILES = 1024"
definition MAX_MOUNT_POINTS :: nat where "MAX_MOUNT_POINTS = 16"
definition MAX_FILE_SYSTEMS :: nat where "MAX_FILE_SYSTEMS = 4"

record 'w VFSFSType =
  fs_name :: bytes
  fs_mount :: "u32 \<Rightarrow> u32 \<Rightarrow> 'w kernel \<Rightarrow> (int \<times> u32 \<times> 'w kernel) option"
  fs_stat :: "int \<Rightarrow> u32 \<Rightarrow> bytes \<Rightarrow> stat \<Rightarrow> 'w kernel \<Rightarrow> (int \<times> stat) option"
  fs_stat_inode :: "int \<Rightarrow> u32 \<Rightarrow> stat \<Rightarrow> 'w kernel \<Rightarrow> (int \<times> stat) option"
  fs_read :: "int \<Rightarrow> u32 \<Rightarrow> bytes \<Rightarrow> u32 \<Rightarrow> int \<Rightarrow> 'w kernel \<Rightarrow> (int \<times> bytes) option"
  fs_read_directory :: "int \<Rightarrow> u32 \<Rightarrow> int \<Rightarrow> dirent \<Rightarrow> 'w kernel \<Rightarrow> (int \<times> dirent) option"

text \<open>
  In the union \<^verbatim>\<open>data\<close> of a file entry the device number \<^verbatim>\<open>dev.dev\<close> and the mount point \<^verbatim>\<open>fs.instance\<close>
  are the same word.
\<close>

record VFSFileEntry =
  f_is_used :: bool
  f_is_device :: bool
  f_read :: bool
  f_write :: bool
  f_directory :: bool
  f_unsupported :: bool
  f_pos :: int
  f_ref :: int
  f_mode :: u16
  f_data :: u32
  f_inode :: u32

definition data_dev :: "VFSFileEntry \<Rightarrow> u32" where "data_dev f = f_data f"
definition data_instance :: "VFSFileEntry \<Rightarrow> int" where "data_instance f = sint (f_data f)"

record VFSMountPoint =
  m_is_used :: bool
  m_open_files :: int
  m_dev :: u32
  m_inode :: u32
  mounted_fs :: int
  mounted_instance :: int
  mounted_dev :: u32
  mounted_ino :: u32

record 'w vfs =
  vfs_file :: "VFSFileEntry list"
  vfs_type :: "'w VFSFSType option list"
  vfs_mnt :: "VFSMountPoint list"
  v_kernel :: "'w kernel"

text \<open>An update of a file entry, of a mount point; the file system of a mount point and its instance.\<close>

definition file_update :: "int \<Rightarrow> (VFSFileEntry \<Rightarrow> VFSFileEntry) \<Rightarrow> 'w vfs \<Rightarrow> 'w vfs option" where
  "file_update fd f v = map_option (\<lambda>t. v\<lparr>vfs_file := t\<rparr>) (iupd (vfs_file v) fd f)"

definition mount_update :: "int \<Rightarrow> (VFSMountPoint \<Rightarrow> VFSMountPoint) \<Rightarrow> 'w vfs \<Rightarrow> 'w vfs option" where
  "mount_update mp f v = map_option (\<lambda>t. v\<lparr>vfs_mnt := t\<rparr>) (iupd (vfs_mnt v) mp f)"

definition fs_type_at :: "int \<Rightarrow> 'w vfs \<Rightarrow> 'w VFSFSType option" where
  "fs_type_at i v = do { t \<leftarrow> ird (vfs_type v) i; t }"

section \<open>Paths\<close>

definition alloc_file :: "'w vfs \<Rightarrow> int \<times> 'w vfs" where
  "alloc_file v =
     (let i = find_slot (\<lambda>f. \<not> f_is_used f) (vfs_file v) in
      if i < length (vfs_file v)
      then (int i, v\<lparr>vfs_file := (vfs_file v)[i := (vfs_file v ! i)\<lparr>f_is_used := True\<rparr>]\<rparr>)
      else (- errno EMFILE, v))"

definition slash :: u8 where "slash = 0x2F"

text \<open>The number of characters before the end of the component, the loop of \<^verbatim>\<open>_extract_component\<close>.\<close>

fun component_len :: "nat \<Rightarrow> bytes \<Rightarrow> nat option" where
  "component_len 0 str = Some 0"
| "component_len (Suc n) [] = None"
| "component_len (Suc n) (ch # str) =
     (if ch = 0 \<or> ch = slash then Some 0 else map_option Suc (component_len n str))"

definition extract_component :: "bytes \<Rightarrow> bytes \<Rightarrow> (nat \<times> bytes) option" where
  "extract_component str component = do {
     i \<leftarrow> component_len NAME_MAX str;
     component \<leftarrow> overlay component (take i str @ [0]);
     ch \<leftarrow> rd str i;
     Some (if ch \<noteq> 0 then Suc i else i, component) }"

definition is_mountpoint :: "u32 \<Rightarrow> u32 \<Rightarrow> 'w vfs \<Rightarrow> int" where
  "is_mountpoint dev ino v =
     (let i = find_slot (\<lambda>m. m_is_used m \<and> m_dev m = dev \<and> m_inode m = ino) (vfs_mnt v)
      in if i < length (vfs_mnt v) then int i else - 1)"

fun skip_slashes :: "bytes \<Rightarrow> bytes option" where
  "skip_slashes [] = None"
| "skip_slashes (ch # str) = (if ch = slash then skip_slashes str else Some (ch # str))"

lemma component_len_le: "component_len n str = Some i \<Longrightarrow> i \<le> length str \<and> i \<le> n"
  by (induction n str arbitrary: i rule: component_len.induct) (fastforce split: if_splits)+

lemma extract_component_progress:
  assumes "extract_component str c = Some (n, c')" "rd str 0 = Some ch" "ch \<noteq> 0"
  shows "0 < n" "length (drop n str) < length str"
proof -
  obtain i where i: "component_len NAME_MAX str = Some i" "n = (if str ! i \<noteq> 0 then Suc i else i)" "i < length str"
    using assms(1) by (auto simp: extract_component_def rd_eq_Some split: bind_splits)
  then show "0 < n" using assms(2,3) by (cases i) (auto simp: rd_eq_Some)
  then show "length (drop n str) < length str" using i(3) by simp
qed

text \<open>The last step of the search, after the label \<^verbatim>\<open>done\<close> excepted.\<close>

definition resolv_last :: "int \<Rightarrow> int \<Rightarrow> u32 \<Rightarrow> bytes \<Rightarrow> stat \<Rightarrow> 'w vfs \<Rightarrow> (int + int \<times> u32) option" where
  "resolv_last cur_fs cur_fsi dir c s v = do {
     t \<leftarrow> fs_type_at cur_fs v;
     m \<leftarrow> ird (vfs_mnt v) cur_fsi;
     (err, s) \<leftarrow> fs_stat t (mounted_instance m) dir c s (v_kernel v);
     if err < 0 then Some (Inl err) else Some (Inr (cur_fsi, st_ino s)) }"

text \<open>The loop over the components; \<open>rest\<close> is \<^verbatim>\<open>&path[pos]\<close>.\<close>

function resolv_loop ::
  "int \<Rightarrow> int \<Rightarrow> u32 \<Rightarrow> bytes \<Rightarrow> bytes \<Rightarrow> stat \<Rightarrow> 'w vfs \<Rightarrow> (int + int \<times> u32) option" where
  "resolv_loop cur_fs cur_fsi dir c rest s v = do {
     ch \<leftarrow> rd rest 0;
     if ch = 0 then resolv_last cur_fs cur_fsi dir c s v
     else do {
       t \<leftarrow> fs_type_at cur_fs v;
       m \<leftarrow> ird (vfs_mnt v) cur_fsi;
       (err, s) \<leftarrow> fs_stat t (mounted_instance m) dir c s (v_kernel v);
       if err < 0 then Some (Inl err)
       else let mp = is_mountpoint (st_dev s) (st_ino s) v in
         if mp \<ge> 0 then do {
           m \<leftarrow> ird (vfs_mnt v) mp;
           (n, c) \<leftarrow> extract_component rest c;
           resolv_loop (mounted_fs m) mp (mounted_ino m) c (drop n rest) s v }
         else if S_ISDIR (st_mode s) then do {
           (n, c) \<leftarrow> extract_component rest c;
           resolv_loop cur_fs cur_fsi (st_ino s) c (drop n rest) s v }
         else Some (Inl (- errno ENOTDIR)) } }"
  by pat_completeness auto

termination
  by (relation "measure (\<lambda>(_, _, _, _, rest, _, _). length rest)") (auto dest: extract_component_progress)

text \<open>The arguments \<open>c\<close> and \<open>s\<close> are the contents of the two local variables that are not initialised.\<close>

definition resolv_ino :: "bytes \<Rightarrow> stat \<Rightarrow> bytes \<Rightarrow> int \<Rightarrow> 'w vfs \<Rightarrow> (int + int \<times> u32) option" where
  "resolv_ino c s path lnk v =
     (if lnk \<ge> 32 then Some (Inl (- errno EMLINK))
      else do {
        ch \<leftarrow> rd path 0;
        if ch = 0 then Some (Inl (- errno EINVAL))
        else if ch \<noteq> slash then Some (Inl (- errno ENOENT))
        else
          let i = find_slot (\<lambda>m. m_is_used m \<and> m_dev m = - 1 \<and> m_inode m = - 1) (vfs_mnt v) in
          if i \<ge> length (vfs_mnt v) then Some (Inl (- errno ENOENT))
          else do {
            (n, c) \<leftarrow> extract_component (drop 1 path) c;
            rest \<leftarrow> skip_slashes (drop (n + 1) path);
            resolv_loop (mounted_fs (vfs_mnt v ! i)) (int i) 0 c rest s v } })"

section \<open>Operations\<close>

text \<open>The scratch contents of the local variables, for the operations that resolve a path.\<close>

definition vfs_stat :: "bytes \<Rightarrow> stat \<Rightarrow> bytes \<Rightarrow> stat \<Rightarrow> 'w vfs \<Rightarrow> (int + int \<times> stat) option" where
  "vfs_stat c s0 path s v = do {
     r \<leftarrow> resolv_ino c s0 path 0 v;
     case r of
       Inl err \<Rightarrow> Some (Inl err)
     | Inr (mp, ino) \<Rightarrow> do {
         m \<leftarrow> ird (vfs_mnt v) mp;
         t \<leftarrow> fs_type_at (mounted_fs m) v;
         (err, s) \<leftarrow> fs_stat_inode t (mounted_instance m) ino s (v_kernel v);
         if err < 0 then Some (Inl err) else Some (Inr (mp, s)) } }"

definition vfs_stat_inode :: "int \<Rightarrow> u32 \<Rightarrow> stat \<Rightarrow> 'w vfs \<Rightarrow> (int \<times> stat) option" where
  "vfs_stat_inode mp ino s v = do {
     m \<leftarrow> ird (vfs_mnt v) mp;
     t \<leftarrow> fs_type_at (mounted_fs m) v;
     fs_stat_inode t (mounted_instance m) ino s (v_kernel v) }"

definition vfs_tell :: "int \<Rightarrow> 'w vfs \<Rightarrow> int option" where
  "vfs_tell fd v = map_option f_pos (ird (vfs_file v) fd)"

text \<open>The file number is not checked; the result of \<^verbatim>\<open>vfs_stat_inode\<close> is ignored.\<close>

definition vfs_seek :: "stat \<Rightarrow> int \<Rightarrow> int \<Rightarrow> int \<Rightarrow> 'w vfs \<Rightarrow> (int \<times> 'w vfs) option" where
  "vfs_seek s fd offset whence v =
     (if whence = 0 then do {
        v \<leftarrow> file_update fd (\<lambda>f. f\<lparr>f_pos := offset\<rparr>) v;
        Some (0, v) }
      else if whence = 1 then do {
        f \<leftarrow> ird (vfs_file v) fd;
        p \<leftarrow> off64 (f_pos f + offset);
        v \<leftarrow> file_update fd (\<lambda>f. f\<lparr>f_pos := p\<rparr>) v;
        Some (0, v) }
      else if whence = 2 then do {
        f \<leftarrow> ird (vfs_file v) fd;
        (err, s) \<leftarrow> vfs_stat_inode (data_instance f) (f_inode f) s v;
        p \<leftarrow> off64 (st_size s + offset);
        v \<leftarrow> file_update fd (\<lambda>f. f\<lparr>f_pos := p\<rparr>) v;
        Some (0, v) }
      else Some (- errno EINVAL, v))"

text \<open>\<open>devs\<close> is the \<^verbatim>\<open>Device\<close> behind a pointer.  An unknown device number gives a null pointer.\<close>

definition vfs_write :: "(u32 \<Rightarrow> 'w Device) \<Rightarrow> int \<Rightarrow> bytes \<Rightarrow> 'w vfs \<Rightarrow> (int \<times> 'w vfs) option" where
  "vfs_write devs fd buf v = do {
     f \<leftarrow> ird (vfs_file v) fd;
     if \<not> f_is_device f then Some (- errno EPERM, v)
     else do {
       dev \<leftarrow> device_lookup (data_dev f) (k_devtab (v_kernel v));
       if dev = 0 then None
       else case devs dev of
         DEVICE_TYPE_BLOCK b \<Rightarrow>
           (case bd_write b of
              None \<Rightarrow> Some (- errno ENOSYS, v)
            | Some wrt \<Rightarrow> do {
                (r, w) \<leftarrow> wrt buf (k_drv (v_kernel v));
                Some (r, v\<lparr>v_kernel := (v_kernel v)\<lparr>k_drv := w\<rparr>\<rparr>) })
       | DEVICE_TYPE_CHAR _ \<Rightarrow> do {
           (r, k) \<leftarrow> chardev_write devs dev buf (v_kernel v);
           Some (r, v\<lparr>v_kernel := k\<rparr>) }
       | DEVICE_TYPE_INVALID \<Rightarrow> Some (- errno ENOSYS, v) } }"

text \<open>\<^verbatim>\<open>pos += err\<close> after a read that returned \<open>err\<close>.\<close>

definition advance :: "int \<Rightarrow> int \<Rightarrow> 'w vfs \<Rightarrow> 'w vfs option" where
  "advance fd err v =
     (if err > 0 then do {
        f \<leftarrow> ird (vfs_file v) fd;
        p \<leftarrow> off64 (f_pos f + err);
        file_update fd (\<lambda>f. f\<lparr>f_pos := p\<rparr>) v }
      else Some v)"

text \<open>
  \<^verbatim>\<open>vfs_read\<close>: \<open>buf\<close> is the buffer before, in the result after the call.  A device that is not a
  character device is used as a block device whatever it is.
\<close>

definition vfs_read :: "(u32 \<Rightarrow> 'w Device) \<Rightarrow> int \<Rightarrow> bytes \<Rightarrow> u32 \<Rightarrow> 'w vfs \<Rightarrow> (int \<times> bytes \<times> 'w vfs) option" where
  "vfs_read devs fd buf n v =
     (if fd < - 1 \<or> fd \<ge> int MAX_GLOBAL_FILES then Some (- errno EBADF, buf, v)
      else do {
        f \<leftarrow> ird (vfs_file v) fd;
        if \<not> f_is_used f then Some (- errno EBADF, buf, v)
        else if f_is_device f then do {
          dev \<leftarrow> device_lookup (data_dev f) (k_devtab (v_kernel v));
          if dev = 0 then Some (- errno ENODEV, buf, v)
          else case devs dev of
            DEVICE_TYPE_CHAR _ \<Rightarrow> do {
              (r, bs, k) \<leftarrow> chardev_read devs dev n (v_kernel v);
              buf \<leftarrow> overlay buf bs;
              Some (r, buf, v\<lparr>v_kernel := k\<rparr>) }
          | DEVICE_TYPE_BLOCK b \<Rightarrow>
              (case bd_read b of
                 None \<Rightarrow> Some (- errno ENOSYS, buf, v)
               | Some read \<Rightarrow> do {
                   (err, bs) \<leftarrow> read (k_drv (v_kernel v)) (data_dev f) (f_pos f) n;
                   buf \<leftarrow> overlay buf bs;
                   v \<leftarrow> advance fd err v;
                   Some (err, buf, v) })
          | DEVICE_TYPE_INVALID \<Rightarrow> None }
        else if f_directory f then Some (- errno EISDIR, buf, v)
        else if \<not> f_read f then Some (- errno EACCES, buf, v)
        else do {
          m \<leftarrow> ird (vfs_mnt v) (data_instance f);
          t \<leftarrow> fs_type_at (mounted_fs m) v;
          (err, buf) \<leftarrow> fs_read t (mounted_instance m) (f_inode f) buf n (f_pos f) (v_kernel v);
          v \<leftarrow> advance fd err v;
          Some (err, buf, v) } })"

text \<open>\<open>tde\<close> is the local directory entry; the loop stores to \<^verbatim>\<open>de[i]\<close>.  The position does not advance.\<close>

definition vfs_read_directory :: "dirent \<Rightarrow> int \<Rightarrow> dirent list \<Rightarrow> int \<Rightarrow> 'w vfs \<Rightarrow> (int \<times> dirent list) option" where
  "vfs_read_directory tde fd de dirs v =
     (if fd < 0 \<or> fd \<ge> int MAX_GLOBAL_FILES then Some (- errno EBADF, de)
      else do {
        f \<leftarrow> ird (vfs_file v) fd;
        if f_is_device f then Some (- errno ENOTDIR, de)
        else if \<not> f_directory f then Some (- errno ENOTDIR, de)
        else do {
          r \<leftarrow> for_return [0..<nat dirs] (\<lambda>i (de, tde). do {
                 m \<leftarrow> ird (vfs_mnt v) (data_instance f);
                 t \<leftarrow> fs_type_at (mounted_fs m) v;
                 (err, tde) \<leftarrow> fs_read_directory t (mounted_instance m) (f_inode f) (f_pos f) tde (v_kernel v);
                 if err < 0 then Some (Inl (err, de, tde))
                 else if err = 0 then Some (Inl (int i, de, tde))
                 else do {
                   de \<leftarrow> wr de i tde;
                   Some (Inr (de, tde)) } }) (de, tde);
          case r of
            Inl (x, de, tde) \<Rightarrow> Some (x, de)
          | Inr (de, tde) \<Rightarrow> Some (int (nat dirs), de) } })"

text \<open>The entry \<^verbatim>\<open>vfs_open\<close> fills in for a file with the attributes \<open>s\<close> on the mount point \<open>mp\<close>.\<close>

definition open_entry :: "int \<Rightarrow> stat \<Rightarrow> VFSFileEntry \<Rightarrow> VFSFileEntry" where
  "open_entry mp s f =
     (let f = f\<lparr>f_mode := st_mode s, f_is_device := False, f_read := True, f_write := False,
                f_unsupported := False, f_directory := False, f_pos := 0, f_inode := st_ino s,
                f_data := word_of_int mp\<rparr>;
          f = (if S_ISBLK (st_mode s) \<or> S_ISCHR (st_mode s)
               then f\<lparr>f_is_device := True, f_data := st_rdev s, f_write := True\<rparr>
               else if S_ISDIR (st_mode s) then f\<lparr>f_directory := True\<rparr>
               else if S_ISREG (st_mode s) then f
               else f\<lparr>f_unsupported := False\<rparr>)
      in f\<lparr>f_ref := 1\<rparr>)"

definition vfs_open :: "bytes \<Rightarrow> stat \<Rightarrow> bytes \<Rightarrow> int \<Rightarrow> 'w vfs \<Rightarrow> (int \<times> 'w vfs) option" where
  "vfs_open c s0 path flags v = do {
     r \<leftarrow> vfs_stat c s0 path s0 v;
     case r of
       Inl err \<Rightarrow> Some (err, v)
     | Inr (mp, s) \<Rightarrow>
         let (fd, v) = alloc_file v in
         if fd < 0 then Some (fd, v)
         else do {
           v \<leftarrow> file_update fd (open_entry mp s) v;
           v \<leftarrow> mount_update mp (\<lambda>m. m\<lparr>m_open_files := m_open_files m + 1\<rparr>) v;
           Some (fd, v) } }"

definition vfs_open_device :: "u32 \<Rightarrow> int \<Rightarrow> 'w vfs \<Rightarrow> (int \<times> 'w vfs) option" where
  "vfs_open_device device flags v =
     (let (fd, v) = alloc_file v in
      if fd < 0 then Some (fd, v)
      else do {
        v \<leftarrow> file_update fd (\<lambda>f. f\<lparr>f_mode := 0, f_read := True, f_unsupported := False, f_directory := False,
               f_pos := 0, f_inode := - 1, f_is_device := True, f_data := device, f_write := True, f_ref := 1\<rparr>) v;
        Some (fd, v) })"

text \<open>The last close of a file takes the mount point from the union, also for a device.\<close>

definition vfs_close :: "int \<Rightarrow> 'w vfs \<Rightarrow> (int \<times> 'w vfs) option" where
  "vfs_close fd v =
     (if fd < 0 \<or> fd \<ge> int MAX_GLOBAL_FILES then Some (- errno EBADF, v)
      else do {
        v \<leftarrow> file_update fd (\<lambda>f. f\<lparr>f_ref := f_ref f - 1\<rparr>) v;
        f \<leftarrow> ird (vfs_file v) fd;
        if f_ref f = 0 then do {
          v \<leftarrow> file_update fd (\<lambda>f. f\<lparr>f_is_used := False\<rparr>) v;
          v \<leftarrow> mount_update (data_instance f) (\<lambda>m. m\<lparr>m_open_files := m_open_files m - 1\<rparr>) v;
          Some (0, v) }
        else Some (0, v) })"

text \<open>The loop of \<^verbatim>\<open>vfs_fs_register\<close>: \<open>q\<close> is the last free slot seen; \<^verbatim>\<open>Inl\<close> is the early return.\<close>

fun fs_register_loop :: "bytes \<Rightarrow> nat \<Rightarrow> int \<Rightarrow> 'w VFSFSType option list \<Rightarrow> (int + int) option" where
  "fs_register_loop name i q [] = Some (Inr q)"
| "fs_register_loop name i q (Some t # ts) = do {
     c \<leftarrow> strcmp (fs_name t) name;
     if c = 0 then Some (Inl (- errno EEXIST)) else fs_register_loop name (Suc i) q ts }"
| "fs_register_loop name i q (None # ts) = fs_register_loop name (Suc i) (int i) ts"

definition vfs_fs_register :: "'w VFSFSType \<Rightarrow> 'w vfs \<Rightarrow> (int \<times> 'w vfs) option" where
  "vfs_fs_register fs v = do {
     name \<leftarrow> wr (fs_name fs) 15 0;
     let fs = fs\<lparr>fs_name := name\<rparr>;
     r \<leftarrow> fs_register_loop name 0 (- 1) (vfs_type v);
     case r of
       Inl err \<Rightarrow> Some (err, v)
     | Inr q \<Rightarrow>
         if q < 0 then Some (- errno ENOMEM, v)
         else Some (q, v\<lparr>vfs_type := (vfs_type v)[nat q := Some fs]\<rparr>) }"

text \<open>The index of the file system with a name, the length of the table if there is none.\<close>

fun find_fs :: "bytes \<Rightarrow> 'w VFSFSType option list \<Rightarrow> nat option" where
  "find_fs fs [] = Some 0"
| "find_fs fs (None # ts) = map_option Suc (find_fs fs ts)"
| "find_fs fs (Some t # ts) = do {
     c \<leftarrow> strcmp (fs_name t) fs;
     if c \<noteq> 0 then map_option Suc (find_fs fs ts) else Some 0 }"

text \<open>The last part of \<^verbatim>\<open>vfs_mount\<close>, once the place of the mount is known.\<close>

definition mount_finish :: "int \<Rightarrow> int \<Rightarrow> u32 \<Rightarrow> 'w vfs \<Rightarrow> (int \<times> 'w vfs) option" where
  "mount_finish inst i dev v = do {
     t \<leftarrow> fs_type_at i v;
     m \<leftarrow> ird (vfs_mnt v) inst;
     (r, root, k) \<leftarrow> fs_mount t dev (mounted_ino m) (v_kernel v);
     let v = v\<lparr>v_kernel := k\<rparr>;
     v \<leftarrow> mount_update inst (\<lambda>m. m\<lparr>mounted_ino := root, mounted_instance := r\<rparr>) v;
     if r < 0 then Some (r, v)
     else do {
       v \<leftarrow> mount_update inst (\<lambda>m. m\<lparr>mounted_dev := dev, mounted_fs := i, m_open_files := 0, m_is_used := True\<rparr>) v;
       Some (0, v) } }"

definition vfs_mount :: "bytes \<Rightarrow> stat \<Rightarrow> u32 \<Rightarrow> bytes \<Rightarrow> bytes \<Rightarrow> 'w vfs \<Rightarrow> (int \<times> 'w vfs) option" where
  "vfs_mount c s0 dev path fs v = do {
     i \<leftarrow> find_fs fs (vfs_type v);
     if i = length (vfs_type v) then Some (- errno EINVAL, v)
     else
       let inst = find_slot (\<lambda>m. \<not> m_is_used m) (vfs_mnt v) in
       if inst = length (vfs_mnt v) then Some (- errno ENOMEM, v)
       else do {
         c0 \<leftarrow> rd path 0;
         root \<leftarrow> (if c0 = slash then map_option (\<lambda>c1. c1 = 0) (rd path 1) else Some False);
         if root then do {
           v \<leftarrow> mount_update (int inst) (\<lambda>m. m\<lparr>m_dev := - 1, m_inode := - 1\<rparr>) v;
           mount_finish (int inst) (int i) dev v }
         else do {
           r \<leftarrow> vfs_stat c s0 path s0 v;
           case r of
             Inl err \<Rightarrow> Some (err, v)
           | Inr (parent, s) \<Rightarrow> do {
               v \<leftarrow> mount_update (int inst) (\<lambda>m. m\<lparr>m_dev := st_dev s, m_inode := st_ino s\<rparr>) v;
               v \<leftarrow> mount_update parent (\<lambda>m. m\<lparr>m_open_files := m_open_files m + 1\<rparr>) v;
               mount_finish (int inst) (int i) dev v } } } }"

end
