(* ===== verification/Romfs.thy ===== *)
theory Romfs
  imports Vfs "HOL-Library.Signed_Division"
begin

text \<open>
  The read-only file system, \<^verbatim>\<open>kernel/modules/fs/romfs.c\<close>.

  An image consists of 16-byte blocks.  A file header gives, in its first word, the block of the next
  entry of the directory and the type in the low bits, then the block of the first entry (of a
  directory) or a device number, the size, and a checksum; the name follows, padded to full blocks,
  and then the data.  An inode number is the number of the block relative to the first header.

  \<open>devs\<close> gives the \<^verbatim>\<open>Device\<close> behind a pointer, \<open>inst\<close> is the table \<^verbatim>\<open>_instance\<close>, and \<open>junk\<close> the contents of
  a local buffer before it is filled: a short read leaves them in place.
\<close>

definition MAX_ROMFS :: nat where "MAX_ROMFS = 2"

definition MAKE_INT :: "bytes \<Rightarrow> nat \<Rightarrow> u32 option" where
  "MAKE_INT ptr i = do {
     b0 \<leftarrow> rd ptr i; b1 \<leftarrow> rd ptr (i + 1); b2 \<leftarrow> rd ptr (i + 2); b3 \<leftarrow> rd ptr (i + 3);
     Some (push_bit 24 (ucast b0) OR push_bit 16 (ucast b1) OR push_bit 8 (ucast b2) OR ucast b3) }"

text \<open>\<^verbatim>\<open>>> 4\<close> on the signed value.\<close>

definition sar4 :: "u32 \<Rightarrow> u32" where "sar4 w = signed_drop_bit 4 w"

record Instance =
  i_used :: bool
  i_device :: u32
  i_root_inode :: u32

definition blockdev_of :: "(u32 \<Rightarrow> 'w Device) \<Rightarrow> u32 \<Rightarrow> 'w kernel \<Rightarrow> 'w BlockDev option" where
  "blockdev_of devs dev k = do {
     d \<leftarrow> device_lookup dev (k_devtab k);
     if d = 0 then None
     else case devs d of DEVICE_TYPE_BLOCK b \<Rightarrow> Some b | _ \<Rightarrow> None }"

text \<open>The result of the device is ignored.\<close>

definition read_unaligned ::
  "(u32 \<Rightarrow> 'w Device) \<Rightarrow> 'w kernel \<Rightarrow> u32 \<Rightarrow> bytes \<Rightarrow> int \<Rightarrow> int \<Rightarrow> (int \<times> bytes) option" where
  "read_unaligned devs k dev buf n offset =
     (if offset < 0 then Some (- errno EINVAL, buf)
      else if n = 0 then Some (0, buf)
      else do {
        b \<leftarrow> blockdev_of devs dev k;
        read \<leftarrow> bd_read b;
        (r, bs) \<leftarrow> read (k_drv k) dev offset (word_of_int n);
        buf \<leftarrow> overlay buf bs;
        Some (0, buf) })"

text \<open>The mode and, for a device, the number stored to \<^verbatim>\<open>*rdev\<close>.\<close>

definition byte_to_mode :: "u8 \<Rightarrow> u32 \<Rightarrow> u32 \<Rightarrow> u16 \<times> u32" where
  "byte_to_mode b special rdev =
     (let (mode, rdev) =
        (if b AND 7 = 1 then (S_IFDIR OR 0x124, rdev)
         else if b AND 7 = 2 then (S_IFREG OR 0x124, rdev)
         else if b AND 7 = 3 then (S_IFLNK OR 0x124, rdev)
         else if b AND 7 = 4 then (S_IFBLK, makedev (drop_bit 16 special) (special AND 0xFFFF))
         else if b AND 7 = 5 then (S_IFCHR, makedev (drop_bit 16 special) (special AND 0xFFFF))
         else if b AND 7 = 6 then (S_IFSOCK OR 0x124, rdev)
         else (S_IFIFO OR 0x124, rdev))
      in (if b AND 8 \<noteq> 0 then mode OR 0x49 else mode, rdev))"

text \<open>The buffer of a header with its name has \<^verbatim>\<open>16 + NAME_MAX + 1\<close> bytes.\<close>

definition HEADER_MAX :: nat where "HEADER_MAX = 16 + NAME_MAX + 1"

definition sizeof_dirent :: int where "sizeof_dirent = 1032"

text \<open>The loop of \<^verbatim>\<open>fs_romfs_read_directory\<close>.\<close>

partial_function (option) dir_nth ::
  "(u32 \<Rightarrow> 'w Device) \<Rightarrow> 'w kernel \<Rightarrow> u32 \<Rightarrow> int \<Rightarrow> u32 \<Rightarrow> int \<Rightarrow> bytes \<Rightarrow> (u32 \<times> bytes) option" where
  "dir_nth devs k dev pos inode i buff =
     (if inode = 0 then Some (inode, buff)
      else do {
        (_, buff) \<leftarrow> read_unaligned devs k dev buff (int HEADER_MAX) (uint (inode * 16));
        if i = pos then Some (inode, buff)
        else do {
          w \<leftarrow> MAKE_INT buff 0;
          dir_nth devs k dev pos (sar4 w) (i + 1) buff } })"

definition fs_romfs_read_directory ::
  "(u32 \<Rightarrow> 'w Device) \<Rightarrow> bytes \<Rightarrow> Instance list \<Rightarrow> int \<Rightarrow> u32 \<Rightarrow> int \<Rightarrow> dirent \<Rightarrow> 'w kernel \<Rightarrow> (int \<times> dirent) option" where
  "fs_romfs_read_directory devs junk inst instance_no inode pos de k = do {
     ins \<leftarrow> ird inst instance_no;
     let inode = inode + i_root_inode ins;
     if pos < 0 then Some (- errno EINVAL, de)
     else do {
       (_, buff) \<leftarrow> read_unaligned devs k (i_device ins) junk 16 (uint (inode * 16));
       w \<leftarrow> MAKE_INT buff 4;
       b3 \<leftarrow> rd buff 3;
       if inode \<noteq> i_root_inode ins \<and> b3 AND 7 \<noteq> 1 then Some (- errno ENOTDIR, de)
       else do {
         let inode = (if inode \<noteq> i_root_inode ins then sar4 w else inode);
         (inode, buff) \<leftarrow> dir_nth devs k (i_device ins) pos inode 0 buff;
         if inode = 0 then Some (0, de)
         else do {
           b3 \<leftarrow> rd buff 3;
           w \<leftarrow> MAKE_INT buff 4;
           nm \<leftarrow> strncpy (d_name de) (drop 16 buff) NAME_MAX;
           nm \<leftarrow> wr nm NAME_MAX 0;
           Some (sizeof_dirent, de\<lparr>d_ino := inode - i_root_inode ins, d_mode := fst (byte_to_mode b3 w 0), d_name := nm\<rparr>) } } } }"

text \<open>The search for the end of the name, over the blocks after the header: the number of blocks.\<close>

fun name_blocks :: "(u32 \<Rightarrow> 'w Device) \<Rightarrow> 'w kernel \<Rightarrow> u32 \<Rightarrow> u32 \<Rightarrow> nat list \<Rightarrow> bytes \<Rightarrow> nat option" where
  "name_blocks devs k dev inode [] node = Some 16"
| "name_blocks devs k dev inode (i # is) node = do {
     (_, node) \<leftarrow> read_unaligned devs k dev node 16 (uint (inode * 16 + 16 + of_nat i * 16));
     if 0 \<in> set (take 16 node) then Some i else name_blocks devs k dev inode is node }"

definition fs_romfs_read ::
  "(u32 \<Rightarrow> 'w Device) \<Rightarrow> bytes \<Rightarrow> Instance list \<Rightarrow> int \<Rightarrow> u32 \<Rightarrow> bytes \<Rightarrow> u32 \<Rightarrow> int \<Rightarrow> 'w kernel \<Rightarrow> (int \<times> bytes) option" where
  "fs_romfs_read devs junk inst instance_no inode data n offset k = do {
     ins \<leftarrow> ird inst instance_no;
     let inode = inode + i_root_inode ins;
     (_, node) \<leftarrow> read_unaligned devs k (i_device ins) (take 16 junk) 16 (uint (inode * 16));
     size \<leftarrow> MAKE_INT node 8;
     total \<leftarrow> off64 (offset + uint n);
     let n = (if total > sint size then word_of_int (sint size - offset) else n);
     i \<leftarrow> name_blocks devs k (i_device ins) inode [0..<16] node;
     start \<leftarrow> off64 (uint (inode * 16 + 16 + of_nat (Suc i) * 16) + offset);
     (_, data) \<leftarrow> read_unaligned devs k (i_device ins) data (sint n) start;
     Some (sint n, data) }"

text \<open>A block size that is null, or a sum outside the range of \<^verbatim>\<open>int\<close>, is undefined.\<close>

definition fs_romfs_stat_inode ::
  "(u32 \<Rightarrow> 'w Device) \<Rightarrow> bytes \<Rightarrow> Instance list \<Rightarrow> int \<Rightarrow> u32 \<Rightarrow> stat \<Rightarrow> 'w kernel \<Rightarrow> (int \<times> stat) option" where
  "fs_romfs_stat_inode devs junk inst instance_no inode s k = do {
     ins \<leftarrow> ird inst instance_no;
     let inode = inode + i_root_inode ins;
     (_, buff) \<leftarrow> read_unaligned devs k (i_device ins) (take 16 junk) 16 (uint (inode * 16));
     b3 \<leftarrow> rd buff 3;
     special \<leftarrow> MAKE_INT buff 4;
     size \<leftarrow> MAKE_INT buff 8;
     b \<leftarrow> blockdev_of devs (i_device ins) k;
     blksize \<leftarrow> bd_blksize b;
     let bsz = blksize (k_drv k) (i_device ins);
     let (mode, rdev) = byte_to_mode b3 special 0;
     if bsz = 0 \<or> sint size + bsz \<ge> 2 ^ 31 \<or> sint size + bsz < - (2 ^ 31) then None
     else Some (0, \<lparr>st_dev = i_device ins, st_ino = inode - i_root_inode ins, st_mode = mode, st_nlink = 1,
            st_uid = 0, st_gid = 0, st_rdev = rdev, st_size = sint size, st_blksize = word_of_int bsz,
            st_blocks = word_of_int ((sint size + bsz - 1) sdiv bsz), st_mtime = 0\<rparr>) }"

text \<open>The search of a directory for a name; the result is 0 when there is no such entry.\<close>

partial_function (option) dir_find ::
  "(u32 \<Rightarrow> 'w Device) \<Rightarrow> 'w kernel \<Rightarrow> u32 \<Rightarrow> bytes \<Rightarrow> u32 \<Rightarrow> bytes \<Rightarrow> u32 option" where
  "dir_find devs k dev fname inode buff =
     (if inode = 0 then Some 0
      else do {
        (_, buff) \<leftarrow> read_unaligned devs k dev buff (int HEADER_MAX) (uint (inode * 16));
        c \<leftarrow> strncmp fname (drop 16 buff) NAME_MAX;
        if c = 0 then Some inode
        else do {
          w \<leftarrow> MAKE_INT buff 0;
          dir_find devs k dev fname (sar4 w) buff } })"

definition fs_romfs_stat ::
  "(u32 \<Rightarrow> 'w Device) \<Rightarrow> bytes \<Rightarrow> Instance list \<Rightarrow> int \<Rightarrow> u32 \<Rightarrow> bytes \<Rightarrow> stat \<Rightarrow> 'w kernel \<Rightarrow> (int \<times> stat) option" where
  "fs_romfs_stat devs junk inst instance_no inode fname s k = do {
     ins \<leftarrow> ird inst instance_no;
     let inode = inode + i_root_inode ins;
     (_, buff) \<leftarrow> read_unaligned devs k (i_device ins) junk (int HEADER_MAX) (uint (inode * 16));
     ch \<leftarrow> rd fname 0;
     if ch = 0 then fs_romfs_stat_inode devs junk inst instance_no (inode - i_root_inode ins) s k
     else do {
       b3 \<leftarrow> rd buff 3;
       w \<leftarrow> MAKE_INT buff 4;
       if inode \<noteq> i_root_inode ins \<and> b3 AND 7 \<noteq> 1 then Some (- errno ENOTDIR, s)
       else do {
         found \<leftarrow> dir_find devs k (i_device ins) fname (if inode \<noteq> i_root_inode ins then sar4 w else inode) buff;
         if found = 0 then Some (- errno ENOENT, s)
         else fs_romfs_stat_inode devs junk inst instance_no (found - i_root_inode ins) s k } } }"

text \<open>
  \<^verbatim>\<open>fs_romfs_mount\<close>: the result, the contents of \<^verbatim>\<open>*root_inode\<close> and the instances.  The first header
  follows the volume name, which starts at byte 16.
\<close>

definition fs_romfs_mount ::
  "(u32 \<Rightarrow> 'w Device) \<Rightarrow> bytes \<Rightarrow> u32 \<Rightarrow> u32 \<Rightarrow> Instance list \<Rightarrow> 'w kernel \<Rightarrow> (int \<times> u32 \<times> Instance list) option" where
  "fs_romfs_mount devs junk dev root_inode inst k =
     (let q = find_slot (\<lambda>x. \<not> i_used x) inst in
      if q \<ge> length inst then Some (- errno ENOMEM, root_inode, inst)
      else do {
        let inst = inst[q := (inst ! q)\<lparr>i_device := dev\<rparr>];
        (_, buff) \<leftarrow> read_unaligned devs k dev (take 512 junk) 512 0;
        c \<leftarrow> strncmp (cstr ''-rom1fs-'') buff 8;
        if c \<noteq> 0 then Some (- errno EINVAL, root_inode, inst)
        else
          let i = 16 + find_slot (\<lambda>b. b = 0) (drop 16 (take 512 buff)) in
          if i \<ge> 512 then Some (- errno EINVAL, root_inode, inst)
          else Some (int q, 0, inst[q := (inst ! q)\<lparr>i_root_inode := of_nat ((i + 16) div 16), i_used := True\<rparr>]) })"

text \<open>
  The record of functions registered with the virtual file system, for a driver state \<open>'w\<close> that
  holds the instances: \<open>get\<close> and \<open>put\<close> read and replace them.
\<close>

definition romfs_type ::
  "('w \<Rightarrow> Instance list) \<Rightarrow> (Instance list \<Rightarrow> 'w \<Rightarrow> 'w) \<Rightarrow> (u32 \<Rightarrow> 'w Device) \<Rightarrow> bytes \<Rightarrow> bytes \<Rightarrow> 'w VFSFSType" where
  "romfs_type get put devs junk name =
     \<lparr>fs_name = name,
      fs_mount = (\<lambda>dev root k. map_option (\<lambda>(r, root, inst). (r, root, k\<lparr>k_drv := put inst (k_drv k)\<rparr>))
                    (fs_romfs_mount devs junk dev root (get (k_drv k)) k)),
      fs_stat = (\<lambda>i ino fname s k. fs_romfs_stat devs junk (get (k_drv k)) i ino fname s k),
      fs_stat_inode = (\<lambda>i ino s k. fs_romfs_stat_inode devs junk (get (k_drv k)) i ino s k),
      fs_read = (\<lambda>i ino buf n off k. fs_romfs_read devs junk (get (k_drv k)) i ino buf n off k),
      fs_read_directory = (\<lambda>i ino pos de k. fs_romfs_read_directory devs junk (get (k_drv k)) i ino pos de k)\<rparr>"

definition fs_romfs_init ::
  "('w \<Rightarrow> Instance list) \<Rightarrow> (Instance list \<Rightarrow> 'w \<Rightarrow> 'w) \<Rightarrow> (u32 \<Rightarrow> 'w Device) \<Rightarrow> bytes \<Rightarrow> bytes \<Rightarrow> 'w vfs \<Rightarrow> (int \<times> 'w vfs) option" where
  "fs_romfs_init get put devs junk namebuf v = do {
     nm \<leftarrow> strcpy namebuf (cstr ''romfs'');
     vfs_fs_register (romfs_type get put devs junk nm) v }"

section \<open>The drivers of the kernel\<close>

text \<open>The state of the drivers: memory, the descriptors of memory-backed devices, the file-system instances.\<close>

record drivers =
  drv_mem :: "u32 \<Rightarrow> u8"
  drv_memblk :: "MemblkDescriptor list"
  drv_romfs :: "Instance list"

text \<open>The \<^verbatim>\<open>Device\<close> that \<^verbatim>\<open>memblk_open\<close> fills in.\<close>

definition memblk_device :: "'a drivers_scheme Device" where
  "memblk_device = DEVICE_TYPE_BLOCK
     \<lparr>bd_read = Some (\<lambda>w. memblk_read (drv_mem w) (drv_memblk w)), bd_write = None,
      bd_size = Some (\<lambda>w. memblk_devsize (drv_memblk w)), bd_blksize = Some (\<lambda>w. memblk_blksize)\<rparr>"

end
