(* ===== verification/RomfsSpec.thy ===== *)
theory RomfsSpec
  imports Romfs DeviceSpec
begin

text \<open>
  The read-only file system on an image: looking up a name, reading a file, listing a directory and
  mounting do what the layout of the image says.  The lemmas hold for any block device that reads the
  bytes of an image, the interface \<^verbatim>\<open>block_device\<close>; the memory-backed device is one.
\<close>

section \<open>Disks\<close>

text \<open>
  What a file system relies on: the device is a block device with blocks of 512 bytes whose \<^verbatim>\<open>read\<close>
  gives the bytes of an image from the position, clipped at its end.
\<close>

definition clip_read :: "bytes \<Rightarrow> int \<Rightarrow> u32 \<Rightarrow> int \<times> bytes" where
  "clip_read img pos n =
     (if int (length img) < pos then (- errno EIO, [])
      else let bs = take (unat n) (drop (nat pos) img) in (int (length bs), bs))"

definition disk_at :: "(u32 \<Rightarrow> 'w Device) \<Rightarrow> 'w kernel \<Rightarrow> u32 \<Rightarrow> bytes \<Rightarrow> bool" where
  "disk_at devs k dev img \<longleftrightarrow>
     (\<exists>b read bsz. blockdev_of devs dev k = Some b \<and> bd_read b = Some read \<and> bd_blksize b = Some bsz \<and>
        bsz (k_drv k) dev = 512 \<and>
        (\<forall>pos n. 0 \<le> pos \<longrightarrow> pos < 2 ^ 62 \<longrightarrow> read (k_drv k) dev pos n = Some (clip_read img pos n)))"

text \<open>A buffer after a read of \<open>n\<close> bytes at \<open>pos\<close>.\<close>

definition filled :: "bytes \<Rightarrow> nat \<Rightarrow> nat \<Rightarrow> bytes \<Rightarrow> bytes" where
  "filled img pos n buf = take n (drop pos img) @ drop (min n (length img - pos)) buf"

lemma length_filled [simp]: "n \<le> length buf \<Longrightarrow> length (filled img pos n buf) = length buf"
  by (simp add: filled_def)

lemma filled_nth: "i < n \<Longrightarrow> pos + i < length img \<Longrightarrow> filled img pos n buf ! i = img ! (pos + i)"
  by (auto simp: filled_def nth_append less_diff_conv add.commute)

lemma filled_full: "pos + n \<le> length img \<Longrightarrow> filled img pos n buf = take n (drop pos img) @ drop n buf"
  by (simp add: filled_def)

lemma read_unaligned_disk:
  assumes "disk_at devs k dev img" "0 \<le> pos" "pos < 2 ^ 62" "0 \<le> n" "n < 2 ^ 31" "nat n \<le> length buf"
  shows "read_unaligned devs k dev buf n pos = Some (0, filled img (nat pos) (nat n) buf)"
proof (cases "n = 0")
  case False
  have u: "unat (word_of_int n :: u32) = nat n" using assms(4,5) by (intro unat_word_of_int_small) auto
  have "length (take (nat n) (drop (nat pos) img)) \<le> length buf" using assms(6) by simp
  then show ?thesis using assms(1-3) False
    by (auto simp: disk_at_def read_unaligned_def clip_read_def filled_def u Let_def min.commute)
qed (use assms in \<open>simp add: read_unaligned_def filled_def\<close>)

section \<open>Images\<close>

definition be32 :: "bytes \<Rightarrow> nat \<Rightarrow> u32" where
  "be32 b i = push_bit 24 (ucast (b ! i)) OR push_bit 16 (ucast (b ! (i + 1))) OR push_bit 8 (ucast (b ! (i + 2)))
     OR ucast (b ! (i + 3))"

lemma MAKE_INT_be32: "i + 4 \<le> length b \<Longrightarrow> MAKE_INT b i = Some (be32 b i)"
  by (simp add: MAKE_INT_def be32_def)

lemma be32_filled:
  assumes "i + 4 \<le> n" "pos + i + 4 \<le> length img"
  shows "be32 (filled img pos n buf) i = be32 img (pos + i)"
  using assms by (simp add: be32_def filled_nth add.assoc)

text \<open>The header at block \<open>i\<close>: the next entry, the type, the first entry, the size and the name.\<close>

definition h_next :: "bytes \<Rightarrow> u32 \<Rightarrow> u32" where "h_next img i = sar4 (be32 img (16 * unat i))"
definition h_byte :: "bytes \<Rightarrow> u32 \<Rightarrow> u8" where "h_byte img i = img ! (16 * unat i + 3)"
definition h_special :: "bytes \<Rightarrow> u32 \<Rightarrow> u32" where "h_special img i = be32 img (16 * unat i + 4)"
definition h_size :: "bytes \<Rightarrow> u32 \<Rightarrow> int" where "h_size img i = sint (be32 img (16 * unat i + 8))"
definition h_name :: "bytes \<Rightarrow> u32 \<Rightarrow> bytes" where "h_name img i = strz (drop (16 * unat i + 16) img)"

text \<open>A header within the image, with a name that ends there.\<close>

definition header_ok :: "bytes \<Rightarrow> u32 \<Rightarrow> bool" where
  "header_ok img i \<longleftrightarrow> unat i < 2 ^ 28 \<and> length (h_name img i) < NAME_MAX \<and>
     16 * unat i + 16 + length (h_name img i) < length img"

text \<open>The blocks of the entries of a directory, from its first.\<close>

fun dir_chain :: "bytes \<Rightarrow> u32 \<Rightarrow> u32 list \<Rightarrow> bool" where
  "dir_chain img i [] \<longleftrightarrow> i = 0"
| "dir_chain img i (j # js) \<longleftrightarrow> i = j \<and> i \<noteq> 0 \<and> header_ok img i \<and> dir_chain img (h_next img i) js"

lemma block_address:
  assumes "unat (i :: u32) < 2 ^ 28"
  shows "unat (i * 16) = 16 * unat i" "nat (uint (i * 16)) = 16 * unat i" "uint (i * 16) < 2 ^ 32"
proof -
  show u: "unat (i * 16) = 16 * unat i" using assms by (subst unat_mult_lem [THEN iffD1]) auto
  then show "nat (uint (i * 16)) = 16 * unat i" by simp
  show "uint (i * 16) < 2 ^ 32" using uint_lt2p [of "i * 16"] by simp
qed

lemma strz_prefix:
  assumes "length (strz b) < length b"
  shows "0 \<in> set b" "\<And>m. length (strz b) < m \<Longrightarrow> strz (take m b @ rest) = strz b"
    "\<And>m. length (strz b) < m \<Longrightarrow> 0 \<in> set (take m b @ rest)"
proof -
  let ?n = "length (strz b)"
  have nul: "b ! ?n = 0" using assms nth_length_takeWhile [of "\<lambda>c. c \<noteq> 0" b] by (simp add: strz_def)
  then show "0 \<in> set b" using assms nth_mem by metis
  fix m assume m: "?n < m"
  then have "0 \<in> set (take m b)" using nul assms by (auto simp: in_set_conv_nth intro!: exI [of _ ?n])
  then show "0 \<in> set (take m b @ rest)" by simp
  from \<open>0 \<in> set (take m b)\<close> have "strz (take m b @ rest) = strz (take m b)"
    by (simp add: strz_def takeWhile_append1)
  also have "\<dots> = strz b" using \<open>0 \<in> set (take m b)\<close> takeWhile_append1 [of 0 "take m b" "\<lambda>c. c \<noteq> 0" "drop m b"]
    by (simp add: strz_def)
  finally show "strz (take m b @ rest) = strz b" .
qed

text \<open>What a buffer holds after the header and the name have been read.\<close>

lemma header_buffer:
  assumes "header_ok img i" "length buf = HEADER_MAX"
  defines "b \<equiv> filled img (16 * unat i) HEADER_MAX buf"
  shows "length b = HEADER_MAX" "be32 b 0 = be32 img (16 * unat i)" "be32 b 4 = h_special img i"
    "b ! 3 = h_byte img i" "0 \<in> set (drop 16 b)" "strz (drop 16 b) = h_name img i"
proof -
  let ?p = "16 * unat i"
  have h: "length (h_name img i) < NAME_MAX" "?p + 16 + length (h_name img i) < length img"
    using assms(1) by (auto simp: header_ok_def)
  show "length b = HEADER_MAX" using assms(2) by (simp add: b_def)
  show "be32 b 0 = be32 img ?p" using h by (simp add: b_def be32_filled HEADER_MAX_def)
  show "be32 b 4 = h_special img i" using h by (simp add: b_def be32_filled HEADER_MAX_def h_special_def)
  show "b ! 3 = h_byte img i" using h by (simp add: b_def filled_nth HEADER_MAX_def h_byte_def)
  have d: "drop 16 b = take (NAME_MAX + 1) (drop (?p + 16) img) @ drop (min HEADER_MAX (length img - ?p)) buf"
    using h by (simp add: b_def filled_def HEADER_MAX_def drop_take add.commute)
  note s = strz_prefix [of "drop (?p + 16) img", folded h_name_def]
  show "0 \<in> set (drop 16 b)" "strz (drop 16 b) = h_name img i"
    unfolding d using h s(2,3) [of "NAME_MAX + 1"] by (auto simp: h_name_def)
qed

lemma read_header:
  assumes "disk_at devs k dev img" "header_ok img i" "length buf = HEADER_MAX"
  shows "read_unaligned devs k dev buf (int HEADER_MAX) (uint (i * 16)) = Some (0, filled img (16 * unat i) HEADER_MAX buf)"
proof -
  have i: "unat i < 2 ^ 28" using assms(2) by (simp add: header_ok_def)
  have "uint (i * 16) < 2 ^ 62" using block_address(3) [OF i] by simp
  then show ?thesis using read_unaligned_disk [OF assms(1), of "uint (i * 16)" "int HEADER_MAX" buf] assms(3) block_address(2) [OF i]
    by (simp add: HEADER_MAX_def NAME_MAX_def)
qed

section \<open>Directories\<close>

lemma take_eq_short: "length y < n \<Longrightarrow> take n x = y \<longleftrightarrow> x = y"
  by (cases "length x \<le> n") auto

lemma dir_find_eq:
  assumes "disk_at devs k dev img" "0 \<in> set fname" "dir_chain img i js" "length buf = HEADER_MAX"
  shows "dir_find devs k dev fname i buf =
    Some (case find (\<lambda>j. h_name img j = strz fname) js of None \<Rightarrow> 0 | Some j \<Rightarrow> j)"
  using assms(3,4)
proof (induction js arbitrary: i buf)
  case Nil
  then show ?case by (simp add: dir_find.simps)
next
  case (Cons j js)
  let ?b = "filled img (16 * unat i) HEADER_MAX buf"
  have h: "i = j" "i \<noteq> 0" "header_ok img i" "dir_chain img (h_next img i) js" using Cons.prems(1) by auto
  note b = header_buffer [OF h(3) Cons.prems(2)]
  obtain c where c: "strncmp fname (drop 16 ?b) NAME_MAX = Some c" "c = 0 \<longleftrightarrow> strz fname = h_name img i"
    using strncmp_total [OF assms(2) b(5), of NAME_MAX] h(3) b(6) take_eq_short [of "h_name img i" NAME_MAX "strz fname"]
    by (auto simp: header_ok_def)
  have m: "MAKE_INT ?b 0 = Some (be32 img (16 * unat i))" using b(1,2) by (simp add: MAKE_INT_be32 HEADER_MAX_def)
  have step: "dir_find devs k dev fname i buf = (if c = 0 then Some i else dir_find devs k dev fname (h_next img i) ?b)"
    using h(2) c(1) m by (subst dir_find.simps) (simp add: read_header [OF assms(1) h(3) Cons.prems(2)] h_next_def)
  have "find (\<lambda>j. h_name img j = strz fname) (j # js) =
    (if c = 0 then Some i else find (\<lambda>j. h_name img j = strz fname) js)"
    using c(2) by (simp add: h(1) [symmetric] eq_commute [of "strz fname"])
  then show ?case using Cons.IH [OF h(4) b(1)] by (simp only: step) simp
qed

lemma dir_nth_eq:
  assumes "disk_at devs k dev img" "dir_chain img i js" "length buf = HEADER_MAX" "m \<le> pos"
  shows "\<exists>buf'. dir_nth devs k dev pos i m buf = Some (if nat (pos - m) < length js then js ! nat (pos - m) else 0, buf') \<and>
    (nat (pos - m) < length js \<longrightarrow>
      (\<exists>b. length b = HEADER_MAX \<and> buf' = filled img (16 * unat (js ! nat (pos - m))) HEADER_MAX b \<and>
        header_ok img (js ! nat (pos - m))))"
  using assms(2-4)
proof (induction js arbitrary: i buf m)
  case Nil
  then show ?case by (auto simp: dir_nth.simps)
next
  case (Cons j js)
  let ?b = "filled img (16 * unat i) HEADER_MAX buf"
  have h: "i = j" "i \<noteq> 0" "header_ok img i" "dir_chain img (h_next img i) js" using Cons.prems(1) by auto
  note b = header_buffer [OF h(3) Cons.prems(2)]
  have mk: "MAKE_INT ?b 0 = Some (be32 img (16 * unat i))" using b(1,2) by (simp add: MAKE_INT_be32 HEADER_MAX_def)
  have step: "dir_nth devs k dev pos i m buf = (if m = pos then Some (i, ?b) else dir_nth devs k dev pos (h_next img i) (m + 1) ?b)"
    using h(2) mk by (subst dir_nth.simps) (simp add: read_header [OF assms(1) h(3) Cons.prems(2)] h_next_def)
  show ?case
  proof (cases "m = pos")
    case True
    then have "dir_nth devs k dev pos i m buf = Some (i, ?b)" using step by simp
    then show ?thesis using True h(3) Cons.prems(2) by (auto simp: h(1) [symmetric])
  next
    case False
    then have n: "nat (pos - m) = Suc (nat (pos - (m + 1)))" "m + 1 \<le> pos" using Cons.prems(3) by linarith+
    show ?thesis using Cons.IH [OF h(4) b(1) n(2)] False by (simp only: step n(1) if_False nth_Cons_Suc length_Cons Suc_less_eq)
  qed
qed

text \<open>The attributes of the entry at block \<open>i\<close>.\<close>

definition romfs_attr :: "bytes \<Rightarrow> Instance \<Rightarrow> u32 \<Rightarrow> stat" where
  "romfs_attr img ins i =
     \<lparr>st_dev = i_device ins, st_ino = i - i_root_inode ins, st_mode = fst (byte_to_mode (h_byte img i) (h_special img i) 0),
      st_nlink = 1, st_uid = 0, st_gid = 0, st_rdev = snd (byte_to_mode (h_byte img i) (h_special img i) 0),
      st_size = h_size img i, st_blksize = 512, st_blocks = word_of_int ((h_size img i + 511) div 512), st_mtime = 0\<rparr>"

lemma read_small_header:
  assumes "disk_at devs k dev img" "unat (i :: u32) < 2 ^ 28" "16 * unat i + 16 \<le> length img" "16 \<le> length buf"
  shows "read_unaligned devs k dev buf 16 (uint (i * 16)) = Some (0, take 16 (drop (16 * unat i) img) @ drop 16 buf)"
proof -
  have "uint (i * 16) < 2 ^ 62" using block_address(3) [OF assms(2)] by simp
  then show ?thesis using read_unaligned_disk [OF assms(1), of "uint (i * 16)" 16 buf] assms(3,4) block_address(2) [OF assms(2)]
    by (simp add: filled_full)
qed

lemma be32_take: "i + 4 \<le> 16 \<Longrightarrow> p + 16 \<le> length img \<Longrightarrow> be32 (take 16 (drop p img) @ r) i = be32 img (p + i)"
  by (simp add: be32_def nth_append add.assoc)

lemma small_header:
  assumes "16 * unat (i :: u32) + 16 \<le> length img"
  defines "b \<equiv> take 16 (drop (16 * unat i) img)"
  shows "length b = 16" "(b @ r) ! 3 = h_byte img i" "be32 (b @ r) 4 = h_special img i" "sint (be32 (b @ r) 8) = h_size img i"
  using assms(1) by (simp_all add: b_def h_byte_def h_special_def h_size_def be32_take nth_append)

lemma stat_inode_eq:
  assumes "disk_at devs k (i_device ins) img" "ird inst no = Some ins" "header_ok img i" "0 \<le> h_size img i"
    "h_size img i < 2 ^ 31 - 512" "16 \<le> length junk"
  shows "fs_romfs_stat_inode devs junk inst no (i - i_root_inode ins) s k = Some (0, romfs_attr img ins i)"
proof -
  have i: "unat i < 2 ^ 28" "16 * unat i + 16 \<le> length img" using assms(3) by (auto simp: header_ok_def)
  let ?b = "take 16 (drop (16 * unat i) img)"
  have h: "length ?b = 16" "?b ! 3 = h_byte img i" "be32 ?b 4 = h_special img i" "sint (be32 ?b 8) = h_size img i"
    using small_header(1) [OF i(2)] small_header(2-4) [OF i(2), of "[]"] by simp_all
  define b0 where "b0 = ?b"
  note r = read_small_header [OF assms(1) i, of "take 16 junk"]
  obtain b bsz where b: "blockdev_of devs (i_device ins) k = Some b" "bd_blksize b = Some bsz" "bsz (k_drv k) (i_device ins) = 512"
    using assms(1) by (auto simp: disk_at_def)
  have "(511 + h_size img i) sdiv 512 = (h_size img i + 511) div 512"
    using assms(4) by (simp add: signed_divide_int_def)
  then show ?thesis using assms(2,4,5,6) r h b
    unfolding b0_def [symmetric] by (simp add: fs_romfs_stat_inode_def MAKE_INT_be32 romfs_attr_def Let_def case_prod_beta)
qed

text \<open>The mode of a header: its kind, by the lowest three bits of the byte, and whether it is executable.\<close>

definition h_mode :: "bytes \<Rightarrow> u32 \<Rightarrow> u16" where
  "h_mode img i =
     ([0x1124, 0x4124, 0x8124, 0xA124, 0x6000, 0x2000, 0xC124, 0x1124] ! unat (h_byte img i AND 7)) OR
     (if bit (h_byte img i) 3 then 0x49 else 0)"

lemma byte_mode: "fst (byte_to_mode (h_byte img i) w r) = h_mode img i"
proof -
  define k where "k = unat (h_byte img i AND 7)"
  have "h_byte img i AND 7 = take_bit 3 (h_byte img i)" by (simp add: take_bit_eq_mask mask_eq_exp_minus_1)
  then have "k < 8" using take_bit_nat_less_exp [of 3 "unat (h_byte img i)"] by (simp add: k_def unsigned_take_bit_eq)
  have "h_byte img i AND 7 = of_nat k" by (simp add: k_def)
  moreover have "k \<in> {0, 1, 2, 3, 4, 5, 6, 7}" using \<open>k < 8\<close> by auto
  moreover have "h_byte img i AND 8 \<noteq> 0 \<longleftrightarrow> bit (h_byte img i) 3"
    using and_exp_eq_0_iff_not_bit [of "h_byte img i" 3] by simp
  ultimately show ?thesis
    by (auto simp: byte_to_mode_def h_mode_def S_IFDIR_def S_IFREG_def S_IFLNK_def S_IFBLK_def S_IFCHR_def S_IFSOCK_def S_IFIFO_def)
qed

text \<open>The directory at block \<open>i\<close> has the entries \<open>js\<close>; the root directory starts at its own block.\<close>

definition dir_of :: "bytes \<Rightarrow> u32 \<Rightarrow> u32 \<Rightarrow> u32 list \<Rightarrow> bool" where
  "dir_of img root i js \<longleftrightarrow> header_ok img i \<and>
     (if i = root then dir_chain img root js
      else h_byte img i AND 7 = 1 \<and> dir_chain img (sar4 (h_special img i)) js)"

definition sizes_ok :: "bytes \<Rightarrow> u32 list \<Rightarrow> bool" where
  "sizes_ok img js \<longleftrightarrow> (\<forall>j \<in> set js. 0 \<le> h_size img j \<and> h_size img j < 2 ^ 31 - 512)"

lemma dir_chain_headers: "dir_chain img i js \<Longrightarrow> j \<in> set js \<Longrightarrow> header_ok img j \<and> j \<noteq> 0"
  by (induction js arbitrary: i) auto

lemma dir_of_headers: "dir_of img root i js \<Longrightarrow> j \<in> set js \<Longrightarrow> header_ok img j \<and> j \<noteq> 0"
  by (auto simp: dir_of_def dest: dir_chain_headers split: if_splits)

lemma find_in_set: "find P xs = Some x \<Longrightarrow> x \<in> set xs \<and> P x"
  by (auto simp: find_Some_iff)

lemma stat_eq:
  assumes "disk_at devs k (i_device ins) img" "ird inst no = Some ins" "dir_of img (i_root_inode ins) i js" "sizes_ok img js"
    "0 \<in> set fname" "strz fname \<noteq> []" "length junk = HEADER_MAX"
  shows "fs_romfs_stat devs junk inst no (i - i_root_inode ins) fname s k =
    Some (case find (\<lambda>j. h_name img j = strz fname) js of
            None \<Rightarrow> (- errno ENOENT, s) | Some j \<Rightarrow> (0, romfs_attr img ins j))"
proof -
  let ?root = "i_root_inode ins" and ?b = "filled img (16 * unat i) HEADER_MAX junk"
  let ?first = "if i \<noteq> ?root then sar4 (h_special img i) else i"
  have h: "header_ok img i" and c: "dir_chain img ?first js" and t: "\<not> (i \<noteq> ?root \<and> h_byte img i AND 7 \<noteq> 1)"
    using assms(3) by (auto simp: dir_of_def split: if_splits)
  note b = header_buffer [OF h assms(7)]
  obtain x where x: "rd fname 0 = Some x" "x \<noteq> 0" using assms(5,6) by (cases fname) (auto simp: strz_def split: if_splits)
  have m: "MAKE_INT ?b 4 = Some (h_special img i)" "rd ?b 3 = Some (h_byte img i)"
    using b(1,3,4) by (simp_all add: MAKE_INT_be32 HEADER_MAX_def)
  note r = read_header [OF assms(1) h assms(7)]
  note f = dir_find_eq [OF assms(1,5) c b(1)]
  have j: "fs_romfs_stat_inode devs junk inst no (j - ?root) s k = Some (0, romfs_attr img ins j)" "j \<noteq> 0"
    if "find (\<lambda>j. h_name img j = strz fname) js = Some j" for j
    using find_in_set [OF that] dir_of_headers [OF assms(3)] assms(4,7)
    by (auto simp: sizes_ok_def HEADER_MAX_def intro!: stat_inode_eq [OF assms(1,2)])
  have "fs_romfs_stat devs junk inst no (i - ?root) fname s k = do {
      found \<leftarrow> dir_find devs k (i_device ins) fname ?first ?b;
      if found = 0 then Some (- errno ENOENT, s)
      else fs_romfs_stat_inode devs junk inst no (found - ?root) s k }"
    using x by (simp add: fs_romfs_stat_def assms(2) r m t)
  then show ?thesis unfolding f
    using j by (cases "find (\<lambda>j. h_name img j = strz fname) js") simp_all
qed

section \<open>Files\<close>

text \<open>The data of a file follow its name, which is padded to full blocks.\<close>

definition data_start :: "bytes \<Rightarrow> u32 \<Rightarrow> nat" where
  "data_start img i = 16 * unat i + 32 + 16 * (length (h_name img i) div 16)"

definition file_data :: "bytes \<Rightarrow> u32 \<Rightarrow> bytes" where
  "file_data img i = take (nat (h_size img i)) (drop (data_start img i) img)"

definition file_ok :: "bytes \<Rightarrow> u32 \<Rightarrow> bool" where
  "file_ok img i \<longleftrightarrow> unat i < 2 ^ 27 \<and> length (h_name img i) < 256 \<and> 0 \<le> h_size img i \<and>
     data_start img i + nat (h_size img i) \<le> length img \<and> length img < 2 ^ 31"

lemma name_block_zero:
  assumes "16 * unat i + 16 + length (h_name img i) < length img" "q \<le> length (h_name img i) div 16"
    "16 * unat i + 32 + 16 * q \<le> length img"
  shows "0 \<in> set (take 16 (drop (16 * unat i + 16 + 16 * q) img)) \<longleftrightarrow> q = length (h_name img i) div 16"
proof -
  let ?p = "16 * unat i + 16" and ?l = "length (h_name img i)"
  have z: "img ! (?p + ?l) = 0"
    using assms(1) nth_length_takeWhile [of "\<lambda>c. c \<noteq> 0" "drop ?p img"] by (simp add: h_name_def strz_def)
  have nz: "img ! (?p + m) \<noteq> 0" if "m < ?l" for m
  proof -
    have "h_name img i ! m \<noteq> 0" using that strz_no_nul [of "drop ?p img"] nth_mem by (metis h_name_def)
    moreover have "h_name img i ! m = drop ?p img ! m" using that by (simp add: h_name_def strz_def takeWhile_nth)
    ultimately show ?thesis using assms(1) that by simp
  qed
  have set: "0 \<in> set (take 16 (drop (?p + 16 * q) img)) \<longleftrightarrow> (\<exists>m < 16. img ! (?p + 16 * q + m) = 0)"
    using assms(3) by (auto simp: in_set_conv_nth)
  show ?thesis
  proof (cases "q = ?l div 16")
    case True
    then have "16 * q + ?l mod 16 = ?l" by simp
    then have "?p + 16 * q + ?l mod 16 = ?p + ?l" by linarith
    then have "img ! (?p + 16 * q + ?l mod 16) = 0" using z by metis
    then show ?thesis using True set by (auto intro!: exI [of _ "?l mod 16"])
  next
    case False
    then have "q < ?l div 16" using assms(2) by simp
    then have "16 * q + 16 \<le> ?l" using less_eq_div_iff_mult_less_eq [of 16 "Suc q" ?l] by (simp add: mult.commute)
    then have "16 * q + m < ?l" if "m < 16" for m using that by linarith
    then have "img ! (?p + 16 * q + m) \<noteq> 0" if "m < 16" for m using nz [of "16 * q + m"] that by (simp add: add.assoc)
    then show ?thesis using False set by simp
  qed
qed

lemma file_header_ok: "file_ok img i \<Longrightarrow> header_ok img i"
proof -
  assume f: "file_ok img i"
  have "length (h_name img i) < 16 + 16 * (length (h_name img i) div 16)" by presburger
  with f show ?thesis by (auto simp: file_ok_def header_ok_def data_start_def NAME_MAX_def)
qed

text \<open>The address the code computes for block \<open>q\<close> after the header.\<close>

lemma name_block_address:
  assumes "unat i < 2 ^ 27" "q \<le> 16"
  shows "nat (uint (i * 16 + 16 + of_nat q * 16 :: u32)) = 16 * unat i + 16 + 16 * q"
    "uint (i * 16 + 16 + of_nat q * 16 :: u32) < 2 ^ 32"
proof -
  have q: "unat (of_nat q :: u32) = q" using assms(2) by (simp add: unat_of_nat)
  have a: "unat (i * 16) = 16 * unat i" using assms(1) by (intro block_address(1)) simp
  have b: "unat (of_nat q * 16 :: u32) = 16 * q" using assms(2) q by (subst unat_mult_lem [THEN iffD1]) auto
  have c: "unat (i * 16 + 16) = 16 * unat i + 16" using assms(1) a by (subst unat_add_lem [THEN iffD1]) auto
  have "unat (i * 16 + 16 + of_nat q * 16) = 16 * unat i + 16 + 16 * q"
    using assms a b c by (subst unat_add_lem [THEN iffD1]) auto
  then show "nat (uint (i * 16 + 16 + of_nat q * 16 :: u32)) = 16 * unat i + 16 + 16 * q" by simp
  show "uint (i * 16 + 16 + of_nat q * 16 :: u32) < 2 ^ 32" using uint_lt2p [of "i * 16 + 16 + of_nat q * 16"] by simp
qed

lemma name_blocks_step:
  assumes "disk_at devs k dev img" "file_ok img i" "length node = 16" "b \<le> length (h_name img i) div 16"
  shows "name_blocks devs k dev i [b..<16] node =
    (if b = length (h_name img i) div 16 then Some b
     else name_blocks devs k dev i [Suc b..<16] (take 16 (drop (16 * unat i + 16 + 16 * b) img)))"
proof -
  let ?l = "length (h_name img i)"
  have f: "unat i < 2 ^ 27" "?l < 256" "16 * unat i + 32 + 16 * (?l div 16) \<le> length img"
    using assms(2) by (auto simp: file_ok_def data_start_def)
  have b: "b < 16" "16 * unat i + 32 + 16 * b \<le> length img" using f(2,3) assms(4) by auto
  have h: "16 * unat i + 16 + ?l < length img" using file_header_ok [OF assms(2)] by (simp add: header_ok_def)
  have a: "uint (i * 16 + 16 + of_nat b * 16) < 2 ^ 62" using name_block_address(2) [OF f(1), of b] b(1) by simp
  have r: "read_unaligned devs k dev node 16 (uint (i * 16 + 16 + of_nat b * 16)) =
      Some (0, take 16 (drop (16 * unat i + 16 + 16 * b) img))"
    using read_unaligned_disk [OF assms(1) _ a, of 16 node] assms(3) name_block_address(1) [OF f(1), of b] b
    by (simp add: filled_full)
  have "[b..<16] = b # [Suc b..<16]" using b(1) by (simp add: upt_conv_Cons)
  then show ?thesis using name_block_zero [OF h assms(4) b(2)] r by simp
qed

lemma name_blocks_eq:
  assumes "disk_at devs k dev img" "file_ok img i" "length node = 16" "b \<le> length (h_name img i) div 16"
  shows "name_blocks devs k dev i [b..<16] node = Some (length (h_name img i) div 16)"
  using assms(3,4)
proof (induction "length (h_name img i) div 16 - b" arbitrary: b node)
  case (0 b node)
  then show ?case using name_blocks_step [OF assms(1,2), of node b] by simp
next
  case (Suc d b node)
  let ?n = "take 16 (drop (16 * unat i + 16 + 16 * b) img)"
  have "16 * unat i + 32 + 16 * (length (h_name img i) div 16) \<le> length img"
    using assms(2) by (auto simp: file_ok_def data_start_def)
  then have "length ?n = 16" using Suc.prems(2) by simp
  then have "name_blocks devs k dev i [Suc b..<16] ?n = Some (length (h_name img i) div 16)"
    using Suc.hyps(2) by (intro Suc.hyps(1)) auto
  then show ?case using name_blocks_step [OF assms(1,2) Suc.prems] Suc.hyps(2) by auto
qed

lemma romfs_read_eq:
  fixes n :: u32
  assumes "disk_at devs k (i_device ins) img" "ird inst no = Some ins" "file_ok img i" "16 \<le> length junk"
    "0 \<le> offset" "offset \<le> h_size img i"
  defines "bs \<equiv> take (unat n) (drop (nat offset) (file_data img i))"
  assumes "length bs \<le> length data"
  shows "fs_romfs_read devs junk inst no (i - i_root_inode ins) data n offset k =
    Some (int (length bs), bs @ drop (length bs) data)"
proof -
  let ?q = "length (h_name img i) div 16" and ?size = "h_size img i"
  have f: "unat i < 2 ^ 27" "data_start img i + nat ?size \<le> length img" "length img < 2 ^ 31" "length (h_name img i) < 256"
    using assms(3) by (auto simp: file_ok_def)
  have hd: "16 * unat i + 16 \<le> length img" using f(2) by (simp add: data_start_def)
  let ?b = "take 16 (drop (16 * unat i) img)"
  have b: "length ?b = 16" "sint (be32 ?b 8) = ?size"
    using small_header(1) [OF hd] small_header(4) [OF hd, of "[]"] by simp_all
  have r: "read_unaligned devs k (i_device ins) (take 16 junk) 16 (uint (i * 16)) = Some (0, ?b)"
    using read_small_header [OF assms(1) _ hd, of "take 16 junk"] f(1) assms(4) by simp
  define n' :: u32 where "n' = (if offset + uint n > ?size then word_of_int (?size - offset) else n)"
  have ns: "nat ?size < 2 ^ 31" using f(2,3) by linarith
  then have size: "?size < 2 ^ 31" by (simp add: nat_less_iff del: nat_less_numeral_power_cancel_iff)
  have un: "uint n = int (unat n)" by simp
  have len: "length bs = min (nat ?size - nat offset) (unat n)"
    using f(2) by (simp add: bs_def file_data_def)
  have n': "unat n' = length bs"
  proof (cases "offset + uint n > ?size")
    case True
    have "unat (word_of_int (?size - offset) :: u32) = nat (?size - offset)"
      using size assms(5,6) by (intro unat_word_of_int_small) auto
    moreover have "nat (?size - offset) = nat ?size - nat offset" using assms(5,6) by (simp add: nat_diff_distrib)
    moreover have "nat (?size - offset) \<le> unat n" using True un by linarith
    ultimately show ?thesis using True len by (simp add: n'_def)
  next
    case False
    then have "unat n \<le> nat ?size - nat offset" using un assms(5,6) by linarith
    then show ?thesis using False len by (simp add: n'_def)
  qed
  have lb: "length bs < 2 ^ 31" using ns by (simp add: len)
  then have s: "sint n' = int (length bs)" using n' sint_small [of n'] by (simp only: n')
  have "0 \<le> offset + uint n" using assms(5) by (intro add_nonneg_nonneg) simp_all
  then have off: "off64 (offset + uint n) = Some (offset + uint n)"
    using assms(6) size uint_lt2p [of n] by (simp add: off64_def)
  define a where "a = uint (i * 16 + 16 + of_nat (Suc ?q) * 16)"
  have a: "0 \<le> a" "a < 2 ^ 32" "nat a = data_start img i"
    using name_block_address [OF f(1), of "Suc ?q"] f(4) by (simp_all add: a_def data_start_def)
  let ?s = "a + offset"
  have st2: "off64 ?s = Some ?s" "0 \<le> ?s" "?s < 2 ^ 62" "nat ?s = data_start img i + nat offset"
    using a assms(5,6) size by (auto simp: nat_add_distrib off64_def)
  have "read_unaligned devs k (i_device ins) data (sint n') ?s = Some (0, filled img (nat ?s) (length bs) data)"
    using read_unaligned_disk [OF assms(1) st2(2,3), of "sint n'" data] s assms(8) lb by simp
  moreover have "filled img (nat ?s) (length bs) data = bs @ drop (length bs) data"
  proof -
    have "nat offset \<le> nat ?size" using assms(6) by (rule nat_mono)
    then have "nat ?s + length bs \<le> length img" using f(2) len st2(4) by linarith
    moreover have "take (length bs) (drop (nat ?s) img) = bs"
      using len by (simp add: bs_def file_data_def st2(4) drop_take add.commute min.commute)
    ultimately show ?thesis by (simp add: filled_full)
  qed
  moreover have "MAKE_INT ?b 8 = Some (be32 ?b 8)" using b(1) by (intro MAKE_INT_be32) simp
  ultimately show ?thesis
    using name_blocks_eq [OF assms(1,3) b(1), of 0] st2(1) s
    by (cases "h_size img i < offset + uint n")
      (simp_all add: fs_romfs_read_def assms(2) r off b(2) n'_def a_def [symmetric] del: of_nat_Suc)
qed

section \<open>Mounting\<close>

definition magic :: bytes where "magic = map of_char ''-rom1fs-''"

text \<open>The volume name and the first header, which follows it.\<close>

definition volume_name :: "bytes \<Rightarrow> bytes" where "volume_name img = strz (drop 16 img)"

definition root_block :: "bytes \<Rightarrow> u32" where "root_block img = of_nat (2 + length (volume_name img) div 16)"

definition romfs_image :: "bytes \<Rightarrow> bool" where
  "romfs_image img \<longleftrightarrow> take 8 img = magic \<and> 16 + length (volume_name img) < length img \<and> length (volume_name img) < 496"

lemma magic_bytes: "length magic = 8" "0 \<notin> set magic" "cstr ''-rom1fs-'' = magic @ [0]"
  by (simp_all add: magic_def cstr_def)

lemma find_slot_takeWhile: "find_slot P xs = length (takeWhile (\<lambda>x. \<not> P x) xs)"
  by (induction xs) auto

lemma strncmp_magic:
  assumes "take 8 b = magic" "0 \<in> set b"
  shows "strncmp (cstr ''-rom1fs-'') b 8 = Some 0"
proof -
  have b: "b = magic @ drop 8 b" using assms(1) append_take_drop_id [of 8 b] by simp
  have "strz b = magic @ strz (drop 8 b)" using magic_bytes(2) takeWhile_append2 [of magic "\<lambda>c. c \<noteq> 0" "drop 8 b"]
    by (subst b) (metis strz_def)
  then have "take 8 (strz b) = magic" using magic_bytes(1) by simp
  moreover have "strz (magic @ [0]) = magic" using strz_terminated [of magic "[]"] magic_bytes(2) by simp
  ultimately show ?thesis unfolding magic_bytes(3)
    using strncmp_total [of "magic @ [0]" b 8] assms(2) magic_bytes(1) by auto
qed

lemma mount_eq:
  assumes "disk_at devs k dev img" "romfs_image img" "512 \<le> length junk" "\<exists>x \<in> set inst. \<not> i_used x"
  defines "q \<equiv> find_slot (\<lambda>x. \<not> i_used x) inst"
  shows "fs_romfs_mount devs junk dev root inst k =
    Some (int q, 0, inst[q := \<lparr>i_used = True, i_device = dev, i_root_inode = root_block img\<rparr>])"
proof -
  let ?l = "length (volume_name img)" and ?b = "filled img 0 512 (take 512 junk)"
  have i: "take 8 img = magic" "16 + ?l < length img" "?l < 496" using assms(2) by (auto simp: romfs_image_def)
  have q: "q < length inst" using assms(4) by (simp add: q_def find_slot_less_iff)
  have r: "read_unaligned devs k dev (take 512 junk) 512 0 = Some (0, ?b)"
    using read_unaligned_disk [OF assms(1), of 0 512 "take 512 junk"] assms(3) by simp
  have len: "length ?b = 512" using assms(3) by simp
  have b: "?b = take 512 img @ drop (min 512 (length img)) (take 512 junk)" by (simp add: filled_def)
  have nm: "drop 16 ?b = take 496 (drop 16 img) @ drop (min 512 (length img)) (take 512 junk)"
    using i(2) by (simp add: b drop_take)
  note s = strz_prefix [of "drop 16 img", folded volume_name_def]
  have sz: "strz (drop 16 ?b) = volume_name img" "0 \<in> set (drop 16 ?b)"
    unfolding nm using s(2,3) [of 496] i(2,3) by (auto simp: volume_name_def)
  have f: "find_slot (\<lambda>b. b = 0) (drop 16 ?b) = ?l" using sz(1) by (simp add: find_slot_takeWhile strz_def)
  have "take 8 ?b = magic" using i(1,2) by (simp add: b)
  then have m: "strncmp (cstr ''-rom1fs-'') ?b 8 = Some 0" using in_set_dropD [OF sz(2)] by (rule strncmp_magic)
  have "(16 + ?l + 16) div 16 = 2 + ?l div 16" by simp
  then show ?thesis using q r m f len i(3)
    by (cases "inst ! q") (simp add: fs_romfs_mount_def q_def [symmetric] root_block_def Let_def)
qed

section \<open>Reading behind the end\<close>

lemma read_behind_end:
  assumes "disk_at devs k (i_device ins) img" "ird inst no = Some ins" "file_ok img i" "16 \<le> length junk"
    "h_size img i < offset" "int (data_start img i) + offset + int (length data) < int (length img)"
  shows "fs_romfs_read devs junk inst no (i - i_root_inode ins) data n offset k = None"
proof -
  let ?q = "length (h_name img i) div 16" and ?size = "h_size img i"
  have f: "unat i < 2 ^ 27" "data_start img i + nat ?size \<le> length img" "length img < 2 ^ 31" "length (h_name img i) < 256" "0 \<le> ?size"
    using assms(3) by (auto simp: file_ok_def)
  have hd: "16 * unat i + 16 \<le> length img" using f(2) by (simp add: data_start_def)
  let ?b = "take 16 (drop (16 * unat i) img)"
  have b: "length ?b = 16" "sint (be32 ?b 8) = ?size"
    using small_header(1) [OF hd] small_header(4) [OF hd, of "[]"] by simp_all
  have mk: "MAKE_INT ?b 8 = Some (be32 ?b 8)" using b(1) by (intro MAKE_INT_be32) simp
  have r: "read_unaligned devs k (i_device ins) (take 16 junk) 16 (uint (i * 16)) = Some (0, ?b)"
    using read_small_header [OF assms(1) _ hd, of "take 16 junk"] f(1) assms(4) by simp
  have li: "int (length img) < 2 ^ 31" using f(3) by simp
  have o: "0 \<le> offset" "offset < 2 ^ 31" using f(5) assms(5,6) li by linarith+
  have "0 \<le> offset + uint n" using o(1) by (intro add_nonneg_nonneg) simp_all
  then have off: "off64 (offset + uint n) = Some (offset + uint n)" using o(2) uint_lt2p [of n] by (simp add: off64_def)
  have big: "?size < offset + uint n" using assms(5) uint_ge_0 [of n] by linarith
  define n' :: u32 where "n' = word_of_int (?size - offset)"
  have "uint n' = (?size - offset + 2 ^ 32) mod 2 ^ 32" unfolding n'_def uint_word_of_int by simp
  also have "\<dots> = ?size - offset + 2 ^ 32" using o(2) f(5) assms(5) by (intro mod_pos_pos_trivial) auto
  finally have un: "uint n' = ?size - offset + 2 ^ 32" .
  then have un': "length img < unat n'" "sint n' \<noteq> 0" "(word_of_int (sint n') :: u32) = n'"
  proof -
    have "int (unat n') = ?size - offset + 2 ^ 32" using un by simp
    then have "int (length img) < int (unat n')" using o(2) f(5) li by simp
    then show "length img < unat n'" by (simp only: of_nat_less_iff)
    then show "sint n' \<noteq> 0" by auto
  qed simp
  define a where "a = uint (i * 16 + 16 + of_nat (Suc ?q) * 16)"
  have a: "0 \<le> a" "a < 2 ^ 32" "nat a = data_start img i"
    using name_block_address [OF f(1), of "Suc ?q"] f(4) by (simp_all add: a_def data_start_def)
  let ?s = "a + offset"
  have st: "off64 ?s = Some ?s" "0 \<le> ?s" "?s < 2 ^ 62" "nat ?s = data_start img i + nat offset"
    using a o by (auto simp: nat_add_distrib off64_def)
  have "length data < length (take (unat n') (drop (nat ?s) img))"
    using assms(6) o(1) un'(1) st(4) by simp
  moreover have "int (length img) \<ge> ?s" using a(1,3) assms(6) by linarith
  ultimately have "read_unaligned devs k (i_device ins) data (sint n') ?s = None"
    using assms(1) st(2,3) un'(2,3) by (auto simp: disk_at_def read_unaligned_def clip_read_def Let_def)
  then show ?thesis using name_blocks_eq [OF assms(1,3) b(1), of 0] st(1) mk big
    by (simp add: fs_romfs_read_def assms(2) r off b(2) a_def [symmetric] n'_def del: of_nat_Suc)
qed

lemma length_fill: "0 < n \<Longrightarrow> n \<le> length dest \<Longrightarrow> length (fill dest s n) = length dest"
  by (auto simp: fill_def Let_def)

section \<open>The file system on a block device\<close>

text \<open>The interface between the two: a device that is ready reads the bytes of its contents.\<close>

locale block_device =
  fixes ready :: "(u32 \<Rightarrow> 'w Device) \<Rightarrow> 'w kernel \<Rightarrow> u32 \<Rightarrow> bool"
    and contents :: "'w kernel \<Rightarrow> u32 \<Rightarrow> bytes"
  assumes reads: "ready devs k dev \<Longrightarrow> disk_at devs k dev (contents k dev)"
begin

lemmas find_entry = stat_eq [OF reads]

lemmas read_file = romfs_read_eq [OF reads]

lemmas mount_image = mount_eq [OF reads]

lemmas overrun = read_behind_end [OF reads]

lemma list_entry:
  assumes "ready devs k (i_device ins)" "ird inst no = Some ins"
    "dir_of (contents k (i_device ins)) (i_root_inode ins) i js" "0 \<le> pos" "length junk = HEADER_MAX"
    "length (d_name de) = NAME_MAX + 1"
  shows "fs_romfs_read_directory devs junk inst no (i - i_root_inode ins) pos de k =
    Some (if nat pos < length js
          then let j = js ! nat pos; nm = h_name (contents k (i_device ins)) j in
            (sizeof_dirent, \<lparr>d_ino = j - i_root_inode ins, d_mode = fst (byte_to_mode (h_byte (contents k (i_device ins)) j)
               (h_special (contents k (i_device ins)) j) 0), d_name = (fill (d_name de) nm NAME_MAX)[NAME_MAX := 0]\<rparr>)
          else (0, de))"
proof -
  let ?img = "contents k (i_device ins)" and ?root = "i_root_inode ins"
  note disk = reads [OF assms(1)]
  let ?first = "if i \<noteq> ?root then sar4 (h_special ?img i) else i"
  have h: "header_ok ?img i" and c: "dir_chain ?img ?first js" and t: "\<not> (i \<noteq> ?root \<and> h_byte ?img i AND 7 \<noteq> 1)"
    using assms(3) by (auto simp: dir_of_def split: if_splits)
  have i: "unat i < 2 ^ 28" "16 * unat i + 16 \<le> length ?img" using h by (auto simp: header_ok_def)
  have junk: "16 \<le> length junk" using assms(5) by (simp add: HEADER_MAX_def)
  let ?b = "take 16 (drop (16 * unat i) ?img) @ drop 16 junk"
  have lb: "length ?b = HEADER_MAX" using i(2) assms(5) by (simp add: HEADER_MAX_def)
  have m: "MAKE_INT ?b 4 = Some (h_special ?img i)" "rd ?b 3 = Some (h_byte ?img i)"
    using small_header(2,3) [OF i(2), of "drop 16 junk"] lb by (simp_all add: MAKE_INT_be32 HEADER_MAX_def del: length_append)
  obtain buf' where d: "dir_nth devs k (i_device ins) pos ?first 0 ?b = Some (if nat pos < length js then js ! nat pos else 0, buf')"
    "nat pos < length js \<Longrightarrow> \<exists>b. length b = HEADER_MAX \<and> buf' = filled ?img (16 * unat (js ! nat pos)) HEADER_MAX b \<and>
        header_ok ?img (js ! nat pos)"
    using dir_nth_eq [OF disk c lb, of 0 pos] assms(4) unfolding diff_0_right by blast
  have main: "fs_romfs_read_directory devs junk inst no (i - ?root) pos de k = do {
      let inode = (if nat pos < length js then js ! nat pos else 0);
      if inode = 0 then Some (0, de)
      else do {
        b3 \<leftarrow> rd buf' 3;
        w \<leftarrow> MAKE_INT buf' 4;
        nm \<leftarrow> strncpy (d_name de) (drop 16 buf') NAME_MAX;
        nm \<leftarrow> wr nm NAME_MAX 0;
        Some (sizeof_dirent, de\<lparr>d_ino := inode - ?root, d_mode := fst (byte_to_mode b3 w 0), d_name := nm\<rparr>) } }"
    using assms(4) by (simp add: fs_romfs_read_directory_def assms(2) read_small_header [OF disk i junk] m t d(1) Let_def cong: if_cong split del: if_split)
  show ?thesis
  proof (cases "nat pos < length js")
    case True
    let ?j = "js ! nat pos"
    obtain b where b: "length b = HEADER_MAX" "buf' = filled ?img (16 * unat ?j) HEADER_MAX b" "header_ok ?img ?j"
      using d(2) [OF True] by blast
    note hb = header_buffer [OF b(3,1), folded b(2)]
    have "?j \<noteq> 0" using dir_of_headers [OF assms(3)] True by simp
    moreover have "strncpy (d_name de) (drop 16 buf') NAME_MAX = Some (fill (d_name de) (h_name ?img ?j) NAME_MAX)"
      using strncpy_eq [of NAME_MAX "d_name de" "drop 16 buf'"] hb(1,6) assms(6) by (simp add: NAME_MAX_def HEADER_MAX_def)
    moreover have "NAME_MAX < length (fill (d_name de) (h_name ?img ?j) NAME_MAX)"
      using assms(6) by (simp add: length_fill NAME_MAX_def)
    ultimately show ?thesis using True main hb(1,3,4)
      by (cases de) (simp add: MAKE_INT_be32 HEADER_MAX_def Let_def)
  qed (simp add: main)
qed

lemma list_dirent:
  assumes "ready devs k (i_device ins)" "ird inst no = Some ins"
    "dir_of (contents k (i_device ins)) (i_root_inode ins) i js" "0 \<le> pos" "length junk = HEADER_MAX"
    "length (d_name de) = NAME_MAX + 1"
  shows "\<exists>r de'. fs_romfs_read_directory devs junk inst no (i - i_root_inode ins) pos de k = Some (r, de') \<and>
    (if nat pos < length js
     then r = sizeof_dirent \<and> d_ino de' = js ! nat pos - i_root_inode ins \<and>
       d_mode de' = h_mode (contents k (i_device ins)) (js ! nat pos) \<and>
       strz (d_name de') = h_name (contents k (i_device ins)) (js ! nat pos) \<and> length (d_name de') = NAME_MAX + 1
     else r = 0 \<and> de' = de)"
proof (cases "nat pos < length js")
  case True
  let ?nm = "h_name (contents k (i_device ins)) (js ! nat pos)"
  have nm: "length ?nm < NAME_MAX" using dir_of_headers [OF assms(3)] True by (simp add: header_ok_def)
  then have "strz ((fill (d_name de) ?nm NAME_MAX)[NAME_MAX := 0]) = ?nm"
    using assms(6) strz_no_nul by (simp add: fill_def Let_def h_name_def list_update_append strz_terminated split: nat.split)
  moreover have "length (fill (d_name de) ?nm NAME_MAX) = NAME_MAX + 1"
    using assms(6) by (simp add: length_fill NAME_MAX_def)
  ultimately show ?thesis using list_entry [OF assms] True by (simp add: Let_def byte_mode)
qed (use list_entry [OF assms] in simp)

end

section \<open>The memory-backed block device as a disk\<close>

definition memblk_ready :: "(u32 \<Rightarrow> drivers Device) \<Rightarrow> drivers kernel \<Rightarrow> u32 \<Rightarrow> bool" where
  "memblk_ready devs k dev \<longleftrightarrow>
     (\<exists>a. device_lookup dev (k_devtab k) = Some a \<and> a \<noteq> 0 \<and> devs a = memblk_device) \<and>
     memblk_of (drv_memblk (k_drv k)) dev \<noteq> None \<and> (\<forall>m \<in> set (drv_memblk (k_drv k)). mb_len m < INT_MAX)"

definition memblk_contents :: "drivers kernel \<Rightarrow> u32 \<Rightarrow> bytes" where
  "memblk_contents k dev = mb_image (drv_mem (k_drv k)) (the (memblk_of (drv_memblk (k_drv k)) dev))"

lemma memblk_read_clip:
  assumes "\<forall>m \<in> set mbs. mb_len m < INT_MAX" "memblk_of mbs dev = Some m" "0 \<le> pos" "pos < 2 ^ 62"
  shows "memblk_read kmem mbs dev pos n = Some (clip_read (mb_image kmem m) pos n)"
proof -
  have "int (length (mb_image kmem m)) = mb_len m" using memblk_ofD(2) [OF assms(2)] by (simp add: mb_image_def)
  then show ?thesis using memblk_read_eq [OF assms(1,4), of kmem dev n] assms(2,3) by (simp add: clip_read_def Let_def)
qed

interpretation memdisk: block_device memblk_ready memblk_contents
proof
  fix devs k dev assume r: "memblk_ready devs k dev"
  then obtain m where m: "memblk_of (drv_memblk (k_drv k)) dev = Some m" by (auto simp: memblk_ready_def)
  then show "disk_at devs k dev (memblk_contents k dev)"
    using r memblk_read_clip [OF _ m]
    by (auto simp: disk_at_def memblk_ready_def memblk_contents_def blockdev_of_def memblk_device_def memblk_blksize_def)
qed

text \<open>A small image, with one file in the root directory, and a kernel that has it as a device.\<close>

definition tiny_image :: bytes where
  "tiny_image = map of_char ''-rom1fs-'' @ replicate 8 0 @ [0x72] @ replicate 15 0 @
     [0, 0, 0, 2, 0, 0, 0, 0, 0, 0, 0, 3, 0, 0, 0, 0] @ [0x61] @ replicate 15 0 @ [0x78, 0x79, 0x7A] @ replicate 13 0"

definition tiny_drivers :: drivers where
  "tiny_drivers = \<lparr>drv_mem = \<lambda>a. if unat a < 80 then tiny_image ! unat a else 0,
     drv_memblk = [\<lparr>mb_addr = 0, mb_len = 80, mb_device = 0x10001\<rparr>],
     drv_romfs = [\<lparr>i_used = True, i_device = 0x10001, i_root_inode = 2\<rparr>, \<lparr>i_used = False, i_device = 0, i_root_inode = 0\<rparr>]\<rparr>"

definition tiny_kernel :: "procs \<Rightarrow> drivers kernel" where
  "tiny_kernel s = \<lparr>k_procs = s, k_devtab = \<lparr>device_registered = [None, Some \<lparr>reg_name = cstr ''memblk0'', reg_device = 0x1000\<rparr>],
     major_free = 2\<rparr>, k_queue_read = \<lambda>_. 0, k_qitems = \<lambda>_. None, k_drv = tiny_drivers\<rparr>"

definition tiny_devs :: "u32 \<Rightarrow> drivers Device" where
  "tiny_devs = (\<lambda>_. DEVICE_TYPE_INVALID)(0x1000 := memblk_device)"

lemma length_tiny: "length tiny_image = 80"
  by (simp add: tiny_image_def)

lemma tiny_contents: "memblk_contents (tiny_kernel s) 0x10001 = tiny_image"
proof -
  have "unat (of_nat i :: u32) = i" if "i < 80" for i using that by (simp add: unat_of_nat)
  then show ?thesis
    by (intro nth_equalityI) (auto simp: memblk_contents_def tiny_kernel_def tiny_drivers_def memblk_of_def mb_image_def length_tiny)
qed

lemma tiny_ready: "memblk_ready tiny_devs (tiny_kernel s) 0x10001"
  by (simp add: memblk_ready_def tiny_kernel_def tiny_devs_def tiny_drivers_def memblk_of_def device_lookup_def major_def INT_MAX_def)

lemma tiny_header:
  "h_name tiny_image 2 = [0x61]" "h_size tiny_image 2 = 3" "h_next tiny_image 2 = 0" "volume_name tiny_image = [0x72]"
  "take 8 tiny_image = magic" "take 3 (drop 64 tiny_image) = [0x78, 0x79, 0x7A]"
  by code_simp+

lemma tiny_file:
  "data_start tiny_image 2 = 64" "file_data tiny_image 2 = [0x78, 0x79, 0x7A]" "file_ok tiny_image 2" "dir_of tiny_image 2 2 [2]"
  "sizes_ok tiny_image [2]" "romfs_image tiny_image" "root_block tiny_image = 2"
  by (simp_all add: data_start_def file_data_def file_ok_def dir_of_def sizes_ok_def romfs_image_def header_ok_def
      root_block_def tiny_header length_tiny NAME_MAX_def)

text \<open>A buffer of local variables.\<close>

definition zero_junk :: bytes where "zero_junk = replicate HEADER_MAX 0"

lemma length_zero_junk: "length zero_junk = HEADER_MAX" "16 \<le> HEADER_MAX" "512 \<le> HEADER_MAX"
  by (simp_all add: zero_junk_def HEADER_MAX_def NAME_MAX_def)

section \<open>Properties\<close>

text \<open>
  C28. On a memory-backed disk with a well-formed directory, \<^verbatim>\<open>fs_romfs_stat\<close> of a name returns the
  attributes of the first entry of that name, or \<^verbatim>\<open>-ENOENT\<close> when there is none: the search along the
  chain of headers ends and does what a search of the list of entries does.
\<close>

theorem romfs_stat_finds_entry:
  assumes "memblk_ready devs k (i_device ins)" "ird inst no = Some ins"
    "dir_of (memblk_contents k (i_device ins)) (i_root_inode ins) i js" "sizes_ok (memblk_contents k (i_device ins)) js"
    "0 \<in> set fname" "strz fname \<noteq> []" "length junk = HEADER_MAX"
  shows "fs_romfs_stat devs junk inst no (i - i_root_inode ins) fname s k =
    Some (case find (\<lambda>j. h_name (memblk_contents k (i_device ins)) j = strz fname) js of
            None \<Rightarrow> (- errno ENOENT, s)
          | Some j \<Rightarrow> (0, romfs_attr (memblk_contents k (i_device ins)) ins j))"
  using assms by (rule memdisk.find_entry)

theorem romfs_stat_finds_entry_witness:
  "\<forall>p s. fs_romfs_stat tiny_devs zero_junk (drv_romfs tiny_drivers) 0 0 (cstr ''a'') s (tiny_kernel p) =
    Some (0, romfs_attr tiny_image \<lparr>i_used = True, i_device = 0x10001, i_root_inode = 2\<rparr> 2)"
proof (intro allI)
  fix p s
  show "fs_romfs_stat tiny_devs zero_junk (drv_romfs tiny_drivers) 0 0 (cstr ''a'') s (tiny_kernel p) =
    Some (0, romfs_attr tiny_image \<lparr>i_used = True, i_device = 0x10001, i_root_inode = 2\<rparr> 2)"
    using romfs_stat_finds_entry [of tiny_devs "tiny_kernel p" "\<lparr>i_used = True, i_device = 0x10001, i_root_inode = 2\<rparr>"
        "drv_romfs tiny_drivers" 0 2 "[2]" "cstr ''a''" zero_junk s] tiny_ready tiny_file tiny_header
    by (simp add: tiny_contents length_zero_junk tiny_drivers_def cstr_def strz_def NAME_MAX_def)
qed

text \<open>
  C8. Reading a file on a memory-backed disk, from an offset inside it, returns exactly the bytes of the
  file there, as many as were asked for or as are left, stores them at the start of the buffer and
  nothing else, and returns their number.
\<close>

theorem romfs_read_returns_file_data:
  fixes n :: u32
  assumes "memblk_ready devs k (i_device ins)" "ird inst no = Some ins" "file_ok (memblk_contents k (i_device ins)) i"
    "16 \<le> length junk" "0 \<le> offset" "offset \<le> h_size (memblk_contents k (i_device ins)) i"
  defines "bs \<equiv> take (unat n) (drop (nat offset) (file_data (memblk_contents k (i_device ins)) i))"
  assumes "length bs \<le> length data"
  shows "fs_romfs_read devs junk inst no (i - i_root_inode ins) data n offset k =
    Some (int (length bs), bs @ drop (length bs) data)"
  using memdisk.read_file [OF assms(1-6)] assms(8) by (simp add: bs_def)

theorem romfs_read_returns_file_data_witness:
  "\<forall>p. fs_romfs_read tiny_devs zero_junk (drv_romfs tiny_drivers) 0 0 [9, 9, 9, 9] 100 1 (tiny_kernel p) =
    Some (2, [0x79, 0x7A, 9, 9])"
proof
  fix p
  show "fs_romfs_read tiny_devs zero_junk (drv_romfs tiny_drivers) 0 0 [9, 9, 9, 9] 100 1 (tiny_kernel p) =
    Some (2, [0x79, 0x7A, 9, 9])"
    using romfs_read_returns_file_data [of tiny_devs "tiny_kernel p" "\<lparr>i_used = True, i_device = 0x10001, i_root_inode = 2\<rparr>"
        "drv_romfs tiny_drivers" 0 2 zero_junk 1 100 "[9, 9, 9, 9]"] tiny_ready tiny_file tiny_header
    by (simp add: tiny_contents length_zero_junk tiny_drivers_def)
qed

text \<open>
  C29. The entry of a directory at a given position: its inode, its mode, that is the kind and the rights
  that its header encodes, and its name; the call returns zero behind the last entry.
\<close>

theorem romfs_lists_directory:
  assumes "memblk_ready devs k (i_device ins)" "ird inst no = Some ins"
    "dir_of (memblk_contents k (i_device ins)) (i_root_inode ins) i js" "0 \<le> pos" "length junk = HEADER_MAX"
    "length (d_name de) = NAME_MAX + 1"
  shows "\<exists>r de'. fs_romfs_read_directory devs junk inst no (i - i_root_inode ins) pos de k = Some (r, de') \<and>
    (if nat pos < length js
     then r = sizeof_dirent \<and> d_ino de' = js ! nat pos - i_root_inode ins \<and>
       d_mode de' = h_mode (memblk_contents k (i_device ins)) (js ! nat pos) \<and>
       strz (d_name de') = h_name (memblk_contents k (i_device ins)) (js ! nat pos)
     else r = 0 \<and> de' = de)"
  using memdisk.list_dirent [OF assms] by (auto split: if_splits)

theorem romfs_lists_directory_witness:
  "\<forall>p. \<exists>de'. fs_romfs_read_directory tiny_devs zero_junk (drv_romfs tiny_drivers) 0 0 0
      \<lparr>d_ino = 9, d_mode = 9, d_name = replicate (NAME_MAX + 1) 9\<rparr> (tiny_kernel p) = Some (1032, de') \<and> d_ino de' = 0 \<and>
      d_mode de' = 0x8124 \<and> strz (d_name de') = [0x61]"
proof
  fix p
  have "h_mode tiny_image 2 = 0x8124" by code_simp
  then show "\<exists>de'. fs_romfs_read_directory tiny_devs zero_junk (drv_romfs tiny_drivers) 0 0 0
      \<lparr>d_ino = 9, d_mode = 9, d_name = replicate (NAME_MAX + 1) 9\<rparr> (tiny_kernel p) = Some (1032, de') \<and> d_ino de' = 0 \<and>
      d_mode de' = 0x8124 \<and> strz (d_name de') = [0x61]"
    using romfs_lists_directory [of tiny_devs "tiny_kernel p" "\<lparr>i_used = True, i_device = 0x10001, i_root_inode = 2\<rparr>"
        "drv_romfs tiny_drivers" 0 2 "[2]" 0 zero_junk "\<lparr>d_ino = 9, d_mode = 9, d_name = replicate (NAME_MAX + 1) 9\<rparr>"]
      tiny_ready tiny_file tiny_header
    by (fastforce simp: tiny_contents length_zero_junk tiny_drivers_def sizeof_dirent_def)
qed

text \<open>
  C30. Mounting a memory-backed disk that starts with the magic number takes a free instance and records
  the block after the volume name as the first header.
\<close>

theorem romfs_mount_finds_root:
  assumes "memblk_ready devs k dev" "romfs_image (memblk_contents k dev)" "512 \<le> length junk" "\<exists>x \<in> set inst. \<not> i_used x"
  shows "\<exists>q < length inst. fs_romfs_mount devs junk dev root inst k =
    Some (int q, 0, inst[q := \<lparr>i_used = True, i_device = dev, i_root_inode = root_block (memblk_contents k dev)\<rparr>]) \<and> \<not> i_used (inst ! q)"
proof -
  let ?q = "find_slot (\<lambda>x. \<not> i_used x) inst"
  have "?q < length inst" using assms(4) by (simp add: find_slot_less_iff)
  then show ?thesis using memdisk.mount_image [OF assms] find_slot_holds [of "\<lambda>x. \<not> i_used x" inst] by blast
qed

theorem romfs_mount_finds_root_witness:
  "\<forall>p. \<exists>q < 2. \<exists>inst. fs_romfs_mount tiny_devs zero_junk 0x10001 9 (drv_romfs tiny_drivers) (tiny_kernel p) = Some (int q, 0, inst) \<and>
    i_root_inode (inst ! q) = 2"
proof
  fix p
  show "\<exists>q < 2. \<exists>inst. fs_romfs_mount tiny_devs zero_junk 0x10001 9 (drv_romfs tiny_drivers) (tiny_kernel p) = Some (int q, 0, inst) \<and>
    i_root_inode (inst ! q) = 2"
  proof -
    have n: "length (drv_romfs tiny_drivers) = 2" "\<exists>x \<in> set (drv_romfs tiny_drivers). \<not> i_used x" "512 \<le> length zero_junk"
      using length_zero_junk by (simp_all add: tiny_drivers_def)
    from romfs_mount_finds_root [OF tiny_ready _ n(3,2), of p 9] tiny_file(6) n(1)
    obtain q where "q < 2" "fs_romfs_mount tiny_devs zero_junk 0x10001 9 (drv_romfs tiny_drivers) (tiny_kernel p) =
      Some (int q, 0, (drv_romfs tiny_drivers)[q := \<lparr>i_used = True, i_device = 0x10001, i_root_inode = root_block tiny_image\<rparr>])"
      by (auto simp: tiny_contents)
    then show ?thesis using n(1) tiny_file(7) by (intro exI [of _ q]) simp
  qed
qed

text \<open>
  C31. A read that starts behind the end of the file computes a negative count, which the device takes
  for a huge one: it copies the rest of the disk over the end of the buffer.
\<close>

theorem romfs_read_behind_end_overruns:
  assumes "memblk_ready devs k (i_device ins)" "ird inst no = Some ins" "file_ok (memblk_contents k (i_device ins)) i"
    "16 \<le> length junk" "h_size (memblk_contents k (i_device ins)) i < offset"
    "int (data_start (memblk_contents k (i_device ins)) i) + offset + int (length data) < int (length (memblk_contents k (i_device ins)))"
  shows "fs_romfs_read devs junk inst no (i - i_root_inode ins) data n offset k = None"
  using assms by (rule memdisk.overrun)

theorem romfs_read_behind_end_overruns_witness:
  "\<forall>p. fs_romfs_read tiny_devs zero_junk (drv_romfs tiny_drivers) 0 0 [9, 9, 9, 9] 4 5 (tiny_kernel p) = None"
proof
  fix p
  show "fs_romfs_read tiny_devs zero_junk (drv_romfs tiny_drivers) 0 0 [9, 9, 9, 9] 4 5 (tiny_kernel p) = None"
    using romfs_read_behind_end_overruns [of tiny_devs "tiny_kernel p" "\<lparr>i_used = True, i_device = 0x10001, i_root_inode = 2\<rparr>"
        "drv_romfs tiny_drivers" 0 2 zero_junk 5 "[9, 9, 9, 9]" 4] tiny_ready tiny_file tiny_header
    by (simp add: tiny_contents length_zero_junk tiny_drivers_def length_tiny)
qed

end
