(* ===== verification/VfsSpec.thy ===== *)
theory VfsSpec
  imports Vfs RomfsSpec
begin

text \<open>
  The virtual file system: resolving a path equals a walk along its names, for every file system that
  meets the interface \<^verbatim>\<open>name_service\<close>, which the read-only file system does; the tables stay well formed
  under every sequence of operations; opening, reading, closing and listing.
\<close>

section \<open>Path resolution\<close>

text \<open>A name: a non-empty string of at most \<^verbatim>\<open>NAME_MAX\<close> characters without slash.  A path of names.\<close>

definition name_ok :: "bytes \<Rightarrow> bool" where
  "name_ok c \<longleftrightarrow> c \<noteq> [] \<and> 0 \<notin> set c \<and> slash \<notin> set c \<and> length c \<le> NAME_MAX"

definition path_of_names :: "bytes list \<Rightarrow> bytes" where
  "path_of_names cs = concat (map (\<lambda>c. slash # c) cs) @ [0]"

text \<open>What follows the first slash; \<open>rest_of []\<close> is the end of the string.\<close>

fun rest_of :: "bytes list \<Rightarrow> bytes" where
  "rest_of [] = [0]"
| "rest_of [c] = c @ [0]"
| "rest_of (c # cs) = c @ slash # rest_of cs"

lemma path_rest: "cs \<noteq> [] \<Longrightarrow> path_of_names cs = slash # rest_of cs"
  by (induction cs rule: rest_of.induct) (auto simp: path_of_names_def)

lemma component_len_name:
  assumes "0 \<notin> set c" "slash \<notin> set c" "length c \<le> n" "x = 0 \<or> x = slash"
  shows "component_len n (c @ x # r) = Some (length c)"
  using assms
proof (induction c arbitrary: n)
  case Nil
  then show ?case by (cases n) auto
next
  case (Cons a c)
  then show ?case by (cases n) auto
qed

lemma extract_name:
  assumes "name_ok c" "length buf = NAME_MAX + 1" "cs \<noteq> [] \<or> r = [0]" "cs \<noteq> [] \<Longrightarrow> r = slash # rest_of cs"
  shows "\<exists>buf'. extract_component (c @ r) buf = Some (length c + (if cs = [] then 0 else 1), buf') \<and>
    length buf' = NAME_MAX + 1 \<and> strz buf' = c \<and> 0 \<in> set buf'"
proof -
  obtain x r' where r: "r = x # r'" "x = 0 \<or> x = slash" "x = 0 \<longleftrightarrow> cs = []"
    using assms(3,4) by (cases "cs = []") (auto simp: slash_def)
  have l: "component_len NAME_MAX (c @ r) = Some (length c)"
    using assms(1) r component_len_name by (auto simp: name_ok_def)
  let ?buf = "(c @ [0]) @ drop (Suc (length c)) buf"
  have o: "overlay buf (c @ [0]) = Some ?buf" using assms(1,2) by (simp add: name_ok_def)
  have "strz ?buf = c" using assms(1) strz_terminated [of c] by (simp add: name_ok_def)
  moreover have "length ?buf = NAME_MAX + 1" using assms(1,2) by (simp add: name_ok_def)
  ultimately show ?thesis using l o r by (auto simp: extract_component_def)
qed

text \<open>
  What a mounted file system promises about names, in terms of a lookup function: the result of
  \<^verbatim>\<open>_stat\<close> in a valid directory depends on the name only, and the error numbers are negative.
\<close>

definition implements ::
  "'w vfs \<Rightarrow> (int \<times> u32) set \<Rightarrow> (int \<Rightarrow> u32 \<Rightarrow> bytes \<Rightarrow> int + stat) \<Rightarrow> bool" where
  "implements v nodes lookup \<longleftrightarrow>
     (\<forall>mp dir. (mp, dir) \<in> nodes \<longrightarrow> (\<exists>m t. ird (vfs_mnt v) mp = Some m \<and> fs_type_at (mounted_fs m) v = Some t \<and>
        (\<forall>c s. name_ok (strz c) \<longrightarrow> 0 \<in> set c \<longrightarrow>
           (case lookup mp dir (strz c) of
              Inl e \<Rightarrow> e < 0 \<and> fs_stat t (mounted_instance m) dir c s (v_kernel v) = Some (e, s)
            | Inr st \<Rightarrow> fs_stat t (mounted_instance m) dir c s (v_kernel v) = Some (0, st) \<and>
                (let mp' = is_mountpoint (st_dev st) (st_ino st) v in
                 if mp' \<ge> 0 then (mp', mounted_ino (vfs_mnt v ! nat mp')) \<in> nodes
                 else S_ISDIR (st_mode st) \<longrightarrow> (mp, st_ino st) \<in> nodes)))))"

text \<open>The reference: walk along the names, through mount points, to the last one.\<close>

fun walk :: "'w vfs \<Rightarrow> (int \<Rightarrow> u32 \<Rightarrow> bytes \<Rightarrow> int + stat) \<Rightarrow> int \<Rightarrow> u32 \<Rightarrow> bytes list \<Rightarrow> int + int \<times> u32" where
  "walk v lookup mp dir [] = Inl 0"
| "walk v lookup mp dir [c] = map_sum id (\<lambda>st. (mp, st_ino st)) (lookup mp dir c)"
| "walk v lookup mp dir (c # cs) =
     (case lookup mp dir c of
        Inl e \<Rightarrow> Inl e
      | Inr st \<Rightarrow>
          let mp' = is_mountpoint (st_dev st) (st_ino st) v in
          if mp' \<ge> 0 then walk v lookup mp' (mounted_ino (vfs_mnt v ! nat mp')) cs
          else if S_ISDIR (st_mode st) then walk v lookup mp (st_ino st) cs
          else Inl (- errno ENOTDIR))"

declare resolv_loop.simps [simp del]

lemma is_mountpoint_range: "is_mountpoint dev ino v \<ge> 0 \<Longrightarrow> nat (is_mountpoint dev ino v) < length (vfs_mnt v)"
  by (auto simp: is_mountpoint_def Let_def split: if_splits)

lemma implementsD:
  assumes "implements v nodes lookup" "(mp, dir) \<in> nodes" "name_ok (strz c)" "0 \<in> set c" "ird (vfs_mnt v) mp = Some m"
  obtains t where "fs_type_at (mounted_fs m) v = Some t"
    "\<And>e. lookup mp dir (strz c) = Inl e \<Longrightarrow> e < 0 \<and> fs_stat t (mounted_instance m) dir c s (v_kernel v) = Some (e, s)"
    "\<And>st. lookup mp dir (strz c) = Inr st \<Longrightarrow> fs_stat t (mounted_instance m) dir c s (v_kernel v) = Some (0, st) \<and>
       (let mp' = is_mountpoint (st_dev st) (st_ino st) v in
        if mp' \<ge> 0 then (mp', mounted_ino (vfs_mnt v ! nat mp')) \<in> nodes
        else S_ISDIR (st_mode st) \<longrightarrow> (mp, st_ino st) \<in> nodes)"
proof -
  note imp = assms(1) [unfolded implements_def, rule_format, OF assms(2)]
  from imp obtain m' t where m': "ird (vfs_mnt v) mp = Some m'" and t: "fs_type_at (mounted_fs m') v = Some t" and
    stat: "\<forall>c s. name_ok (strz c) \<longrightarrow> 0 \<in> set c \<longrightarrow>
           (case lookup mp dir (strz c) of
              Inl e \<Rightarrow> e < 0 \<and> fs_stat t (mounted_instance m') dir c s (v_kernel v) = Some (e, s)
            | Inr st \<Rightarrow> fs_stat t (mounted_instance m') dir c s (v_kernel v) = Some (0, st) \<and>
                (let mp' = is_mountpoint (st_dev st) (st_ino st) v in
                 if mp' \<ge> 0 then (mp', mounted_ino (vfs_mnt v ! nat mp')) \<in> nodes
                 else S_ISDIR (st_mode st) \<longrightarrow> (mp, st_ino st) \<in> nodes))"
    by (elim exE conjE) (rule that)
  have "m' = m" using m' assms(5) by simp
  then show thesis using stat [rule_format, OF assms(3,4), of s] t by (intro that [of t]) auto
qed

lemma resolv_loop_walk:
  assumes "implements v nodes lookup" "(mp, dir) \<in> nodes" "name_ok c" "list_all name_ok cs" "strz buf = c" "0 \<in> set buf"
    "length buf = NAME_MAX + 1" "ird (vfs_mnt v) mp = Some m"
  shows "resolv_loop (mounted_fs m) mp dir buf (rest_of cs) s v = Some (walk v lookup mp dir (c # cs))"
  using assms(2-8)
proof (induction cs arbitrary: mp dir c buf m s)
  case Nil
  have "name_ok (strz buf)" using Nil.prems(2,4) by simp
  from implementsD [OF assms(1) Nil.prems(1) this Nil.prems(5,7), of s] obtain t where
    "fs_type_at (mounted_fs m) v = Some t"
    "\<And>e. lookup mp dir c = Inl e \<Longrightarrow> e < 0 \<and> fs_stat t (mounted_instance m) dir buf s (v_kernel v) = Some (e, s)"
    "\<And>st. lookup mp dir c = Inr st \<Longrightarrow> fs_stat t (mounted_instance m) dir buf s (v_kernel v) = Some (0, st)"
    using Nil.prems(4) by metis
  then show ?case using Nil.prems(7)
    by (subst resolv_loop.simps) (cases "lookup mp dir c"; simp add: resolv_last_def)
next
  case (Cons d cs)
  have "name_ok (strz buf)" using Cons.prems(2,4) by simp
  from implementsD [OF assms(1) Cons.prems(1) this Cons.prems(5,7), of s] obtain t where t:
    "fs_type_at (mounted_fs m) v = Some t"
    "\<And>e. lookup mp dir c = Inl e \<Longrightarrow> e < 0 \<and> fs_stat t (mounted_instance m) dir buf s (v_kernel v) = Some (e, s)"
    "\<And>st. lookup mp dir c = Inr st \<Longrightarrow> fs_stat t (mounted_instance m) dir buf s (v_kernel v) = Some (0, st) \<and>
       (let mp' = is_mountpoint (st_dev st) (st_ino st) v in
        if mp' \<ge> 0 then (mp', mounted_ino (vfs_mnt v ! nat mp')) \<in> nodes
        else S_ISDIR (st_mode st) \<longrightarrow> (mp, st_ino st) \<in> nodes)"
    using Cons.prems(4) by metis
  have d: "name_ok d" "list_all name_ok cs" using Cons.prems(3) by auto
  obtain r where r: "rest_of (d # cs) = d @ r" "cs \<noteq> [] \<or> r = [0]" "cs \<noteq> [] \<Longrightarrow> r = slash # rest_of cs"
    by (cases cs) auto
  obtain buf' where e: "extract_component (rest_of (d # cs)) buf = Some (length d + (if cs = [] then 0 else 1), buf')"
    "length buf' = NAME_MAX + 1" "strz buf' = d" "0 \<in> set buf'"
    using extract_name [OF d(1) Cons.prems(6) r(2,3)] r(1) by auto
  have dr: "drop (length d + (if cs = [] then 0 else 1)) (rest_of (d # cs)) = rest_of cs"
    using r by (cases cs) auto
  have ch: "\<exists>x. rd (rest_of (d # cs)) 0 = Some x \<and> x \<noteq> 0"
    using d(1) r(1) by (cases d) (auto simp: name_ok_def)
  note step = resolv_loop.simps [of "mounted_fs m" mp dir buf "rest_of (d # cs)" s v]
  show ?case
  proof (cases "lookup mp dir c")
    case (Inl err)
    then show ?thesis using t(1,2) ch Cons.prems(7) by (auto simp: step)
  next
    case (Inr st)
    let ?mp = "is_mountpoint (st_dev st) (st_ino st) v"
    note st = t(3) [OF Inr, unfolded Let_def]
    show ?thesis
    proof (cases "?mp \<ge> 0")
      case True
      have m: "ird (vfs_mnt v) ?mp = Some (vfs_mnt v ! nat ?mp)" by (rule ird_Some [OF True is_mountpoint_range [OF True]])
      have "(?mp, mounted_ino (vfs_mnt v ! nat ?mp)) \<in> nodes" using st True by simp
      note IH = Cons.IH [OF this d e(3,4,2) m, of st]
      show ?thesis using True t(1) st ch Inr Cons.prems(7) m IH by (auto simp: step e(1) dr Let_def)
    next
      case False
      show ?thesis
      proof (cases "S_ISDIR (st_mode st)")
        case True
        have "(mp, st_ino st) \<in> nodes" using st False True by simp
        note IH = Cons.IH [OF this d e(3,4,2) Cons.prems(7), of st]
        show ?thesis using True False t(1) st ch Inr Cons.prems(7) IH by (auto simp: step e(1) dr Let_def)
      next
        case F: False
        show ?thesis using F False t(1) st ch Inr Cons.prems(7) by (auto simp: step)
      qed
    qed
  qed
qed

text \<open>The mount point of the root directory.\<close>

definition root_mount :: "'w vfs \<Rightarrow> nat" where
  "root_mount v = find_slot (\<lambda>m. m_is_used m \<and> m_dev m = - 1 \<and> m_inode m = - 1) (vfs_mnt v)"

lemma skip_rest: "list_all name_ok cs \<Longrightarrow> skip_slashes (rest_of cs) = Some (rest_of cs)"
  by (cases cs rule: rest_of.cases) (auto simp: name_ok_def slash_def neq_Nil_conv)

lemma resolv_ino_walk:
  assumes "implements v nodes lookup" "root_mount v < length (vfs_mnt v)" "(int (root_mount v), 0) \<in> nodes"
    "cs \<noteq> []" "list_all name_ok cs" "length buf = NAME_MAX + 1"
  shows "resolv_ino buf s (path_of_names cs) 0 v = Some (walk v lookup (int (root_mount v)) 0 cs)"
proof -
  obtain c cs' where cs: "cs = c # cs'" using assms(4) by (cases cs) auto
  have n: "name_ok c" "list_all name_ok cs'" using assms(5) cs by auto
  obtain r where r: "rest_of cs = c @ r" "cs' \<noteq> [] \<or> r = [0]" "cs' \<noteq> [] \<Longrightarrow> r = slash # rest_of cs'"
    using cs by (cases cs') auto
  obtain buf' where e: "extract_component (rest_of cs) buf = Some (length c + (if cs' = [] then 0 else 1), buf')"
    "length buf' = NAME_MAX + 1" "strz buf' = c" "0 \<in> set buf'"
    using extract_name [OF n(1) assms(6) r(2,3)] r(1) by auto
  have dr: "drop (length c + (if cs' = [] then 0 else 1)) (rest_of cs) = rest_of cs'"
    using r by (cases cs') auto
  have "resolv_ino buf s (path_of_names cs) 0 v = resolv_loop (mounted_fs (vfs_mnt v ! root_mount v)) (int (root_mount v)) 0 buf' (rest_of cs') s v"
    using assms(2) e(1) dr skip_rest [OF n(2)]
    by (simp add: resolv_ino_def path_rest [OF assms(4)] root_mount_def [symmetric] Let_def slash_def)
  also have "\<dots> = Some (walk v lookup (int (root_mount v)) 0 cs)"
    unfolding cs using assms(2) by (intro resolv_loop_walk [OF assms(1,3) n e(3,4,2)]) simp
  finally show ?thesis .
qed

section \<open>Files\<close>

lemma alloc_file_some:
  assumes "alloc_file v = (fd, v')" "fd \<ge> 0"
  shows "nat fd < length (vfs_file v)" "\<not> f_is_used (vfs_file v ! nat fd)" "nat fd = find_slot (\<lambda>f. \<not> f_is_used f) (vfs_file v)"
    "v' = v\<lparr>vfs_file := (vfs_file v)[nat fd := (vfs_file v ! nat fd)\<lparr>f_is_used := True\<rparr>]\<rparr>"
  using assms find_slot_holds [of "\<lambda>f. \<not> f_is_used f" "vfs_file v"]
  by (auto simp: alloc_file_def Let_def split: if_splits)

text \<open>The states after opening a file with attributes \<open>s\<close> on mount point \<open>mp\<close> as number \<open>fd\<close>.\<close>

definition opened :: "int \<Rightarrow> int \<Rightarrow> stat \<Rightarrow> 'w vfs \<Rightarrow> 'w vfs" where
  "opened fd mp s v = v
     \<lparr>vfs_file := (vfs_file v)[nat fd := open_entry mp s ((vfs_file v ! nat fd)\<lparr>f_is_used := True\<rparr>)],
      vfs_mnt := (vfs_mnt v)[nat mp := (vfs_mnt v ! nat mp)\<lparr>m_open_files := m_open_files (vfs_mnt v ! nat mp) + 1\<rparr>]\<rparr>"

lemma resolv_last_range: "resolv_last fs mp dir c s v = Some (Inr (mp', ino)) \<Longrightarrow> 0 \<le> mp' \<and> nat mp' < length (vfs_mnt v)"
  by (auto simp: resolv_last_def ird_def rd_def split: bind_splits if_splits)

lemma resolv_loop_range:
  "resolv_loop fs mp dir c rest s v = Some (Inr (mp', ino)) \<Longrightarrow> 0 \<le> mp' \<and> nat mp' < length (vfs_mnt v)"
proof (induction "length rest" arbitrary: fs mp dir c rest s rule: less_induct)
  case less
  have IH: "0 \<le> mp' \<and> nat mp' < length (vfs_mnt v)"
    if "extract_component rest c = Some (n, c')" "rd rest 0 = Some x" "x \<noteq> 0"
      "resolv_loop fs' mp1 dir' c' (drop n rest) s' v = Some (Inr (mp', ino))" for n c' x fs' mp1 dir' s'
    using less.hyps [OF extract_component_progress(2) [OF that(1-3)] that(4)] .
  from less.prems show ?case
    by (subst (asm) resolv_loop.simps)
      (auto split: bind_splits if_splits prod.splits simp: Let_def dest: resolv_last_range IH)
qed

lemma resolv_loop_error: "resolv_loop fs mp dir c rest s v = Some (Inl e) \<Longrightarrow> e < 0"
proof (induction "length rest" arbitrary: fs mp dir c rest s rule: less_induct)
  case less
  have IH: "e < 0"
    if "extract_component rest c = Some (n, c')" "rd rest 0 = Some x" "x \<noteq> 0"
      "resolv_loop fs' mp1 dir' c' (drop n rest) s' v = Some (Inl e)" for n c' x fs' mp1 dir' s'
    using less.hyps [OF extract_component_progress(2) [OF that(1-3)] that(4)] .
  from less.prems show ?case
    by (subst (asm) resolv_loop.simps)
      (auto split: bind_splits if_splits prod.splits simp: Let_def resolv_last_def dest: IH)
qed

lemma resolv_ino_result:
  "resolv_ino c s path 0 v = Some (Inl e) \<Longrightarrow> e < 0"
  "resolv_ino c s path 0 v = Some (Inr (mp, ino)) \<Longrightarrow> 0 \<le> mp \<and> nat mp < length (vfs_mnt v)"
  by (auto simp: resolv_ino_def Let_def dest: resolv_loop_error resolv_loop_range split: bind_splits if_splits prod.splits)

lemma vfs_stat_result:
  "vfs_stat c s0 path s v = Some (Inl e) \<Longrightarrow> e < 0"
  "vfs_stat c s0 path s v = Some (Inr (mp, st)) \<Longrightarrow> 0 \<le> mp \<and> nat mp < length (vfs_mnt v)"
  by (auto simp: vfs_stat_def dest: resolv_ino_result split: bind_splits sum.splits if_splits prod.splits)

lemma vfs_open_result:
  assumes "vfs_open c s0 path flags v = Some (fd, v')"
  shows "fd < 0 \<and> v' = v \<or>
    (\<exists>mp s. vfs_stat c s0 path s0 v = Some (Inr (mp, s)) \<and> 0 \<le> mp \<and> nat mp < length (vfs_mnt v) \<and> 0 \<le> fd \<and>
       nat fd < length (vfs_file v) \<and> \<not> f_is_used (vfs_file v ! nat fd) \<and> v' = opened fd mp s v)"
proof -
  obtain r where r: "vfs_stat c s0 path s0 v = Some r" using assms by (auto simp: vfs_open_def split: bind_splits)
  show ?thesis
  proof (cases r)
    case (Inl e)
    then show ?thesis using assms r vfs_stat_result(1) by (auto simp: vfs_open_def)
  next
    case (Inr ms)
    obtain mp s where ms: "ms = (mp, s)" by (cases ms)
    obtain fd0 v0 where a: "alloc_file v = (fd0, v0)" by (cases "alloc_file v")
    show ?thesis
    proof (cases "fd0 < 0")
      case True
      moreover from True have "v0 = v" using a by (auto simp: alloc_file_def Let_def split: if_splits)
      ultimately show ?thesis using assms r Inr ms a by (simp add: vfs_open_def)
    next
      case False
      note al = alloc_file_some [OF a] False
      have mp: "0 \<le> mp" "nat mp < length (vfs_mnt v)" using vfs_stat_result(2) r Inr ms by blast+
      have "fd = fd0 \<and> v' = opened fd0 mp s v"
        using assms r Inr ms a al mp by (simp add: vfs_open_def file_update_def mount_update_def opened_def)
      then show ?thesis using al mp r Inr ms by auto
    qed
  qed
qed

section \<open>The invariant of the file table\<close>

definition vfs_inv :: "'w vfs \<Rightarrow> bool" where
  "vfs_inv v \<longleftrightarrow> length (vfs_file v) = MAX_GLOBAL_FILES \<and> length (vfs_mnt v) = MAX_MOUNT_POINTS \<and>
     length (vfs_type v) = MAX_FILE_SYSTEMS \<and> (\<forall>f \<in> set (vfs_file v). f_is_used f \<longrightarrow> 0 < f_ref f)"

lemma list_update_all: "\<forall>x \<in> set xs. P x \<Longrightarrow> P y \<Longrightarrow> \<forall>x \<in> set (xs[i := y]). P x"
  using set_update_subset_insert [of xs i y] by auto

text \<open>An update of one entry that keeps it sound, or of the mount table, keeps the invariant.\<close>

lemma file_update_inv:
  assumes "file_update fd f v = Some v'" "vfs_inv v" "\<And>x. x \<in> set (vfs_file v) \<Longrightarrow> f_is_used (f x) \<Longrightarrow> 0 < f_ref (f x)"
  shows "vfs_inv v'"
  using assms by (auto simp: file_update_def iupd_def ird_def rd_def vfs_inv_def split: if_splits bind_splits
      dest!: set_update_subset_insert [THEN subsetD])

lemma mount_update_inv: "mount_update mp f v = Some v' \<Longrightarrow> vfs_inv v' = vfs_inv v"
  by (auto simp: mount_update_def iupd_def vfs_inv_def split: bind_splits)

lemma vfs_inv_kernel [simp]: "vfs_inv (v\<lparr>v_kernel := k\<rparr>) = vfs_inv v"
  by (simp add: vfs_inv_def)

lemma advance_inv: "advance fd err v = Some v' \<Longrightarrow> vfs_inv v \<Longrightarrow> vfs_inv v'"
  by (auto simp: advance_def vfs_inv_def split: if_splits bind_splits elim!: file_update_inv [unfolded vfs_inv_def])

text \<open>The operations on the virtual file system, as steps.\<close>

inductive vfs_step :: "(u32 \<Rightarrow> 'w Device) \<Rightarrow> 'w vfs \<Rightarrow> 'w vfs \<Rightarrow> bool" for devs where
  step_open: "vfs_open c s path flags v = Some (r, v') \<Longrightarrow> vfs_step devs v v'"
| step_open_device: "vfs_open_device device flags v = Some (r, v') \<Longrightarrow> vfs_step devs v v'"
| step_close: "vfs_close fd v = Some (r, v') \<Longrightarrow> vfs_step devs v v'"
| step_seek: "vfs_seek s fd offset whence v = Some (r, v') \<Longrightarrow> vfs_step devs v v'"
| step_read: "vfs_read devs fd buf n v = Some (r, buf', v') \<Longrightarrow> vfs_step devs v v'"
| step_write: "vfs_write devs fd buf v = Some (r, v') \<Longrightarrow> vfs_step devs v v'"
| step_register: "vfs_fs_register fs v = Some (r, v') \<Longrightarrow> vfs_step devs v v'"
| step_mount: "vfs_mount c s dev path fs v = Some (r, v') \<Longrightarrow> vfs_step devs v v'"

inductive vfs_steps :: "(u32 \<Rightarrow> 'w Device) \<Rightarrow> 'w vfs \<Rightarrow> 'w vfs \<Rightarrow> bool" for devs where
  steps_refl: "vfs_steps devs v v"
| steps_step: "vfs_steps devs v v' \<Longrightarrow> vfs_step devs v' v'' \<Longrightarrow> vfs_steps devs v v''"

lemma open_entry_ref [simp]: "f_ref (open_entry mp s f) = 1" "f_is_used (open_entry mp s f) = f_is_used f"
  by (simp_all add: open_entry_def Let_def)

lemma opened_inv:
  assumes "vfs_inv v" shows "vfs_inv (opened fd mp s v)"
  using assms list_update_all [of "vfs_file v" "\<lambda>f. f_is_used f \<longrightarrow> 0 < f_ref f" "open_entry mp s ((vfs_file v ! nat fd)\<lparr>f_is_used := True\<rparr>)" "nat fd"]
  by (simp add: vfs_inv_def opened_def)

lemma vfs_open_inv: "vfs_open c s path flags v = Some (r, v') \<Longrightarrow> vfs_inv v \<Longrightarrow> vfs_inv v'"
  using vfs_open_result opened_inv by blast

lemma vfs_open_device_inv: "vfs_open_device d flags v = Some (r, v') \<Longrightarrow> vfs_inv v \<Longrightarrow> vfs_inv v'"
proof -
  assume o: "vfs_open_device d flags v = Some (r, v')" and i: "vfs_inv v"
  obtain fd v0 where a: "alloc_file v = (fd, v0)" by (cases "alloc_file v")
  show "vfs_inv v'"
  proof (cases "fd < 0")
    case True
    then show ?thesis using o a i by (auto simp: vfs_open_device_def alloc_file_def Let_def split: if_splits)
  next
    case False
    let ?f = "\<lambda>f. f\<lparr>f_mode := 0, f_read := True, f_unsupported := False, f_directory := False,
               f_pos := 0, f_inode := - 1, f_is_device := True, f_data := d, f_write := True, f_ref := 1\<rparr>"
    have v': "v' = v\<lparr>vfs_file := (vfs_file v)[nat fd := ?f ((vfs_file v ! nat fd)\<lparr>f_is_used := True\<rparr>)]\<rparr>"
      using o False alloc_file_some [OF a] by (simp add: vfs_open_device_def a file_update_def)
    show ?thesis using i list_update_all [of "vfs_file v" "\<lambda>f. f_is_used f \<longrightarrow> 0 < f_ref f" "?f ((vfs_file v ! nat fd)\<lparr>f_is_used := True\<rparr>)"]
      by (simp add: vfs_inv_def v')
  qed
qed

lemma vfs_close_inv:
  assumes "vfs_close fd v = Some (r, v')" "vfs_inv v"
  shows "vfs_inv v'"
proof (cases "fd < 0 \<or> fd \<ge> int MAX_GLOBAL_FILES")
  case True
  then show ?thesis using assms by (simp add: vfs_close_def)
next
  case False
  then have fd: "0 \<le> fd" "nat fd < length (vfs_file v)" using assms(2) by (auto simp: vfs_inv_def)
  let ?f = "(vfs_file v ! nat fd)\<lparr>f_ref := f_ref (vfs_file v ! nat fd) - 1\<rparr>"
  let ?v = "v\<lparr>vfs_file := (vfs_file v)[nat fd := ?f]\<rparr>"
  have u: "f_is_used (vfs_file v ! nat fd) \<longrightarrow> 0 < f_ref (vfs_file v ! nat fd)" using assms(2) fd by (simp add: vfs_inv_def)
  show ?thesis
  proof (cases "f_ref ?f = 0")
    case True
    let ?w = "v\<lparr>vfs_file := (vfs_file v)[nat fd := ?f\<lparr>f_is_used := False\<rparr>]\<rparr>"
    have w: "vfs_inv ?w" using assms(2) list_update_all [of "vfs_file v" "\<lambda>f. f_is_used f \<longrightarrow> 0 < f_ref f" "?f\<lparr>f_is_used := False\<rparr>"]
      by (simp add: vfs_inv_def)
    have "\<exists>mp g. mount_update mp g ?w = Some v'"
      using assms(1) False True fd by (auto simp: vfs_close_def file_update_def split: bind_splits)
    then show ?thesis using w mount_update_inv by blast
  next
    case F: False
    have "v' = ?v" using assms(1) False F fd by (simp add: vfs_close_def file_update_def)
    moreover have "f_is_used ?f \<longrightarrow> 0 < f_ref ?f" using u F by auto
    ultimately show ?thesis using assms(2) list_update_all [of "vfs_file v" "\<lambda>f. f_is_used f \<longrightarrow> 0 < f_ref f" ?f] by (simp add: vfs_inv_def)
  qed
qed

lemma vfs_inv_ref: "vfs_inv v \<Longrightarrow> f \<in> set (vfs_file v) \<Longrightarrow> f_is_used f \<Longrightarrow> 0 < f_ref f"
  by (simp add: vfs_inv_def)

lemma vfs_seek_inv: "vfs_seek s fd offset whence v = Some (r, v') \<Longrightarrow> vfs_inv v \<Longrightarrow> vfs_inv v'"
  by (auto simp: vfs_seek_def split: if_splits bind_splits prod.splits elim!: file_update_inv dest: vfs_inv_ref)

lemma vfs_read_inv: "vfs_read devs fd buf n v = Some (r, buf', v') \<Longrightarrow> vfs_inv v \<Longrightarrow> vfs_inv v'"
  by (auto simp: vfs_read_def split: if_splits bind_splits prod.splits Device.splits option.splits elim!: advance_inv)

lemma vfs_write_inv: "vfs_write devs fd buf v = Some (r, v') \<Longrightarrow> vfs_inv v \<Longrightarrow> vfs_inv v'"
  by (auto simp: vfs_write_def split: if_splits bind_splits prod.splits Device.splits option.splits)

lemma vfs_fs_register_inv: "vfs_fs_register fs v = Some (r, v') \<Longrightarrow> vfs_inv v \<Longrightarrow> vfs_inv v'"
  by (auto simp: vfs_fs_register_def vfs_inv_def Let_def split: bind_splits sum.splits if_splits)

lemma mount_finish_inv: "mount_finish i j dev v = Some (r, v') \<Longrightarrow> vfs_inv v \<Longrightarrow> vfs_inv v'"
  by (auto simp: mount_finish_def Let_def mount_update_inv split: bind_splits prod.splits if_splits)

lemma vfs_mount_inv: "vfs_mount c s dev path fs v = Some (r, v') \<Longrightarrow> vfs_inv v \<Longrightarrow> vfs_inv v'"
  by (auto simp: vfs_mount_def Let_def mount_update_inv split: bind_splits prod.splits if_splits sum.splits
      dest!: mount_finish_inv)

lemmas vfs_op_inv = vfs_open_inv vfs_open_device_inv vfs_close_inv vfs_seek_inv vfs_read_inv vfs_write_inv
  vfs_fs_register_inv vfs_mount_inv

lemma vfs_step_inv: "vfs_step devs v v' \<Longrightarrow> vfs_inv v \<Longrightarrow> vfs_inv v'"
  by (induction rule: vfs_step.induct) (auto dest: vfs_op_inv)

lemma vfs_steps_inv: "vfs_steps devs v v' \<Longrightarrow> vfs_inv v \<Longrightarrow> vfs_inv v'"
  by (induction rule: vfs_steps.induct) (auto dest: vfs_step_inv)

section \<open>Opening and closing\<close>

lemma sint_small_int: "0 \<le> i \<Longrightarrow> i < 2 ^ 31 \<Longrightarrow> sint (word_of_int i :: u32) = i"
proof -
  assume i: "0 \<le> i" "i < 2 ^ 31"
  then have u: "unat (word_of_int i :: u32) = nat i" by (intro unat_word_of_int_small) auto
  have "nat i < 2 ^ 31" using i by (simp add: nat_less_iff)
  then show ?thesis using u sint_small [of "word_of_int i"] i by (simp only: u nat_0_le)
qed

lemma close_opened:
  assumes "vfs_inv v" "0 \<le> fd" "nat fd < length (vfs_file v)" "0 \<le> mp" "nat mp < length (vfs_mnt v)"
    "\<not> S_ISBLK (st_mode s)" "\<not> S_ISCHR (st_mode s)"
  shows "\<exists>f. vfs_close fd (opened fd mp s v) = Some (0, v\<lparr>vfs_file := (vfs_file v)[nat fd := f]\<rparr>) \<and> \<not> f_is_used f"
proof -
  let ?e = "open_entry mp s ((vfs_file v ! nat fd)\<lparr>f_is_used := True\<rparr>)"
  have len: "fd < int MAX_GLOBAL_FILES" "mp < 16" using assms(1-5) by (auto simp: vfs_inv_def MAX_MOUNT_POINTS_def)
  then have "data_instance ?e = mp"
    using assms(4,6,7) sint_small_int [of mp] by (simp add: data_instance_def open_entry_def Let_def)
  then have d: "data_instance (?e\<lparr>f_ref := 0\<rparr>) = mp" by (simp add: data_instance_def)
  have m: "(vfs_mnt v)[nat mp := vfs_mnt v ! nat mp] = vfs_mnt v" by simp
  show ?thesis using assms(2-5) len d
    by (auto simp: vfs_close_def opened_def file_update_def mount_update_def)
qed

section \<open>File systems as directories\<close>

text \<open>
  The interface between the path search and a file system: a file system that serves a mount point
  answers \<^verbatim>\<open>_stat\<close> as its lookup function says.  \<open>'c\<close> describes the file system.
\<close>

locale name_service =
  fixes serves :: "'c \<Rightarrow> 'w vfs \<Rightarrow> bool"
    and nodes :: "'c \<Rightarrow> 'w vfs \<Rightarrow> (int \<times> u32) set"
    and lookup :: "'c \<Rightarrow> 'w vfs \<Rightarrow> int \<Rightarrow> u32 \<Rightarrow> bytes \<Rightarrow> int + stat"
  assumes law: "serves c v \<Longrightarrow> implements v (nodes c v) (lookup c v)"
begin

lemma resolves:
  assumes "serves c v" "root_mount v < length (vfs_mnt v)" "(int (root_mount v), 0) \<in> nodes c v"
    "cs \<noteq> []" "list_all name_ok cs" "length buf = NAME_MAX + 1"
  shows "resolv_ino buf s (path_of_names cs) 0 v = Some (walk v (lookup c v) (int (root_mount v)) 0 cs)"
  by (rule resolv_ino_walk [OF law [OF assms(1)] assms(2-6)])

end

text \<open>
  The read-only file system on a memory-backed disk, mounted at \<open>rc_mp\<close>.  The tree gives the entries of
  each directory of the image.
\<close>

record romctx =
  rc_devs :: "u32 \<Rightarrow> drivers Device"
  rc_junk :: bytes
  rc_name :: bytes
  rc_mp :: int
  rc_tree :: "u32 \<Rightarrow> u32 list option"

definition put_romfs :: "Instance list \<Rightarrow> drivers \<Rightarrow> drivers" where
  "put_romfs inst w = w\<lparr>drv_romfs := inst\<rparr>"

definition rom_fs :: "romctx \<Rightarrow> drivers VFSFSType" where
  "rom_fs c = romfs_type drv_romfs put_romfs (rc_devs c) (rc_junk c) (rc_name c)"

definition rom_mount :: "romctx \<Rightarrow> drivers vfs \<Rightarrow> VFSMountPoint" where
  "rom_mount c v = vfs_mnt v ! nat (rc_mp c)"

definition rom_instance :: "romctx \<Rightarrow> drivers vfs \<Rightarrow> Instance" where
  "rom_instance c v = drv_romfs (k_drv (v_kernel v)) ! nat (mounted_instance (rom_mount c v))"

definition rom_image :: "romctx \<Rightarrow> drivers vfs \<Rightarrow> bytes" where
  "rom_image c v = memblk_contents (v_kernel v) (i_device (rom_instance c v))"

definition rom_tree :: "bytes \<Rightarrow> Instance \<Rightarrow> (u32 \<Rightarrow> u32 list option) \<Rightarrow> bool" where
  "rom_tree img ins tree \<longleftrightarrow>
     (\<forall>i js. tree i = Some js \<longrightarrow> dir_of img (i_root_inode ins) i js \<and> sizes_ok img js \<and>
        (\<forall>j \<in> set js. S_ISDIR (st_mode (romfs_attr img ins j)) \<longrightarrow> tree j \<noteq> None))"

definition rom_serves :: "romctx \<Rightarrow> drivers vfs \<Rightarrow> bool" where
  "rom_serves c v \<longleftrightarrow>
     ird (vfs_mnt v) (rc_mp c) = Some (rom_mount c v) \<and>
     fs_type_at (mounted_fs (rom_mount c v)) v = Some (rom_fs c) \<and>
     ird (drv_romfs (k_drv (v_kernel v))) (mounted_instance (rom_mount c v)) = Some (rom_instance c v) \<and>
     memblk_ready (rc_devs c) (v_kernel v) (i_device (rom_instance c v)) \<and>
     rom_tree (rom_image c v) (rom_instance c v) (rc_tree c) \<and>
     (\<forall>m \<in> set (vfs_mnt v). m_is_used m \<longrightarrow> m_dev m \<noteq> i_device (rom_instance c v)) \<and>
     length (rc_junk c) = HEADER_MAX"

text \<open>Mounted, whatever else is mounted on it.\<close>

definition rom_mounted :: "romctx \<Rightarrow> drivers vfs \<Rightarrow> bool" where
  "rom_mounted c v \<longleftrightarrow>
     ird (vfs_mnt v) (rc_mp c) = Some (rom_mount c v) \<and>
     fs_type_at (mounted_fs (rom_mount c v)) v = Some (rom_fs c) \<and>
     ird (drv_romfs (k_drv (v_kernel v))) (mounted_instance (rom_mount c v)) = Some (rom_instance c v) \<and>
     memblk_ready (rc_devs c) (v_kernel v) (i_device (rom_instance c v)) \<and>
     rom_tree (rom_image c v) (rom_instance c v) (rc_tree c) \<and>
     length (rc_junk c) = HEADER_MAX"

lemma rom_serves_iff:
  "rom_serves c v \<longleftrightarrow> rom_mounted c v \<and> (\<forall>m \<in> set (vfs_mnt v). m_is_used m \<longrightarrow> m_dev m \<noteq> i_device (rom_instance c v))"
  by (auto simp: rom_serves_def rom_mounted_def)

definition rom_nodes :: "romctx \<Rightarrow> drivers vfs \<Rightarrow> (int \<times> u32) set" where
  "rom_nodes c v = {(rc_mp c, i - i_root_inode (rom_instance c v)) | i. rc_tree c i \<noteq> None}"

definition rom_lookup :: "romctx \<Rightarrow> drivers vfs \<Rightarrow> int \<Rightarrow> u32 \<Rightarrow> bytes \<Rightarrow> int + stat" where
  "rom_lookup c v mp dir name =
     (case rc_tree c (dir + i_root_inode (rom_instance c v)) of
        None \<Rightarrow> Inl (- errno ENOTDIR)
      | Some js \<Rightarrow>
          (case find (\<lambda>j. h_name (rom_image c v) j = name) js of
             None \<Rightarrow> Inl (- errno ENOENT)
           | Some j \<Rightarrow> Inr (romfs_attr (rom_image c v) (rom_instance c v) j)))"

lemma rom_no_mountpoint:
  assumes "\<forall>m \<in> set (vfs_mnt v). m_is_used m \<longrightarrow> m_dev m \<noteq> d"
  shows "is_mountpoint d ino v = - 1"
proof -
  let ?P = "\<lambda>m. m_is_used m \<and> m_dev m = d \<and> m_inode m = ino"
  have "\<not> find_slot ?P (vfs_mnt v) < length (vfs_mnt v)" using assms by (auto simp: find_slot_less_iff)
  then show ?thesis by (simp add: is_mountpoint_def Let_def)
qed

text \<open>What \<^verbatim>\<open>_stat\<close> of a mounted file system answers in one of its directories.\<close>

lemma rom_stat:
  assumes "rom_mounted c v" "(mp, dir) \<in> rom_nodes c v"
  shows "ird (vfs_mnt v) mp = Some (rom_mount c v)" "fs_type_at (mounted_fs (rom_mount c v)) v = Some (rom_fs c)" "mp = rc_mp c"
    "name_ok (strz nm) \<Longrightarrow> 0 \<in> set nm \<Longrightarrow>
      (case rom_lookup c v mp dir (strz nm) of
         Inl e \<Rightarrow> e < 0 \<and> fs_stat (rom_fs c) (mounted_instance (rom_mount c v)) dir nm s (v_kernel v) = Some (e, s)
       | Inr st \<Rightarrow> fs_stat (rom_fs c) (mounted_instance (rom_mount c v)) dir nm s (v_kernel v) = Some (0, st) \<and>
           st_dev st = i_device (rom_instance c v) \<and> (S_ISDIR (st_mode st) \<longrightarrow> (mp, st_ino st) \<in> rom_nodes c v))"
proof -
  let ?ins = "rom_instance c v" and ?img = "rom_image c v" and ?k = "v_kernel v" and ?m = "rom_mount c v"
  from assms(2) obtain i js where i: "mp = rc_mp c" "dir = i - i_root_inode ?ins" "rc_tree c i = Some js" by (auto simp: rom_nodes_def)
  show s: "ird (vfs_mnt v) mp = Some ?m" "fs_type_at (mounted_fs ?m) v = Some (rom_fs c)" "mp = rc_mp c"
    using assms(1) i(1) by (auto simp: rom_mounted_def)
  have r: "ird (drv_romfs (k_drv ?k)) (mounted_instance ?m) = Some ?ins" "memblk_ready (rc_devs c) ?k (i_device ?ins)"
    "length (rc_junk c) = HEADER_MAX" using assms(1) by (auto simp: rom_mounted_def)
  have t: "dir_of ?img (i_root_inode ?ins) i js" "sizes_ok ?img js"
    "\<And>j. j \<in> set js \<Longrightarrow> S_ISDIR (st_mode (romfs_attr ?img ?ins j)) \<Longrightarrow> rc_tree c j \<noteq> None"
    using assms(1) i(3) by (auto simp: rom_mounted_def rom_tree_def)
  assume a: "name_ok (strz nm)" "0 \<in> set nm"
  have st: "fs_stat (rom_fs c) (mounted_instance ?m) dir nm s ?k =
      Some (case find (\<lambda>j. h_name ?img j = strz nm) js of
            None \<Rightarrow> (- errno ENOENT, s) | Some j \<Rightarrow> (0, romfs_attr ?img ?ins j))"
    using memdisk.find_entry [OF r(2,1) t(1,2) [unfolded rom_image_def] a(2) _ r(3), where s = s] a(1)
    by (simp add: rom_fs_def romfs_type_def i(2) name_ok_def rom_image_def split: option.splits)
  have node: "(mp, st_ino (romfs_attr ?img ?ins j)) \<in> rom_nodes c v"
    if "find (\<lambda>j. h_name ?img j = x) js = Some j" "S_ISDIR (st_mode (romfs_attr ?img ?ins j))" for j x
    using t(3) find_in_set [OF that(1)] that(2) i(1) by (auto simp: rom_nodes_def romfs_attr_def)
  show "case rom_lookup c v mp dir (strz nm) of
         Inl e \<Rightarrow> e < 0 \<and> fs_stat (rom_fs c) (mounted_instance (rom_mount c v)) dir nm s (v_kernel v) = Some (e, s)
       | Inr st \<Rightarrow> fs_stat (rom_fs c) (mounted_instance (rom_mount c v)) dir nm s (v_kernel v) = Some (0, st) \<and>
           st_dev st = i_device (rom_instance c v) \<and> (S_ISDIR (st_mode st) \<longrightarrow> (mp, st_ino st) \<in> rom_nodes c v)"
    using node [of "strz nm"]
    by (cases "find (\<lambda>j. h_name ?img j = strz nm) js") (simp_all add: st [unfolded i(2)] rom_lookup_def i(2,3), simp_all add: romfs_attr_def)
qed

lemma rom_implements:
  assumes "rom_serves c v"
  shows "implements v (rom_nodes c v) (rom_lookup c v)"
proof -
  have c: "rom_mounted c v" and none: "is_mountpoint (i_device (rom_instance c v)) ino v = - 1" for ino
    using assms rom_no_mountpoint [of v "i_device (rom_instance c v)"] by (auto simp: rom_serves_iff)
  show ?thesis unfolding implements_def
  proof (intro allI impI)
    fix mp dir assume n: "(mp, dir) \<in> rom_nodes c v"
    note st = rom_stat [OF c n]
    show "\<exists>m t. ird (vfs_mnt v) mp = Some m \<and> fs_type_at (mounted_fs m) v = Some t \<and>
        (\<forall>nm s. name_ok (strz nm) \<longrightarrow> 0 \<in> set nm \<longrightarrow>
           (case rom_lookup c v mp dir (strz nm) of
              Inl e \<Rightarrow> e < 0 \<and> fs_stat t (mounted_instance m) dir nm s (v_kernel v) = Some (e, s)
            | Inr st \<Rightarrow> fs_stat t (mounted_instance m) dir nm s (v_kernel v) = Some (0, st) \<and>
                (let mp' = is_mountpoint (st_dev st) (st_ino st) v in
                 if mp' \<ge> 0 then (mp', mounted_ino (vfs_mnt v ! nat mp')) \<in> rom_nodes c v
                 else S_ISDIR (st_mode st) \<longrightarrow> (mp, st_ino st) \<in> rom_nodes c v)))"
    proof (intro exI conjI allI impI, rule st(1), rule st(2))
      fix nm s assume "name_ok (strz nm)" "0 \<in> set nm"
      from st(4) [OF this, of s] show "case rom_lookup c v mp dir (strz nm) of
              Inl e \<Rightarrow> e < 0 \<and> fs_stat (rom_fs c) (mounted_instance (rom_mount c v)) dir nm s (v_kernel v) = Some (e, s)
            | Inr st \<Rightarrow> fs_stat (rom_fs c) (mounted_instance (rom_mount c v)) dir nm s (v_kernel v) = Some (0, st) \<and>
                (let mp' = is_mountpoint (st_dev st) (st_ino st) v in
                 if mp' \<ge> 0 then (mp', mounted_ino (vfs_mnt v ! nat mp')) \<in> rom_nodes c v
                 else S_ISDIR (st_mode st) \<longrightarrow> (mp, st_ino st) \<in> rom_nodes c v)"
        by (simp add: none split: sum.splits)
    qed
  qed
qed

interpretation romfs_names: name_service rom_serves rom_nodes rom_lookup
  by unfold_locales (rule rom_implements)

text \<open>
  Several read-only file systems mounted in one another: \<open>R\<close> gives the one at each mount point.  A mount point
  that covers an entry of one of them has another one, and the inode it is entered at is a directory of that.
\<close>

definition roms_serve :: "(int \<Rightarrow> romctx option) \<Rightarrow> drivers vfs \<Rightarrow> bool" where
  "roms_serve R v \<longleftrightarrow>
     (\<forall>mp c. R mp = Some c \<longrightarrow> rc_mp c = mp \<and> rom_mounted c v \<and>
        (\<forall>ino. let mp' = is_mountpoint (i_device (rom_instance c v)) ino v in mp' \<ge> 0 \<longrightarrow>
           (\<exists>c'. R mp' = Some c' \<and> rc_tree c' (mounted_ino (vfs_mnt v ! nat mp') + i_root_inode (rom_instance c' v)) \<noteq> None)))"

definition roms_nodes :: "(int \<Rightarrow> romctx option) \<Rightarrow> drivers vfs \<Rightarrow> (int \<times> u32) set" where
  "roms_nodes R v = {n. \<exists>mp c. R mp = Some c \<and> n \<in> rom_nodes c v}"

definition roms_lookup :: "(int \<Rightarrow> romctx option) \<Rightarrow> drivers vfs \<Rightarrow> int \<Rightarrow> u32 \<Rightarrow> bytes \<Rightarrow> int + stat" where
  "roms_lookup R v mp dir name = (case R mp of None \<Rightarrow> Inl (- errno ENOENT) | Some c \<Rightarrow> rom_lookup c v mp dir name)"

lemma roms_implements:
  assumes "roms_serve R v"
  shows "implements v (roms_nodes R v) (roms_lookup R v)"
  unfolding implements_def
proof (intro allI impI)
  fix mp dir assume "(mp, dir) \<in> roms_nodes R v"
  then obtain mp0 c where R: "R mp0 = Some c" and n: "(mp, dir) \<in> rom_nodes c v" by (auto simp: roms_nodes_def)
  have c: "rc_mp c = mp0" "rom_mounted c v" using assms R by (auto simp: roms_serve_def)
  note st = rom_stat [OF c(2) n]
  have mp: "R mp = Some c" using st(3) c(1) R by simp
  have cross: "(mp', mounted_ino (vfs_mnt v ! nat mp')) \<in> roms_nodes R v"
    if "is_mountpoint (i_device (rom_instance c v)) ino v = mp'" "mp' \<ge> 0" for ino mp'
  proof -
    from assms R that obtain c' where c': "R mp' = Some c'"
      "rc_tree c' (mounted_ino (vfs_mnt v ! nat mp') + i_root_inode (rom_instance c' v)) \<noteq> None"
      unfolding roms_serve_def Let_def by blast
    moreover have "rc_mp c' = mp'" using assms c'(1) by (auto simp: roms_serve_def)
    ultimately show ?thesis
      by (auto simp: roms_nodes_def rom_nodes_def intro!: exI [of _ mp'] exI [of _ c'])
        (metis add_diff_cancel_right')
  qed
  have stay: "(mp, ino) \<in> rom_nodes c v \<Longrightarrow> (mp, ino) \<in> roms_nodes R v" for ino
    using mp by (auto simp: roms_nodes_def)
  show "\<exists>m t. ird (vfs_mnt v) mp = Some m \<and> fs_type_at (mounted_fs m) v = Some t \<and>
      (\<forall>nm s. name_ok (strz nm) \<longrightarrow> 0 \<in> set nm \<longrightarrow>
         (case roms_lookup R v mp dir (strz nm) of
            Inl e \<Rightarrow> e < 0 \<and> fs_stat t (mounted_instance m) dir nm s (v_kernel v) = Some (e, s)
          | Inr st \<Rightarrow> fs_stat t (mounted_instance m) dir nm s (v_kernel v) = Some (0, st) \<and>
              (let mp' = is_mountpoint (st_dev st) (st_ino st) v in
               if mp' \<ge> 0 then (mp', mounted_ino (vfs_mnt v ! nat mp')) \<in> roms_nodes R v
               else S_ISDIR (st_mode st) \<longrightarrow> (mp, st_ino st) \<in> roms_nodes R v)))"
  proof (intro exI conjI allI impI, rule st(1), rule st(2))
    fix nm s assume "name_ok (strz nm)" "0 \<in> set nm"
    from st(4) [OF this, of s] show "case roms_lookup R v mp dir (strz nm) of
            Inl e \<Rightarrow> e < 0 \<and> fs_stat (rom_fs c) (mounted_instance (rom_mount c v)) dir nm s (v_kernel v) = Some (e, s)
          | Inr st \<Rightarrow> fs_stat (rom_fs c) (mounted_instance (rom_mount c v)) dir nm s (v_kernel v) = Some (0, st) \<and>
              (let mp' = is_mountpoint (st_dev st) (st_ino st) v in
               if mp' \<ge> 0 then (mp', mounted_ino (vfs_mnt v ! nat mp')) \<in> roms_nodes R v
               else S_ISDIR (st_mode st) \<longrightarrow> (mp, st_ino st) \<in> roms_nodes R v)"
      using cross stay by (simp add: roms_lookup_def mp Let_def split: sum.splits)
  qed
qed

interpretation roms_names: name_service roms_serve roms_nodes roms_lookup
  by unfold_locales (rule roms_implements)

section \<open>Files of the read-only file system\<close>

text \<open>The root directory is that of the file system \<open>c\<close>.\<close>

definition rom_root :: "romctx \<Rightarrow> drivers vfs \<Rightarrow> bool" where
  "rom_root c v \<longleftrightarrow> rom_serves c v \<and> root_mount v < length (vfs_mnt v) \<and> rc_mp c = int (root_mount v) \<and>
     rc_tree c (i_root_inode (rom_instance c v)) \<noteq> None"

lemma rom_root_node: "rom_root c v \<Longrightarrow> (int (root_mount v), 0) \<in> rom_nodes c v"
  by (auto simp: rom_root_def rom_nodes_def intro!: exI [of _ "i_root_inode (rom_instance c v)"])

lemma rom_resolves:
  assumes "rom_root c v" "cs \<noteq> []" "list_all name_ok cs" "length buf = NAME_MAX + 1"
  shows "resolv_ino buf s (path_of_names cs) 0 v = Some (walk v (rom_lookup c v) (int (root_mount v)) 0 cs)"
  using assms rom_root_node [OF assms(1)] by (intro romfs_names.resolves) (auto simp: rom_root_def)

lemma rom_servesD:
  assumes "rom_serves c v"
  shows "ird (vfs_mnt v) (rc_mp c) = Some (rom_mount c v)" "fs_type_at (mounted_fs (rom_mount c v)) v = Some (rom_fs c)"
    "ird (drv_romfs (k_drv (v_kernel v))) (mounted_instance (rom_mount c v)) = Some (rom_instance c v)"
    "memblk_ready (rc_devs c) (v_kernel v) (i_device (rom_instance c v))" "length (rc_junk c) = HEADER_MAX" "16 \<le> length (rc_junk c)"
  using assms by (auto simp: rom_serves_def HEADER_MAX_def)

lemma open_rom:
  assumes "rom_root c v" "cs \<noteq> []" "list_all name_ok cs" "length buf = NAME_MAX + 1"
    "walk v (rom_lookup c v) (int (root_mount v)) 0 cs = Inr (rc_mp c, j - i_root_inode (rom_instance c v))"
    "header_ok (rom_image c v) j" "0 \<le> h_size (rom_image c v) j" "h_size (rom_image c v) j < 2 ^ 31 - 512"
    "\<exists>f \<in> set (vfs_file v). \<not> f_is_used f"
  defines "fd \<equiv> int (find_slot (\<lambda>f. \<not> f_is_used f) (vfs_file v))"
  shows "vfs_open buf s0 (path_of_names cs) flags v = Some (fd, opened fd (rc_mp c) (romfs_attr (rom_image c v) (rom_instance c v) j) v)"
proof -
  let ?st = "romfs_attr (rom_image c v) (rom_instance c v) j"
  have rs: "rom_serves c v" using assms(1) by (simp add: rom_root_def)
  note s = rom_servesD [OF rs]
  have mp: "0 \<le> rc_mp c" "nat (rc_mp c) < length (vfs_mnt v)" using assms(1) by (auto simp: rom_root_def)
  have "fs_stat_inode (rom_fs c) (mounted_instance (rom_mount c v)) (j - i_root_inode (rom_instance c v)) s0 (v_kernel v) = Some (0, ?st)"
    using stat_inode_eq [OF memdisk.reads [OF s(4)] s(3) _ _ _ s(6)] assms(6-8)
    by (simp add: rom_fs_def romfs_type_def rom_image_def)
  then have st: "vfs_stat buf s0 (path_of_names cs) s0 v = Some (Inr (rc_mp c, ?st))"
    using rom_resolves [OF assms(1-4), of s0] assms(5) s(1,2) by (simp add: vfs_stat_def)
  have f: "find_slot (\<lambda>f. \<not> f_is_used f) (vfs_file v) < length (vfs_file v)" using assms(9) by (simp add: find_slot_less_iff)
  have a: "alloc_file v = (fd, v\<lparr>vfs_file := (vfs_file v)[nat fd := (vfs_file v ! nat fd)\<lparr>f_is_used := True\<rparr>]\<rparr>)"
    using f by (simp add: alloc_file_def fd_def Let_def)
  show ?thesis using st a f mp by (simp add: vfs_open_def file_update_def mount_update_def opened_def fd_def)
qed

text \<open>An open file of the file system.\<close>

definition rom_file :: "romctx \<Rightarrow> int \<Rightarrow> u32 \<Rightarrow> drivers vfs \<Rightarrow> bool" where
  "rom_file c fd j v \<longleftrightarrow> rom_serves c v \<and> file_ok (rom_image c v) j \<and> 0 \<le> fd \<and> fd < int MAX_GLOBAL_FILES \<and> nat fd < length (vfs_file v) \<and>
     (let f = vfs_file v ! nat fd in
        f_is_used f \<and> \<not> f_is_device f \<and> \<not> f_directory f \<and> f_read f \<and> data_instance f = rc_mp c \<and>
        f_inode f = j - i_root_inode (rom_instance c v) \<and> 0 \<le> f_pos f \<and> f_pos f \<le> h_size (rom_image c v) j)"

lemma rom_serves_files [simp]: "rom_serves c (v\<lparr>vfs_file := fs\<rparr>) = rom_serves c v" "rom_image c (v\<lparr>vfs_file := fs\<rparr>) = rom_image c v"
  "rom_instance c (v\<lparr>vfs_file := fs\<rparr>) = rom_instance c v" "rom_mount c (v\<lparr>vfs_file := fs\<rparr>) = rom_mount c v"
  by (simp_all add: rom_serves_def rom_image_def rom_instance_def rom_mount_def fs_type_at_def)

lemma read_rom:
  fixes n :: u32
  assumes "rom_file c fd j v"
  defines "f \<equiv> vfs_file v ! nat fd"
  defines "bs \<equiv> take (unat n) (drop (nat (f_pos f)) (file_data (rom_image c v) j))"
  assumes "length bs \<le> length buf"
  defines "v' \<equiv> v\<lparr>vfs_file := (vfs_file v)[nat fd := f\<lparr>f_pos := f_pos f + int (length bs)\<rparr>]\<rparr>"
  shows "vfs_read (rc_devs c) fd buf n v = Some (int (length bs), bs @ drop (length bs) buf, v')" "rom_file c fd j v'"
proof -
  have rs: "rom_serves c v" and ok: "file_ok (rom_image c v) j" and fd: "0 \<le> fd" "fd < int MAX_GLOBAL_FILES" "nat fd < length (vfs_file v)"
    and f: "f_is_used f" "\<not> f_is_device f" "\<not> f_directory f" "f_read f" "data_instance f = rc_mp c"
      "f_inode f = j - i_root_inode (rom_instance c v)" "0 \<le> f_pos f" "f_pos f \<le> h_size (rom_image c v) j"
    using assms(1) by (auto simp: rom_file_def f_def Let_def)
  note s = rom_servesD [OF rs]
  have sz: "h_size (rom_image c v) j < 2 ^ 31" "nat (h_size (rom_image c v) j) = length (file_data (rom_image c v) j)"
    using ok by (auto simp: file_ok_def file_data_def nat_less_iff)
  have len: "f_pos f + int (length bs) \<le> h_size (rom_image c v) j"
    using f(7,8) sz(2) by (simp add: bs_def)
  have r: "fs_read (rom_fs c) (mounted_instance (rom_mount c v)) (f_inode f) buf n (f_pos f) (v_kernel v) =
      Some (int (length bs), bs @ drop (length bs) buf)"
    using memdisk.read_file [OF s(4,3) ok [unfolded rom_image_def] s(6) f(7) f(8) [unfolded rom_image_def], of n buf] assms(4)
    by (simp add: rom_fs_def romfs_type_def f(6) bs_def rom_image_def)
  have adv: "advance fd (int (length bs)) v = Some v'"
    using fd f(7) len sz(1) by (auto simp: advance_def v'_def f_def file_update_def off64_def)
  show "vfs_read (rc_devs c) fd buf n v = Some (int (length bs), bs @ drop (length bs) buf, v')"
    using fd f s(1,2) r adv by (simp add: vfs_read_def f_def [symmetric])
  show "rom_file c fd j v'"
    using fd f len rs ok by (simp add: rom_file_def v'_def Let_def data_instance_def)
qed

section \<open>An example system\<close>

text \<open>A kernel with the small image mounted as the root directory, and no file open.\<close>

definition closed_file :: VFSFileEntry where
  "closed_file = \<lparr>f_is_used = False, f_is_device = False, f_read = False, f_write = False, f_directory = False,
     f_unsupported = False, f_pos = 0, f_ref = 0, f_mode = 0, f_data = 0, f_inode = 0\<rparr>"

definition unused_mount :: VFSMountPoint where
  "unused_mount = \<lparr>m_is_used = False, m_open_files = 0, m_dev = 0, m_inode = 0, mounted_fs = 0, mounted_instance = 0,
     mounted_dev = 0, mounted_ino = 0\<rparr>"

definition tiny_ctx :: romctx where
  "tiny_ctx = \<lparr>rc_devs = tiny_devs, rc_junk = zero_junk, rc_name = cstr ''romfs'', rc_mp = 0, rc_tree = [2 \<mapsto> [2]]\<rparr>"

definition tiny_vfs :: "procs \<Rightarrow> drivers vfs" where
  "tiny_vfs p = \<lparr>vfs_file = replicate MAX_GLOBAL_FILES closed_file, vfs_type = Some (rom_fs tiny_ctx) # replicate 3 None,
     vfs_mnt = unused_mount\<lparr>m_is_used := True, m_dev := - 1, m_inode := - 1, mounted_dev := 0x10001\<rparr> # replicate 15 unused_mount,
     v_kernel = tiny_kernel p\<rparr>"

lemma tiny_ctx_sel: "rc_devs tiny_ctx = tiny_devs" "rc_junk tiny_ctx = zero_junk" "rc_mp tiny_ctx = 0" "rc_tree tiny_ctx = [2 \<mapsto> [2]]"
  by (simp_all add: tiny_ctx_def)

lemma tiny_vfs_sel: "vfs_type (tiny_vfs p) = Some (rom_fs tiny_ctx) # replicate 3 None" "v_kernel (tiny_vfs p) = tiny_kernel p"
  "vfs_mnt (tiny_vfs p) = unused_mount\<lparr>m_is_used := True, m_dev := - 1, m_inode := - 1, mounted_dev := 0x10001\<rparr> # replicate 15 unused_mount"
  by (simp_all add: tiny_vfs_def)

lemma tiny_vfs_inv: "vfs_inv (tiny_vfs p)"
  by (simp add: vfs_inv_def tiny_vfs_def MAX_MOUNT_POINTS_def MAX_FILE_SYSTEMS_def closed_file_def)

lemma tiny_rom: "rom_instance tiny_ctx (tiny_vfs p) = \<lparr>i_used = True, i_device = 0x10001, i_root_inode = 2\<rparr>"
  "rom_image tiny_ctx (tiny_vfs p) = tiny_image" "root_mount (tiny_vfs p) = 0"
proof -
  show i: "rom_instance tiny_ctx (tiny_vfs p) = \<lparr>i_used = True, i_device = 0x10001, i_root_inode = 2\<rparr>"
    by (simp add: rom_instance_def rom_mount_def tiny_ctx_def tiny_vfs_def unused_mount_def tiny_kernel_def tiny_drivers_def)
  show "rom_image tiny_ctx (tiny_vfs p) = tiny_image"
    using tiny_contents [of p] by (simp add: rom_image_def i) (simp add: tiny_vfs_def)
  show "root_mount (tiny_vfs p) = 0" by (simp add: root_mount_def tiny_vfs_def unused_mount_def)
qed

lemma tiny_mode: "st_mode (romfs_attr tiny_image ins 2) = 0x8124"
proof -
  have "h_byte tiny_image 2 = 2" "h_special tiny_image 2 = 0" by code_simp+
  then show ?thesis by (simp add: romfs_attr_def byte_to_mode_def S_IFREG_def)
qed

lemma tiny_root: "rom_root tiny_ctx (tiny_vfs p)"
proof -
  have "rom_tree tiny_image \<lparr>i_used = True, i_device = 0x10001, i_root_inode = 2\<rparr> (rc_tree tiny_ctx)"
    using tiny_file(4,5) by (auto simp: rom_tree_def tiny_ctx_sel tiny_mode S_ISDIR_def S_IFMT_def S_IFDIR_def split: if_splits)
  moreover have "mounted_fs (rom_mount tiny_ctx (tiny_vfs p)) = 0" "mounted_instance (rom_mount tiny_ctx (tiny_vfs p)) = 0"
    "ird (vfs_mnt (tiny_vfs p)) 0 = Some (rom_mount tiny_ctx (tiny_vfs p))"
    by (simp_all add: rom_mount_def tiny_vfs_sel tiny_ctx_sel unused_mount_def)
  moreover have "fs_type_at 0 (tiny_vfs p) = Some (rom_fs tiny_ctx)" by (simp add: fs_type_at_def tiny_vfs_sel)
  moreover have "\<forall>m \<in> set (vfs_mnt (tiny_vfs p)). m_is_used m \<longrightarrow> m_dev m \<noteq> 0x10001"
    by (simp add: tiny_vfs_sel unused_mount_def)
  moreover have "ird (drv_romfs (k_drv (v_kernel (tiny_vfs p)))) 0 = Some \<lparr>i_used = True, i_device = 0x10001, i_root_inode = 2\<rparr>"
    by (simp add: tiny_vfs_sel tiny_kernel_def tiny_drivers_def)
  moreover have "memblk_ready (rc_devs tiny_ctx) (v_kernel (tiny_vfs p)) 0x10001"
    using tiny_ready by (simp add: tiny_vfs_sel tiny_ctx_sel)
  ultimately have "rom_serves tiny_ctx (tiny_vfs p)"
    by (simp add: rom_serves_def tiny_rom tiny_ctx_sel length_zero_junk)
  then show ?thesis by (simp add: rom_root_def tiny_rom tiny_ctx_sel tiny_vfs_sel)
qed

lemma tiny_walk: "walk (tiny_vfs p) (rom_lookup tiny_ctx (tiny_vfs p)) 0 0 [[0x61]] = Inr (0, 0)"
  by (simp add: rom_lookup_def tiny_rom tiny_header tiny_ctx_sel romfs_attr_def)

lemma tiny_name: "list_all name_ok [[0x61]]"
  by (simp add: name_ok_def slash_def NAME_MAX_def)

text \<open>The same image once more, mounted over its own entry.\<close>

definition twice_vfs :: "procs \<Rightarrow> drivers vfs" where
  "twice_vfs p = (tiny_vfs p)\<lparr>vfs_mnt := unused_mount\<lparr>m_is_used := True, m_dev := - 1, m_inode := - 1, mounted_dev := 0x10001\<rparr> #
     unused_mount\<lparr>m_is_used := True, m_dev := 0x10001\<rparr> # replicate 14 unused_mount\<rparr>"

definition twice_ctx :: "int \<Rightarrow> romctx option" where
  "twice_ctx = [0 \<mapsto> tiny_ctx, 1 \<mapsto> tiny_ctx\<lparr>rc_mp := 1\<rparr>]"

lemma twice_rom:
  assumes "c = tiny_ctx \<or> c = tiny_ctx\<lparr>rc_mp := 1\<rparr>"
  shows "rom_instance c (twice_vfs p) = \<lparr>i_used = True, i_device = 0x10001, i_root_inode = 2\<rparr>"
    "rom_image c (twice_vfs p) = tiny_image" "rom_mounted c (twice_vfs p)"
proof -
  have k: "v_kernel (twice_vfs p) = tiny_kernel p" "vfs_type (twice_vfs p) = Some (rom_fs tiny_ctx) # replicate 3 None"
    by (simp_all add: twice_vfs_def tiny_vfs_sel)
  have m: "mounted_fs (rom_mount c (twice_vfs p)) = 0" "mounted_instance (rom_mount c (twice_vfs p)) = 0"
    "ird (vfs_mnt (twice_vfs p)) (rc_mp c) = Some (rom_mount c (twice_vfs p))"
    using assms by (auto simp: rom_mount_def twice_vfs_def tiny_ctx_sel unused_mount_def)
  show i: "rom_instance c (twice_vfs p) = \<lparr>i_used = True, i_device = 0x10001, i_root_inode = 2\<rparr>"
    by (simp add: rom_instance_def m k tiny_kernel_def tiny_drivers_def)
  show im: "rom_image c (twice_vfs p) = tiny_image"
    using tiny_contents [of p] by (simp add: rom_image_def i k)
  have ctx: "rc_devs c = tiny_devs" "rc_junk c = zero_junk" "rc_tree c = [2 \<mapsto> [2]]" "rom_fs c = rom_fs tiny_ctx"
    using assms by (auto simp: tiny_ctx_sel rom_fs_def)
  have "rom_tree tiny_image \<lparr>i_used = True, i_device = 0x10001, i_root_inode = 2\<rparr> (rc_tree c)"
    using tiny_file(4,5) by (auto simp: rom_tree_def ctx tiny_mode S_ISDIR_def S_IFMT_def S_IFDIR_def split: if_splits)
  then show "rom_mounted c (twice_vfs p)" using tiny_ready m(3)
    by (simp add: rom_mounted_def m i im ctx k fs_type_at_def length_zero_junk) (simp add: tiny_kernel_def tiny_drivers_def)
qed

lemma twice_serve: "roms_serve twice_ctx (twice_vfs p)"
proof -
  have c: "c = tiny_ctx \<or> c = tiny_ctx\<lparr>rc_mp := 1\<rparr>" if "twice_ctx mp = Some c" for mp c
    using that by (auto simp: twice_ctx_def split: if_splits)
  have mp: "is_mountpoint 0x10001 ino (twice_vfs p) = (if ino = 0 then 1 else - 1)" for ino
    using find_slot_less_iff [of "\<lambda>m. m_is_used m \<and> m_dev m = 0x10001 \<and> m_inode m = ino" "replicate 14 unused_mount"]
    by (simp add: is_mountpoint_def twice_vfs_def unused_mount_def)
  show ?thesis unfolding roms_serve_def
  proof (intro allI impI conjI)
    fix mp' c assume R: "twice_ctx mp' = Some c"
    show "rc_mp c = mp'" using R by (auto simp: twice_ctx_def tiny_ctx_sel split: if_splits)
    show "rom_mounted c (twice_vfs p)" using twice_rom(3) [OF c [OF R]] .
    fix ino
    show "let mp' = is_mountpoint (i_device (rom_instance c (twice_vfs p))) ino (twice_vfs p) in mp' \<ge> 0 \<longrightarrow>
           (\<exists>c'. twice_ctx mp' = Some c' \<and> rc_tree c' (mounted_ino (vfs_mnt (twice_vfs p) ! nat mp') + i_root_inode (rom_instance c' (twice_vfs p))) \<noteq> None)"
      using twice_rom(1) [OF c [OF R]] twice_rom(1) [of "tiny_ctx\<lparr>rc_mp := 1\<rparr>"]
      by (simp add: mp Let_def twice_ctx_def) (simp add: twice_vfs_def unused_mount_def tiny_ctx_sel)
  qed
qed

lemma twice_walk: "walk (twice_vfs p) (roms_lookup twice_ctx (twice_vfs p)) 0 0 [[0x61], [0x61]] = Inr (1, 0)"
proof -
  have mp: "is_mountpoint 0x10001 0 (twice_vfs p) = 1"
    by (simp add: is_mountpoint_def twice_vfs_def unused_mount_def)
  have "roms_lookup twice_ctx (twice_vfs p) 0 0 [0x61] = Inr (romfs_attr tiny_image \<lparr>i_used = True, i_device = 0x10001, i_root_inode = 2\<rparr> 2)"
    "roms_lookup twice_ctx (twice_vfs p) 1 0 [0x61] = Inr (romfs_attr tiny_image \<lparr>i_used = True, i_device = 0x10001, i_root_inode = 2\<rparr> 2)"
    by (simp_all add: roms_lookup_def twice_ctx_def rom_lookup_def twice_rom tiny_header tiny_ctx_sel)
  then show ?thesis by (simp add: romfs_attr_def mp Let_def) (simp add: twice_vfs_def unused_mount_def)
qed

section \<open>Properties\<close>

text \<open>
  C5. Resolving an absolute path through read-only file systems on memory-backed disks, one at the root
  directory and others mounted at entries of one another: the code, which cuts the path into components in a
  buffer, looks each one up in the current file system and follows directories and mount points, equals the
  recursive reference, for every list of names and on every outcome.
\<close>

theorem resolv_ino_walks_path:
  assumes "roms_serve R v" "root_mount v < length (vfs_mnt v)" "R (int (root_mount v)) = Some c"
    "rc_tree c (i_root_inode (rom_instance c v)) \<noteq> None" "cs \<noteq> []" "list_all name_ok cs" "length buf = NAME_MAX + 1"
  shows "resolv_ino buf s (path_of_names cs) 0 v = Some (walk v (roms_lookup R v) (int (root_mount v)) 0 cs)"
proof -
  have "rc_mp c = int (root_mount v)" using assms(1,3) by (auto simp: roms_serve_def)
  then have "(int (root_mount v), 0) \<in> roms_nodes R v"
    using assms(3,4) by (auto simp: roms_nodes_def rom_nodes_def intro!: exI [of _ "int (root_mount v)"] exI [of _ c]
        exI [of _ "i_root_inode (rom_instance c v)"])
  from roms_names.resolves [OF assms(1,2) this assms(5-7)] show ?thesis .
qed

theorem resolv_ino_walks_path_witness:
  "\<forall>p s. resolv_ino (replicate (NAME_MAX + 1) 7) s (path_of_names [[0x61], [0x61]]) 0 (twice_vfs p) = Some (Inr (1, 0))"
proof (intro allI)
  fix p s
  have "root_mount (twice_vfs p) = 0" "root_mount (twice_vfs p) < length (vfs_mnt (twice_vfs p))"
    by (simp_all add: root_mount_def twice_vfs_def unused_mount_def)
  moreover have "rc_tree tiny_ctx (i_root_inode (rom_instance tiny_ctx (twice_vfs p))) \<noteq> None" "list_all name_ok [[0x61], [0x61]]"
    by (simp_all add: twice_rom tiny_ctx_sel name_ok_def slash_def NAME_MAX_def)
  moreover have "twice_ctx 0 = Some tiny_ctx" by (simp add: twice_ctx_def)
  ultimately show "resolv_ino (replicate (NAME_MAX + 1) 7) s (path_of_names [[0x61], [0x61]]) 0 (twice_vfs p) = Some (Inr (1, 0))"
    using resolv_ino_walks_path [OF twice_serve, of p tiny_ctx "[[0x61], [0x61]]" "replicate (NAME_MAX + 1) 7" s] twice_walk [of p]
    by (simp del: replicate.simps)
qed

text \<open>
  C9. In every state that the operations of the virtual file system reach from a sound one, the three
  tables have their sizes and every file entry in use has a positive reference count.
\<close>

theorem vfs_reachable_inv:
  assumes "vfs_steps devs v v'" "vfs_inv v"
  shows "vfs_inv v'"
  using assms by (rule vfs_steps_inv)

theorem vfs_reachable_inv_witness:
  "\<forall>p. \<exists>fd v'. vfs_open_device 0x10001 0 (tiny_vfs p) = Some (fd, v') \<and> 0 \<le> fd \<and> vfs_inv v'"
proof
  fix p
  have "0 < length (vfs_file (tiny_vfs p))" by (simp add: tiny_vfs_def MAX_GLOBAL_FILES_def)
  moreover have "vfs_file (tiny_vfs p) ! 0 = closed_file" by (simp add: tiny_vfs_def MAX_GLOBAL_FILES_def)
  ultimately have "find_slot (\<lambda>f. \<not> f_is_used f) (vfs_file (tiny_vfs p)) = 0"
    by (intro find_slot_eqI) (auto simp: closed_file_def)
  then obtain v' where v': "vfs_open_device 0x10001 0 (tiny_vfs p) = Some (0, v')"
    using \<open>0 < length _\<close> by (simp add: vfs_open_device_def alloc_file_def file_update_def Let_def)
  have "vfs_steps tiny_devs (tiny_vfs p) v'"
    using steps_step [OF steps_refl step_open_device [OF v']] .
  from vfs_reachable_inv [OF this tiny_vfs_inv] v'
  show "\<exists>fd v'. vfs_open_device 0x10001 0 (tiny_vfs p) = Some (fd, v') \<and> 0 \<le> fd \<and> vfs_inv v'" by auto
qed

text \<open>
  C19. Closing a file, other than a device, right after opening it gives back the state: the entry is
  free again, the count of open files of the mount point is what it was, nothing else has changed.
\<close>

theorem vfs_open_close_restores:
  assumes "vfs_inv v" "vfs_open c s0 path flags v = Some (fd, v')" "0 \<le> fd" "\<not> f_is_device (vfs_file v' ! nat fd)"
  shows "\<exists>f. vfs_close fd v' = Some (0, v\<lparr>vfs_file := (vfs_file v)[nat fd := f]\<rparr>) \<and> \<not> f_is_used f"
proof -
  obtain mp s where o: "0 \<le> mp" "nat mp < length (vfs_mnt v)" "nat fd < length (vfs_file v)" "v' = opened fd mp s v"
    using vfs_open_result [OF assms(2)] assms(3) by auto
  have "\<not> S_ISBLK (st_mode s)" "\<not> S_ISCHR (st_mode s)"
    using assms(4) o(3) by (auto simp: o(4) opened_def open_entry_def Let_def)
  then show ?thesis unfolding o(4) by (intro close_opened assms(1,3) o)
qed

text \<open>The example: the file \<open>a\<close> of the small image is opened as number 0.\<close>

lemma tiny_slot: "find_slot (\<lambda>f. \<not> f_is_used f) (vfs_file (tiny_vfs p)) = 0" "\<exists>f \<in> set (vfs_file (tiny_vfs p)). \<not> f_is_used f"
proof -
  have "0 < length (vfs_file (tiny_vfs p))" "vfs_file (tiny_vfs p) ! 0 = closed_file" by (simp_all add: tiny_vfs_def MAX_GLOBAL_FILES_def)
  then show "find_slot (\<lambda>f. \<not> f_is_used f) (vfs_file (tiny_vfs p)) = 0"
    by (intro find_slot_eqI) (auto simp: closed_file_def)
  show "\<exists>f \<in> set (vfs_file (tiny_vfs p)). \<not> f_is_used f" by (simp add: tiny_vfs_def closed_file_def MAX_GLOBAL_FILES_def)
qed

lemma tiny_open:
  "vfs_open (replicate (NAME_MAX + 1) 7) s0 (path_of_names [[0x61]]) 0 (tiny_vfs p) =
    Some (0, opened 0 0 (romfs_attr tiny_image \<lparr>i_used = True, i_device = 0x10001, i_root_inode = 2\<rparr> 2) (tiny_vfs p))"
proof -
  have "header_ok tiny_image 2" using file_header_ok tiny_file(3) .
  moreover have "rc_mp tiny_ctx = 0" by (simp add: tiny_ctx_sel)
  ultimately show ?thesis
    using open_rom [OF tiny_root _ tiny_name _ _ _ _ _ tiny_slot(2), of "replicate (NAME_MAX + 1) 7" p 2 s0 0] tiny_walk [of p]
    by (simp add: tiny_rom tiny_header tiny_slot(1) del: replicate.simps)
qed

theorem vfs_open_close_restores_witness:
  "\<forall>p s0. \<exists>v' v''. vfs_open (replicate (NAME_MAX + 1) 7) s0 (path_of_names [[0x61]]) 0 (tiny_vfs p) = Some (0, v') \<and>
     vfs_close 0 v' = Some (0, v'') \<and> vfs_mnt v'' = vfs_mnt (tiny_vfs p)"
proof (intro allI)
  fix p s0
  let ?v' = "opened 0 0 (romfs_attr tiny_image \<lparr>i_used = True, i_device = 0x10001, i_root_inode = 2\<rparr> 2) (tiny_vfs p)"
  have "0 < length (vfs_file (tiny_vfs p))" by (simp add: tiny_vfs_def MAX_GLOBAL_FILES_def)
  then have "\<not> f_is_device (vfs_file ?v' ! nat 0)"
    by (simp add: opened_def open_entry_def Let_def tiny_mode S_ISBLK_def S_ISCHR_def S_IFMT_def S_IFBLK_def S_IFCHR_def S_ISDIR_def S_IFDIR_def)
  from vfs_open_close_restores [OF tiny_vfs_inv tiny_open _ this] tiny_open [of s0 p]
  show "\<exists>v' v''. vfs_open (replicate (NAME_MAX + 1) 7) s0 (path_of_names [[0x61]]) 0 (tiny_vfs p) = Some (0, v') \<and>
     vfs_close 0 v' = Some (0, v'') \<and> vfs_mnt v'' = vfs_mnt (tiny_vfs p)"
    by auto
qed

text \<open>
  Closing a file opened with \<^verbatim>\<open>vfs_open_device\<close> takes the device number for a mount point, since both
  share a word of the union, and writes outside the mount table.
\<close>

lemma vfs_close_device_faults:
  assumes "vfs_inv v" "vfs_open_device device flags v = Some (fd, v')" "0 \<le> fd" "sint device < 0 \<or> int MAX_MOUNT_POINTS \<le> sint device"
  shows "vfs_close fd v' = None"
proof -
  obtain fd0 v0 where a: "alloc_file v = (fd0, v0)" by (cases "alloc_file v")
  have "\<not> fd0 < 0" using assms(2,3) a by (auto simp: vfs_open_device_def)
  note al = alloc_file_some [OF a] this
  have fd: "fd = fd0" "nat fd < length (vfs_file v)" "fd < int MAX_GLOBAL_FILES"
    using assms(1,2) al by (auto simp: vfs_open_device_def a file_update_def vfs_inv_def)
  have v': "vfs_file v' = (vfs_file v)[nat fd := (vfs_file v ! nat fd)\<lparr>f_is_used := True, f_mode := 0, f_read := True, f_unsupported := False,
      f_directory := False, f_pos := 0, f_inode := - 1, f_is_device := True, f_data := device, f_write := True, f_ref := 1\<rparr>]"
    "vfs_mnt v' = vfs_mnt v"
    using assms(2) al fd by (auto simp: vfs_open_device_def a file_update_def)
  have "mount_update (sint device) g (v'\<lparr>vfs_file := fs\<rparr>) = None" for g fs
    using assms(1,4) by (auto simp: mount_update_def iupd_def v'(2) vfs_inv_def)
  then show ?thesis using assms(3) fd by (simp add: vfs_close_def file_update_def v'(1) data_instance_def)
qed

lemma vfs_close_device_faults_example:
  "\<forall>p. \<exists>v'. vfs_open_device 0x10001 0 (tiny_vfs p) = Some (0, v') \<and> vfs_close 0 v' = None"
proof
  fix p
  have "0 < length (vfs_file (tiny_vfs p))" by (simp add: tiny_vfs_def MAX_GLOBAL_FILES_def)
  then obtain v' where v': "vfs_open_device 0x10001 0 (tiny_vfs p) = Some (0, v')"
    using tiny_slot(1) [of p] by (simp add: vfs_open_device_def alloc_file_def file_update_def Let_def)
  have "int MAX_MOUNT_POINTS \<le> sint (0x10001 :: u32)" by (simp add: MAX_MOUNT_POINTS_def)
  then show "\<exists>v'. vfs_open_device 0x10001 0 (tiny_vfs p) = Some (0, v') \<and> vfs_close 0 v' = None"
    using vfs_close_device_faults [OF tiny_vfs_inv v'] v' by blast
qed

section \<open>Listing a directory\<close>

text \<open>The loop of \<^verbatim>\<open>vfs_read_directory\<close> when every call gives an entry with the property \<open>P\<close>.\<close>

lemma for_return_entries:
  assumes "\<And>tde. Q tde \<Longrightarrow> \<exists>d. g tde = Some (r, d) \<and> Q d \<and> P d" "0 < r" "Q tde" "a + n \<le> length de"
  shows "\<exists>de' tde'. for_return [a..<a + n] (\<lambda>i (de, tde). do {
            (err, tde) \<leftarrow> g tde;
            if err < 0 then Some (Inl (err, de, tde))
            else if err = 0 then Some (Inl (int i, de, tde))
            else do { de \<leftarrow> wr de i tde; Some (Inr (de, tde)) } }) (de, tde) = Some (Inr (de', tde')) \<and>
         length de' = length de \<and> (\<forall>i < length de. if a \<le> i \<and> i < a + n then P (de' ! i) else de' ! i = de ! i)"
  using assms(3,4)
proof (induction n arbitrary: a de tde)
  case (Suc n)
  obtain d where d: "g tde = Some (r, d)" "Q d" "P d" using assms(1) Suc.prems(1) by blast
  have u: "[a..<a + Suc n] = a # [Suc a..<Suc a + n]" by (simp add: upt_conv_Cons)
  have "Suc a + n \<le> length (de[a := d])" using Suc.prems(2) by simp
  from Suc.IH [OF d(2) this] obtain de' tde' where IH: "for_return [Suc a..<Suc a + n] (\<lambda>i (de, tde). do {
            (err, tde) \<leftarrow> g tde;
            if err < 0 then Some (Inl (err, de, tde))
            else if err = 0 then Some (Inl (int i, de, tde))
            else do { de \<leftarrow> wr de i tde; Some (Inr (de, tde)) } }) (de[a := d], d) = Some (Inr (de', tde'))"
    "length de' = length de" "\<forall>i < length de. if Suc a \<le> i \<and> i < Suc a + n then P (de' ! i) else de' ! i = de[a := d] ! i"
    by auto
  have "\<forall>i < length de. if a \<le> i \<and> i < a + Suc n then P (de' ! i) else de' ! i = de ! i"
    using IH(3) d(3) Suc.prems(2) by (auto simp: nth_list_update split: if_splits)
  then show ?case unfolding u using d(1) assms(2) Suc.prems(2) IH(1,2) by simp
qed auto

text \<open>
  C27. \<^verbatim>\<open>vfs_read_directory\<close> never advances the position of the file: asked for \<open>n\<close> entries of a directory of
  the read-only file system, at a position inside it, it returns the entry at that position \<open>n\<close> times.
\<close>

theorem vfs_read_directory_repeats:
  assumes "rom_serves c v" "vfs_inv v" "0 \<le> fd" "fd < int MAX_GLOBAL_FILES" "f = vfs_file v ! nat fd" "\<not> f_is_device f"
    "f_directory f" "data_instance f = rc_mp c" "rc_tree c i = Some js" "f_inode f = i - i_root_inode (rom_instance c v)"
    "0 \<le> f_pos f" "nat (f_pos f) < length js" "length (d_name tde) = NAME_MAX + 1" "n \<le> length de"
  shows "\<exists>de'. vfs_read_directory tde fd de (int n) v = Some (int n, de') \<and>
    (\<forall>i < n. d_ino (de' ! i) = js ! nat (f_pos f) - i_root_inode (rom_instance c v) \<and>
       strz (d_name (de' ! i)) = h_name (rom_image c v) (js ! nat (f_pos f)))"
proof -
  note s = rom_servesD [OF assms(1)]
  let ?ins = "rom_instance c v" and ?g = "\<lambda>tde. fs_read_directory (rom_fs c) (mounted_instance (rom_mount c v)) (f_inode f) (f_pos f) tde (v_kernel v)"
  let ?P = "\<lambda>d. d_ino d = js ! nat (f_pos f) - i_root_inode ?ins \<and> strz (d_name d) = h_name (rom_image c v) (js ! nat (f_pos f))"
  have dir: "dir_of (rom_image c v) (i_root_inode ?ins) i js" using assms(1,9) by (simp add: rom_serves_def rom_tree_def)
  have g: "\<exists>d. ?g tde = Some (sizeof_dirent, d) \<and> length (d_name d) = NAME_MAX + 1 \<and> ?P d" if "length (d_name tde) = NAME_MAX + 1" for tde
    using memdisk.list_dirent [OF s(4,3) dir [unfolded rom_image_def] assms(11) s(5) that] assms(10,12)
    by (auto simp: rom_fs_def romfs_type_def rom_image_def)
  have fd: "nat fd < length (vfs_file v)" using assms(2-4) by (simp add: vfs_inv_def)
  have "0 + n \<le> length de" "0 < sizeof_dirent" using assms(14) by (simp_all add: sizeof_dirent_def)
  from for_return_entries [of "\<lambda>d. length (d_name d) = NAME_MAX + 1" ?g sizeof_dirent ?P, OF g this(2) assms(13) this(1)]
  obtain de' tde' where r: "for_return [0..<n] (\<lambda>i (de, tde). do {
            (err, tde) \<leftarrow> ?g tde;
            if err < 0 then Some (Inl (err, de, tde))
            else if err = 0 then Some (Inl (int i, de, tde))
            else do { de \<leftarrow> wr de i tde; Some (Inr (de, tde)) } }) (de, tde) = Some (Inr (de', tde'))"
    "\<forall>i < length de. if 0 \<le> i \<and> i < 0 + n then ?P (de' ! i) else de' ! i = de ! i" by auto
  have "vfs_read_directory tde fd de (int n) v = Some (int n, de')"
    using assms(3-8) fd s(1,2) r(1) by (simp add: vfs_read_directory_def)
  moreover have "\<forall>i < n. ?P (de' ! i)" using r(2) assms(14) by auto
  ultimately show ?thesis by blast
qed

text \<open>The example: the root directory opened as file 0.\<close>

definition dir_vfs :: "procs \<Rightarrow> drivers vfs" where
  "dir_vfs p = (tiny_vfs p)\<lparr>vfs_file := (replicate MAX_GLOBAL_FILES closed_file)
     [0 := closed_file\<lparr>f_is_used := True, f_directory := True, f_read := True, f_ref := 1\<rparr>]\<rparr>"

theorem vfs_read_directory_repeats_witness:
  "\<forall>p. \<exists>de'. vfs_read_directory \<lparr>d_ino = 0, d_mode = 0, d_name = replicate (NAME_MAX + 1) 0\<rparr> 0 (replicate 3 \<lparr>d_ino = 9, d_mode = 0, d_name = []\<rparr>) 3 (dir_vfs p) =
     Some (3, de') \<and> (\<forall>i < 3. strz (d_name (de' ! i)) = [0x61])"
proof
  fix p
  let ?t = "\<lparr>d_ino = 0, d_mode = 0, d_name = replicate (NAME_MAX + 1) 0\<rparr>" and ?de = "replicate 3 \<lparr>d_ino = 9, d_mode = 0, d_name = []\<rparr>"
  have s: "rom_serves tiny_ctx (dir_vfs p)" using tiny_root [of p] by (simp add: dir_vfs_def rom_root_def)
  have i: "vfs_inv (dir_vfs p)" 
    using tiny_vfs_inv [of p] list_update_all [of "replicate MAX_GLOBAL_FILES closed_file" "\<lambda>f. f_is_used f \<longrightarrow> 0 < f_ref f"
        "closed_file\<lparr>f_is_used := True, f_directory := True, f_read := True, f_ref := 1\<rparr>" 0]
    by (simp add: vfs_inv_def dir_vfs_def closed_file_def)
  have f: "vfs_file (dir_vfs p) ! nat 0 = closed_file\<lparr>f_is_used := True, f_directory := True, f_read := True, f_ref := 1\<rparr>"
    by (simp add: dir_vfs_def MAX_GLOBAL_FILES_def)
  have r: "rom_instance tiny_ctx (dir_vfs p) = \<lparr>i_used = True, i_device = 0x10001, i_root_inode = 2\<rparr>" "rom_image tiny_ctx (dir_vfs p) = tiny_image"
    by (simp_all add: dir_vfs_def tiny_rom)
  show "\<exists>de'. vfs_read_directory ?t 0 ?de 3 (dir_vfs p) = Some (3, de') \<and> (\<forall>i < 3. strz (d_name (de' ! i)) = [0x61])"
    using vfs_read_directory_repeats [OF s i, of 0 _ 2 "[2]" ?t 3 ?de, OF _ _ f [symmetric]]
    by (simp add: tiny_ctx_sel closed_file_def r tiny_header data_instance_def MAX_GLOBAL_FILES_def) blast
qed

section \<open>Opening a file for reading\<close>

lemma rom_opened:
  assumes "rom_serves c v" "0 \<le> mp" "nat mp < length (vfs_mnt v)"
  shows "rom_serves c (opened fd mp s v)" "rom_instance c (opened fd mp s v) = rom_instance c v"
    "rom_image c (opened fd mp s v) = rom_image c v"
proof -
  let ?v = "opened fd mp s v"
  have m: "ird (vfs_mnt v) (rc_mp c) = Some (rom_mount c v)" using assms(1) by (simp add: rom_serves_def)
  then have r: "0 \<le> rc_mp c" "nat (rc_mp c) < length (vfs_mnt v)" by (auto simp: ird_def rd_def split: if_splits)
  have eq: "mounted_fs (rom_mount c ?v) = mounted_fs (rom_mount c v)" "mounted_instance (rom_mount c ?v) = mounted_instance (rom_mount c v)"
    using r assms(3) by (cases "nat mp = nat (rc_mp c)"; simp add: rom_mount_def opened_def)+
  have m': "ird (vfs_mnt ?v) (rc_mp c) = Some (rom_mount c ?v)" using r by (simp add: rom_mount_def opened_def)
  have k: "v_kernel ?v = v_kernel v" "vfs_type ?v = vfs_type v" by (simp_all add: opened_def)
  show i: "rom_instance c ?v = rom_instance c v" by (simp add: rom_instance_def eq k)
  show im: "rom_image c ?v = rom_image c v" by (simp add: rom_image_def i k)
  have "\<forall>m \<in> set (vfs_mnt ?v). m_is_used m \<longrightarrow> m_dev m \<noteq> i_device (rom_instance c v)"
    using assms list_update_all [of "vfs_mnt v" "\<lambda>m. m_is_used m \<longrightarrow> m_dev m \<noteq> i_device (rom_instance c v)"
        "(vfs_mnt v ! nat mp)\<lparr>m_open_files := m_open_files (vfs_mnt v ! nat mp) + 1\<rparr>" "nat mp"]
    by (simp add: rom_serves_def opened_def)
  then show "rom_serves c ?v" using assms(1) m' by (simp add: rom_serves_def eq i im k fs_type_at_def)
qed

lemma regular_mode:
  assumes "h_byte img j AND 7 = 2"
  shows "S_ISREG (st_mode (romfs_attr img ins j))" "\<not> S_ISDIR (st_mode (romfs_attr img ins j))"
    "\<not> S_ISBLK (st_mode (romfs_attr img ins j))" "\<not> S_ISCHR (st_mode (romfs_attr img ins j))"
proof -
  have "st_mode (romfs_attr img ins j) = 0x8124 \<or> st_mode (romfs_attr img ins j) = 0x816D"
    using assms by (simp add: romfs_attr_def byte_to_mode_def S_IFREG_def Let_def)
  then show "S_ISREG (st_mode (romfs_attr img ins j))" "\<not> S_ISDIR (st_mode (romfs_attr img ins j))"
    "\<not> S_ISBLK (st_mode (romfs_attr img ins j))" "\<not> S_ISCHR (st_mode (romfs_attr img ins j))"
    by (auto simp: S_ISREG_def S_ISDIR_def S_ISBLK_def S_ISCHR_def S_IFMT_def S_IFREG_def S_IFDIR_def S_IFBLK_def S_IFCHR_def)
qed

lemma opened_rom_file:
  assumes "rom_root c v" "vfs_inv v" "file_ok (rom_image c v) j" "h_byte (rom_image c v) j AND 7 = 2" "0 \<le> fd" "nat fd < length (vfs_file v)"
  defines "v' \<equiv> opened fd (rc_mp c) (romfs_attr (rom_image c v) (rom_instance c v) j) v"
  shows "rom_file c fd j v'" "f_pos (vfs_file v' ! nat fd) = 0" "rom_image c v' = rom_image c v"
proof -
  have rs: "rom_serves c v" and mp: "0 \<le> rc_mp c" "nat (rc_mp c) < length (vfs_mnt v)" using assms(1) by (auto simp: rom_root_def)
  then have mp2: "rc_mp c < 2 ^ 31" using assms(2) by (simp add: vfs_inv_def MAX_MOUNT_POINTS_def)
  note o = rom_opened [OF rs mp, of fd "romfs_attr (rom_image c v) (rom_instance c v) j", folded v'_def]
  note m = regular_mode [OF assms(4), of "rom_instance c v"]
  have e: "vfs_file v' ! nat fd = open_entry (rc_mp c) (romfs_attr (rom_image c v) (rom_instance c v) j) ((vfs_file v ! nat fd)\<lparr>f_is_used := True\<rparr>)"
    using assms(6) by (simp add: v'_def opened_def)
  have sz: "0 \<le> h_size (rom_image c v) j" using assms(3) by (simp add: file_ok_def)
  show "f_pos (vfs_file v' ! nat fd) = 0" using m by (simp add: e open_entry_def Let_def)
  show "rom_image c v' = rom_image c v" by (rule o(3))
  have ino: "st_ino (romfs_attr (rom_image c v) (rom_instance c v) j) = j - i_root_inode (rom_instance c v)" by (simp add: romfs_attr_def)
  have fd: "fd < int MAX_GLOBAL_FILES" "nat fd < length (vfs_file v')" using assms(2,5,6) by (auto simp: vfs_inv_def v'_def opened_def)
  have x: "f_is_used (vfs_file v' ! nat fd)" "\<not> f_is_device (vfs_file v' ! nat fd)" "\<not> f_directory (vfs_file v' ! nat fd)" "f_read (vfs_file v' ! nat fd)"
    "data_instance (vfs_file v' ! nat fd) = rc_mp c" "f_inode (vfs_file v' ! nat fd) = j - i_root_inode (rom_instance c v)" "f_pos (vfs_file v' ! nat fd) = 0"
    using m ino sint_small_int [OF mp(1) mp2] unfolding e by (simp_all add: open_entry_def Let_def data_instance_def)
  show "rom_file c fd j v'"
    unfolding rom_file_def Let_def using x sz assms(3,5) fd by (simp add: o)
qed

end
