(* ===== verification/Printf.thy ===== *)
theory Printf
  imports CString
begin

text \<open>
  Formatted output, \<^verbatim>\<open>kernel/util/printf.c\<close>, and the log on top of it, \<^verbatim>\<open>kernel/util/log.c\<close> with the
  output channel \<^verbatim>\<open>kernel/util/kconsole.c\<close>.

  The arguments of a call are a list: 32-bit values (\<^verbatim>\<open>int\<close> and \<^verbatim>\<open>long\<close>), 64-bit values and strings.  Taking an
  argument of another kind, or one that is not there, is undefined.  The output is the sequence of bytes
  handed to \<^verbatim>\<open>kconsole_write\<close>.
\<close>

section \<open>Arguments and state\<close>

datatype VaArg = Arg32 u32 | Arg64 u64 | ArgStr bytes

datatype Length = LENGTH_CHAR | LENGTH_SHORT | LENGTH_INT | LENGTH_LONG | LENGTH_LONG_LONG
  | LENGTH_INTMAX_T | LENGTH_SIZE_T | LENGTH_PTRDIFF_T

text \<open>The variables that a conversion sets, and those that live through the whole call.\<close>

record conv =
  cv_length :: Length
  cv_width :: int
  cv_prefix :: bool
  cv_pad :: u8
  cv_base :: nat

record pf =
  pf_out :: bytes
  pf_args :: "VaArg list"
  pf_num :: u64
  pf_signum :: int

definition emit :: "bytes \<Rightarrow> pf \<Rightarrow> pf" where
  "emit bs st = st\<lparr>pf_out := pf_out st @ bs\<rparr>"

fun va_arg32 :: "pf \<Rightarrow> (u32 \<times> pf) option" where
  "va_arg32 st = (case pf_args st of Arg32 w # as \<Rightarrow> Some (w, st\<lparr>pf_args := as\<rparr>) | _ \<Rightarrow> None)"

fun va_arg64 :: "pf \<Rightarrow> (u64 \<times> pf) option" where
  "va_arg64 st = (case pf_args st of Arg64 w # as \<Rightarrow> Some (w, st\<lparr>pf_args := as\<rparr>) | _ \<Rightarrow> None)"

fun va_argstr :: "pf \<Rightarrow> (bytes \<times> pf) option" where
  "va_argstr st = (case pf_args st of ArgStr s # as \<Rightarrow> Some (s, st\<lparr>pf_args := as\<rparr>) | _ \<Rightarrow> None)"

section \<open>Numbers\<close>

definition digit_char :: "nat \<Rightarrow> u8" where
  "digit_char i = of_nat (if i > 9 then 65 - 10 + i else 48 + i)"

text \<open>
  \<^verbatim>\<open>int_to_string\<close> stores the digits from the end of a buffer of 24 bytes towards its start: \<open>s\<close> is
  what has been stored.
\<close>

function int_to_string :: "nat \<Rightarrow> bytes \<Rightarrow> nat \<Rightarrow> bytes option" where
  "int_to_string n s base =
     (if length s \<ge> 24 then None
      else
        let s = digit_char (n mod base) # s in
        if n div base = 0 then Some s else int_to_string (n div base) s base)"
  by pat_completeness auto

termination
  by (relation "measure (\<lambda>(n, s, base). 24 - length s)") auto

declare int_to_string.simps [simp del]

text \<open>The argument of an unsigned conversion: with \<^verbatim>\<open>j\<close>, \<^verbatim>\<open>z\<close> and \<^verbatim>\<open>t\<close> none is taken and the old value stays.\<close>

definition fetch_unsigned :: "Length \<Rightarrow> pf \<Rightarrow> pf option" where
  "fetch_unsigned len st = (case len of
     LENGTH_CHAR \<Rightarrow> do { (w, st) \<leftarrow> va_arg32 st; Some (st\<lparr>pf_num := ucast (ucast w :: u8)\<rparr>) }
   | LENGTH_SHORT \<Rightarrow> do { (w, st) \<leftarrow> va_arg32 st; Some (st\<lparr>pf_num := ucast (ucast w :: u16)\<rparr>) }
   | LENGTH_INT \<Rightarrow> do { (w, st) \<leftarrow> va_arg32 st; Some (st\<lparr>pf_num := ucast w\<rparr>) }
   | LENGTH_LONG \<Rightarrow> do { (w, st) \<leftarrow> va_arg32 st; Some (st\<lparr>pf_num := ucast w\<rparr>) }
   | LENGTH_LONG_LONG \<Rightarrow> do { (w, st) \<leftarrow> va_arg64 st; Some (st\<lparr>pf_num := w\<rparr>) }
   | _ \<Rightarrow> Some st)"

definition fetch_signed :: "Length \<Rightarrow> pf \<Rightarrow> pf option" where
  "fetch_signed len st = (case len of
     LENGTH_CHAR \<Rightarrow> do { (w, st) \<leftarrow> va_arg32 st; Some (st\<lparr>pf_signum := sint (ucast w :: u8)\<rparr>) }
   | LENGTH_SHORT \<Rightarrow> do { (w, st) \<leftarrow> va_arg32 st; Some (st\<lparr>pf_signum := sint (ucast w :: u16)\<rparr>) }
   | LENGTH_INT \<Rightarrow> do { (w, st) \<leftarrow> va_arg32 st; Some (st\<lparr>pf_signum := sint w\<rparr>) }
   | LENGTH_LONG \<Rightarrow> do { (w, st) \<leftarrow> va_arg32 st; Some (st\<lparr>pf_signum := sint w\<rparr>) }
   | LENGTH_LONG_LONG \<Rightarrow> do { (w, st) \<leftarrow> va_arg64 st; Some (st\<lparr>pf_signum := sint w\<rparr>) }
   | _ \<Rightarrow> Some st)"

text \<open>
  The label \<^verbatim>\<open>print_num\<close>.  A width larger than the number of digits pads; a smaller one (other than zero)
  cuts the number off after that many digits.
\<close>

definition print_num :: "conv \<Rightarrow> pf \<Rightarrow> pf option" where
  "print_num cv st = do {
     s \<leftarrow> int_to_string (unat (pf_num st)) [] (cv_base cv);
     let j = int (length s);
     if cv_width cv = 0 then Some (emit s st)
     else if cv_width cv > j then Some (emit s (emit (replicate (nat (cv_width cv - j)) (cv_pad cv)) st))
     else Some (emit (take (nat (cv_width cv)) s) st) }"

section \<open>The format\<close>

text \<open>The characters that change a conversion: flags, width and length.  A width beyond \<^verbatim>\<open>int\<close> is undefined.\<close>

definition is_modifier :: "u8 \<Rightarrow> bool" where
  "is_modifier c \<longleftrightarrow> c \<in> {35, 104, 108, 106, 122, 116} \<or> (48 \<le> c \<and> c \<le> 57)"

definition modifier :: "u8 \<Rightarrow> conv \<Rightarrow> conv option" where
  "modifier c cv =
     (if c = 35 then Some (cv\<lparr>cv_prefix := True\<rparr>)
      else if c = 48 \<and> cv_width cv = 0 then Some (cv\<lparr>cv_pad := 48\<rparr>)
      else if 48 \<le> c \<and> c \<le> 57 then
        (if cv_width cv * 10 + (uint c - 48) \<ge> 2 ^ 31 then None
         else Some (cv\<lparr>cv_width := cv_width cv * 10 + (uint c - 48)\<rparr>))
      else if c = 104 then
        Some (cv\<lparr>cv_length := (if cv_length cv = LENGTH_SHORT then LENGTH_CHAR else LENGTH_SHORT)\<rparr>)
      else if c = 108 then
        Some (cv\<lparr>cv_length := (if cv_length cv = LENGTH_LONG then LENGTH_LONG_LONG else LENGTH_LONG)\<rparr>)
      else if c = 106 then Some (cv\<lparr>cv_length := LENGTH_INTMAX_T\<rparr>)
      else if c = 122 then Some (cv\<lparr>cv_length := LENGTH_SIZE_T\<rparr>)
      else if c = 116 then Some (cv\<lparr>cv_length := LENGTH_PTRDIFF_T\<rparr>)
      else None)"

text \<open>The characters that end a conversion and print something.\<close>

definition is_conversion :: "u8 \<Rightarrow> bool" where
  "is_conversion c \<longleftrightarrow> c \<in> {111, 112, 120, 88, 117, 100, 105, 115, 99}"

definition convert :: "u8 \<Rightarrow> conv \<Rightarrow> pf \<Rightarrow> pf option" where
  "convert c cv st =
     (if c = 111 then do {
        let st = (if cv_prefix cv then emit [48] st else st);
        st \<leftarrow> fetch_unsigned (cv_length cv) st;
        print_num (cv\<lparr>cv_base := 8\<rparr>) st }
      else if c = 112 \<or> c = 120 \<or> c = 88 then do {
        let cv = (if c = 112 then cv\<lparr>cv_length := LENGTH_LONG, cv_prefix := True\<rparr> else cv);
        let st = (if cv_prefix cv then emit [48, 120] st else st);
        st \<leftarrow> fetch_unsigned (cv_length cv) st;
        print_num (cv\<lparr>cv_base := 16\<rparr>) st }
      else if c = 117 then do {
        st \<leftarrow> fetch_unsigned (cv_length cv) st;
        print_num cv st }
      else if c = 100 \<or> c = 105 then do {
        st \<leftarrow> fetch_signed (cv_length cv) st;
        let st = (if pf_signum st < 0
                  then (emit [45] st)\<lparr>pf_num := word_of_int (- pf_signum st)\<rparr>
                  else st\<lparr>pf_num := word_of_int (pf_signum st)\<rparr>);
        print_num cv st }
      else if c = 115 then do {
        (s, st) \<leftarrow> va_argstr st;
        n \<leftarrow> strlen s;
        Some (emit (take n s) st) }
      else if c = 99 then do {
        (w, st) \<leftarrow> va_arg32 st;
        Some (emit [ucast w] st) }
      else None)"

text \<open>
  The inner loop over a conversion, after the percent sign.  The result is the rest of the format, or
  \<^term>\<open>None\<close> when the format ended inside the conversion.  Characters without a meaning are skipped.
\<close>

fun conversion :: "bytes \<Rightarrow> conv \<Rightarrow> pf \<Rightarrow> (bytes option \<times> pf) option" where
  "conversion [] cv st = None"
| "conversion (c # fmt) cv st =
     (if c = 0 then Some (None, st)
      else if c = 37 then Some (Some fmt, emit [c] st)
      else if is_modifier c then do { cv \<leftarrow> modifier c cv; conversion fmt cv st }
      else if is_conversion c then do { st \<leftarrow> convert c cv st; Some (Some fmt, st) }
      else conversion fmt cv st)"

definition conv_start :: conv where
  "conv_start = \<lparr>cv_length = LENGTH_INT, cv_width = 0, cv_prefix = False, cv_pad = 32, cv_base = 10\<rparr>"

lemma conversion_shorter: "conversion fmt cv st = Some (Some rest, st') \<Longrightarrow> length rest < length fmt"
proof (induction fmt arbitrary: cv)
  case (Cons c fmt)
  then show ?case by (auto split: if_splits bind_splits intro: less_SucI)
qed simp

text \<open>The result is the number of rounds of the outer loop.\<close>

function vprintf_loop :: "bytes \<Rightarrow> int \<Rightarrow> pf \<Rightarrow> (int \<times> pf) option" where
  "vprintf_loop [] i st = None"
| "vprintf_loop (c # fmt) i st =
     (if c = 0 then Some (i, st)
      else if c \<noteq> 37 then vprintf_loop fmt (i + 1) (emit [c] st)
      else do {
        (r, st) \<leftarrow> conversion fmt conv_start st;
        case r of None \<Rightarrow> Some (i, st) | Some fmt \<Rightarrow> vprintf_loop fmt (i + 1) st })"
  by pat_completeness auto

termination
  by (relation "measure (\<lambda>(fmt, i, st). length fmt)") (auto dest: conversion_shorter)

definition vprintf :: "bytes \<Rightarrow> VaArg list \<Rightarrow> (int \<times> bytes) option" where
  "vprintf format va = do {
     (i, st) \<leftarrow> vprintf_loop format 0 \<lparr>pf_out = [], pf_args = va, pf_num = 0, pf_signum = 0\<rparr>;
     Some (i, pf_out st) }"

definition printf :: "bytes \<Rightarrow> VaArg list \<Rightarrow> (int \<times> bytes) option" where
  "printf format va = vprintf format va"

section \<open>The console of the kernel\<close>

text \<open>\<^verbatim>\<open>write\<close> is the function of the \<^verbatim>\<open>CharDev\<close>, \<^term>\<open>None\<close> before \<^verbatim>\<open>kconsole_init\<close>.\<close>

definition kconsole_write :: "(bytes \<Rightarrow> 'w \<Rightarrow> (int \<times> 'w) option) option \<Rightarrow> bytes \<Rightarrow> 'w \<Rightarrow> (int \<times> 'w) option" where
  "kconsole_write kconsole buf w = (case kconsole of Some wrt \<Rightarrow> wrt buf w | None \<Rightarrow> Some (- 1, w))"

definition kconsole_init :: "(bytes \<Rightarrow> 'w \<Rightarrow> (int \<times> 'w) option) \<Rightarrow> (bytes \<Rightarrow> 'w \<Rightarrow> (int \<times> 'w) option) option" where
  "kconsole_init chr = Some chr"

section \<open>The log\<close>

datatype LogLevel = LOG_LEVEL_NONE | LOG_LEVEL_CRITICAL | LOG_LEVEL_ERROR | LOG_LEVEL_WARNING | LOG_LEVEL_INFO
  | LOG_LEVEL_DEBUG | LOG_LEVEL_SPAM

primrec level_no :: "LogLevel \<Rightarrow> nat" where
  "level_no LOG_LEVEL_NONE = 0"
| "level_no LOG_LEVEL_CRITICAL = 1"
| "level_no LOG_LEVEL_ERROR = 2"
| "level_no LOG_LEVEL_WARNING = 3"
| "level_no LOG_LEVEL_INFO = 4"
| "level_no LOG_LEVEL_DEBUG = 5"
| "level_no LOG_LEVEL_SPAM = 6"

primrec logprefix :: "LogLevel \<Rightarrow> bytes" where
  "logprefix LOG_LEVEL_NONE = cstr ''NONE''"
| "logprefix LOG_LEVEL_CRITICAL = cstr ''CRIT''"
| "logprefix LOG_LEVEL_ERROR = cstr ''EROR''"
| "logprefix LOG_LEVEL_WARNING = cstr ''WARN''"
| "logprefix LOG_LEVEL_INFO = cstr ''INFO''"
| "logprefix LOG_LEVEL_DEBUG = cstr ''DBUG''"
| "logprefix LOG_LEVEL_SPAM = cstr ''SPAM''"

definition esc :: "string \<Rightarrow> bytes" where "esc s = 27 # cstr s"

primrec logcolor :: "LogLevel \<Rightarrow> bytes" where
  "logcolor LOG_LEVEL_NONE = esc ''[0m''"
| "logcolor LOG_LEVEL_CRITICAL = esc ''[31m''"
| "logcolor LOG_LEVEL_ERROR = esc ''[1;31m''"
| "logcolor LOG_LEVEL_WARNING = esc ''[1;33m''"
| "logcolor LOG_LEVEL_INFO = esc ''[1;37m''"
| "logcolor LOG_LEVEL_DEBUG = esc ''[37m''"
| "logcolor LOG_LEVEL_SPAM = esc ''[36m''"

text \<open>The format of the tag in front of a message.\<close>

definition log_tag :: bytes where
  "log_tag = 27 # map of_char ''[0m[%s%s'' @ 27 # cstr ''[0m] ''"

definition kprintf :: "LogLevel \<Rightarrow> LogLevel \<Rightarrow> bytes \<Rightarrow> VaArg list \<Rightarrow> (int \<times> bytes) option" where
  "kprintf loglevel level format va =
     (if level_no level > level_no loglevel then Some (- 1, [])
      else do {
        tag \<leftarrow> (if level \<noteq> LOG_LEVEL_NONE
                then map_option snd (printf log_tag [ArgStr (logcolor level), ArgStr (logprefix level)])
                else Some []);
        (ret, out) \<leftarrow> vprintf format va;
        Some (ret, tag @ out) })"

text \<open>The new level and the output.\<close>

definition log_set_level :: "LogLevel \<Rightarrow> (LogLevel \<times> bytes) option" where
  "log_set_level level = do {
     (_, out) \<leftarrow> kprintf level LOG_LEVEL_INFO (map of_char ''Setting loglevel to %s'' @ [10, 0]) [ArgStr (logprefix level)];
     Some (level, out) }"

end
