(* ===== verification/PrintfSpec.thy ===== *)
theory PrintfSpec
  imports Printf
begin

text \<open>
  The formatter writes what the parser of numbers reads: the digits that \<^verbatim>\<open>int_to_string\<close> produces, as a
  reference definition, and the round trip through \<^verbatim>\<open>str_parse_int\<close>.
\<close>

section \<open>Digits\<close>

text \<open>The digits of a number, the most significant first.\<close>

function digits :: "nat \<Rightarrow> nat \<Rightarrow> bytes" where
  "digits base n = (if base \<le> 1 \<or> n div base = 0 then [] else digits base (n div base)) @ [digit_char (n mod base)]"
  by pat_completeness auto

termination
  by (relation "measure snd") (auto intro!: div_less_dividend intro: gr0I)

declare digits.simps [simp del]

lemma digits_nonempty [simp]: "digits base n \<noteq> []"
  by (subst digits.simps) simp

lemma length_digits: "1 < base \<Longrightarrow> n < base ^ k \<Longrightarrow> 0 < k \<Longrightarrow> length (digits base n) \<le> k"
proof (induction base n arbitrary: k rule: digits.induct)
  case (1 base n)
  show ?case
  proof (cases "n div base = 0")
    case True
    then show ?thesis using 1(4) by (subst digits.simps) simp
  next
    case False
    obtain m where m: "k = Suc m" "0 < m"
    proof (cases k)
      case (Suc m)
      have "m \<noteq> 0" using False 1(2,3) Suc by (intro notI) (simp add: div_eq_0_iff)
      then show ?thesis using Suc that by simp
    qed (use 1(4) in simp)
    have "n div base < base ^ m" using 1(2,3) m by (simp add: less_mult_imp_div_less mult.commute)
    then have "length (digits base (n div base)) \<le> m" using 1(1) 1(2) False m(2) by auto
    then show ?thesis using m by (subst digits.simps) simp
  qed
qed

lemma int_to_string_digits:
  "1 < base \<Longrightarrow> length (digits base n) + length s \<le> 24 \<Longrightarrow> int_to_string n s base = Some (digits base n @ s)"
proof (induction base n arbitrary: s rule: digits.induct)
  case (1 base n)
  have d: "digits base n = (if n div base = 0 then [] else digits base (n div base)) @ [digit_char (n mod base)]"
    using 1(2) by (subst digits.simps) simp
  have s: "length s < 24" using 1(3) by (simp add: d split: if_splits)
  show ?case
  proof (cases "n div base = 0")
    case True
    then show ?thesis using s d by (subst int_to_string.simps) simp
  next
    case False
    have "int_to_string (n div base) (digit_char (n mod base) # s) base = Some (digits base (n div base) @ digit_char (n mod base) # s)"
      using 1(1) [OF _ 1(2), of "digit_char (n mod base) # s"] 1(2,3) False d by simp
    then show ?thesis using False s d by (subst int_to_string.simps) (simp add: Let_def)
  qed
qed

section \<open>Reading the digits back\<close>

lemma less_10_cases: "(i::nat) < 10 \<Longrightarrow> i \<in> {0, 1, 2, 3, 4, 5, 6, 7, 8, 9}"
  by (simp add: numeral_eq_Suc less_Suc_eq)

lemma less_16_cases: "(i::nat) < 16 \<Longrightarrow> i \<in> {0, 1, 2, 3, 4, 5, 6, 7, 8, 9, 10, 11, 12, 13, 14, 15}"
  by (simp add: numeral_eq_Suc less_Suc_eq)

lemma sint_digit_char:
  "i < 10 \<Longrightarrow> sint (digit_char i) = 48 + int i"
  "10 \<le> i \<Longrightarrow> i < 16 \<Longrightarrow> sint (digit_char i) = 55 + int i"
  subgoal by (drule less_10_cases) (auto simp: digit_char_def)
  subgoal by (drule less_16_cases) (auto simp: digit_char_def)
  done

lemma parse_dec_step:
  "i < 10 \<Longrightarrow> parse_dec (digit_char i # rest) (Suc k) acc = parse_dec rest k (acc * 10 + of_nat i)"
  by (simp add: sint_digit_char)

lemma or_digit:
  assumes "d < 16"
  shows "push_bit 4 x OR (of_nat d :: u32) = x * 16 + of_nat d"
proof -
  have "(of_nat d :: u32) = take_bit 4 (of_nat d)"
    using assms take_bit_nat_eq_self [of d 4] by (simp add: take_bit_of_nat)
  then have "\<not> bit (of_nat d :: u32) n" if "4 \<le> n" for n
    using that by (metis bit_take_bit_iff not_le)
  then have "push_bit 4 x + (of_nat d :: u32) = push_bit 4 x OR of_nat d"
    by (intro disjunctive_add) (auto simp: bit_push_bit_iff not_le)
  then show ?thesis by (simp add: push_bit_eq_mult)
qed

lemma parse_hex_step:
  assumes "i < 16"
  shows "parse_hex (digit_char i # rest) (Suc k) acc = parse_hex rest k (acc * 16 + of_nat i)"
proof (cases "i < 10")
  case True
  then show ?thesis using or_digit [OF assms, of acc] by (simp add: sint_digit_char)
next
  case False
  then have "(word_of_int (int i) :: u32) = of_nat i" by simp
  then show ?thesis using False or_digit [OF assms, of acc] assms by (simp add: sint_digit_char)
qed

text \<open>A reader that consumes one digit after the other computes the value, modulo the word size.\<close>

lemma parse_number:
  fixes f :: "bytes \<Rightarrow> nat \<Rightarrow> u32 \<Rightarrow> u32"
  assumes step: "\<And>i rest k acc. i < base \<Longrightarrow> f (digit_char i # rest) (Suc k) acc = f rest k (acc * of_nat base + of_nat i)"
    and base: "1 < base"
  shows "f (digits base n @ rest) (length (digits base n) + k) 0 = f rest k (of_nat n)"
proof (induction n arbitrary: rest k rule: less_induct)
  case (less n)
  have d: "digits base n = (if n div base = 0 then [] else digits base (n div base)) @ [digit_char (n mod base)]"
    using base by (subst digits.simps) simp
  have w: "(of_nat (n div base) :: u32) * of_nat base + of_nat (n mod base) = of_nat n"
    by (metis (no_types) div_mult_mod_eq of_nat_add of_nat_mult)
  have st: "f (digit_char (n mod base) # rest) (Suc k) acc = f rest k (acc * of_nat base + of_nat (n mod base))" for acc
    using base by (intro step) simp
  show ?case
  proof (cases "n div base = 0")
    case True
    then show ?thesis using st [of 0] w by (simp add: d)
  next
    case False
    then have "n div base < n" using base by (intro div_less_dividend) (auto intro: gr0I)
    from less.IH [OF this, of "digit_char (n mod base) # rest" "Suc k"] st show ?thesis
      using False w by (simp add: d)
  qed
qed

lemma hd_digits: "n \<noteq> 0 \<Longrightarrow> hd (digits 10 n) \<noteq> 48"
proof (induction n rule: less_induct)
  case (less n)
  have d: "digits 10 n = (if n div 10 = 0 then [] else digits 10 (n div 10)) @ [digit_char (n mod 10)]"
    by (subst digits.simps) simp
  show ?case
  proof (cases "n div 10 = 0")
    case True
    then have "sint (digit_char (n mod 10)) \<noteq> 48" using less.prems sint_digit_char(1) [of n] by (simp add: div_eq_0_iff)
    then show ?thesis using True by (auto simp: d)
  next
    case False
    then show ?thesis using less.IH [of "n div 10"] by (simp add: d)
  qed
qed

lemma digits_no_nul: "1 < base \<Longrightarrow> base \<le> 16 \<Longrightarrow> 0 \<notin> set (digits base n)"
proof (induction base n rule: digits.induct)
  case (1 base n)
  have "n mod base < 16" using 1(2,3) mod_less_divisor [of base n] by linarith
  then have "sint (digit_char (n mod base)) \<noteq> 0" using sint_digit_char [of "n mod base"] by (cases "n mod base < 10") auto
  then have "digit_char (n mod base) \<noteq> 0" by auto
  then show ?case using 1 by (subst digits.simps) auto
qed

lemma unat_ucast_u64: "unat (ucast (n :: u32) :: u64) = unat n"
  by (simp add: unsigned_ucast_eq take_bit_nat_eq_self_iff) (use unsigned_less [of n, where ?'a = nat] in simp)

lemma print_number:
  assumes "base = 10 \<or> base = 16"
  shows "int_to_string (unat (ucast (n :: u32) :: u64)) [] base = Some (digits base (unat n))" "length (digits base (unat n)) \<le> 10"
proof -
  have n: "unat n < 2 ^ 32" using unsigned_less [of n] by simp
  have "(2::nat) ^ 32 \<le> 10 ^ 10" "(2::nat) ^ 32 \<le> 16 ^ 10" by simp_all
  then have "unat n < base ^ 10" using n assms by (auto intro: less_le_trans)
  then show l: "length (digits base (unat n)) \<le> 10" using assms by (intro length_digits) auto
  show "int_to_string (unat (ucast n :: u64)) [] base = Some (digits base (unat n))"
    using int_to_string_digits [of base "unat n" "[]"] l assms unat_ucast_u64 [of n] by auto
qed

lemmas printf_defs = vprintf_def print_num_def convert_def is_conversion_def is_modifier_def modifier_def conv_start_def
  emit_def fetch_unsigned_def cstr_def

lemma vprintf_u: "vprintf (cstr ''%u'') [Arg32 n] = Some (1, digits 10 (unat n))"
  using print_number(1) [of 10 n] by (simp add: printf_defs of_char_def)

lemma vprintf_x: "vprintf (cstr ''%#x'') [Arg32 n] = Some (1, 48 # 120 # digits 16 (unat n))"
  using print_number(1) [of 16 n] by (simp add: printf_defs of_char_def)

lemma takeWhile_append_no_nul: "0 \<notin> set xs \<Longrightarrow> takeWhile (\<lambda>c. c \<noteq> (0 :: u8)) (xs @ [0]) = xs"
  by (induction xs) auto

lemma parse_decimal_printed: "str_parse_int (digits 10 (unat n) @ [0]) = Some n"
proof (cases "n = 0")
  case False
  let ?d = "digits 10 (unat n)"
  have nz: "0 \<notin> set ?d" by (intro digits_no_nul) auto
  have len: "strnlen (?d @ [0]) 32 = Some (length ?d)"
    using nz print_number(2) [of 10 n] by (simp add: strnlen_eq strz_def takeWhile_append_no_nul)
  have p: "parse_dec (?d @ [0]) (length ?d + 0) 0 = parse_dec [0] 0 (of_nat (unat n))"
    by (intro parse_number) (simp_all add: parse_dec_step del: parse_dec.simps)
  have h: "rd (?d @ [0]) 0 = Some (hd ?d)" by (simp add: rd_def nth_append hd_conv_nth)
  show ?thesis using p h hd_digits [of "unat n"] False by (simp add: str_parse_int_def len unat_eq_0)
next
  case True
  have "str_parse_int (digits 10 0 @ [0]) = Some 0" by code_simp
  then show ?thesis using True by simp
qed

lemma parse_hex_printed: "str_parse_int (48 # 120 # digits 16 (unat n) @ [0]) = Some n"
proof -
  let ?d = "digits 16 (unat n)"
  have nz: "0 \<notin> set ?d" by (intro digits_no_nul) auto
  have len: "strnlen (48 # 120 # ?d @ [0]) 32 = Some (length ?d + 2)"
    using nz print_number(2) [of 16 n] by (simp add: strnlen_eq strz_def takeWhile_append_no_nul)
  have p: "parse_hex (?d @ [0]) (length ?d + 0) 0 = parse_hex [0] 0 (of_nat (unat n))"
    by (intro parse_number) (simp_all add: parse_hex_step del: parse_hex.simps)
  show ?thesis using p by (simp add: str_parse_int_def len rd_def)
qed

section \<open>Properties\<close>

text \<open>
  C12. Printing and reading a number are inverse to each other: the decimal text that the formatter writes
  for an unsigned 32-bit value, and the hexadecimal text with prefix, are read back by the parser of
  the kernel as the same value.
\<close>

theorem printf_parse_roundtrip:
  "\<exists>dec hex. vprintf (cstr ''%u'') [Arg32 n] = Some (1, dec) \<and> str_parse_int (dec @ [0]) = Some n \<and>
     vprintf (cstr ''%#x'') [Arg32 n] = Some (1, hex) \<and> str_parse_int (hex @ [0]) = Some n"
  using parse_decimal_printed [of n] parse_hex_printed [of n] vprintf_u [of n] vprintf_x [of n] by fastforce

text \<open>
  A field width smaller than the number cuts digits off: printing 123 with width 2 prints 12.
\<close>

lemma printf_width_truncates:
  "vprintf (cstr ''%2u'') [Arg32 123] = Some (1, map of_char ''12'')"
  by code_simp

end
