(* ===== verification/Console.thy ===== *)
theory Console
  imports CString
begin

text \<open>
  The terminal, \<^verbatim>\<open>kernel/modules/chardev/console.c\<close> and \<^verbatim>\<open>console.h\<close>: a state machine over the bytes written
  to it, which decodes escape sequences and calls a backend that draws.

  A \<^verbatim>\<open>ConsoleBackend\<close> is a record of functions on the state \<open>'b\<close> of the backend; the backend of the
  console is \<^term>\<open>None\<close> before \<^verbatim>\<open>console_init\<close>, and using it then is undefined.  A \<^verbatim>\<open>char\<close> is signed.
\<close>

section \<open>Data\<close>

datatype ConsoleClearDirection =
    CONSOLE_CLEAR_DIRECTION_FORWARD | CONSOLE_CLEAR_DIRECTION_BACKWARD | CONSOLE_CLEAR_DIRECTION_BOTH

definition CONSOLE_COLOR_BLACK :: u32 where "CONSOLE_COLOR_BLACK = 0"
definition CONSOLE_COLOR_LIGHT_GRAY :: u32 where "CONSOLE_COLOR_LIGHT_GRAY = 7"

record 'b ConsoleBackend =
  be_putc :: "int \<Rightarrow> u32 \<Rightarrow> u32 \<Rightarrow> 'b \<Rightarrow> 'b option"
  be_set_cursor :: "u32 \<Rightarrow> u32 \<Rightarrow> 'b \<Rightarrow> 'b option"
  be_get_cursor :: "'b \<Rightarrow> u32 \<times> u32"
  be_clear_lines :: "ConsoleClearDirection \<Rightarrow> 'b \<Rightarrow> 'b option"
  be_clear_on_line :: "ConsoleClearDirection \<Rightarrow> 'b \<Rightarrow> 'b option"
  be_scroll_up :: "u32 \<Rightarrow> 'b \<Rightarrow> 'b option"
  be_scroll_down :: "u32 \<Rightarrow> 'b \<Rightarrow> 'b option"

datatype ParseState = PARSE_STATE_ASCII | PARSE_STATE_ESC | PARSE_STATE_CSI | PARSE_STATE_CSI_ARG

record 'b console =
  con_state :: ParseState
  con_arg :: "int list"
  con_argc :: nat
  con_a :: int
  con_backend :: "'b ConsoleBackend option"
  con_bold :: bool
  con_fg :: u32
  con_bg :: u32
  con_saved_x :: u32
  con_saved_y :: u32
  con_screen :: 'b

definition console_static :: "'b \<Rightarrow> 'b console" where
  "console_static b = \<lparr>con_state = PARSE_STATE_ASCII, con_arg = replicate 10 0, con_argc = 0, con_a = 0,
     con_backend = None, con_bold = False, con_fg = CONSOLE_COLOR_LIGHT_GRAY, con_bg = CONSOLE_COLOR_BLACK,
     con_saved_x = 0, con_saved_y = 0, con_screen = b\<rparr>"

definition console_init :: "'b ConsoleBackend \<Rightarrow> 'b console \<Rightarrow> 'b console" where
  "console_init backend con = con\<lparr>con_backend := Some backend\<rparr>"

text \<open>A call of a function of the backend.\<close>

definition backend :: "('b ConsoleBackend \<Rightarrow> 'b \<Rightarrow> 'b option) \<Rightarrow> 'b console \<Rightarrow> 'b console option" where
  "backend f con = do {
     be \<leftarrow> con_backend con;
     b \<leftarrow> f be (con_screen con);
     Some (con\<lparr>con_screen := b\<rparr>) }"

section \<open>Control sequences\<close>

definition reset_attributes :: "'b console \<Rightarrow> 'b console" where
  "reset_attributes con = con\<lparr>con_fg := CONSOLE_COLOR_LIGHT_GRAY, con_bg := CONSOLE_COLOR_BLACK, con_bold := False\<rparr>"

text \<open>The body of the loop over the attributes.\<close>

definition attribute :: "int \<Rightarrow> 'b console \<Rightarrow> 'b console" where
  "attribute a con =
     (if a = 0 then reset_attributes con
      else if a = 1 then con\<lparr>con_bold := True\<rparr>
      else if a = 22 then con\<lparr>con_bold := False\<rparr>
      else if a > 30 \<and> a < 38 then con\<lparr>con_fg := word_of_int (a - 30)\<rparr>
      else if a = 39 then con\<lparr>con_fg := CONSOLE_COLOR_LIGHT_GRAY\<rparr>
      else if a > 40 \<and> a < 48 then con\<lparr>con_bg := word_of_int (a - 40)\<rparr>
      else if a = 49 then con\<lparr>con_bg := CONSOLE_COLOR_BLACK\<rparr>
      else con)"

definition clear_dir :: "nat \<Rightarrow> int list \<Rightarrow> ConsoleClearDirection" where
  "clear_dir argc arg =
     (if argc = 0 \<or> arg ! 0 = 0 then CONSOLE_CLEAR_DIRECTION_FORWARD
      else if arg ! 0 = 1 then CONSOLE_CLEAR_DIRECTION_BACKWARD
      else CONSOLE_CLEAR_DIRECTION_BOTH)"

text \<open>
  \<^verbatim>\<open>_csi\<close>.  The array of arguments has ten entries, of which the first \<open>argc\<close> are set; the moves are
  computed in unsigned arithmetic and wrap around.
\<close>

definition csi :: "u8 \<Rightarrow> nat \<Rightarrow> int list \<Rightarrow> 'b console \<Rightarrow> 'b console option" where
  "csi cmd argc arg con = do {
     let delta = (if argc > 0 \<and> arg ! 0 > 0 then arg ! 0 else 1);
     be \<leftarrow> con_backend con;
     let (x, y) = be_get_cursor be (con_screen con);
     let d = (word_of_int delta :: u32);
     if cmd = of_char (CHR ''A'') then
       (if y \<noteq> 0 then backend (\<lambda>be. be_set_cursor be x (y - d)) con else Some con)
     else if cmd = of_char (CHR ''B'') then backend (\<lambda>be. be_set_cursor be x (y + d)) con
     else if cmd = of_char (CHR ''C'') then backend (\<lambda>be. be_set_cursor be (x + d) y) con
     else if cmd = of_char (CHR ''D'') then
       (if x \<noteq> 0 then backend (\<lambda>be. be_set_cursor be (x - d) y) con else Some con)
     else if cmd = of_char (CHR ''E'') then backend (\<lambda>be. be_set_cursor be 0 (y + d)) con
     else if cmd = of_char (CHR ''F'') then
       backend (\<lambda>be. be_set_cursor be 0 ((if y = 0 then 1 else y) - d)) con
     else if cmd = of_char (CHR ''G'') then backend (\<lambda>be. be_set_cursor be (d - 1) y) con
     else if cmd = of_char (CHR ''f'') \<or> cmd = of_char (CHR ''H'') then do {
       con \<leftarrow> (if argc = 0 then backend (\<lambda>be. be_set_cursor be 1 1) con else Some con);
       if argc = 1 then backend (\<lambda>be. be_set_cursor be x (d - 1)) con
       else backend (\<lambda>be. be_set_cursor be (if arg ! 1 > 0 then word_of_int (arg ! 1 - 1) else 0) (d - 1)) con }
     else if cmd = of_char (CHR ''J'') then backend (\<lambda>be. be_clear_lines be (clear_dir argc arg)) con
     else if cmd = of_char (CHR ''K'') then backend (\<lambda>be. be_clear_on_line be (clear_dir argc arg)) con
     else if cmd = of_char (CHR ''S'') then backend (\<lambda>be. be_scroll_up be d) con
     else if cmd = of_char (CHR ''T'') then backend (\<lambda>be. be_scroll_down be d) con
     else if cmd = of_char (CHR ''s'') then Some (con\<lparr>con_saved_x := x, con_saved_y := y\<rparr>)
     else if cmd = of_char (CHR ''u'') then backend (\<lambda>be. be_set_cursor be (con_saved_x con) (con_saved_y con)) con
     else if cmd = of_char (CHR ''m'') then
       Some (if argc = 0 then reset_attributes con else fold attribute (take argc arg) con)
     else Some con }"

section \<open>The state machine\<close>

text \<open>
  The end of an argument: \<^verbatim>\<open>arg[argc]\<close> is stored before \<^verbatim>\<open>argc\<close> is compared with ten, so an eleventh
  argument is stored outside the array.
\<close>

definition end_arg :: "int \<Rightarrow> 'b console \<Rightarrow> 'b console option" where
  "end_arg v con = do {
     arg \<leftarrow> wr (con_arg con) (con_argc con) v;
     Some (con\<lparr>con_arg := arg, con_argc := (if con_argc con < 10 then con_argc con + 1 else con_argc con), con_a := 0\<rparr>) }"

text \<open>The last case of the switch, which the case before it falls into.  An argument beyond \<^verbatim>\<open>int\<close> is undefined.\<close>

definition csi_arg :: "u8 \<Rightarrow> 'b console \<Rightarrow> 'b console option" where
  "csi_arg c con =
     (if c = of_char (CHR '';'') then do {
        con \<leftarrow> end_arg (con_a con) con;
        Some (con\<lparr>con_state := PARSE_STATE_CSI\<rparr>) }
      else if isdigit (sint c) = 0 then do {
        con \<leftarrow> end_arg (con_a con) con;
        let con = con\<lparr>con_state := PARSE_STATE_ASCII\<rparr>;
        csi c (con_argc con) (con_arg con) con }
      else
        let a = con_a con * 10 + (uint c - 48) in
        if a \<ge> 2 ^ 31 then None else Some (con\<lparr>con_a := a\<rparr>))"

definition console_byte :: "u8 \<Rightarrow> 'b console \<Rightarrow> 'b console option" where
  "console_byte c con =
     (case con_state con of
        PARSE_STATE_ASCII \<Rightarrow>
          (if c = 27 then Some (con\<lparr>con_state := PARSE_STATE_ESC\<rparr>)
           else backend (\<lambda>be. be_putc be (sint c) (con_fg con + (if con_bold con then 8 else 0)) (con_bg con)) con)
      | PARSE_STATE_ESC \<Rightarrow>
          Some (if c = of_char (CHR ''['') then con\<lparr>con_state := PARSE_STATE_CSI, con_argc := 0, con_a := 0\<rparr>
                else con\<lparr>con_state := PARSE_STATE_ASCII\<rparr>)
      | PARSE_STATE_CSI \<Rightarrow>
          (if c = of_char (CHR '';'') then end_arg (- 1) con
           else if isdigit (sint c) = 0 then do {
             con \<leftarrow> end_arg (- 1) con;
             let con = con\<lparr>con_state := PARSE_STATE_ASCII\<rparr>;
             csi c (con_argc con) (con_arg con) con }
           else csi_arg c (con\<lparr>con_state := PARSE_STATE_CSI_ARG\<rparr>))
      | PARSE_STATE_CSI_ARG \<Rightarrow> csi_arg c con)"

fun console_bytes :: "bytes \<Rightarrow> 'b console \<Rightarrow> 'b console option" where
  "console_bytes [] con = Some con"
| "console_bytes (c # cs) con = do { con \<leftarrow> console_byte c con; console_bytes cs con }"

text \<open>\<^verbatim>\<open>_write\<close>; the count is the length of the buffer, returned as a signed number.\<close>

definition console_write :: "bytes \<Rightarrow> 'b console \<Rightarrow> (int \<times> 'b console) option" where
  "console_write buf con = do {
     con \<leftarrow> console_bytes buf con;
     Some (sint (of_nat (length buf) :: u32), con) }"

end
