(* ===== verification/ConsoleFb.thy ===== *)
theory ConsoleFb
  imports Console
begin

text \<open>
  The frame-buffer backend of the terminal, \<^verbatim>\<open>kernel/modules/chardev/console-fb.c\<close>.

  The frame buffer and the font are byte arrays; the scrolling functions move 32-bit words of the frame
  buffer.  All sizes and positions are unsigned 32-bit numbers that wrap around; an access outside an
  array is undefined.
\<close>

section \<open>State\<close>

record fbcon =
  fb_mem :: bytes
  font :: bytes
  w_pixels :: u32
  h_pixels :: u32
  w_chars :: u32
  h_chars :: u32
  w_font :: u32
  h_font :: u32
  cursor_x :: u32
  cursor_y :: u32
  cmap :: bytes

definition fbcon_static :: fbcon where
  "fbcon_static = \<lparr>fb_mem = [], font = [], w_pixels = 800, h_pixels = 480, w_chars = 100, h_chars = 30,
     w_font = 8, h_font = 16, cursor_x = 0, cursor_y = 0, cmap = map of_nat [0..<16]\<rparr>"

text \<open>\<open>map16\<close> is the optional colour map, of which sixteen entries are read.  A font without extent is undefined.\<close>

definition console_fb_init ::
  "bytes \<Rightarrow> u32 \<Rightarrow> u32 \<Rightarrow> bytes \<Rightarrow> u32 \<Rightarrow> u32 \<Rightarrow> bytes option \<Rightarrow> fbcon \<Rightarrow> fbcon option" where
  "console_fb_init mem w h fnt font_w font_h map16 fb =
     (if font_w = 0 \<or> font_h = 0 then None
      else do {
        let fb = fb\<lparr>fb_mem := mem, w_pixels := w, h_pixels := h, font := fnt, w_font := font_w, h_font := font_h,
                    w_chars := w div font_w, h_chars := h div font_h\<rparr>;
        case map16 of
          None \<Rightarrow> Some fb
        | Some m \<Rightarrow> for_loop [0..<16] (\<lambda>i fb. do {
            c \<leftarrow> rd m i;
            cm \<leftarrow> wr (cmap fb) i c;
            Some (fb\<lparr>cmap := cm\<rparr>) }) fb })"

section \<open>Clearing and scrolling\<close>

definition put_pixel :: "nat \<Rightarrow> u8 \<Rightarrow> fbcon \<Rightarrow> fbcon option" where
  "put_pixel i v fb = map_option (\<lambda>m. fb\<lparr>fb_mem := m\<rparr>) (wr (fb_mem fb) i v)"

definition clear_lines :: "ConsoleClearDirection \<Rightarrow> fbcon \<Rightarrow> fbcon option" where
  "clear_lines dir fb =
     (let at = cursor_y fb * h_font fb * w_pixels fb;
          first = (if dir = CONSOLE_CLEAR_DIRECTION_FORWARD then at else 0);
          stop = (if dir = CONSOLE_CLEAR_DIRECTION_BACKWARD then at else w_pixels fb * h_pixels fb)
      in for_loop [unat first..<unat stop] (\<lambda>i. put_pixel i 0) fb)"

definition clear_on_line :: "ConsoleClearDirection \<Rightarrow> fbcon \<Rightarrow> fbcon option" where
  "clear_on_line dir fb = Some fb"

text \<open>Reading and writing the frame buffer as an array of 32-bit words.\<close>

definition fb_word :: "nat \<Rightarrow> fbcon \<Rightarrow> bytes option" where
  "fb_word i fb = (if 4 * i + 4 \<le> length (fb_mem fb) then Some (take 4 (drop (4 * i) (fb_mem fb))) else None)"

definition put_fb_word :: "nat \<Rightarrow> bytes \<Rightarrow> fbcon \<Rightarrow> fbcon option" where
  "put_fb_word i bs fb =
     (if 4 * i + 4 \<le> length (fb_mem fb)
      then Some (fb\<lparr>fb_mem := take (4 * i) (fb_mem fb) @ bs @ drop (4 * i + 4) (fb_mem fb)\<rparr>) else None)"

definition zero_word :: bytes where "zero_word = [0, 0, 0, 0]"

text \<open>\<^verbatim>\<open>for(i = from; i >= offset; i--) fb_mem[i] = fb_mem[i - offset];\<close>\<close>

partial_function (option) scroll_down_loop :: "u32 \<Rightarrow> u32 \<Rightarrow> fbcon \<Rightarrow> fbcon option" where
  "scroll_down_loop i offset fb =
     (if i < offset then Some fb
      else do {
        w \<leftarrow> fb_word (unat (i - offset)) fb;
        fb \<leftarrow> put_fb_word (unat i) w fb;
        scroll_down_loop (i - 1) offset fb })"

definition scroll_down :: "u32 \<Rightarrow> fbcon \<Rightarrow> fbcon option" where
  "scroll_down lines fb = do {
     let offset = lines * h_font fb * w_pixels fb div 4;
     fb \<leftarrow> scroll_down_loop (w_pixels fb * h_pixels fb div 4 - 1) offset fb;
     for_loop [0..<unat offset] (\<lambda>i. put_fb_word i zero_word) fb }"

definition scroll_up :: "u32 \<Rightarrow> fbcon \<Rightarrow> fbcon option" where
  "scroll_up lines fb = do {
     let offset = lines * h_font fb * w_pixels fb div 4;
     let total = w_pixels fb * h_pixels fb div 4;
     fb \<leftarrow> for_loop [unat offset..<unat total] (\<lambda>i fb. do {
        w \<leftarrow> fb_word i fb;
        put_fb_word (i - unat offset) w fb }) fb;
     for_loop [unat (total - offset)..<unat total] (\<lambda>i. put_fb_word i zero_word) fb }"

section \<open>Drawing\<close>

text \<open>One row of a glyph: \<open>data\<close> holds its pixels, the leftmost in the lowest bit.\<close>

definition draw_row :: "u32 \<Rightarrow> u32 \<Rightarrow> u32 \<Rightarrow> u32 \<Rightarrow> u32 \<Rightarrow> fbcon \<Rightarrow> fbcon option" where
  "draw_row row_i col data fg bg fb =
     for_loop [0..<unat (w_font fb)] (\<lambda>j fb. do {
       v \<leftarrow> rd (cmap fb) (unat (if bit data j then fg else bg));
       put_pixel (unat (row_i * w_pixels fb + col + of_nat j)) v fb }) fb"

definition putc_raw :: "int \<Rightarrow> u32 \<Rightarrow> u32 \<Rightarrow> fbcon \<Rightarrow> fbcon option" where
  "putc_raw c fg bg fb = do {
     let col = cursor_x fb * w_font fb;
     let row = cursor_y fb * h_font fb;
     fb \<leftarrow> for_loop [0..<unat (h_font fb)] (\<lambda>i fb. do {
        data \<leftarrow> rd (font fb) (unat (word_of_int c * h_font fb + of_nat i));
        draw_row (row + of_nat i) col (ucast data) fg bg fb }) fb;
     let fb = fb\<lparr>cursor_x := cursor_x fb + 1\<rparr>;
     let fb = (if cursor_x fb \<ge> w_chars fb then fb\<lparr>cursor_y := cursor_y fb + 1, cursor_x := 0\<rparr> else fb);
     if cursor_y fb \<ge> h_chars fb then do {
       fb \<leftarrow> scroll_up 1 fb;
       Some (fb\<lparr>cursor_y := h_chars fb - 1\<rparr>) }
     else Some fb }"

definition fb_putc :: "int \<Rightarrow> u32 \<Rightarrow> u32 \<Rightarrow> fbcon \<Rightarrow> fbcon option" where
  "fb_putc c fg bg fb =
     (if c = 10 then do {
        let fb = fb\<lparr>cursor_x := 0, cursor_y := cursor_y fb + 1\<rparr>;
        if cursor_y fb = h_chars fb then do {
          fb \<leftarrow> scroll_up 1 fb;
          Some (fb\<lparr>cursor_y := cursor_y fb - 1\<rparr>) }
        else Some fb }
      else if c = 13 then Some (fb\<lparr>cursor_x := 0\<rparr>)
      else putc_raw c fg bg fb)"

text \<open>A width or height of the largest unsigned number makes the divisor zero: undefined.\<close>

definition set_cursor :: "u32 \<Rightarrow> u32 \<Rightarrow> fbcon \<Rightarrow> fbcon option" where
  "set_cursor x y fb =
     (if w_chars fb + 1 = 0 \<or> h_chars fb + 1 = 0 then None
      else Some (fb\<lparr>cursor_x := x mod (w_chars fb + 1), cursor_y := y mod (h_chars fb + 1)\<rparr>))"

definition get_cursor :: "fbcon \<Rightarrow> u32 \<times> u32" where
  "get_cursor fb = (cursor_x fb, cursor_y fb)"

definition console_fb :: "fbcon ConsoleBackend" where
  "console_fb = \<lparr>be_putc = fb_putc, be_set_cursor = set_cursor, be_get_cursor = get_cursor,
     be_clear_lines = clear_lines, be_clear_on_line = clear_on_line, be_scroll_up = scroll_up,
     be_scroll_down = scroll_down\<rparr>"

end
