(* ===== verification/ConsoleFbSpec.thy ===== *)
theory ConsoleFbSpec
  imports ConsoleFb
begin

text \<open>
  The frame buffer: the invariant that \<^verbatim>\<open>console_fb_init\<close> sets up, what scrolling does to the memory, and what
  drawing a glyph does, pixel by pixel.
\<close>

section \<open>The frame buffer\<close>

text \<open>
  What \<^verbatim>\<open>console_fb_init\<close> sets up: the text cells fit the screen, the frame buffer has its size, the
  font has the 128 characters of ASCII and the colour map sixteen entries.
\<close>

definition fb_ok :: "fbcon \<Rightarrow> bool" where
  "fb_ok fb \<longleftrightarrow> 0 < unat (w_font fb) \<and> 0 < unat (h_font fb) \<and> 0 < unat (w_chars fb) \<and> 0 < unat (h_chars fb) \<and>
     unat (w_chars fb) * unat (w_font fb) \<le> unat (w_pixels fb) \<and> unat (h_chars fb) * unat (h_font fb) \<le> unat (h_pixels fb) \<and>
     unat (w_pixels fb) * unat (h_pixels fb) < 2 ^ 31 \<and> length (fb_mem fb) = unat (w_pixels fb) * unat (h_pixels fb) \<and>
     128 * unat (h_font fb) < 2 ^ 32 \<and> 128 * unat (h_font fb) \<le> length (font fb) \<and> length (cmap fb) = 16"

definition cursor_ok :: "fbcon \<Rightarrow> bool" where
  "cursor_ok fb \<longleftrightarrow> unat (cursor_x fb) < unat (w_chars fb) \<and> unat (cursor_y fb) < unat (h_chars fb)"

definition pixel :: "fbcon \<Rightarrow> nat \<Rightarrow> nat \<Rightarrow> u8" where
  "pixel fb x y = fb_mem fb ! (y * unat (w_pixels fb) + x)"

lemma put_pixel_Some [simp]: "i < length (fb_mem fb) \<Longrightarrow> put_pixel i v fb = Some (fb\<lparr>fb_mem := (fb_mem fb)[i := v]\<rparr>)"
  by (simp add: put_pixel_def)

text \<open>A loop that only stores to the frame buffer: the updates one after the other.\<close>

lemma for_loop_mem:
  assumes "\<And>i m. i < n \<Longrightarrow> length m = length m0 \<Longrightarrow> body i (fb\<lparr>fb_mem := m\<rparr>) = Some (fb\<lparr>fb_mem := g i m\<rparr>) \<and> length (g i m) = length m"
  shows "for_loop [0..<n] body (fb\<lparr>fb_mem := m0\<rparr>) = Some (fb\<lparr>fb_mem := fold g [0..<n] m0\<rparr>) \<and> length (fold g [0..<n] m0) = length m0"
  using assms
proof (induction n)
  case (Suc n)
  then have IH: "for_loop [0..<n] body (fb\<lparr>fb_mem := m0\<rparr>) = Some (fb\<lparr>fb_mem := fold g [0..<n] m0\<rparr>)"
    "length (fold g [0..<n] m0) = length m0" by simp_all
  show ?case using Suc.prems [OF lessI IH(2)] IH by (simp add: for_loop_append)
qed simp

text \<open>Stores to consecutive places.\<close>

lemma length_fold_stores [simp]: "length (fold (\<lambda>j m. m[b + j := v j]) [0..<n] m) = length m"
  by (induction n) auto

lemma nth_fold_stores:
  "b + n \<le> length m \<Longrightarrow> p < length m \<Longrightarrow>
   fold (\<lambda>j m. m[b + j := v j]) [0..<n] m ! p = (if b \<le> p \<and> p < b + n then v (p - b) else m ! p)"
  by (induction n) (auto simp: nth_list_update less_Suc_eq)

section \<open>Drawing a character\<close>

definition glyph_color :: "fbcon \<Rightarrow> nat \<Rightarrow> u32 \<Rightarrow> u32 \<Rightarrow> nat \<Rightarrow> nat \<Rightarrow> u8" where
  "glyph_color fb c fg bg j i =
     cmap fb ! unat (if bit (font fb ! (c * unat (h_font fb) + i)) j then fg else bg)"

text \<open>Row \<open>i\<close> of the glyph in the cell under the cursor, as stores to the memory.\<close>

definition row_mem :: "fbcon \<Rightarrow> nat \<Rightarrow> u32 \<Rightarrow> u32 \<Rightarrow> nat \<Rightarrow> bytes \<Rightarrow> bytes" where
  "row_mem fb c fg bg i m = fold (\<lambda>j m. m[(unat (cursor_y fb) * unat (h_font fb) + i) * unat (w_pixels fb)
       + unat (cursor_x fb) * unat (w_font fb) + j := glyph_color fb c fg bg j i]) [0..<unat (w_font fb)] m"

lemma cell_bounds:
  assumes "fb_ok fb" "cursor_ok fb" "i < unat (h_font fb)"
  shows "unat (cursor_y fb) * unat (h_font fb) + i < unat (h_pixels fb)"
    "unat (cursor_x fb) * unat (w_font fb) + unat (w_font fb) \<le> unat (w_pixels fb)"
proof -
  have "Suc (unat (cursor_y fb)) * unat (h_font fb) \<le> unat (h_chars fb) * unat (h_font fb)"
    "Suc (unat (cursor_x fb)) * unat (w_font fb) \<le> unat (w_chars fb) * unat (w_font fb)"
    using assms(2) by (intro mult_right_mono; simp add: cursor_ok_def)+
  then show "unat (cursor_y fb) * unat (h_font fb) + i < unat (h_pixels fb)"
    "unat (cursor_x fb) * unat (w_font fb) + unat (w_font fb) \<le> unat (w_pixels fb)"
    using assms(1,3) unfolding fb_ok_def mult_Suc by linarith+
qed

lemma row_bound:
  assumes "fb_ok fb" "cursor_ok fb" "i < unat (h_font fb)"
  shows "(unat (cursor_y fb) * unat (h_font fb) + i) * unat (w_pixels fb)
       + unat (cursor_x fb) * unat (w_font fb) + unat (w_font fb) \<le> unat (w_pixels fb) * unat (h_pixels fb)"
proof -
  have "Suc (unat (cursor_y fb) * unat (h_font fb) + i) * unat (w_pixels fb) \<le> unat (h_pixels fb) * unat (w_pixels fb)"
    using cell_bounds(1) [OF assms] by (intro mult_right_mono) simp_all
  then show ?thesis using cell_bounds(2) [OF assms] unfolding mult_Suc by (simp add: mult.commute)
qed

lemma unat_of_nat_small: "n < 2 ^ 32 \<Longrightarrow> unat (of_nat n :: u32) = n"
  by (simp add: unat_of_nat)

lemma fb_sel: "w_font (fb\<lparr>fb_mem := m\<rparr>) = w_font fb" "h_font (fb\<lparr>fb_mem := m\<rparr>) = h_font fb"
  by simp_all

lemma draw_row_mem:
  assumes "fb_ok fb" "cursor_ok fb" "i < unat (h_font fb)" "0 \<le> c" "c < 128" "fg < 16" "bg < 16"
    "length m = length (fb_mem fb)"
  shows "draw_row (cursor_y fb * h_font fb + of_nat i) (cursor_x fb * w_font fb)
       (ucast (font fb ! (nat c * unat (h_font fb) + i))) fg bg (fb\<lparr>fb_mem := m\<rparr>) =
     Some (fb\<lparr>fb_mem := row_mem fb (nat c) fg bg i m\<rparr>)" (is "?draw = _")
    "length (row_mem fb (nat c) fg bg i m) = length m"
proof -
  let ?b = "(unat (cursor_y fb) * unat (h_font fb) + i) * unat (w_pixels fb) + unat (cursor_x fb) * unat (w_font fb)"
  have len: "length m = unat (w_pixels fb) * unat (h_pixels fb)" "length m < 2 ^ 31" "length (cmap fb) = 16"
    using assms(1,8) by (auto simp: fb_ok_def)
  have ix: "unat ((cursor_y fb * h_font fb + of_nat i) * w_pixels fb + cursor_x fb * w_font fb + of_nat j) = ?b + j"
    if "j < unat (w_font fb)" for j
  proof -
    have "(cursor_y fb * h_font fb + of_nat i) * w_pixels fb + cursor_x fb * w_font fb + of_nat j = of_nat (?b + j)" by simp
    then show ?thesis
      using unat_of_nat_small [of "?b + j"] that row_bound [OF assms(1-3)] len by simp
  qed
  have cm: "unat fg < 16" "unat bg < 16" using assms(6,7) by (simp_all add: word_less_nat_alt)
  have "?draw = Some (fb\<lparr>fb_mem := row_mem fb (nat c) fg bg i m\<rparr>) \<and> length (row_mem fb (nat c) fg bg i m) = length m"
    unfolding draw_row_def row_mem_def fb_sel
    by (rule for_loop_mem)
      (use ix row_bound [OF assms(1-3)] len cm in \<open>auto simp: glyph_color_def bit_simps dest: bit_imp_le_length\<close>)
  then show "?draw = Some (fb\<lparr>fb_mem := row_mem fb (nat c) fg bg i m\<rparr>)" "length (row_mem fb (nat c) fg bg i m) = length m"
    by simp_all
qed

definition glyph_mem :: "fbcon \<Rightarrow> nat \<Rightarrow> u32 \<Rightarrow> u32 \<Rightarrow> bytes" where
  "glyph_mem fb c fg bg = fold (row_mem fb c fg bg) [0..<unat (h_font fb)] (fb_mem fb)"

text \<open>The cell of the cursor, in pixels.\<close>

definition in_cell :: "fbcon \<Rightarrow> nat \<Rightarrow> nat \<Rightarrow> bool" where
  "in_cell fb x y \<longleftrightarrow>
     unat (cursor_x fb) * unat (w_font fb) \<le> x \<and> x < unat (cursor_x fb) * unat (w_font fb) + unat (w_font fb) \<and>
     unat (cursor_y fb) * unat (h_font fb) \<le> y \<and> y < unat (cursor_y fb) * unat (h_font fb) + unat (h_font fb)"

lemma nth_row_mem:
  assumes "fb_ok fb" "cursor_ok fb" "i < unat (h_font fb)" "length m = length (fb_mem fb)" "x < unat (w_pixels fb)" "y < unat (h_pixels fb)"
  shows "row_mem fb c fg bg i m ! (y * unat (w_pixels fb) + x) =
    (if in_cell fb x y \<and> y = unat (cursor_y fb) * unat (h_font fb) + i
     then glyph_color fb c fg bg (x - unat (cursor_x fb) * unat (w_font fb)) i
     else m ! (y * unat (w_pixels fb) + x))"
proof -
  let ?W = "unat (w_pixels fb)" and ?C = "unat (cursor_x fb) * unat (w_font fb)"
  let ?r = "unat (cursor_y fb) * unat (h_font fb) + i"
  have len: "length m = ?W * unat (h_pixels fb)" using assms(1,4) by (simp add: fb_ok_def)
  have "Suc y * ?W \<le> unat (h_pixels fb) * ?W" using assms(6) by (intro mult_right_mono) simp_all
  then have p: "y * ?W + x < length m" using assms(5) by (simp add: len mult.commute)
  have C: "?C + unat (w_font fb) \<le> ?W" by (rule cell_bounds(2) [OF assms(1-3)])
  have eq: "?r * ?W + ?C \<le> y * ?W + x \<and> y * ?W + x < ?r * ?W + ?C + unat (w_font fb) \<longleftrightarrow>
      y = ?r \<and> ?C \<le> x \<and> x < ?C + unat (w_font fb)"
  proof (cases y ?r rule: linorder_cases)
    case less
    then have "Suc y * ?W \<le> ?r * ?W" by (intro mult_right_mono) simp_all
    then show ?thesis using less assms(5) by simp
  next
    case greater
    then have "Suc ?r * ?W \<le> y * ?W" by (intro mult_right_mono) simp_all
    then show ?thesis using greater C by simp
  qed auto
  have "row_mem fb c fg bg i m ! (y * ?W + x) =
    (if ?r * ?W + ?C \<le> y * ?W + x \<and> y * ?W + x < ?r * ?W + ?C + unat (w_font fb)
     then glyph_color fb c fg bg (y * ?W + x - (?r * ?W + ?C)) i else m ! (y * ?W + x))"
    unfolding row_mem_def using row_bound [OF assms(1-3)] p len
    by (intro nth_fold_stores [where b = "?r * ?W + ?C"]) simp_all
  then show ?thesis unfolding eq using assms(3) by (auto simp: in_cell_def)
qed

lemma nth_glyph_mem:
  assumes "fb_ok fb" "cursor_ok fb" "x < unat (w_pixels fb)" "y < unat (h_pixels fb)" "n \<le> unat (h_font fb)"
  shows "length (fold (row_mem fb c fg bg) [0..<n] (fb_mem fb)) = length (fb_mem fb)"
    "fold (row_mem fb c fg bg) [0..<n] (fb_mem fb) ! (y * unat (w_pixels fb) + x) =
    (if in_cell fb x y \<and> y < unat (cursor_y fb) * unat (h_font fb) + n
     then glyph_color fb c fg bg (x - unat (cursor_x fb) * unat (w_font fb)) (y - unat (cursor_y fb) * unat (h_font fb))
     else pixel fb x y)"
  using assms(5)
proof (induction n)
  case 0
  { case 1 show ?case by simp }
  { case 2 show ?case by (auto simp: pixel_def in_cell_def) }
next
  case (Suc n)
  { case 1 then show ?case using Suc(1) by (simp add: row_mem_def) }
  { case 2
    then show ?case using nth_row_mem [OF assms(1,2) _ Suc(1) assms(3,4)] Suc(2) by (auto simp: in_cell_def less_Suc_eq) }
qed

section \<open>Scrolling\<close>

lemma fb_word_put:
  assumes "4 * i + 4 \<le> length (fb_mem fb)" "length bs = 4"
  shows "put_fb_word i bs fb = Some (fb\<lparr>fb_mem := take (4 * i) (fb_mem fb) @ bs @ drop (4 * i + 4) (fb_mem fb)\<rparr>)"
    and "length (take (4 * i) (fb_mem fb) @ bs @ drop (4 * i + 4) (fb_mem fb)) = length (fb_mem fb)"
    and "(take (4 * i) (fb_mem fb) @ bs @ drop (4 * i + 4) (fb_mem fb)) ! p =
      (if 4 * i \<le> p \<and> p < 4 * i + 4 then bs ! (p - 4 * i) else fb_mem fb ! p)"
  using assms by (auto simp: put_fb_word_def nth_append not_less)

text \<open>Copying the words from \<open>off\<close> on to the start, one after the other, moves them as a block.\<close>

lemma copy_words_up:
  assumes "off \<le> k" "4 * k \<le> length (fb_mem fb)"
  shows "\<exists>M. for_loop [off..<k] (\<lambda>i fb. do { w \<leftarrow> fb_word i fb; put_fb_word (i - off) w fb }) fb = Some (fb\<lparr>fb_mem := M\<rparr>) \<and>
    length M = length (fb_mem fb) \<and> (\<forall>p. M ! p = (if p < 4 * (k - off) then fb_mem fb ! (p + 4 * off) else fb_mem fb ! p))"
  using assms
proof (induction k)
  case 0
  then show ?case by (intro exI [of _ "fb_mem fb"]) simp
next
  case (Suc k)
  show ?case
  proof (cases "off = Suc k")
    case True
    then show ?thesis by (intro exI [of _ "fb_mem fb"]) simp
  next
    case False
    with Suc obtain M where M: "for_loop [off..<k] (\<lambda>i fb. do { w \<leftarrow> fb_word i fb; put_fb_word (i - off) w fb }) fb = Some (fb\<lparr>fb_mem := M\<rparr>)"
      "length M = length (fb_mem fb)" "\<And>p. M ! p = (if p < 4 * (k - off) then fb_mem fb ! (p + 4 * off) else fb_mem fb ! p)"
      by auto
    have off: "off \<le> k" using False Suc(2) by simp
    let ?w = "take 4 (drop (4 * k) M)"
    let ?M = "take (4 * (k - off)) M @ ?w @ drop (4 * (k - off) + 4) M"
    have w: "fb_word k (fb\<lparr>fb_mem := M\<rparr>) = Some ?w" "length ?w = 4" "\<And>q. q < 4 \<Longrightarrow> ?w ! q = fb_mem fb ! (4 * k + q)"
      using Suc(3) M(2,3) by (auto simp: fb_word_def)
    have b: "4 * (k - off) + 4 \<le> length (fb_mem (fb\<lparr>fb_mem := M\<rparr>))" using Suc(3) M(2) by simp
    note put = fb_word_put [OF b w(2)]
    have nth: "?M ! p = (if p < 4 * (Suc k - off) then fb_mem fb ! (p + 4 * off) else fb_mem fb ! p)" for p
    proof (cases "4 * (k - off) \<le> p \<and> p < 4 * (k - off) + 4")
      case True
      then have "4 * k + (p - 4 * (k - off)) = p + 4 * off" "p < 4 * (Suc k - off)" using off by (simp_all add: Suc_diff_le)
      then show ?thesis using True put(3) [of p] w(3) [of "p - 4 * (k - off)"] off by simp
    next
      case False
      then show ?thesis using put(3) [of p] M(3) [of p] off by (auto simp: Suc_diff_le)
    qed
    have "for_loop [off..<Suc k] (\<lambda>i fb. do { w \<leftarrow> fb_word i fb; put_fb_word (i - off) w fb }) fb = Some (fb\<lparr>fb_mem := ?M\<rparr>)"
      using put(1) w(1) off by (simp add: for_loop_append M(1))
    then show ?thesis using nth put(2) M(2) by (intro exI [of _ ?M]) simp
  qed
qed

lemma zero_words:
  assumes "a \<le> b" "4 * b \<le> length (fb_mem fb)"
  shows "\<exists>M. for_loop [a..<b] (\<lambda>i. put_fb_word i zero_word) fb = Some (fb\<lparr>fb_mem := M\<rparr>) \<and>
    length M = length (fb_mem fb) \<and> (\<forall>p. M ! p = (if 4 * a \<le> p \<and> p < 4 * b then 0 else fb_mem fb ! p))"
  using assms
proof (induction b)
  case 0
  then show ?case by (intro exI [of _ "fb_mem fb"]) simp
next
  case (Suc b)
  show ?case
  proof (cases "a = Suc b")
    case True
    then show ?thesis by (intro exI [of _ "fb_mem fb"]) auto
  next
    case False
    with Suc obtain M where M: "for_loop [a..<b] (\<lambda>i. put_fb_word i zero_word) fb = Some (fb\<lparr>fb_mem := M\<rparr>)"
      "length M = length (fb_mem fb)" "\<And>p. M ! p = (if 4 * a \<le> p \<and> p < 4 * b then 0 else fb_mem fb ! p)"
      by auto
    have b: "4 * b + 4 \<le> length (fb_mem (fb\<lparr>fb_mem := M\<rparr>))" using Suc(3) M(2) by simp
    have z: "length zero_word = 4" "\<And>q. q < 4 \<Longrightarrow> zero_word ! q = 0" by (auto simp: zero_word_def less_Suc_eq numeral_eq_Suc)
    note put = fb_word_put [OF b z(1)]
    let ?M = "take (4 * b) M @ zero_word @ drop (4 * b + 4) M"
    have nth: "?M ! p = (if 4 * a \<le> p \<and> p < 4 * Suc b then 0 else fb_mem fb ! p)" for p
      using put(3) [of p] M(3) [of p] z(2) [of "p - 4 * b"] False Suc(2) by auto
    have "for_loop [a..<Suc b] (\<lambda>i. put_fb_word i zero_word) fb = Some (fb\<lparr>fb_mem := ?M\<rparr>)"
      using put(1) False Suc(2) by (simp add: for_loop_append M(1))
    then show ?thesis using nth put(2) M(2) by (intro exI [of _ ?M]) simp
  qed
qed

lemma unat_mult3: "unat a * unat b * unat c < 2 ^ 32 \<Longrightarrow> unat (a * b * (c :: u32)) = unat a * unat b * unat c"
proof -
  assume "unat a * unat b * unat c < 2 ^ 32"
  then have "unat (of_nat (unat a * unat b * unat c) :: u32) = unat a * unat b * unat c" by (rule unat_of_nat_small)
  then show ?thesis by simp
qed

lemma unat_mult2: "unat a * unat b < 2 ^ 32 \<Longrightarrow> unat (a * (b :: u32)) = unat a * unat b"
  using unat_mult3 [of 1 a b] by simp

lemma scroll_up_mem:
  assumes "fb_ok fb" "unat lines * unat (h_font fb) \<le> unat (h_pixels fb)"
  defines "off \<equiv> unat lines * unat (h_font fb) * unat (w_pixels fb) div 4"
    and "tot \<equiv> unat (w_pixels fb) * unat (h_pixels fb) div 4"
  shows "\<exists>M. scroll_up lines fb = Some (fb\<lparr>fb_mem := M\<rparr>) \<and> length M = length (fb_mem fb) \<and>
    (\<forall>p < length (fb_mem fb). M ! p =
      (if p < 4 * (tot - off) then fb_mem fb ! (p + 4 * off) else if p < 4 * tot then 0 else fb_mem fb ! p))"
proof -
  have le: "unat lines * unat (h_font fb) * unat (w_pixels fb) \<le> unat (w_pixels fb) * unat (h_pixels fb)"
    using mult_right_mono [OF assms(2), of "unat (w_pixels fb)"] by (simp add: mult.commute)
  have lt: "unat (w_pixels fb) * unat (h_pixels fb) < 2 ^ 31" "length (fb_mem fb) = unat (w_pixels fb) * unat (h_pixels fb)"
    using assms(1) by (auto simp: fb_ok_def)
  have o: "unat (lines * h_font fb * w_pixels fb div 4) = off"
    using unat_mult3 [of lines "h_font fb" "w_pixels fb", OF le_less_trans [OF le]] lt by (simp add: off_def unat_div)
  have t: "unat (w_pixels fb * h_pixels fb div 4) = tot"
    using unat_mult2 [of "w_pixels fb" "h_pixels fb"] lt by (simp add: tot_def unat_div)
  have ot: "off \<le> tot" unfolding off_def tot_def by (intro div_le_mono le)
  have d: "unat (w_pixels fb * h_pixels fb div 4 - lines * h_font fb * w_pixels fb div 4) = tot - off"
    using ot o t by (simp add: unat_sub word_le_nat_alt)
  have tot: "4 * tot \<le> length (fb_mem fb)" by (simp add: tot_def lt)
  obtain M where M: "for_loop [off..<tot] (\<lambda>i fb. do { w \<leftarrow> fb_word i fb; put_fb_word (i - off) w fb }) fb = Some (fb\<lparr>fb_mem := M\<rparr>)"
    "length M = length (fb_mem fb)" "\<And>p. M ! p = (if p < 4 * (tot - off) then fb_mem fb ! (p + 4 * off) else fb_mem fb ! p)"
    using copy_words_up [OF ot tot] by auto
  obtain N where N: "for_loop [tot - off..<tot] (\<lambda>i. put_fb_word i zero_word) (fb\<lparr>fb_mem := M\<rparr>) = Some (fb\<lparr>fb_mem := N\<rparr>)"
    "length N = length M" "\<And>p. N ! p = (if 4 * (tot - off) \<le> p \<and> p < 4 * tot then 0 else M ! p)"
    using zero_words [of "tot - off" tot "fb\<lparr>fb_mem := M\<rparr>"] tot M(2) by auto
  have "scroll_up lines fb = Some (fb\<lparr>fb_mem := N\<rparr>)" using M(1) N(1) by (simp add: scroll_up_def o t d)
  then show ?thesis using N(2,3) M(2,3) by (intro exI [of _ N]) auto
qed

section \<open>Writing a character\<close>

lemma fb_ok_mem: "fb_ok fb \<Longrightarrow> length m = length (fb_mem fb) \<Longrightarrow> fb_ok (fb\<lparr>fb_mem := m\<rparr>)"
  by (simp add: fb_ok_def)

lemma draw_glyph:
  assumes "fb_ok fb" "cursor_ok fb" "0 \<le> c" "c < 128" "fg < 16" "bg < 16"
  shows "for_loop [0..<unat (h_font fb)] (\<lambda>i fb'. do {
        data \<leftarrow> rd (font fb') (unat (word_of_int c * h_font fb' + of_nat i));
        draw_row (cursor_y fb * h_font fb + of_nat i) (cursor_x fb * w_font fb) (ucast data) fg bg fb' }) fb =
      Some (fb\<lparr>fb_mem := glyph_mem fb (nat c) fg bg\<rparr>)"
    "length (glyph_mem fb (nat c) fg bg) = length (fb_mem fb)"
proof -
  have f: "unat (word_of_int c * h_font fb + of_nat i :: u32) = nat c * unat (h_font fb) + i"
    "nat c * unat (h_font fb) + i < length (font fb)" if "i < unat (h_font fb)" for i
  proof -
    have "Suc (nat c) * unat (h_font fb) \<le> 128 * unat (h_font fb)" using assms(4) by (intro mult_right_mono) simp_all
    then have lt: "nat c * unat (h_font fb) + i < 128 * unat (h_font fb)" using that unfolding mult_Suc by linarith
    have w: "word_of_int c * h_font fb + of_nat i = (of_nat (nat c * unat (h_font fb) + i) :: u32)"
      using assms(3) by simp
    show "unat (word_of_int c * h_font fb + of_nat i :: u32) = nat c * unat (h_font fb) + i"
      unfolding w using lt assms(1) by (intro unat_of_nat_small) (simp add: fb_ok_def)
    show "nat c * unat (h_font fb) + i < length (font fb)" using lt assms(1) by (simp add: fb_ok_def)
  qed
  have "for_loop [0..<unat (h_font fb)] (\<lambda>i fb'. do {
        data \<leftarrow> rd (font fb') (unat (word_of_int c * h_font fb' + of_nat i));
        draw_row (cursor_y fb * h_font fb + of_nat i) (cursor_x fb * w_font fb) (ucast data) fg bg fb' }) (fb\<lparr>fb_mem := fb_mem fb\<rparr>) =
      Some (fb\<lparr>fb_mem := fold (row_mem fb (nat c) fg bg) [0..<unat (h_font fb)] (fb_mem fb)\<rparr>) \<and>
      length (fold (row_mem fb (nat c) fg bg) [0..<unat (h_font fb)] (fb_mem fb)) = length (fb_mem fb)"
    using f draw_row_mem [OF assms(1,2) _ assms(3-6)] by (intro for_loop_mem) simp
  then show "for_loop [0..<unat (h_font fb)] (\<lambda>i fb'. do {
        data \<leftarrow> rd (font fb') (unat (word_of_int c * h_font fb' + of_nat i));
        draw_row (cursor_y fb * h_font fb + of_nat i) (cursor_x fb * w_font fb) (ucast data) fg bg fb' }) fb =
      Some (fb\<lparr>fb_mem := glyph_mem fb (nat c) fg bg\<rparr>)"
    "length (glyph_mem fb (nat c) fg bg) = length (fb_mem fb)"
    by (simp_all add: glyph_mem_def)
qed

text \<open>The cell after the one of the cursor, in reading order, and whether the screen must scroll to reach it.\<close>

definition next_cell :: "fbcon \<Rightarrow> nat \<times> nat" where
  "next_cell fb = (if unat (cursor_x fb) + 1 < unat (w_chars fb) then (unat (cursor_x fb) + 1, unat (cursor_y fb))
                   else (0, unat (cursor_y fb) + 1))"

lemma unat_Suc: "unat (w :: u32) < unat (u :: u32) \<Longrightarrow> unat (w + 1) = Suc (unat w)"
proof -
  assume "unat w < unat u"
  then have "Suc (unat w) < 2 ^ 32" using unsigned_less [of u, where ?'a = nat] by simp
  then have "unat (of_nat (Suc (unat w)) :: u32) = Suc (unat w)" by (rule unat_of_nat_small)
  then show ?thesis by (simp add: add.commute)
qed

lemma putc_raw_no_scroll:
  assumes "fb_ok fb" "cursor_ok fb" "0 \<le> c" "c < 128" "fg < 16" "bg < 16" "snd (next_cell fb) < unat (h_chars fb)"
  shows "putc_raw c fg bg fb = Some (fb\<lparr>fb_mem := glyph_mem fb (nat c) fg bg,
    cursor_x := of_nat (fst (next_cell fb)), cursor_y := of_nat (snd (next_cell fb))\<rparr>)"
proof -
  have x: "unat (cursor_x fb + 1) = Suc (unat (cursor_x fb))" "unat (cursor_y fb + 1) = Suc (unat (cursor_y fb))"
    using assms(2) by (auto simp: cursor_ok_def intro: unat_Suc)
  show ?thesis using assms(2,7) draw_glyph(1) [OF assms(1-6)]
    by (auto simp: putc_raw_def next_cell_def word_le_nat_alt x cursor_ok_def split: if_splits)
qed

lemma scroll_one:
  assumes "fb_ok fb"
  shows "\<exists>M. scroll_up 1 fb = Some (fb\<lparr>fb_mem := M\<rparr>) \<and> length M = length (fb_mem fb)"
proof -
  have "1 * unat (h_font fb) \<le> unat (h_chars fb) * unat (h_font fb)"
    using assms by (intro mult_right_mono) (auto simp: fb_ok_def)
  moreover have "unat (h_chars fb) * unat (h_font fb) \<le> unat (h_pixels fb)" using assms by (simp add: fb_ok_def)
  ultimately have "unat (1 :: u32) * unat (h_font fb) \<le> unat (h_pixels fb)" unfolding unsigned_1 by (rule le_trans)
  from scroll_up_mem [OF assms this] show ?thesis by blast
qed

end
