(* ===== verification/ConsoleSpec.thy ===== *)
theory ConsoleSpec
  imports ConsoleFbSpec PrintfSpec
begin

text \<open>
  The terminal: the contract it needs of a backend as a locale, interpreted on the frame buffer; the
  decoding of control sequences; log messages on the screen; what a character draws; and the cursor
  below the screen.
\<close>

abbreviation fb_inv :: "fbcon \<Rightarrow> bool" where "fb_inv fb \<equiv> fb_ok fb \<and> cursor_ok fb"

lemma fb_inv_cursor:
  "fb_ok fb \<Longrightarrow> length m = length (fb_mem fb) \<Longrightarrow> x < unat (w_chars fb) \<Longrightarrow> y < unat (h_chars fb) \<Longrightarrow>
   fb_inv (fb\<lparr>fb_mem := m, cursor_x := of_nat x, cursor_y := of_nat y\<rparr>)"
proof -
  assume *: "fb_ok fb" "length m = length (fb_mem fb)" "x < unat (w_chars fb)" "y < unat (h_chars fb)"
  have "unat (of_nat x :: u32) = x" "unat (of_nat y :: u32) = y"
    using *(3,4) unsigned_less [of "w_chars fb", where ?'a = nat] unsigned_less [of "h_chars fb", where ?'a = nat]
    by (intro unat_of_nat_small; simp)+
  then show ?thesis using * by (simp add: fb_ok_def cursor_ok_def)
qed

lemma last_line: "fb_ok fb \<Longrightarrow> unat (h_chars fb - 1) < unat (h_chars fb)"
  using unat_pred [of "h_chars fb"] by (force simp: fb_ok_def)

lemma putc_raw_inv:
  assumes "fb_inv fb" "0 \<le> c" "c < 128" "fg < 16" "bg < 16"
  shows "\<exists>fb'. putc_raw c fg bg fb = Some fb' \<and> fb_inv fb'"
proof (cases "snd (next_cell fb) < unat (h_chars fb)")
  case True
  have "fst (next_cell fb) < unat (w_chars fb)" using assms(1) by (auto simp: next_cell_def fb_ok_def)
  then show ?thesis
    using putc_raw_no_scroll [OF _ _ assms(2-5) True] fb_inv_cursor [OF _ draw_glyph(2) [OF _ _ assms(2-5)], of fb] assms(1) True by auto
next
  case False
  have x: "unat (cursor_x fb + 1) = Suc (unat (cursor_x fb))" "unat (cursor_y fb + 1) = Suc (unat (cursor_y fb))"
    using assms(1) by (auto simp: cursor_ok_def intro: unat_Suc)
  have wrap: "w_chars fb \<le> cursor_x fb + 1" "h_chars fb \<le> cursor_y fb + 1"
    using False assms(1) by (auto simp: next_cell_def cursor_ok_def word_le_nat_alt x split: if_splits)
  let ?fb = "fb\<lparr>fb_mem := glyph_mem fb (nat c) fg bg, cursor_y := cursor_y fb + 1, cursor_x := 0\<rparr>"
  have ok: "fb_ok ?fb" using assms(1) draw_glyph(2) [OF _ _ assms(2-5), of fb] by (simp add: fb_ok_def)
  obtain M where M: "scroll_up 1 ?fb = Some (?fb\<lparr>fb_mem := M\<rparr>)" "length M = length (fb_mem ?fb)" using scroll_one [OF ok] by blast
  have "putc_raw c fg bg fb = Some (?fb\<lparr>fb_mem := M, cursor_y := h_chars fb - 1\<rparr>)"
    using draw_glyph(1) [OF _ _ assms(2-5), of fb] assms(1) M(1) wrap by (simp add: putc_raw_def)
  moreover have "0 < unat (w_chars fb)" using assms(1) by (auto simp: fb_ok_def)
  then have "fb_inv (?fb\<lparr>fb_mem := M, cursor_y := h_chars fb - 1\<rparr>)"
    using ok M(2) last_line assms(1) by (simp add: fb_ok_def cursor_ok_def)
  ultimately show ?thesis by blast
qed

lemma fb_putc_inv:
  assumes "fb_inv fb" "0 \<le> c" "c < 128" "fg < 16" "bg < 16"
  shows "\<exists>fb'. fb_putc c fg bg fb = Some fb' \<and> fb_inv fb'"
proof (cases "c = 10")
  case True
  have y: "unat (cursor_y fb + 1) = Suc (unat (cursor_y fb))" using assms(1) by (auto simp: cursor_ok_def intro: unat_Suc)
  let ?fb = "fb\<lparr>cursor_x := 0, cursor_y := cursor_y fb + 1\<rparr>"
  have ok: "fb_ok ?fb" using assms(1) by (simp add: fb_ok_def)
  obtain M where M: "scroll_up 1 ?fb = Some (?fb\<lparr>fb_mem := M\<rparr>)" "length M = length (fb_mem ?fb)" using scroll_one [OF ok] by blast
  have "0 < unat (w_chars fb)" using assms(1) by (auto simp: fb_ok_def)
  moreover have "unat (cursor_y fb) < unat (h_chars fb)" using assms(1) by (simp add: cursor_ok_def)
  moreover have "cursor_y fb + 1 \<noteq> h_chars fb \<Longrightarrow> unat (cursor_y fb + 1) \<noteq> unat (h_chars fb)" by (simp add: word_unat_eq_iff)
  ultimately show ?thesis using True ok M y last_line [of fb] assms(1)
    by (cases "cursor_y fb + 1 = h_chars fb") (auto simp: fb_putc_def fb_ok_def cursor_ok_def)
next
  case False
  have "fb_inv (fb\<lparr>cursor_x := 0\<rparr>)" using assms(1) by (simp add: fb_ok_def cursor_ok_def)
  then show ?thesis using False putc_raw_inv [OF assms] by (auto simp: fb_putc_def)
qed

section \<open>The terminal on a backend\<close>

lemma sint_uint_u8: "(c :: u8) < 128 \<Longrightarrow> sint c = uint c"
  by (simp add: sint_uint signed_take_bit_int_eq_self_iff word_less_def) (rule order_trans [OF _ uint_ge_0], simp)

lemma add_color: "(f :: u32) < 8 \<Longrightarrow> f + 8 < 16" "(f :: u32) < 8 \<Longrightarrow> f < 16"
  by unat_arith+

text \<open>A control sequence with the arguments \<open>ns\<close>, as a program prints it.\<close>

fun csi_text :: "nat list \<Rightarrow> bytes" where
  "csi_text [] = []"
| "csi_text [n] = digits 10 n"
| "csi_text (n # m # ns) = digits 10 n @ 59 # csi_text (m # ns)"

lemma console_bytes_Nil [simp]: "console_bytes [] = Some"
  by (rule ext) simp

lemma console_bytes_append: "console_bytes (xs @ ys) con = do { con \<leftarrow> console_bytes xs con; console_bytes ys con }"
  by (induction xs arbitrary: con) (auto split: bind_splits)

lemma digit_char_arith: "i < 10 \<Longrightarrow> isdigit (sint (digit_char i)) = 1 \<and> uint (digit_char i) = 48 + int i \<and> digit_char i \<noteq> 59"
  by (drule less_10_cases) (auto simp: digit_char_def isdigit_def)

lemma console_number:
  assumes "con_state con = PARSE_STATE_CSI" "con_a con = 0" "n < 2 ^ 31"
  shows "console_bytes (digits 10 n) con = Some (con\<lparr>con_state := PARSE_STATE_CSI_ARG, con_a := int n\<rparr>)"
  using assms(3)
proof (induction n rule: less_induct)
  case (less n)
  have d: "digits 10 n = (if n div 10 = 0 then [] else digits 10 (n div 10)) @ [digit_char (n mod 10)]"
    by (subst digits.simps) simp
  have c: "isdigit (sint (digit_char (n mod 10))) = 1" "uint (digit_char (n mod 10)) = 48 + int (n mod 10)" "digit_char (n mod 10) \<noteq> 59"
    using digit_char_arith [of "n mod 10"] by simp_all
  show ?case
  proof (cases "n div 10 = 0")
    case True
    then have "n mod 10 = n" by simp
    then show ?thesis using True c less.prems assms(1,2) by (simp add: d console_byte_def csi_arg_def)
  next
    case False
    have n: "n div 10 < n" "n div 10 < 2 ^ 31" using False less.prems by simp_all
    have m: "int (n div 10) * 10 + int (n mod 10) = int n" by presburger
    have "console_byte (digit_char (n mod 10)) (con\<lparr>con_state := PARSE_STATE_CSI_ARG, con_a := int (n div 10)\<rparr>) =
      Some (con\<lparr>con_state := PARSE_STATE_CSI_ARG, con_a := int n\<rparr>)"
      using c m less.prems by (simp add: console_byte_def csi_arg_def Let_def)
    then show ?thesis using less.IH [OF n] False by (simp add: d console_bytes_append)
  qed
qed

text \<open>The state machine hands the arguments to \<^verbatim>\<open>_csi\<close>.\<close>

lemma console_args:
  assumes "con_state con = PARSE_STATE_CSI" "con_a con = 0" "con_argc con + length ns \<le> 10" "length (con_arg con) = 10"
    "ns \<noteq> []" "\<forall>n \<in> set ns. n < 2 ^ 31" "isdigit (sint cmd) = 0" "cmd \<noteq> 59"
  shows "console_bytes (csi_text ns @ [cmd]) con =
    (let A = take (con_argc con) (con_arg con) @ map int ns @ drop (con_argc con + length ns) (con_arg con) in
     csi cmd (con_argc con + length ns) A (con\<lparr>con_arg := A, con_argc := con_argc con + length ns, con_a := 0, con_state := PARSE_STATE_ASCII\<rparr>))"
  using assms
proof (induction ns arbitrary: con rule: csi_text.induct)
  case (2 n)
  then show ?case
    by (simp add: console_bytes_append console_number console_byte_def csi_arg_def end_arg_def upd_conv_take_nth_drop Let_def)
next
  case (3 n m ns)
  let ?con = "con\<lparr>con_arg := (con_arg con)[con_argc con := int n], con_argc := con_argc con + 1, con_a := 0, con_state := PARSE_STATE_CSI\<rparr>"
  have s: "console_bytes (digits 10 n @ [59]) con = Some ?con"
    using 3(2-) by (simp add: console_bytes_append console_number console_byte_def csi_arg_def end_arg_def)
  have "console_bytes (csi_text (m # ns) @ [cmd]) ?con =
    (let A = take (con_argc con + 1) ((con_arg con)[con_argc con := int n]) @ map int (m # ns) @ drop (con_argc con + 1 + length (m # ns)) ((con_arg con)[con_argc con := int n]) in
     csi cmd (con_argc con + 1 + length (m # ns)) A (con\<lparr>con_arg := A, con_argc := con_argc con + 1 + length (m # ns), con_a := 0, con_state := PARSE_STATE_ASCII\<rparr>))"
    using 3(1) [of ?con] 3(2-) by simp
  moreover have "console_bytes (csi_text (n # m # ns) @ [cmd]) con = console_bytes (csi_text (m # ns) @ [cmd]) ?con"
    using s console_bytes_append [of "digits 10 n @ [59]" "csi_text (m # ns) @ [cmd]" con] by simp
  moreover have "take (con_argc con + 1) ((con_arg con)[con_argc con := int n]) = take (con_argc con) (con_arg con) @ [int n]"
    using 3(4,5) by (simp add: take_Suc_conv_app_nth)
  ultimately show ?case by simp
qed simp

text \<open>
  What the terminal needs of a backend to show text: in a good state, writing an ASCII character in one
  of the sixteen colours succeeds and leaves it in a good state.
\<close>

locale console_backend =
  fixes be :: "'b ConsoleBackend" and ok :: "'b \<Rightarrow> bool"
  assumes putc_ok: "ok b \<Longrightarrow> 0 \<le> c \<Longrightarrow> c < 128 \<Longrightarrow> fg < 16 \<Longrightarrow> bg < 16 \<Longrightarrow> \<exists>b'. be_putc be c fg bg b = Some b' \<and> ok b'"
begin

text \<open>A terminal between two sequences, with colours in range.\<close>

definition ready :: "'b console \<Rightarrow> bool" where
  "ready con \<longleftrightarrow> con_state con = PARSE_STATE_ASCII \<and> con_backend con = Some be \<and> ok (con_screen con) \<and>
     con_fg con < 8 \<and> con_bg con < 8 \<and> length (con_arg con) = 10"

lemma byte_ready:
  assumes "ready con" "c < 128" "c \<noteq> 27"
  shows "\<exists>con'. console_byte c con = Some con' \<and> ready con'"
proof -
  have s: "sint c = uint c" using assms(2) by (simp add: sint_uint_u8)
  have "0 \<le> uint c" "uint c < 128" using assms(2) by (simp_all add: word_less_def)
  moreover have "con_fg con + (if con_bold con then 8 else 0) < 16" "con_bg con < 16"
    using assms(1) by (auto simp: ready_def intro: add_color)
  ultimately obtain b where "be_putc be (sint c) (con_fg con + (if con_bold con then 8 else 0)) (con_bg con) (con_screen con) = Some b" "ok b"
    using putc_ok assms(1) by (metis ready_def s)
  then show ?thesis using assms by (auto simp: console_byte_def backend_def ready_def)
qed

lemma text_ready: "ready con \<Longrightarrow> \<forall>c \<in> set cs. c < 128 \<and> c \<noteq> 27 \<Longrightarrow> \<exists>con'. console_bytes cs con = Some con' \<and> ready con'"
proof (induction cs arbitrary: con)
  case (Cons c cs)
  then obtain con1 where "console_byte c con = Some con1" "ready con1" using byte_ready [of con c] by auto
  then show ?case using Cons by auto
qed simp

text \<open>A sequence that sets attributes.\<close>

lemma attribute_ready: "ready con \<Longrightarrow> ready (attribute a con)"
proof -
  assume r: "ready con"
  have "(word_of_int (a - k) :: u32) < 8" if "k < a" "a < k + 8" for k
  proof -
    have "uint (word_of_int (a - k) :: u32) = a - k" using that by (intro uint_word_of_int_eq [THEN trans]) (simp add: take_bit_int_eq_self)
    then show ?thesis using that by (simp add: word_less_def)
  qed
  from this [of 30] this [of 40] show ?thesis
    using r by (auto simp: attribute_def ready_def reset_attributes_def CONSOLE_COLOR_LIGHT_GRAY_def CONSOLE_COLOR_BLACK_def)
qed

lemma sgr_ready:
  assumes "ready con" "ns \<noteq> []" "length ns \<le> 10" "\<forall>n \<in> set ns. n < 2 ^ 31"
  shows "\<exists>con'. console_bytes (27 # 91 # csi_text ns @ [109]) con = Some con' \<and> ready con'"
proof -
  let ?con = "con\<lparr>con_state := PARSE_STATE_CSI, con_argc := 0, con_a := 0\<rparr>"
  have "console_bytes (27 # 91 # csi_text ns @ [109]) con = console_bytes (csi_text ns @ [109]) ?con"
    using assms(1) by (simp add: console_byte_def ready_def)
  also have "\<dots> = (let A = map int ns @ drop (length ns) (con_arg con) in
      csi 109 (length ns) A (con\<lparr>con_arg := A, con_argc := length ns, con_a := 0, con_state := PARSE_STATE_ASCII\<rparr>))"
    using console_args [of ?con ns 109] assms by (simp add: ready_def isdigit_def)
  also have "\<dots> = Some (fold attribute (map int ns) (con\<lparr>con_arg := map int ns @ drop (length ns) (con_arg con),
      con_argc := length ns, con_a := 0, con_state := PARSE_STATE_ASCII\<rparr>))"
    using assms(1,2) by (simp add: csi_def Let_def ready_def split: prod.split)
  finally have eq: "console_bytes (27 # 91 # csi_text ns @ [109]) con = \<dots>" .
  have "ready (fold attribute as c)" if "ready c" for as c
    using that by (induction as arbitrary: c) (auto intro: attribute_ready)
  moreover have "ready (con\<lparr>con_arg := map int ns @ drop (length ns) (con_arg con), con_argc := length ns, con_a := 0, con_state := PARSE_STATE_ASCII\<rparr>)"
    using assms(1,3) by (simp add: ready_def)
  ultimately show ?thesis using eq by blast
qed

end

interpretation fb: console_backend console_fb fb_inv
  by unfold_locales (use fb_putc_inv in \<open>auto simp: console_fb_def\<close>)

section \<open>Messages of the log on the screen\<close>

lemma vprintf_plain_loop:
  "\<forall>c \<in> set msg. c \<noteq> 0 \<and> c \<noteq> 37 \<Longrightarrow>
   vprintf_loop (msg @ [0]) i st = Some (i + int (length msg), st\<lparr>pf_out := pf_out st @ msg\<rparr>)"
  by (induction msg arbitrary: i st) (auto simp: emit_def)

lemma vprintf_plain: "\<forall>c \<in> set msg. c \<noteq> 0 \<and> c \<noteq> 37 \<Longrightarrow> vprintf (msg @ [0]) va = Some (int (length msg), msg)"
  by (simp add: vprintf_def vprintf_plain_loop)

primrec tag_colors :: "LogLevel \<Rightarrow> nat list" where
  "tag_colors LOG_LEVEL_NONE = [0]"
| "tag_colors LOG_LEVEL_CRITICAL = [31]"
| "tag_colors LOG_LEVEL_ERROR = [1, 31]"
| "tag_colors LOG_LEVEL_WARNING = [1, 33]"
| "tag_colors LOG_LEVEL_INFO = [1, 37]"
| "tag_colors LOG_LEVEL_DEBUG = [37]"
| "tag_colors LOG_LEVEL_SPAM = [36]"

definition sgr :: "nat list \<Rightarrow> bytes" where "sgr ns = 27 # 91 # csi_text ns @ [109]"

lemma log_tag_bytes:
  "map_option snd (printf log_tag [ArgStr (logcolor level), ArgStr (logprefix level)]) =
     Some (sgr [0] @ [91] @ sgr (tag_colors level) @ butlast (logprefix level) @ sgr [0] @ [93, 32])"
  by (cases level; hypsubst; code_simp)

lemma tag_text: "c \<in> set ([91] @ butlast (logprefix level) @ [93, 32]) \<Longrightarrow> c < 128 \<and> c \<noteq> 27"
  by (cases level) auto

lemma tag_ready:
  assumes "fb.ready con"
  shows "\<exists>con'. console_bytes (sgr [0] @ [91] @ sgr (tag_colors level) @ butlast (logprefix level) @ sgr [0] @ [93, 32]) con = Some con' \<and> fb.ready con'"
proof -
  have s: "\<exists>c'. console_bytes (sgr ns) c = Some c' \<and> fb.ready c'" if "fb.ready c" "ns = [0] \<or> ns = tag_colors level" for c ns
    unfolding sgr_def using that by (intro fb.sgr_ready) (cases level; auto)+
  have t: "\<exists>c'. console_bytes cs c = Some c' \<and> fb.ready c'"
    if "fb.ready c" "set cs \<subseteq> set ([91] @ butlast (logprefix level) @ [93, 32])" for c cs
    using that tag_text by (intro fb.text_ready) blast+
  obtain c1 where 1: "console_bytes (sgr [0]) con = Some c1" "fb.ready c1" using s [OF assms] by blast
  obtain c2 where 2: "console_bytes [91] c1 = Some c2" "fb.ready c2" using t [OF 1(2), of "[91]"] by auto
  obtain c3 where 3: "console_bytes (sgr (tag_colors level)) c2 = Some c3" "fb.ready c3" using s [OF 2(2)] by blast
  obtain c4 where 4: "console_bytes (butlast (logprefix level)) c3 = Some c4" "fb.ready c4" using t [OF 3(2)] by auto
  obtain c5 where 5: "console_bytes (sgr [0]) c4 = Some c5" "fb.ready c5" using s [OF 4(2)] by blast
  obtain c6 where 6: "console_bytes [93, 32] c5 = Some c6" "fb.ready c6" using t [OF 5(2), of "[93, 32]"] by auto
  show ?thesis using 1 2 3 4 5 6 by (simp add: console_bytes_append del: console_bytes.simps append_Cons)
qed

text \<open>
  C10. Log messages reach the screen: for a message of ASCII text at a level that is shown, the output of
  \<^verbatim>\<open>kprintf\<close>, the coloured tag and the text, is written to the terminal on the frame buffer without a
  fault; the terminal is then again between two sequences, and the frame buffer keeps its size, its
  geometry and a cursor on the screen.
\<close>

theorem log_message_displays:
  assumes "fb.ready con" "level_no level \<le> level_no loglevel"
    "\<forall>c \<in> set msg. c \<noteq> 0 \<and> c \<noteq> 37 \<and> c < 128 \<and> c \<noteq> 27"
  shows "\<exists>out con'. kprintf loglevel level (msg @ [0]) [] = Some (int (length msg), out) \<and>
    console_write out con = Some (sint (of_nat (length out) :: u32), con') \<and>
    con_state con' = PARSE_STATE_ASCII \<and> fb_ok (con_screen con') \<and> cursor_ok (con_screen con')"
proof -
  have v: "vprintf (msg @ [0]) [] = Some (int (length msg), msg)" using assms(3) by (intro vprintf_plain) blast
  define tag where "tag = (if level \<noteq> LOG_LEVEL_NONE
    then sgr [0] @ [91] @ sgr (tag_colors level) @ butlast (logprefix level) @ sgr [0] @ [93, 32] else [])"
  have k: "kprintf loglevel level (msg @ [0]) [] = Some (int (length msg), tag @ msg)"
    using assms(2) by (simp add: kprintf_def v tag_def log_tag_bytes del: append.simps map_option_eq_Some)
  have "\<exists>c1. console_bytes tag con = Some c1 \<and> fb.ready c1"
  proof (cases "level = LOG_LEVEL_NONE")
    case False
    then show ?thesis unfolding tag_def by (simp only: not_False_eq_True if_True) (rule tag_ready [OF assms(1)])
  qed (use assms(1) in \<open>simp add: tag_def\<close>)
  then obtain c1 where 1: "console_bytes tag con = Some c1" "fb.ready c1" by blast
  obtain c2 where 2: "console_bytes msg c1 = Some c2" "fb.ready c2" using fb.text_ready [OF 1(2)] assms(3) by blast
  have "console_write (tag @ msg) con = Some (sint (of_nat (length (tag @ msg)) :: u32), c2)"
    using 1(1) 2(1) by (simp add: console_write_def console_bytes_append)
  then show ?thesis using k 2(2) by (auto simp: fb.ready_def)
qed

lemma word_mod_less_self:
  assumes "(a :: u32) + 1 \<noteq> 0"
  shows "a mod (a + 1) = a"
proof -
  have "unat (a + 1) = Suc (unat a)" using unatSuc [of a] assms by (simp only: add.commute [of 1 a]) simp
  then have "unat (a mod (a + 1)) = unat a" unfolding unat_mod by simp
  then show ?thesis by (simp only: word_unat_eq_iff)
qed

section \<open>A small screen\<close>

text \<open>Two columns and two rows of cells of one pixel, and a terminal on it.\<close>

definition tiny_fb :: fbcon where
  "tiny_fb = \<lparr>fb_mem = replicate 4 0, font = replicate 128 1, w_pixels = 2, h_pixels = 2, w_chars = 2, h_chars = 2,
     w_font = 1, h_font = 1, cursor_x = 0, cursor_y = 0, cmap = map of_nat [0..<16]\<rparr>"

definition tiny_console :: "fbcon console" where
  "tiny_console = console_init console_fb (console_static tiny_fb)"

lemma tiny_fb_ok: "fb_ok tiny_fb" "cursor_ok tiny_fb"
  by (simp_all add: fb_ok_def cursor_ok_def tiny_fb_def)

lemma tiny_console_ready: "fb.ready tiny_console"
  using tiny_fb_ok by (simp add: fb.ready_def tiny_console_def console_init_def console_static_def
      CONSOLE_COLOR_LIGHT_GRAY_def CONSOLE_COLOR_BLACK_def)

theorem log_message_displays_witness:
  "\<exists>out con'. kprintf LOG_LEVEL_INFO LOG_LEVEL_ERROR ([79, 75] @ [0]) [] = Some (2, out) \<and>
    console_write out tiny_console = Some (sint (of_nat (length out) :: u32), con') \<and>
    con_state con' = PARSE_STATE_ASCII \<and> fb_ok (con_screen con') \<and> cursor_ok (con_screen con')"
  using log_message_displays [OF tiny_console_ready, of LOG_LEVEL_ERROR LOG_LEVEL_INFO "[79, 75]"] by simp

section \<open>What is drawn\<close>

text \<open>
  C11. Writing a character draws its glyph: every pixel of the cell under the cursor gets the foreground
  or the background colour as the bit of the font says, every other pixel of the screen stays, and the
  cursor moves to the next cell in reading order (here: as long as the screen need not scroll).
\<close>

theorem console_putc_draws_glyph:
  assumes "fb_ok fb" "cursor_ok fb" "0 \<le> c" "c < 128" "c \<noteq> 10" "c \<noteq> 13" "fg < 16" "bg < 16"
    "snd (next_cell fb) < unat (h_chars fb)"
  shows "\<exists>fb'. be_putc console_fb c fg bg fb = Some fb' \<and>
    (unat (cursor_x fb'), unat (cursor_y fb')) = next_cell fb \<and>
    (\<forall>x < unat (w_pixels fb). \<forall>y < unat (h_pixels fb). pixel fb' x y =
      (if in_cell fb x y
       then glyph_color fb (nat c) fg bg (x - unat (cursor_x fb) * unat (w_font fb)) (y - unat (cursor_y fb) * unat (h_font fb))
       else pixel fb x y))"
proof (intro exI conjI allI impI)
  let ?fb = "fb\<lparr>fb_mem := glyph_mem fb (nat c) fg bg, cursor_x := of_nat (fst (next_cell fb)), cursor_y := of_nat (snd (next_cell fb))\<rparr>"
  show "be_putc console_fb c fg bg fb = Some ?fb"
    using putc_raw_no_scroll [OF assms(1-4,7-9)] assms(5,6) by (simp add: console_fb_def fb_putc_def)
  have "fst (next_cell fb) < unat (w_chars fb)" using assms(1) by (auto simp: next_cell_def fb_ok_def)
  then have "fst (next_cell fb) < 2 ^ 32" "snd (next_cell fb) < 2 ^ 32"
    using assms(9) unsigned_less [of "w_chars fb", where ?'a = nat] unsigned_less [of "h_chars fb", where ?'a = nat] by simp_all
  then show "(unat (cursor_x ?fb), unat (cursor_y ?fb)) = next_cell fb" by (simp add: unat_of_nat_small)
  show "pixel ?fb x y = (if in_cell fb x y
       then glyph_color fb (nat c) fg bg (x - unat (cursor_x fb) * unat (w_font fb)) (y - unat (cursor_y fb) * unat (h_font fb))
       else pixel fb x y)" if "x < unat (w_pixels fb)" "y < unat (h_pixels fb)" for x y
    using nth_glyph_mem(2) [OF assms(1,2) that le_refl, of "nat c" fg bg]
    by (auto simp: pixel_def glyph_mem_def in_cell_def)
qed

theorem console_putc_draws_glyph_witness:
  "\<exists>fb'. be_putc console_fb 65 7 0 tiny_fb = Some fb' \<and> (unat (cursor_x fb'), unat (cursor_y fb')) = (1, 0) \<and> pixel fb' 0 0 = 7"
proof -
  have n: "next_cell tiny_fb = (1, 0)" by code_simp
  have g: "in_cell tiny_fb 0 0" "glyph_color tiny_fb 65 7 0 0 0 = 7" "unat (w_pixels tiny_fb) = 2" "unat (h_pixels tiny_fb) = 2" "unat (h_chars tiny_fb) = 2"
    by code_simp+
  show ?thesis using console_putc_draws_glyph [OF tiny_fb_ok, of 65 7 0] by (auto simp: n g)
qed

section \<open>Below the screen\<close>

lemma putc_below_faults:
  assumes "fb_ok fb" "unat (h_chars fb) * unat (h_font fb) = unat (h_pixels fb)" "cursor_y fb = h_chars fb" "cursor_x fb = 0"
    "0 \<le> c" "c < 128" "c \<noteq> 10" "c \<noteq> 13" "fg < 16" "bg < 16"
  shows "fb_putc c fg bg fb = None"
proof -
  obtain wf hf where n: "unat (w_font fb) = Suc wf" "unat (h_font fb) = Suc hf"
    using assms(1) by (auto simp: fb_ok_def gr0_conv_Suc)
  have "unat fg < 16" "unat bg < 16" using assms(9,10) by (simp_all add: word_less_nat_alt)
  then have cm: "\<exists>v. rd (cmap fb) (unat (if b then fg else bg)) = Some v" for b using assms(1) by (auto simp: fb_ok_def)
  have "unat (h_chars fb) * unat (h_font fb) * unat (w_pixels fb) < 2 ^ 32"
    using assms(1,2) by (simp add: fb_ok_def mult.commute)
  then have "unat (h_chars fb * h_font fb * w_pixels fb) = unat (h_pixels fb) * unat (w_pixels fb)"
    using assms(2) by (simp only: unat_mult3)
  then have ix: "unat (h_chars fb * h_font fb * w_pixels fb) = length (fb_mem fb)"
    using assms(1) by (simp add: fb_ok_def mult.commute)
  have "draw_row (h_chars fb * h_font fb) 0 data fg bg fb = None" for data
    using cm [of "bit data 0"] by (auto simp: draw_row_def n upt_rec put_pixel_def ix simp del: upt_Suc)
  then have "for_loop [0..<unat (h_font fb)] (\<lambda>i fb'. do {
        data \<leftarrow> rd (font fb') (unat (word_of_int c * h_font fb' + of_nat i));
        draw_row (h_chars fb * h_font fb + of_nat i) 0 (ucast data) fg bg fb' }) fb = None"
    by (simp add: n upt_rec del: upt_Suc)
  then show ?thesis using assms(3,4,7,8) by (simp add: fb_putc_def putc_raw_def)
qed

text \<open>
  C32. The cursor can be moved below the screen: on a screen whose text lines fill it, the sequence that
  moves the cursor to the line after the last one, column one, is accepted, and the next character
  is drawn outside the frame buffer.
\<close>

theorem console_draws_below_screen:
  fixes con :: "fbcon console"
  defines "h \<equiv> unat (h_chars (con_screen con))"
  assumes "fb.ready con" "h * unat (h_font (con_screen con)) = unat (h_pixels (con_screen con))"
    "h < 2 ^ 31 - 1" "w_chars (con_screen con) \<noteq> - 1" "c < 128" "c \<noteq> 27" "c \<noteq> 10" "c \<noteq> 13"
  shows "console_write (27 # 91 # csi_text [h + 1, 1] @ [72]) con \<noteq> None \<and>
    console_write (27 # 91 # csi_text [h + 1, 1] @ [72, c]) con = None"
proof -
  let ?s = "con_screen con" and ?A = "[1 + int h, 1] @ drop (Suc (Suc 0)) (con_arg con)"
  let ?con = "con\<lparr>con_state := PARSE_STATE_CSI, con_argc := 0, con_a := 0\<rparr>"
  define con1 where "con1 = con\<lparr>con_arg := ?A, con_argc := Suc (Suc 0), con_a := 0, con_state := PARSE_STATE_ASCII\<rparr>"
  define con2 where "con2 = con1\<lparr>con_screen := ?s\<lparr>cursor_x := 0, cursor_y := h_chars ?s\<rparr>\<rparr>"
  have be: "con_backend con = Some console_fb" using assms(2) by (simp add: fb.ready_def)
  have ok: "fb_ok ?s" and colors: "con_fg con < 8" "con_bg con < 8" and ascii: "con_state con = PARSE_STATE_ASCII"
    using assms(2) by (simp_all add: fb.ready_def)
  have fb_sel_cursor: "be_set_cursor console_fb = set_cursor" "be_putc console_fb = fb_putc" by (simp_all add: console_fb_def)
  have h: "(word_of_int (1 + int h) :: u32) - 1 = h_chars ?s" by (simp add: h_def)
  have nz: "h_chars ?s + 1 \<noteq> 0"
  proof
    assume "h_chars ?s + 1 = 0"
    then have "h_chars ?s = - 1" by (simp add: eq_neg_iff_add_eq_0)
    then show False using assms(4) by (simp add: h_def unsigned_minus_1_eq_mask mask_eq_exp_minus_1)
  qed
  have cur: "set_cursor 0 (h_chars ?s) ?s = Some (?s\<lparr>cursor_x := 0, cursor_y := h_chars ?s\<rparr>)"
    using nz assms(5) by (simp add: set_cursor_def eq_neg_iff_add_eq_0 word_mod_less_self)
  have "console_bytes (27 # 91 # csi_text [h + 1, 1] @ [72]) con = console_bytes (csi_text [h + 1, 1] @ [72]) ?con"
    using assms(2) by (simp add: console_byte_def fb.ready_def)
  also have "\<dots> = csi 72 (Suc (Suc 0)) ?A con1"
    using console_args [of ?con "[h + 1, 1]" 72] assms(2,4) by (simp add: fb.ready_def isdigit_def con1_def Let_def)
  also have "\<dots> = Some con2"
    using be cur h by (simp add: csi_def con1_def con2_def backend_def fb_sel_cursor Let_def split: prod.split)
  finally have b: "console_bytes (27 # 91 # csi_text [h + 1, 1] @ [72]) con = Some con2" .
  have c: "sint c = uint c" "0 \<le> uint c" "uint c < 128" "uint c \<noteq> 10" "uint c \<noteq> 13"
    using assms(6,8,9) by (simp_all add: sint_uint_u8 word_less_def word_uint_eq_iff)
  have "fb_putc (sint c) (con_fg con2 + (if con_bold con2 then 8 else 0)) (con_bg con2) (con_screen con2) = None"
    unfolding c(1) using ok colors assms(3) c
    by (intro putc_below_faults) (auto simp: con2_def con1_def fb_ok_def h_def intro: add_color)
  then have "console_byte c con2 = None"
    using be assms(7) by (simp add: console_byte_def con2_def con1_def backend_def fb_sel_cursor)
  then have "console_bytes ((27 # 91 # csi_text [h + 1, 1] @ [72]) @ [c]) con = None"
    unfolding console_bytes_append b by simp
  then have "console_write (27 # 91 # csi_text [h + 1, 1] @ [72, c]) con = None" by (simp add: console_write_def)
  then show ?thesis using b by (simp add: console_write_def)
qed

theorem console_draws_below_screen_witness:
  "console_write (27 # 91 # csi_text [3, 1] @ [72]) tiny_console \<noteq> None \<and> console_write (27 # 91 # csi_text [3, 1] @ [72, 65]) tiny_console = None"
proof -
  have s: "con_screen tiny_console = tiny_fb" by (simp add: tiny_console_def console_init_def console_static_def)
  show ?thesis
    using console_draws_below_screen [OF tiny_console_ready, of 65] by (simp add: s tiny_fb_def)
qed

end
