(* ===== verification/Elf.thy ===== *)
theory Elf
  imports Mmu040
begin

text \<open>
  The loader of executables, \<^verbatim>\<open>kernel/modules/binformat/elf.c\<close>, with the file format of \<^verbatim>\<open>include/elf.h\<close>.

  The file is an object in kernel memory: its address and its bytes.  Its structures are read in place,
  field by field, on a big-endian machine; a field outside the object is undefined.  The messages to
  the log are left out.
\<close>

section \<open>The format\<close>

definition ELF_MAGIC1 :: u8 where "ELF_MAGIC1 = 0x7F"
definition ELF_MAGIC2 :: u8 where "ELF_MAGIC2 = of_char (CHR ''E'')"
definition ELF_MAGIC3 :: u8 where "ELF_MAGIC3 = of_char (CHR ''L'')"
definition ELF_MAGIC4 :: u8 where "ELF_MAGIC4 = of_char (CHR ''F'')"

definition ELF_CLASS_32BIT :: u8 where "ELF_CLASS_32BIT = 1"
definition ELF_ENDIAN_BIG :: u8 where "ELF_ENDIAN_BIG = 2"
definition ELF_TYPE_EXEC :: u16 where "ELF_TYPE_EXEC = 2"
definition ELF_MACHINE_M68K :: u16 where "ELF_MACHINE_M68K = 4"
definition ELF_SECTION_HEADER_FLAG_WRITE :: u32 where "ELF_SECTION_HEADER_FLAG_WRITE = 1"
definition ELF_SECTION_HEADER_FLAG_ALLOC :: u32 where "ELF_SECTION_HEADER_FLAG_ALLOC = 2"
definition ELF_SECTION_HEADER_TYPE_PROGRAM_NOBITS :: u32 where "ELF_SECTION_HEADER_TYPE_PROGRAM_NOBITS = 8"

text \<open>Big-endian fields at an offset.\<close>

definition field16 :: "bytes \<Rightarrow> nat \<Rightarrow> u16 option" where
  "field16 elf i = do {
     a \<leftarrow> rd elf i;
     b \<leftarrow> rd elf (i + 1);
     Some (push_bit 8 (ucast a) OR ucast b) }"

definition field32 :: "bytes \<Rightarrow> nat \<Rightarrow> u32 option" where
  "field32 elf i = do {
     a \<leftarrow> field16 elf i;
     b \<leftarrow> field16 elf (i + 2);
     Some (push_bit 16 (ucast a) OR ucast b) }"

text \<open>The fields of \<^verbatim>\<open>struct ElfHeader\<close> that the loader reads.\<close>

definition header_ident :: "bytes \<Rightarrow> nat \<Rightarrow> u8 option" where "header_ident elf i = rd elf i"
definition header_type :: "bytes \<Rightarrow> u16 option" where "header_type elf = field16 elf 16"
definition header_machine :: "bytes \<Rightarrow> u16 option" where "header_machine elf = field16 elf 18"
definition header_entry :: "bytes \<Rightarrow> u32 option" where "header_entry elf = field32 elf 24"
definition section_header_offset :: "bytes \<Rightarrow> u32 option" where "section_header_offset elf = field32 elf 32"
definition section_header_entry_size :: "bytes \<Rightarrow> u16 option" where "section_header_entry_size elf = field16 elf 46"
definition section_header_entry_count :: "bytes \<Rightarrow> u16 option" where "section_header_entry_count elf = field16 elf 48"

text \<open>The fields of a \<^verbatim>\<open>struct ElfSectionHeader\<close> at an offset.\<close>

definition section_type :: "bytes \<Rightarrow> nat \<Rightarrow> u32 option" where "section_type elf at = field32 elf (at + 4)"
definition section_flags :: "bytes \<Rightarrow> nat \<Rightarrow> u32 option" where "section_flags elf at = field32 elf (at + 8)"
definition section_address :: "bytes \<Rightarrow> nat \<Rightarrow> u32 option" where "section_address elf at = field32 elf (at + 12)"
definition section_offset :: "bytes \<Rightarrow> nat \<Rightarrow> u32 option" where "section_offset elf at = field32 elf (at + 16)"
definition section_size :: "bytes \<Rightarrow> nat \<Rightarrow> u32 option" where "section_size elf at = field32 elf (at + 20)"

section \<open>Loading\<close>

text \<open>
  The loop of \<^verbatim>\<open>alloc\<close>.  \<open>a\<close> and \<open>obj\<close> are the address and the bytes of the object that \<open>data\<close> points into; a
  null pointer is zero.  After the first page \<open>data\<close> is rounded up to a page of its own address.
\<close>

fun alloc_pages :: "u32 \<Rightarrow> bytes \<Rightarrow> bool \<Rightarrow> nat list \<Rightarrow> u32 \<Rightarrow> u32 \<Rightarrow> u32 \<Rightarrow> u32 \<Rightarrow> mmu \<Rightarrow> mmu option" where
  "alloc_pages a obj wp [] base data sz offset s = Some s"
| "alloc_pages a obj wp (i # is) base data sz offset s = do {
     let p = base + of_nat i * MMU_PAGE_SIZE;
     (frame, s) \<leftarrow> mmu040_alloc_at p False wp s;
     if data = 0 then alloc_pages a obj wp is base data sz offset s
     else do {
       s \<leftarrow> mmu040_fill_frame frame (unat offset) (drop (unat (data - a)) obj) (unat (sz AND MMU_PAGE_MASK)) s;
       alloc_pages a obj wp is base ((data AND NOT MMU_PAGE_MASK) + MMU_PAGE_SIZE) (sz - (MMU_PAGE_SIZE - offset)) 0 s } }"

definition elf_alloc :: "u32 \<Rightarrow> bytes \<Rightarrow> u32 \<Rightarrow> bool \<Rightarrow> u32 \<Rightarrow> u32 \<Rightarrow> mmu \<Rightarrow> mmu option" where
  "elf_alloc a obj virt wp data sz s =
     (let base = virt AND NOT MMU_PAGE_MASK;
          n = (sz + (MMU_PAGE_SIZE - 1)) div MMU_PAGE_SIZE;
          offset = virt AND MMU_PAGE_MASK
      in alloc_pages a obj wp [0..<unat n] base data sz offset s)"

text \<open>The body of the loop over the section headers, for the header at offset \<open>at\<close>.\<close>

definition load_section :: "u32 \<Rightarrow> bytes \<Rightarrow> nat \<Rightarrow> mmu \<Rightarrow> mmu option" where
  "load_section a elf at s = do {
     address \<leftarrow> section_address elf at;
     if address = 0 then Some s
     else do {
       type \<leftarrow> section_type elf at;
       if type = 0 then Some s
       else do {
         flags \<leftarrow> section_flags elf at;
         if flags AND ELF_SECTION_HEADER_FLAG_ALLOC = 0 then Some s
         else do {
           let write_protect = (flags AND ELF_SECTION_HEADER_FLAG_WRITE = 0);
           sz \<leftarrow> section_size elf at;
           if type = ELF_SECTION_HEADER_TYPE_PROGRAM_NOBITS then elf_alloc a elf address False 0 sz s
           else do {
             offset \<leftarrow> section_offset elf at;
             elf_alloc a elf address write_protect (a + offset) sz s } } } } }"

text \<open>\<^verbatim>\<open>UINT_MAX - MMU_PAGE_SIZE + 1\<close>, the page of the stack.\<close>

definition stack_page :: u32 where "stack_page = - 1 - MMU_PAGE_SIZE + 1"

text \<open>The result is the entry point, zero for a file that is refused.\<close>

definition elf_load :: "u32 \<Rightarrow> bytes \<Rightarrow> mmu \<Rightarrow> (u32 \<times> mmu) option" where
  "elf_load a elf s = do {
     m1 \<leftarrow> header_ident elf 0;
     m2 \<leftarrow> header_ident elf 1;
     m3 \<leftarrow> header_ident elf 2;
     m4 \<leftarrow> header_ident elf 3;
     if m1 \<noteq> ELF_MAGIC1 \<or> m2 \<noteq> ELF_MAGIC2 \<or> m3 \<noteq> ELF_MAGIC3 \<or> m4 \<noteq> ELF_MAGIC4 then Some (0, s)
     else do {
       class \<leftarrow> header_ident elf 4;
       if class \<noteq> ELF_CLASS_32BIT then Some (0, s)
       else do {
         endian \<leftarrow> header_ident elf 5;
         if endian \<noteq> ELF_ENDIAN_BIG then Some (0, s)
         else do {
           type \<leftarrow> header_type elf;
           if type \<noteq> ELF_TYPE_EXEC then Some (0, s)
           else do {
             machine \<leftarrow> header_machine elf;
             if machine \<noteq> ELF_MACHINE_M68K then Some (0, s)
             else do {
               entry \<leftarrow> header_entry elf;
               if entry = 0 then Some (0, s)
               else do {
                 shoff \<leftarrow> section_header_offset elf;
                 n \<leftarrow> section_header_entry_count elf;
                 es \<leftarrow> section_header_entry_size elf;
                 s \<leftarrow> for_loop [0..<unat n] (\<lambda>i. load_section a elf (unat (shoff + of_nat i * ucast es))) s;
                 s \<leftarrow> elf_alloc a elf stack_page False 0 MMU_PAGE_SIZE s;
                 Some (entry, s) } } } } } } }"

end
