(* ===== verification/ElfSpec.thy ===== *)
theory ElfSpec
  imports Elf MmuSpec
begin

text \<open>
  Properties of the loader of executable files (\<^theory_text>\<open>Elf\<close>): the memory it allocates for a range of a
  program, on the address-space specification of the memory manager, and what it does with a section
  of one page.
\<close>

section \<open>Ranges of pages\<close>

text \<open>No frame is mapped at two pages.\<close>

definition frames_apart :: "(u32 \<Rightarrow> u32) \<Rightarrow> u32 \<Rightarrow> bool" where
  "frames_apart m R \<longleftrightarrow>
     (\<forall>p q f x y. addr_space m R p = Some (f, x) \<longrightarrow> addr_space m R q = Some (f, y) \<longrightarrow> p = q)"

lemma frames_apartD: "frames_apart m R \<Longrightarrow> addr_space m R p = Some (f, x) \<Longrightarrow> addr_space m R q = Some (f, y) \<Longrightarrow> p = q"
  unfolding frames_apart_def by blast

lemma frames_apart_update:
  assumes "frames_apart m R" "separated m R fs" "addr_space m' R = (addr_space m R)(p \<mapsto> (f, z))"
    "f \<in> set fs \<or> (\<exists>attr. addr_space m R p = Some (f, attr))"
  shows "frames_apart m' R"
proof -
  have own: "q = p" if "addr_space m R q = Some (f, x)" for q x
    using assms(4) that separated_mapped [OF assms(2)] addr_space_resident [OF that] frames_apartD [OF assms(1) that] by blast
  show ?thesis unfolding frames_apart_def assms(3)
    using own frames_apartD [OF assms(1)] by (auto split: if_splits)
qed

text \<open>The pages of a range without data: \<open>page i\<close> is mapped to a cleared frame, all of them newly taken or its own.\<close>

definition range_mapped :: "u32 \<Rightarrow> bool \<Rightarrow> nat list set \<Rightarrow> u32 list \<Rightarrow> (u32 \<Rightarrow> u32) \<Rightarrow> (u32 \<Rightarrow> u32) \<Rightarrow> bool" where
  "range_mapped R wp ps fs m m' \<longleftrightarrow>
     (\<forall>p \<in> ps. \<exists>f. addr_space m' R p = Some (f, False, wp, MMU040_CACHE_MODE_CACHE_COPY_BACK) \<and>
        (\<forall>b. page_of b = f \<longrightarrow> m' b = 0) \<and> (f \<in> set fs \<or> (\<exists>x. addr_space m R p = Some (f, x)))) \<and>
     (\<forall>q. q \<notin> ps \<longrightarrow> addr_space m' R q = addr_space m R q \<and>
        (\<forall>g x b. addr_space m R q = Some (g, x) \<longrightarrow> page_of b = g \<longrightarrow> m' b = m b))"

lemma range_mapped_step:
  assumes "frames_apart m R" "separated m R fs" "frames_apart m1 R" "set fs1 \<subseteq> set fs"
    and one: "addr_space m1 R = (addr_space m R)(p \<mapsto> (f, False, wp, MMU040_CACHE_MODE_CACHE_COPY_BACK))"
      "\<forall>b. page_of b = f \<longrightarrow> m1 b = 0" "f \<in> set fs \<or> (\<exists>x. addr_space m R p = Some (f, x))"
      "\<forall>q g b. length q = 3 \<longrightarrow> table_at m R q = Some g \<longrightarrow> g \<noteq> f \<longrightarrow> page_of b = g \<longrightarrow> m1 b = m b"
    and rest: "range_mapped R wp ps fs1 m1 m'"
  shows "range_mapped R wp (insert p ps) fs m m'"
proof -
  have own: "q = p" if "addr_space m R q = Some (f, x)" for q x
    using one(3) that separated_mapped [OF assms(2)] addr_space_resident [OF that] frames_apartD [OF assms(1) that] by blast
  have new: "\<exists>g. addr_space m' R q = Some (g, False, wp, MMU040_CACHE_MODE_CACHE_COPY_BACK) \<and>
      (\<forall>b. page_of b = g \<longrightarrow> m' b = 0) \<and> (g \<in> set fs \<or> (\<exists>x. addr_space m R q = Some (g, x)))" if "q \<in> insert p ps" for q
  proof (cases "q \<in> ps")
    case True
    with rest obtain g where "addr_space m' R q = Some (g, False, wp, MMU040_CACHE_MODE_CACHE_COPY_BACK)"
      "\<forall>b. page_of b = g \<longrightarrow> m' b = 0" "g \<in> set fs1 \<or> (\<exists>x. addr_space m1 R q = Some (g, x))"
      unfolding range_mapped_def by blast
    then show ?thesis using assms(4) one(1,3) by (intro exI [of _ g]) (auto split: if_splits)
  next
    case False
    with that have q: "q = p" by simp
    have e: "addr_space m1 R p = Some (f, False, wp, MMU040_CACHE_MODE_CACHE_COPY_BACK)" using one(1) by simp
    have "addr_space m' R p = addr_space m1 R p" "\<forall>b. page_of b = f \<longrightarrow> m' b = m1 b"
      using False q rest e unfolding range_mapped_def by blast+
    then show ?thesis using one(1-3) q by auto
  qed
  have old: "addr_space m' R q = addr_space m R q \<and>
      (\<forall>g x b. addr_space m R q = Some (g, x) \<longrightarrow> page_of b = g \<longrightarrow> m' b = m b)" if q: "q \<notin> insert p ps" for q
  proof (intro conjI allI impI)
    have e: "addr_space m1 R q = addr_space m R q" using q one(1) by simp
    then show "addr_space m' R q = addr_space m R q" using q rest unfolding range_mapped_def by simp
    fix g x b assume g: "addr_space m R q = Some (g, x)" and b: "page_of b = g"
    have "g \<noteq> f" using own [of q x] g q by blast
    then have "m1 b = m b" using one(4) addr_space_resident [OF g] b by blast
    moreover have "m' b = m1 b" using q rest g b e unfolding range_mapped_def by (metis insertCI)
    ultimately show "m' b = m b" by simp
  qed
  show ?thesis unfolding range_mapped_def using new old by blast
qed

lemma alloc_pages_maps:
  assumes "vm_inv s R fs" "R = root_of False s" "mapping s + 4 \<le> MAPPER_PAGES"
    "3 * length is \<le> length fs" "3 * length is \<le> unat (free_frames s)" "frames_apart (pmem s) R"
  shows "\<exists>s' fs'. alloc_pages a obj wp is base 0 sz offset s = Some s' \<and>
    range_mapped R wp ((\<lambda>i. path_of (base + of_nat i * MMU_PAGE_SIZE)) ` set is) fs (pmem s) (pmem s') \<and>
    frames_apart (pmem s') R \<and> vm_inv s' R fs' \<and> mapping s' = mapping s"
  using assms
proof (induction "is" arbitrary: s fs)
  case (Cons i "is")
  let ?p = "base + of_nat i * MMU_PAGE_SIZE"
  let ?ps = "(\<lambda>i. path_of (base + of_nat i * MMU_PAGE_SIZE)) ` set is"
  have "3 \<le> length fs" "3 \<le> unat (free_frames s)" using Cons.prems(4,5) by simp_all
  from alloc_at_ok [OF Cons.prems(2,1,3) this, of ?p wp] obtain f s1 fs1 where
    1: "mmu040_alloc_at ?p False wp s = Some (f, s1)"
      "addr_space (pmem s1) R = (addr_space (pmem s) R)(path_of ?p \<mapsto> (f, False, wp, MMU040_CACHE_MODE_CACHE_COPY_BACK))"
      "\<forall>b. page_of b = f \<longrightarrow> pmem s1 b = 0"
      "\<forall>q g b. length q = 3 \<longrightarrow> table_at (pmem s) R q = Some g \<longrightarrow> g \<noteq> f \<longrightarrow> page_of b = g \<longrightarrow> pmem s1 b = pmem s b"
      "vm_inv s1 R fs1" "mapping s1 = mapping s" "spends 3 s fs s1 fs1" "srp s1 = srp s" "urp s1 = urp s"
      "f \<in> set fs \<or> (\<exists>x. addr_space (pmem s) R (path_of ?p) = Some (f, x))" by blast
  have sep: "separated (pmem s) R fs" using Cons.prems(1) by (simp add: vm_inv_def)
  have r: "R = root_of False s1" using Cons.prems(2) 1(8,9) by (simp add: root_of_def)
  have m: "mapping s1 + 4 \<le> MAPPER_PAGES" using 1(6) Cons.prems(3) by simp
  have n: "3 * length is \<le> length fs1" "3 * length is \<le> unat (free_frames s1)" "set fs1 \<subseteq> set fs"
    using 1(7) Cons.prems(4,5) by (auto simp: spends_def)
  have ap: "frames_apart (pmem s1) R" by (rule frames_apart_update [OF Cons.prems(6) sep 1(2,10)])
  from Cons.IH [OF 1(5) r m n(1,2) ap] obtain s' fs' where
    2: "alloc_pages a obj wp is base 0 sz offset s1 = Some s'" "range_mapped R wp ?ps fs1 (pmem s1) (pmem s')"
      "frames_apart (pmem s') R" "vm_inv s' R fs'" "mapping s' = mapping s1" by blast
  from range_mapped_step [OF Cons.prems(6) sep ap n(3) 1(2,3,10,4) 2(2)]
  have "range_mapped R wp (insert (path_of ?p) ?ps) fs (pmem s) (pmem s')" .
  moreover have "alloc_pages a obj wp (i # is) base 0 sz offset s = Some s'" using 1(1) 2(1) by (simp add: Let_def)
  ultimately show ?case using 2(3-5) 1(6) by (intro exI [of _ s'] exI [of _ fs']) simp
qed (auto simp: range_mapped_def)

section \<open>Properties\<close>

text \<open>
  C33. Memory for a section without data, and for the stack: with three frames to spare for every page,
  \<^verbatim>\<open>alloc\<close> maps each page of the range, unprotected or write-protected as asked, to a cleared frame which
  is taken off the free list unless the page had it already; no two pages of the address space share a
  frame afterwards, every page outside the range is mapped as before and holds what it held, and the
  invariant of the memory manager is kept.
\<close>

theorem elf_alloc_maps_range:
  fixes sz :: u32
  defines "n \<equiv> unat ((sz + (MMU_PAGE_SIZE - 1)) div MMU_PAGE_SIZE)"
    and "page \<equiv> \<lambda>virt i. path_of ((virt AND NOT MMU_PAGE_MASK) + of_nat i * MMU_PAGE_SIZE)"
  assumes "R = root_of False s" "vm_inv s R fs" "mapping s + 4 \<le> MAPPER_PAGES" "3 * n \<le> length fs" "3 * n \<le> unat (free_frames s)"
    "frames_apart (pmem s) R"
  shows "\<exists>s' fs'. elf_alloc a obj virt wp 0 sz s = Some s' \<and>
    (\<forall>i < n. \<exists>f. addr_space (pmem s') R (page virt i) = Some (f, False, wp, MMU040_CACHE_MODE_CACHE_COPY_BACK) \<and>
       (\<forall>b. page_of b = f \<longrightarrow> pmem s' b = 0) \<and>
       (f \<in> set fs \<or> (\<exists>x. addr_space (pmem s) R (page virt i) = Some (f, x)))) \<and>
    frames_apart (pmem s') R \<and>
    (\<forall>q. (\<forall>i < n. q \<noteq> page virt i) \<longrightarrow> addr_space (pmem s') R q = addr_space (pmem s) R q \<and>
       (\<forall>g x b. addr_space (pmem s) R q = Some (g, x) \<longrightarrow> page_of b = g \<longrightarrow> pmem s' b = pmem s b)) \<and>
    vm_inv s' R fs'"
proof -
  let ?is = "[0..<n]"
  from alloc_pages_maps [OF assms(4,3,5), of ?is a obj wp "virt AND NOT MMU_PAGE_MASK" sz "virt AND MMU_PAGE_MASK"] assms(6-8)
  obtain s' fs' where 1: "elf_alloc a obj virt wp 0 sz s = Some s'"
    "range_mapped R wp (page virt ` set ?is) fs (pmem s) (pmem s')" "frames_apart (pmem s') R" "vm_inv s' R fs'"
    by (auto simp: elf_alloc_def Let_def n_def page_def)
  have range: "p \<in> page virt ` set ?is \<longleftrightarrow> (\<exists>i < n. p = page virt i)" for p by auto
  show ?thesis
    using 1(1,3,4) 1(2) [unfolded range_mapped_def Ball_def range] by (intro exI [of _ s'] exI [of _ fs']) blast
qed

lemma boot_mmu_apart: "frames_apart (pmem boot_mmu) (root_of False boot_mmu)"
  using boot_mmu_empty by (simp add: frames_apart_def)

theorem elf_alloc_maps_range_witness:
  "\<exists>s' f. elf_alloc 0 [] 0x12345000 False 0 100 boot_mmu = Some s' \<and>
     addr_space (pmem s') (root_of False boot_mmu) (path_of 0x12345000) = Some (f, False, False, MMU040_CACHE_MODE_CACHE_COPY_BACK) \<and>
     frames_apart (pmem s') (root_of False boot_mmu)"
proof -
  have n: "unat ((100 + (MMU_PAGE_SIZE - 1)) div MMU_PAGE_SIZE) = 1" by (simp add: MMU_PAGE_SIZE_def)
  have p: "(0x12345000 :: u32) AND NOT MMU_PAGE_MASK = 0x12345000" by (simp add: MMU_PAGE_MASK_def)
  show ?thesis
    using elf_alloc_maps_range [OF refl boot_mmu_inv _ _ _ boot_mmu_apart, where sz = 100 and a = 0 and obj = "[]" and virt = "0x12345000" and wp = False, unfolded n p]
    by (force simp: boot_mmu_def MAPPER_PAGES_def)
qed

text \<open>
  C34. A section whose size is one page is mapped but not loaded: the number of bytes copied to the page is
  the size modulo the page size, zero, so the page holds zeros whatever the file contains.
\<close>

theorem elf_page_sized_section_is_lost:
  assumes "R = root_of False s" "vm_inv s R fs" "mapping s + 4 \<le> MAPPER_PAGES" "3 \<le> length fs" "3 \<le> unat (free_frames s)"
    "virt AND MMU_PAGE_MASK = 0" "data \<noteq> 0"
  shows "\<exists>s' f. elf_alloc a obj virt wp data MMU_PAGE_SIZE s = Some s' \<and>
    addr_space (pmem s') R (path_of virt) = Some (f, False, wp, MMU040_CACHE_MODE_CACHE_COPY_BACK) \<and>
    (\<forall>b. page_of b = f \<longrightarrow> pmem s' b = 0)"
proof -
  from alloc_at_ok [OF assms(1-5), of virt wp] obtain f s1 fs1 where
    1: "mmu040_alloc_at virt False wp s = Some (f, s1)"
      "addr_space (pmem s1) R = (addr_space (pmem s) R)(path_of virt \<mapsto> (f, False, wp, MMU040_CACHE_MODE_CACHE_COPY_BACK))"
      "\<forall>b. page_of b = f \<longrightarrow> pmem s1 b = 0" "vm_inv s1 R fs1" "mapping s1 = mapping s" by blast
  have "virt AND NOT MMU_PAGE_MASK = virt"
  proof -
    have "(virt AND MMU_PAGE_MASK) OR (virt AND NOT MMU_PAGE_MASK) = virt" by (simp flip: bit.conj_disj_distrib)
    then show ?thesis using assms(6) by simp
  qed
  moreover have "unat ((MMU_PAGE_SIZE + (MMU_PAGE_SIZE - 1)) div MMU_PAGE_SIZE) = 1" "MMU_PAGE_SIZE AND MMU_PAGE_MASK = 0"
    by (simp_all add: MMU_PAGE_SIZE_def MMU_PAGE_MASK_def)
  moreover obtain slot s2 where "mapping_push f s1 = Some (slot, s2)" "pmem s2 = pmem s1"
    using 1(4,5) assms(3) by (force simp: mapping_push_def vm_inv_def frame_pool_inv_def mapper_ok_def Let_def)
  moreover have "pmem (mapping_pop s) = pmem s" for s by (simp add: mapping_pop_def)
  ultimately show ?thesis using 1(1-3) assms(6,7) by (simp add: elf_alloc_def mmu040_fill_frame_def)
qed

theorem elf_page_sized_section_is_lost_witness:
  "\<exists>s' f. elf_alloc 0x1000 (replicate 8192 7) 0x12345000 False 0x2000 MMU_PAGE_SIZE boot_mmu = Some s' \<and>
    addr_space (pmem s') (root_of False boot_mmu) (path_of 0x12345000) = Some (f, False, False, MMU040_CACHE_MODE_CACHE_COPY_BACK) \<and>
    (\<forall>b. page_of b = f \<longrightarrow> pmem s' b = 0)"
  using elf_page_sized_section_is_lost [OF refl boot_mmu_inv, where virt = "0x12345000" and data = "0x2000" and a = "0x1000" and obj = "replicate 8192 7" and wp = False]
  by (simp add: boot_mmu_def MAPPER_PAGES_def MMU_PAGE_MASK_def)

end
