(* ===== verification/Syscall.thy ===== *)
theory Syscall
  imports Vfs Elf Printf
begin

text \<open>
  System calls: the dispatcher \<^verbatim>\<open>kernel/syscall.c\<close> with \<^verbatim>\<open>include/syscall.h\<close>, and the handlers in
  \<^verbatim>\<open>kernel/syscall/\<close>.

  The state of the machine is the virtual file system with the kernel below it, the objects in the
  address space of the current process that pointer arguments denote (none for a null or wild
  pointer), the flag that asks for a context switch, the log level and the device that messages are
  written to, which works on the state of the drivers like any other.  What
  uninitialised variables and fresh memory hold, and the \<^verbatim>\<open>Device\<close> behind a pointer, is given by an
  environment.
\<close>

section \<open>State\<close>

record 'w machine =
  m_vfs :: "'w vfs"
  m_user :: "u32 \<Rightarrow> bytes option"
  m_switch :: bool
  m_loglevel :: LogLevel
  m_kconsole :: "(bytes \<Rightarrow> 'w \<Rightarrow> (int \<times> 'w) option) option"

record 'w syscall_env =
  se_devs :: "u32 \<Rightarrow> 'w Device"
  se_component :: bytes
  se_stat :: stat
  se_process :: Process
  se_memory :: bytes

definition procs_of :: "'w machine \<Rightarrow> procs" where
  "procs_of m = k_procs (v_kernel (m_vfs m))"

definition with_procs :: "procs \<Rightarrow> 'w machine \<Rightarrow> 'w machine" where
  "with_procs p m = m\<lparr>m_vfs := (m_vfs m)\<lparr>v_kernel := (v_kernel (m_vfs m))\<lparr>k_procs := p\<rparr>\<rparr>\<rparr>"

definition with_drv :: "'w \<Rightarrow> 'w machine \<Rightarrow> 'w machine" where
  "with_drv w m = m\<lparr>m_vfs := (m_vfs m)\<lparr>v_kernel := (v_kernel (m_vfs m))\<lparr>k_drv := w\<rparr>\<rparr>\<rparr>"

text \<open>
  Output for the console of the kernel; without output it is not called.  A call of \<^verbatim>\<open>kprintf\<close>, whose
  output goes there.
\<close>

definition put_out :: "bytes \<Rightarrow> 'w machine \<Rightarrow> 'w machine option" where
  "put_out out m =
     (if out = [] then Some m
      else do {
        (_, w) \<leftarrow> kconsole_write (m_kconsole m) out (k_drv (v_kernel (m_vfs m)));
        Some (with_drv w m) })"

definition log_message :: "LogLevel \<Rightarrow> string \<Rightarrow> VaArg list \<Rightarrow> 'w machine \<Rightarrow> 'w machine option" where
  "log_message level format va m = do {
     (_, out) \<leftarrow> kprintf (m_loglevel m) level (map of_char format @ [10, 0]) va;
     put_out out m }"

text \<open>\<^verbatim>\<open>process_from_pid(process_current())\<close>, a pointer.\<close>

definition current_process :: "'w machine \<Rightarrow> u32 option" where
  "current_process m = process_from_pid (process_current (procs_of m)) (procs_of m)"

text \<open>The process object behind a pointer, and an update of it.\<close>

definition process_obj :: "u32 \<Rightarrow> 'w machine \<Rightarrow> Process option" where
  "process_obj p m = pobj (procs_of m) p"

definition set_process_obj :: "u32 \<Rightarrow> Process \<Rightarrow> 'w machine \<Rightarrow> 'w machine" where
  "set_process_obj p pr m = with_procs ((procs_of m)\<lparr>pobj := (pobj (procs_of m))(p \<mapsto> pr)\<rparr>) m"

definition syscall_trigger_context_switch :: "'w machine \<Rightarrow> 'w machine" where
  "syscall_trigger_context_switch m = m\<lparr>m_switch := True\<rparr>"

section \<open>Handlers\<close>

definition syscall_exit :: "u32 \<Rightarrow> 'w machine \<Rightarrow> (int \<times> 'w machine) option" where
  "syscall_exit arg0 m = do {
     p \<leftarrow> process_exit (process_current (procs_of m)) (sint arg0) (procs_of m);
     Some (0, with_procs p m) }"

definition syscall_getpid :: "'w machine \<Rightarrow> (int \<times> 'w machine) option" where
  "syscall_getpid m = Some (process_current (procs_of m), m)"

text \<open>\<^verbatim>\<open>_fork\<close>: a failing clone of the address space undoes the creation.\<close>

definition fork :: "'w syscall_env \<Rightarrow> 'w machine \<Rightarrow> (int \<times> 'w machine) option" where
  "fork env m = do {
     current \<leftarrow> current_process m;
     if current = 0 then Some (- errno EAGAIN, m)
     else do {
       cur \<leftarrow> process_obj current m;
       (pid, p) \<leftarrow> process_create (se_process env) (p_user cur) (p_group cur) (procs_of m);
       let m = with_procs p m;
       if pid < 0 then Some (- errno EAGAIN, m)
       else do {
         new \<leftarrow> process_from_pid pid (procs_of m);
         if new = 0 then Some (- errno EAGAIN, m)
         else do {
           child \<leftarrow> process_obj new m;
           m \<leftarrow> log_message LOG_LEVEL_INFO ''fork: created process %i'' [Arg32 (word_of_int (p_pid child))] m;
           cur \<leftarrow> process_obj current m;
           (r, p) \<leftarrow> with_mmu (mmu040_clone_userspace (Some (p_userspace cur)) (Some (p_userspace child))) (procs_of m);
           let m = with_procs p m;
           if r < 0 then do {
             p \<leftarrow> process_exit pid 1 (procs_of m);
             let m = with_procs p m;
             child \<leftarrow> process_obj new m;
             let m = set_process_obj new (child\<lparr>p_state := PROCESS_STATE_ZOMBIE\<rparr>) m;
             (_, p) \<leftarrow> process_wait pid (procs_of m);
             Some (- errno ENOMEM, with_procs p m) }
           else do {
             m \<leftarrow> log_message LOG_LEVEL_DEBUG ''fork: cloned userspace'' [] m;
             child \<leftarrow> process_obj new m;
             general \<leftarrow> wr (reg_general (p_reg cur)) 0 0;
             let child = child\<lparr>p_reg := (p_reg child)\<lparr>reg_pc := reg_pc (p_reg cur), reg_stack := reg_stack (p_reg cur),
                                 reg_general := general\<rparr>,
                               p_file := p_file cur, p_parent := p_pid cur\<rparr>;
             Some (p_pid child, set_process_obj new child m) } } } } }"

definition syscall_fork :: "'w syscall_env \<Rightarrow> 'w machine \<Rightarrow> (int \<times> 'w machine) option" where
  "syscall_fork env m = fork env m"

text \<open>The number of the global file behind a file number of the current process, or the error.\<close>

definition global_file :: "int \<Rightarrow> 'w machine \<Rightarrow> (int + int) option" where
  "global_file fd m =
     (if fd < 0 \<or> fd \<ge> int MAX_PROCESS_FILES then Some (Inl (- errno EBADF))
      else do {
        proc \<leftarrow> current_process m;
        if proc = 0 then Some (Inl (- errno EINVAL))
        else do {
          pr \<leftarrow> process_obj proc m;
          global_fd \<leftarrow> ird (p_file pr) fd;
          if global_fd < 0 then Some (Inl (- errno EBADF)) else Some (Inr global_fd) } })"

text \<open>The buffer is the object that the pointer argument denotes.\<close>

definition syscall_read :: "'w syscall_env \<Rightarrow> u32 \<Rightarrow> u32 \<Rightarrow> u32 \<Rightarrow> 'w machine \<Rightarrow> (int \<times> 'w machine) option" where
  "syscall_read env arg0 arg1 arg2 m = do {
     m \<leftarrow> log_message LOG_LEVEL_INFO ''read %i %i'' [Arg32 arg0, Arg32 arg2] m;
     g \<leftarrow> global_file (sint arg0) m;
     case g of
       Inl err \<Rightarrow> Some (err, m)
     | Inr global_fd \<Rightarrow> do {
         buf \<leftarrow> m_user m arg1;
         (r, buf, v) \<leftarrow> vfs_read (se_devs env) global_fd buf arg2 (m_vfs m);
         Some (r, m\<lparr>m_vfs := v, m_user := (m_user m)(arg1 \<mapsto> buf)\<rparr>) } }"

definition syscall_write :: "'w syscall_env \<Rightarrow> u32 \<Rightarrow> u32 \<Rightarrow> u32 \<Rightarrow> 'w machine \<Rightarrow> (int \<times> 'w machine) option" where
  "syscall_write env arg0 arg1 arg2 m = do {
     g \<leftarrow> global_file (sint arg0) m;
     case g of
       Inl err \<Rightarrow> Some (err, m)
     | Inr global_fd \<Rightarrow> do {
         buf \<leftarrow> m_user m arg1;
         if length buf < unat arg2 then None
         else do {
           (r, v) \<leftarrow> vfs_write (se_devs env) global_fd (take (unat arg2) buf) (m_vfs m);
           Some (r, m\<lparr>m_vfs := v\<rparr>) } } }"

text \<open>
  \<^verbatim>\<open>_open\<close>.  The name is printed before it is compared with the null pointer, when the level of the message
  is shown.  When the process has no free number the global file stays open.
\<close>

definition syscall_open :: "'w syscall_env \<Rightarrow> u32 \<Rightarrow> u32 \<Rightarrow> 'w machine \<Rightarrow> (int \<times> 'w machine) option" where
  "syscall_open env arg0 arg1 m = do {
     m \<leftarrow> (if level_no LOG_LEVEL_INFO > level_no (m_loglevel m) then Some m
          else do {
            name \<leftarrow> m_user m arg0;
            log_message LOG_LEVEL_INFO ''open %s (%x): %i'' [ArgStr name, Arg32 arg0, Arg32 arg1] m });
     if arg0 = 0 then Some (- errno EINVAL, m)
     else do {
       proc \<leftarrow> current_process m;
       if proc = 0 then Some (- errno EINVAL, m)
       else do {
         name \<leftarrow> m_user m arg0;
         (global_fd, v) \<leftarrow> vfs_open (se_component env) (se_stat env) name (sint arg1) (m_vfs m);
         let m = m\<lparr>m_vfs := v\<rparr>;
         if global_fd < 0 then Some (global_fd, m)
         else do {
           pr \<leftarrow> process_obj proc m;
           let fd = find_slot (\<lambda>f. f < 0) (p_file pr);
           if fd < length (p_file pr)
           then Some (int fd, set_process_obj proc (pr\<lparr>p_file := (p_file pr)[fd := global_fd]\<rparr>) m)
           else Some (- errno EMFILE, m) } } } }"

text \<open>
  \<^verbatim>\<open>_execve\<close>.  No result is checked: a file that cannot be opened has a negative number, with which the
  file table is accessed.  The memory for the file is an object of its own at the address \<^verbatim>\<open>kmalloc\<close>
  returned; it is not freed.
\<close>

definition syscall_execve :: "'w syscall_env \<Rightarrow> u32 \<Rightarrow> 'w machine \<Rightarrow> (int \<times> 'w machine) option" where
  "syscall_execve env arg0 m =
     (if arg0 = 0 then Some (- errno EINVAL, m)
      else do {
        let pid = process_current (procs_of m);
        proc \<leftarrow> process_from_pid pid (procs_of m);
        if proc = 0 then Some (- errno EINVAL, m)
        else do {
          filename \<leftarrow> m_user m arg0;
          (fd, v) \<leftarrow> vfs_open (se_component env) (se_stat env) filename 0 (m_vfs m);
          (_, v) \<leftarrow> vfs_seek (se_stat env) fd 0 2 v;
          pos \<leftarrow> vfs_tell fd v;
          let exe_size = (word_of_int pos :: u32);
          (_, v) \<leftarrow> vfs_seek (se_stat env) fd 0 0 v;
          let m = m\<lparr>m_vfs := v\<rparr>;
          (exe, h) \<leftarrow> kmalloc exe_size (kheap_of (procs_of m));
          let m = with_procs ((procs_of m)\<lparr>kheap_of := h\<rparr>) m;
          let buf = (if exe = 0 then [] else take (unat exe_size) (se_memory env));
          (_, buf, v) \<leftarrow> vfs_read (se_devs env) fd buf exe_size (m_vfs m);
          (_, v) \<leftarrow> vfs_close fd v;
          let m = m\<lparr>m_vfs := v\<rparr>;
          pr \<leftarrow> process_obj proc m;
          (entry, p) \<leftarrow> with_mmu (\<lambda>mm. do {
             mm \<leftarrow> mmu040_clear_userspace (p_userspace pr) mm;
             elf_load exe buf mm }) (procs_of m);
          p \<leftarrow> process_set_pc pid entry p;
          m \<leftarrow> log_message LOG_LEVEL_INFO ''execve elf entry 0x%x'' [Arg32 entry] (with_procs p m);
          Some (0, syscall_trigger_context_switch m) } })"

text \<open>The calls that are not implemented return zero.\<close>

definition syscall_close :: "'w machine \<Rightarrow> (int \<times> 'w machine) option" where "syscall_close m = Some (0, m)"
definition syscall_waitpid :: "'w machine \<Rightarrow> (int \<times> 'w machine) option" where "syscall_waitpid m = Some (0, m)"
definition syscall_creat :: "'w machine \<Rightarrow> (int \<times> 'w machine) option" where "syscall_creat m = Some (0, m)"
definition syscall_link :: "'w machine \<Rightarrow> (int \<times> 'w machine) option" where "syscall_link m = Some (0, m)"
definition syscall_unlink :: "'w machine \<Rightarrow> (int \<times> 'w machine) option" where "syscall_unlink m = Some (0, m)"
definition syscall_chdir :: "'w machine \<Rightarrow> (int \<times> 'w machine) option" where "syscall_chdir m = Some (0, m)"
definition syscall_time :: "'w machine \<Rightarrow> (int \<times> 'w machine) option" where "syscall_time m = Some (0, m)"
definition syscall_mknod :: "'w machine \<Rightarrow> (int \<times> 'w machine) option" where "syscall_mknod m = Some (0, m)"
definition syscall_chmod :: "'w machine \<Rightarrow> (int \<times> 'w machine) option" where "syscall_chmod m = Some (0, m)"
definition syscall_lchown :: "'w machine \<Rightarrow> (int \<times> 'w machine) option" where "syscall_lchown m = Some (0, m)"
definition syscall_stat :: "'w machine \<Rightarrow> (int \<times> 'w machine) option" where "syscall_stat m = Some (0, m)"
definition syscall_lseek :: "'w machine \<Rightarrow> (int \<times> 'w machine) option" where "syscall_lseek m = Some (0, m)"

section \<open>The dispatcher\<close>

definition SYSCALLS :: u32 where "SYSCALLS = 19"

text \<open>\<^verbatim>\<open>syscall_handler\<close>, indexed by the numbers of the enumeration.\<close>

definition syscall_handler ::
  "'w syscall_env \<Rightarrow> u32 \<Rightarrow> u32 \<Rightarrow> u32 \<Rightarrow> u32 \<Rightarrow> u32 \<Rightarrow> ('w machine \<Rightarrow> (int \<times> 'w machine) option) list" where
  "syscall_handler env arg0 arg1 arg2 arg3 arg4 =
     [syscall_exit arg0, syscall_fork env, syscall_read env arg0 arg1 arg2, syscall_write env arg0 arg1 arg2,
      syscall_open env arg0 arg1, syscall_close, syscall_waitpid, syscall_creat, syscall_link, syscall_unlink,
      syscall_execve env arg0, syscall_chdir, syscall_time, syscall_mknod, syscall_chmod, syscall_lchown,
      syscall_stat, syscall_lseek, syscall_getpid]"

definition syscall_stub ::
  "'w syscall_env \<Rightarrow> u32 \<Rightarrow> u32 \<Rightarrow> u32 \<Rightarrow> u32 \<Rightarrow> u32 \<Rightarrow> u32 \<Rightarrow> 'w machine \<Rightarrow> (int \<times> 'w machine) option" where
  "syscall_stub env syscall arg0 arg1 arg2 arg3 arg4 m =
     (if syscall > SYSCALLS then do {
        m \<leftarrow> log_message LOG_LEVEL_WARNING ''SYSCALL: invalid syscall %i called with %u %u %u %u %u''
              (map Arg32 [syscall, arg0, arg1, arg2, arg3, arg4]) m;
        Some (- errno EINVAL, m) }
      else do {
        m \<leftarrow> log_message LOG_LEVEL_DEBUG ''SYSCALL: %i called'' [Arg32 syscall] m;
        call \<leftarrow> rd (syscall_handler env arg0 arg1 arg2 arg3 arg4) (unat syscall);
        call m })"

end
