(* ===== verification/SyscallSpec.thy ===== *)
theory SyscallSpec
  imports Syscall PrintfSpec VfsSpec ChardevSpec
begin

text \<open>
  Properties of the system calls (\<^theory_text>\<open>Syscall\<close>): the messages they print never fail, the dispatcher at
  the bounds of its table, and \<^verbatim>\<open>open\<close> followed by \<^verbatim>\<open>read\<close> through processes, global files, the virtual
  file system and the disk.
\<close>

section \<open>Messages\<close>

lemma int_to_string_total:
  "base = 8 \<or> base = 10 \<or> base = 16 \<Longrightarrow> \<exists>s. int_to_string (unat (n :: u64)) [] base = Some s"
proof -
  assume b: "base = 8 \<or> base = 10 \<or> base = 16"
  have n: "unat n < 2 ^ 64" using unsigned_less [of n] by simp
  have "(2::nat) ^ 64 \<le> 8 ^ 24" "(2::nat) ^ 64 \<le> 10 ^ 24" "(2::nat) ^ 64 \<le> 16 ^ 24" by simp_all
  then have "unat n < base ^ 24" using n b by (auto intro: less_le_trans)
  then have "length (digits base (unat n)) \<le> 24" using b by (intro length_digits) auto
  then show ?thesis using int_to_string_digits [of base "unat n" "[]"] b by auto
qed

lemma print_num_total:
  assumes "cv_base cv = 8 \<or> cv_base cv = 10 \<or> cv_base cv = 16"
  shows "\<exists>st'. print_num cv st = Some st' \<and> pf_args st' = pf_args st"
  using int_to_string_total [OF assms, of "pf_num st"] by (auto simp: print_num_def Let_def emit_def)

lemma convert_number_total:
  assumes "pf_args st = Arg32 w # as" "c \<in> {117, 120, 100, 105}" "cv_length cv = LENGTH_INT" "cv_base cv = 10"
  shows "\<exists>st'. convert c cv st = Some st' \<and> pf_args st' = as"
proof -
  have "\<exists>st'. print_num cv' st1 = Some st' \<and> pf_args st' = as"
    if "pf_args st1 = as" "cv_base cv' = 10 \<or> cv_base cv' = 16" for cv' st1
    using print_num_total [of cv' st1] that by auto
  then show ?thesis using assms
    by (auto simp: convert_def fetch_unsigned_def fetch_signed_def emit_def Let_def split: if_splits)
qed

text \<open>A format whose conversions match the arguments.\<close>

fun fits :: "bytes \<Rightarrow> VaArg list \<Rightarrow> bool" where
  "fits [] as = True"
| "fits (c # cs) as =
     (if c = 0 then False
      else if c \<noteq> 37 then fits cs as
      else case cs of
        [] \<Rightarrow> False
      | d # cs \<Rightarrow>
          (case as of
             Arg32 w # as \<Rightarrow> d \<in> {117, 120, 100, 105} \<and> fits cs as
           | ArgStr s # as \<Rightarrow> d = 115 \<and> 0 \<in> set s \<and> fits cs as
           | _ \<Rightarrow> False))"

lemma conversion_total:
  assumes "pf_args st = a # as" "case a of Arg32 w \<Rightarrow> d \<in> {117, 120, 100, 105} | ArgStr s \<Rightarrow> d = 115 \<and> 0 \<in> set s | _ \<Rightarrow> False"
  shows "\<exists>st'. conversion (d # fmt) conv_start st = Some (Some fmt, st') \<and> pf_args st' = as"
proof (cases a)
  case (Arg32 w)
  have "cv_length conv_start = LENGTH_INT" "cv_base conv_start = 10" by (simp_all add: conv_start_def)
  then obtain st' where "convert d conv_start st = Some st'" "pf_args st' = as"
    using convert_number_total [of st w as d conv_start] assms Arg32 by auto
  then show ?thesis using assms(2) Arg32 by (auto simp: is_modifier_def is_conversion_def)
next
  case (ArgStr s)
  then obtain n where "strlen s = Some n" using assms(2) by (auto simp: strlen_eq)
  then show ?thesis using assms ArgStr
    by (auto simp: is_modifier_def is_conversion_def convert_def emit_def)
qed (use assms(2) in simp)

lemma vprintf_fits: "fits fmt as \<Longrightarrow> pf_args st = as \<Longrightarrow> \<exists>r. vprintf_loop (fmt @ [0]) i st = Some r"
proof (induction fmt as arbitrary: i st rule: fits.induct)
  case (2 c cs as)
  show ?case
  proof (cases "c = 37")
    case False
    then show ?thesis using 2 by (auto simp: emit_def)
  next
    case True
    then obtain d cs' a as' where cs: "cs = d # cs'" "as = a # as'" "fits cs' as'"
      and a: "case a of Arg32 w \<Rightarrow> d \<in> {117, 120, 100, 105} | ArgStr s \<Rightarrow> d = 115 \<and> 0 \<in> set s | _ \<Rightarrow> False"
      using 2(4) by (auto split: list.splits VaArg.splits)
    from conversion_total [OF _ a, of st as' "cs' @ [0]"] 2(5) cs(2) obtain st' where
      st': "conversion (d # cs' @ [0]) conv_start st = Some (Some (cs' @ [0]), st')" "pf_args st' = as'" by auto
    have "\<exists>r. vprintf_loop (cs' @ [0]) (i + 1) st' = Some r"
      using 2(2,3) True cs a st'(2) by (cases a) auto
    then show ?thesis using True cs(1) st'(1) by auto
  qed
qed simp

lemma log_message_total:
  assumes "fits (map of_char format @ [10]) va"
  shows "\<exists>r out. kprintf (m_loglevel m) level (map of_char format @ [10, 0]) va = Some (r, out) \<and>
    log_message level format va m = put_out out m"
proof -
  from vprintf_fits [OF assms, of "\<lparr>pf_out = [], pf_args = va, pf_num = 0, pf_signum = 0\<rparr>" 0]
  obtain r where v: "vprintf (map of_char format @ [10, 0]) va = Some r" by (auto simp: vprintf_def split: prod.splits)
  have tag: "butlast log_tag @ [0] = log_tag" by (simp add: log_tag_def)
  have "fits (butlast log_tag) [ArgStr (logcolor level), ArgStr (logprefix level)]"
    by (cases level) (simp_all add: log_tag_def esc_def)
  from vprintf_fits [OF this, of "\<lparr>pf_out = [], pf_args = [ArgStr (logcolor level), ArgStr (logprefix level)], pf_num = 0, pf_signum = 0\<rparr>" 0]
  obtain t where t: "printf log_tag [ArgStr (logcolor level), ArgStr (logprefix level)] = Some t"
    unfolding tag by (auto simp: printf_def vprintf_def split: prod.splits)
  have "\<exists>r out. kprintf (m_loglevel m) level (map of_char format @ [10, 0]) va = Some (r, out)"
    using v t by (cases r; cases "level = LOG_LEVEL_NONE") (simp_all add: kprintf_def)
  then show ?thesis by (auto simp: log_message_def)
qed

lemma with_drv_simps [simp]:
  "current_process (with_drv w m) = current_process m" "process_obj p (with_drv w m) = process_obj p m" "m_user (with_drv w m) = m_user m"
  "vfs_file (m_vfs (with_drv w m)) = vfs_file (m_vfs m)" "k_devtab (v_kernel (m_vfs (with_drv w m))) = k_devtab (v_kernel (m_vfs m))"
  "k_drv (v_kernel (m_vfs (with_drv w m))) = w" "with_drv w' (with_drv w m) = with_drv w' m"
  by (simp_all add: with_drv_def current_process_def process_obj_def procs_of_def)

section \<open>The dispatcher\<close>

text \<open>The message of the dispatcher for a number it knows, and the output it makes.\<close>

definition call_message :: "u32 \<Rightarrow> 'w machine \<Rightarrow> bytes \<Rightarrow> bool" where
  "call_message n m out \<longleftrightarrow>
     (\<exists>r. kprintf (m_loglevel m) LOG_LEVEL_DEBUG (map of_char ''SYSCALL: %i called'' @ [10, 0]) [Arg32 n] = Some (r, out))"

lemma syscall_stub_dispatch:
  assumes "\<not> n > SYSCALLS"
  shows "\<exists>out. call_message n m out \<and> syscall_stub env n a0 a1 a2 a3 a4 m =
      put_out out m \<bind> (\<lambda>m. rd (syscall_handler env a0 a1 a2 a3 a4) (unat n) \<bind> (\<lambda>call. call m))"
proof -
  have "fits (map of_char ''SYSCALL: %i called'' @ [10]) [Arg32 n]" by simp
  from log_message_total [OF this, of m LOG_LEVEL_DEBUG] obtain r out where
    out: "kprintf (m_loglevel m) LOG_LEVEL_DEBUG (map of_char ''SYSCALL: %i called'' @ [10, 0]) [Arg32 n] = Some (r, out)"
      "log_message LOG_LEVEL_DEBUG ''SYSCALL: %i called'' [Arg32 n] m = put_out out m" by blast
  have "syscall_stub env n a0 a1 a2 a3 a4 m =
      put_out out m \<bind> (\<lambda>m. rd (syscall_handler env a0 a1 a2 a3 a4) (unat n) \<bind> (\<lambda>call. call m))"
    using assms by (simp add: syscall_stub_def out(2))
  with out(1) show ?thesis unfolding call_message_def by blast
qed

lemma length_handlers: "length (syscall_handler env a0 a1 a2 a3 a4) = unat SYSCALLS"
  by (simp add: syscall_handler_def SYSCALLS_def)

lemma syscall_stub_runs:
  assumes "n < SYSCALLS"
  shows "\<exists>out. call_message n m out \<and>
    syscall_stub env n a0 a1 a2 a3 a4 m = put_out out m \<bind> (syscall_handler env a0 a1 a2 a3 a4 ! unat n)"
proof -
  have "rd (syscall_handler env a0 a1 a2 a3 a4) (unat n) = Some (syscall_handler env a0 a1 a2 a3 a4 ! unat n)"
    using assms by (simp add: length_handlers word_less_nat_alt)
  then show ?thesis using syscall_stub_dispatch [of n m env a0 a1 a2 a3 a4] assms by auto
qed

text \<open>
  C36. The dispatcher at its bounds: a number beyond the table is refused with \<^verbatim>\<open>-EINVAL\<close>; a number inside
  runs the handler of that number; the machine is otherwise unchanged, but for the message that the console of
  the kernel is given before, if the level of the log shows it; the number of entries itself passes the
  check and reads behind the table.
\<close>

theorem syscall_stub_bounds:
  "(syscall > SYSCALLS \<longrightarrow>
      (\<exists>r out. kprintf (m_loglevel m) LOG_LEVEL_WARNING (map of_char ''SYSCALL: invalid syscall %i called with %u %u %u %u %u'' @ [10, 0])
           (map Arg32 [syscall, a0, a1, a2, a3, a4]) = Some (r, out) \<and>
         syscall_stub env syscall a0 a1 a2 a3 a4 m = put_out out m \<bind> (\<lambda>m'. Some (- errno EINVAL, m')))) \<and>
   (syscall < SYSCALLS \<longrightarrow>
      (\<exists>r out. kprintf (m_loglevel m) LOG_LEVEL_DEBUG (map of_char ''SYSCALL: %i called'' @ [10, 0]) [Arg32 syscall] = Some (r, out) \<and>
         syscall_stub env syscall a0 a1 a2 a3 a4 m = put_out out m \<bind> (syscall_handler env a0 a1 a2 a3 a4 ! unat syscall))) \<and>
   syscall_stub env SYSCALLS a0 a1 a2 a3 a4 m = None"
proof -
  have "fits (map of_char ''SYSCALL: invalid syscall %i called with %u %u %u %u %u'' @ [10])
      (map Arg32 [syscall, a0, a1, a2, a3, a4])" by simp
  from log_message_total [OF this, of m LOG_LEVEL_WARNING] obtain r out where
    "kprintf (m_loglevel m) LOG_LEVEL_WARNING (map of_char ''SYSCALL: invalid syscall %i called with %u %u %u %u %u'' @ [10, 0])
       (map Arg32 [syscall, a0, a1, a2, a3, a4]) = Some (r, out)"
    "log_message LOG_LEVEL_WARNING ''SYSCALL: invalid syscall %i called with %u %u %u %u %u''
       (map Arg32 [syscall, a0, a1, a2, a3, a4]) m = put_out out m" by blast
  moreover from this(2) have "syscall_stub env syscall a0 a1 a2 a3 a4 m = put_out out m \<bind> (\<lambda>m'. Some (- errno EINVAL, m'))"
    if "syscall > SYSCALLS"
    using that by (simp add: syscall_stub_def)
  moreover have "syscall_stub env SYSCALLS a0 a1 a2 a3 a4 m = None"
    using syscall_stub_dispatch [of SYSCALLS m env a0 a1 a2 a3 a4] by (auto simp: length_handlers split: bind_splits)
  ultimately show ?thesis using syscall_stub_runs [of syscall m env a0 a1 a2 a3 a4] unfolding call_message_def by blast
qed

section \<open>Opening and reading a file\<close>

lemma path_of_names_nul: "0 \<in> set (path_of_names cs)"
  by (simp add: path_of_names_def)


text \<open>
  A console of the kernel that takes every text and is none of the drivers of the model: a message leaves the
  machine as it is.
\<close>

definition console_apart :: "'w machine \<Rightarrow> bool" where
  "console_apart m \<longleftrightarrow> (\<forall>wrt. m_kconsole m = Some wrt \<longrightarrow> (\<forall>out w. \<exists>r. wrt out w = Some (r, w)))"

lemma put_out_apart:
  assumes "console_apart m"
  shows "put_out out m = Some m"
proof (cases "m_kconsole m")
  case (Some wrt)
  with assms obtain r where "wrt out (k_drv (v_kernel (m_vfs m))) = Some (r, k_drv (v_kernel (m_vfs m)))"
    by (auto simp: console_apart_def)
  then show ?thesis using Some by (simp add: put_out_def kconsole_write_def with_drv_def)
qed (simp add: put_out_def kconsole_write_def with_drv_def)

lemma machine_vfs:
  "v_kernel v = v_kernel (m_vfs m) \<Longrightarrow> procs_of (m\<lparr>m_vfs := v\<rparr>) = procs_of m"
  "v_kernel v = v_kernel (m_vfs m) \<Longrightarrow> current_process (m\<lparr>m_vfs := v\<rparr>) = current_process m"
  "v_kernel v = v_kernel (m_vfs m) \<Longrightarrow> process_obj p (m\<lparr>m_vfs := v\<rparr>) = process_obj p m"
  by (simp_all add: procs_of_def current_process_def process_obj_def)

lemma set_process_obj_sel [simp]:
  "process_obj p (set_process_obj p pr m) = Some pr" "current_process (set_process_obj p pr m) = current_process m"
  "m_user (set_process_obj p pr m) = m_user m" "m_loglevel (set_process_obj p pr m) = m_loglevel m"
  by (simp_all add: set_process_obj_def process_obj_def current_process_def procs_of_def with_procs_def
      process_from_pid_def proc_ptr_def)

lemma rom_procs: "rom_file c fd j (v\<lparr>v_kernel := (v_kernel v)\<lparr>k_procs := p\<rparr>\<rparr>) = rom_file c fd j v"
  "rom_image c (v\<lparr>v_kernel := (v_kernel v)\<lparr>k_procs := p\<rparr>\<rparr>) = rom_image c v"
  by (simp_all add: rom_file_def rom_serves_def rom_image_def rom_instance_def rom_mount_def fs_type_at_def
      memblk_ready_def memblk_contents_def)

lemma set_process_obj_vfs: "m_vfs (set_process_obj p pr m) =
    (m_vfs m)\<lparr>v_kernel := (v_kernel (m_vfs m))\<lparr>k_procs := (procs_of m)\<lparr>pobj := (pobj (procs_of m))(p \<mapsto> pr)\<rparr>\<rparr>\<rparr>"
  by (simp add: set_process_obj_def with_procs_def)

lemma console_apart_set: "console_apart m \<Longrightarrow> console_apart (set_process_obj p pr (m\<lparr>m_vfs := v\<rparr>))"
  by (simp add: console_apart_def set_process_obj_def with_procs_def)

text \<open>What the two handlers do once the layers below them are known.\<close>

lemma syscall_open_ok:
  assumes "m_user m name = Some path" "name \<noteq> 0" "0 \<in> set path" "current_process m = Some proc" "proc \<noteq> 0"
    "vfs_open (se_component env) (se_stat env) path (sint flags) (m_vfs m) = Some (g, v)" "0 \<le> g" "v_kernel v = v_kernel (m_vfs m)"
    "process_obj proc m = Some pr" "\<exists>f \<in> set (p_file pr). f < 0" "console_apart m"
  defines "fd \<equiv> find_slot (\<lambda>f. f < 0) (p_file pr)"
  shows "syscall_open env name flags m = Some (int fd, set_process_obj proc (pr\<lparr>p_file := (p_file pr)[fd := g]\<rparr>) (m\<lparr>m_vfs := v\<rparr>))"
proof -
  have "fits (map of_char ''open %s (%x): %i'' @ [10]) [ArgStr path, Arg32 name, Arg32 flags]" using assms(3) by simp
  from log_message_total [OF this, of m LOG_LEVEL_INFO] put_out_apart [OF assms(11)]
  have out: "log_message LOG_LEVEL_INFO ''open %s (%x): %i'' [ArgStr path, Arg32 name, Arg32 flags] m = Some m" by auto
  have fd: "fd < length (p_file pr)" using assms(10) by (simp add: fd_def find_slot_less_iff)
  have "(if level_no LOG_LEVEL_INFO > level_no (m_loglevel m) then Some m
          else do {
            name' \<leftarrow> m_user m name;
            log_message LOG_LEVEL_INFO ''open %s (%x): %i'' [ArgStr name', Arg32 name, Arg32 flags] m }) = Some m"
    using out assms(1) by simp
  note shown = this
  show ?thesis
    unfolding syscall_open_def shown
    using assms(1-10) fd by (simp add: machine_vfs fd_def Let_def)
qed

lemma syscall_read_ok:
  assumes "current_process m = Some proc" "proc \<noteq> 0" "process_obj proc m = Some pr"
    "length (p_file pr) = MAX_PROCESS_FILES" "fd < MAX_PROCESS_FILES" "0 \<le> p_file pr ! fd" "m_user m b = Some buf"
    "vfs_read (se_devs env) (p_file pr ! fd) buf n (m_vfs m) = Some (r, buf', v)" "console_apart m"
  shows "syscall_read env (of_nat fd) b n m = Some (r, m\<lparr>m_vfs := v, m_user := (m_user m)(b \<mapsto> buf')\<rparr>)"
proof -
  have "fits (map of_char ''read %i %i'' @ [10]) [Arg32 (of_nat fd), Arg32 n]" by simp
  from log_message_total [OF this, of m LOG_LEVEL_INFO] put_out_apart [OF assms(9)]
  have out: "log_message LOG_LEVEL_INFO ''read %i %i'' [Arg32 (of_nat fd), Arg32 n] m = Some m" by auto
  have "unat (of_nat fd :: u32) = fd" using assms(5) by (simp add: unat_of_nat MAX_PROCESS_FILES_def)
  then have fd: "sint (of_nat fd :: u32) = int fd" using assms(5) sint_small [of "of_nat fd"] by (simp add: MAX_PROCESS_FILES_def)
  have "global_file (int fd) m = Some (Inr (p_file pr ! fd))"
    using assms(1-6) by (simp add: global_file_def)
  then show ?thesis using out assms(7,8) by (simp add: syscall_read_def fd)
qed

text \<open>
  C35. From the trap to the disk: when a path leads to a regular file, the system call \<^verbatim>\<open>open\<close> gives the process
  its first free file number, and the system call \<^verbatim>\<open>read\<close> with that number stores the first bytes of
  the file in the buffer of the process, as many as were asked for and the file has, and nothing
  else of the buffer changes.  (The console of the kernel, on which the calls are announced, is not the disk.)
\<close>

theorem syscall_open_read:
  fixes m :: "drivers machine"
  defines "v \<equiv> m_vfs m"
  assumes "rom_root c v" "vfs_inv v" "cs \<noteq> []" "list_all name_ok cs"
    "walk v (rom_lookup c v) (int (root_mount v)) 0 cs = Inr (rc_mp c, j - i_root_inode (rom_instance c v))"
    "file_ok (rom_image c v) j" "h_size (rom_image c v) j < 2 ^ 31 - 512" "h_byte (rom_image c v) j AND 7 = 2"
    "\<exists>f \<in> set (vfs_file v). \<not> f_is_used f"
    "se_devs env = rc_devs c" "length (se_component env) = NAME_MAX + 1"
    "current_process m = Some proc" "proc \<noteq> 0" "process_obj proc m = Some pr" "length (p_file pr) = MAX_PROCESS_FILES" "\<exists>f \<in> set (p_file pr). f < 0"
    "m_user m name = Some (path_of_names cs)" "name \<noteq> 0" "m_user m b = Some buf" "unat n \<le> length buf"
    "console_apart m"
  defines "fd \<equiv> find_slot (\<lambda>f. f < 0) (p_file pr)" and "bs \<equiv> take (unat n) (file_data (rom_image c v) j)"
  shows "\<exists>m1 m2. syscall_stub env 4 name flags x y z m = Some (int fd, m1) \<and>
    syscall_stub env 2 (of_nat fd) b n x y m1 = Some (int (length bs), m2) \<and>
    m_user m2 b = Some (bs @ drop (length bs) buf)"
proof -
  define g where "g = int (find_slot (\<lambda>f. \<not> f_is_used f) (vfs_file v))"
  define v1 where "v1 = opened g (rc_mp c) (romfs_attr (rom_image c v) (rom_instance c v) j) v"
  have g: "0 \<le> g" "nat g < length (vfs_file v)" using assms(10) by (simp_all add: g_def find_slot_less_iff)
  have o: "vfs_open (se_component env) (se_stat env) (path_of_names cs) (sint flags) v = Some (g, v1)"
    unfolding v1_def g_def using assms(7) by (intro open_rom assms file_header_ok) (auto simp: file_ok_def)
  have k1: "v_kernel v1 = v_kernel v" by (simp add: v1_def opened_def)
  note f1 = opened_rom_file [OF assms(2,3,7,9) g, folded v1_def]
  have nul: "0 \<in> set (path_of_names cs)" by (simp add: path_of_names_nul)
  have fd: "fd < MAX_PROCESS_FILES" using assms(16,17) by (simp add: fd_def find_slot_less_iff flip: assms(16))
  have stub: "syscall_stub env k a0 a1 a2 a3 a4 m' = (syscall_handler env a0 a1 a2 a3 a4 ! unat k) m'"
    if "k < SYSCALLS" "console_apart m'" for k a0 a1 a2 a3 a4 and m' :: "drivers machine"
    using syscall_stub_runs [OF that(1), of m' env a0 a1 a2 a3 a4] put_out_apart [OF that(2)] by auto
  have "syscall_stub env 4 name flags x y z m = syscall_open env name flags m"
    using stub [OF _ assms(22), of 4 name flags x y z] by (simp add: SYSCALLS_def syscall_handler_def)
  moreover have "syscall_open env name flags m =
      Some (int fd, set_process_obj proc (pr\<lparr>p_file := (p_file pr)[fd := g]\<rparr>) (m\<lparr>m_vfs := v1\<rparr>))"
    using syscall_open_ok [of m name "path_of_names cs" proc env flags g v1 pr] assms(13-19,22) nul o g(1) k1
    by (simp add: v_def fd_def)
  ultimately obtain m1 where m1: "syscall_stub env 4 name flags x y z m = Some (int fd, m1)"
    "current_process m1 = Some proc" "process_obj proc m1 = Some (pr\<lparr>p_file := (p_file pr)[fd := g]\<rparr>)" "m_user m1 = m_user m"
    "\<exists>p. m_vfs m1 = v1\<lparr>v_kernel := (v_kernel v1)\<lparr>k_procs := p\<rparr>\<rparr>" "console_apart m1"
    using assms(13) console_apart_set assms(22) k1 by (auto simp: set_process_obj_vfs machine_vfs v_def)
  have s2: "syscall_stub env 2 (of_nat fd) b n x y m1 = syscall_read env (of_nat fd) b n m1"
    using stub [OF _ m1(6), of 2 "of_nat fd" b n x y] by (simp add: SYSCALLS_def syscall_handler_def)
  have rf: "rom_file c g j (m_vfs m1)" "f_pos (vfs_file (m_vfs m1) ! nat g) = 0" "rom_image c (m_vfs m1) = rom_image c v"
    using m1(5) f1 by (auto simp: rom_procs)
  have "length bs \<le> length buf" using assms(21) by (simp add: bs_def)
  then obtain v2 where r: "vfs_read (se_devs env) g buf n (m_vfs m1) = Some (int (length bs), bs @ drop (length bs) buf, v2)"
    using read_rom(1) [OF rf(1), of n buf] rf(2,3) by (auto simp: assms(11) bs_def)
  have "\<exists>m2. syscall_read env (of_nat fd) b n m1 = Some (int (length bs), m2) \<and> m_user m2 b = Some (bs @ drop (length bs) buf)"
    using syscall_read_ok [of m1 proc _ fd b buf env n] m1(2-4,6) assms(14,16,20) fd g(1) r by fastforce
  then show ?thesis using m1(1) s2 by auto
qed

section \<open>A small machine\<close>

definition tiny_env :: "drivers syscall_env" where
  "tiny_env = \<lparr>se_devs = tiny_devs, se_component = replicate (NAME_MAX + 1) 7, se_stat = \<lparr>st_dev = 0, st_ino = 0, st_mode = 0, st_nlink = 0,
     st_uid = 0, st_gid = 0, st_rdev = 0, st_size = 0, st_blksize = 0, st_blocks = 0, st_mtime = 0\<rparr>,
     se_process = idle_process, se_memory = []\<rparr>"

definition tiny_machine :: "drivers machine" where
  "tiny_machine = \<lparr>m_vfs = tiny_vfs one_process, m_user = [0x100 \<mapsto> path_of_names [[0x61]], 0x200 \<mapsto> [9, 9]],
     m_switch = False, m_loglevel = LOG_LEVEL_DEBUG, m_kconsole = Some (\<lambda>out w. Some (int (length out), w))\<rparr>"

lemma tiny_machine_console: "console_apart tiny_machine"
  by (simp add: console_apart_def tiny_machine_def)

theorem syscall_stub_bounds_witness:
  "syscall_stub tiny_env 20 0 0 0 0 0 tiny_machine = Some (- errno EINVAL, tiny_machine) \<and>
   syscall_stub tiny_env 18 0 0 0 0 0 tiny_machine = syscall_getpid tiny_machine \<and>
   syscall_stub tiny_env SYSCALLS 0 0 0 0 0 tiny_machine = None"
  using syscall_stub_bounds [of 20 tiny_machine 0 0 0 0 0 tiny_env] syscall_stub_bounds [of 18 tiny_machine 0 0 0 0 0 tiny_env]
  by (auto simp: SYSCALLS_def syscall_handler_def put_out_apart [OF tiny_machine_console])

theorem syscall_open_read_witness:
  "\<exists>m1 m2. syscall_stub tiny_env 4 0x100 0 0 0 0 tiny_machine = Some (0, m1) \<and>
    syscall_stub tiny_env 2 0 0x200 2 0 0 m1 = Some (2, m2) \<and> m_user m2 0x200 = Some [0x78, 0x79]"
proof -
  have v: "m_vfs tiny_machine = tiny_vfs one_process" by (simp add: tiny_machine_def)
  have p: "procs_of tiny_machine = one_process" by (simp add: procs_of_def v tiny_vfs_sel tiny_kernel_def)
  have c: "current_process tiny_machine = Some 0x2000" "process_obj 0x2000 tiny_machine = Some idle_process"
    by (simp_all add: current_process_def process_obj_def p one_process_def process_from_pid_def proc_ptr_def MAX_PROCESSES_def)
  have f: "length (p_file idle_process) = MAX_PROCESS_FILES" "\<exists>f \<in> set (p_file idle_process). f < 0"
    "find_slot (\<lambda>f. f < 0) (p_file idle_process) = 0"
    by (simp_all add: idle_process_def MAX_PROCESS_FILES_def find_slot_eqI)
  have u: "m_user tiny_machine 0x100 = Some (path_of_names [[0x61]])" "m_user tiny_machine 0x200 = Some [9, 9]"
    by (simp_all add: tiny_machine_def)
  have e: "se_devs tiny_env = tiny_devs" "length (se_component tiny_env) = NAME_MAX + 1" by (simp_all add: tiny_env_def)
  have "h_byte tiny_image 2 = 2" by code_simp
  then show ?thesis
    using syscall_open_read [where c = tiny_ctx and m = tiny_machine and cs = "[[0x61]]" and j = 2 and env = tiny_env and proc = "0x2000" and
        pr = idle_process and name = "0x100" and b = "0x200" and buf = "[9, 9]" and n = 2 and flags = 0 and x = 0 and y = 0 and z = 0]
      tiny_walk [of one_process] tiny_root [of one_process] tiny_vfs_inv [of one_process] tiny_slot(2) [of one_process] tiny_name tiny_file(3) c f u tiny_machine_console
    by (simp add: v e tiny_rom tiny_ctx_sel tiny_header tiny_file(2) del: replicate.simps)
qed

end
