(* ===== verification/Module.thy ===== *)
theory Module
  imports CString
begin

text \<open>
  Modules: the registry of kernel modules, \<^verbatim>\<open>kernel/module.c\<close> with \<^verbatim>\<open>include/module.h\<close>, and the older table
  of calls by major number, \<^verbatim>\<open>kernel/modules/module.c\<close> with \<^verbatim>\<open>kernel/modules/module.h\<close>.

  A \<^verbatim>\<open>Module\<close> is what the pointer denotes, its functions being functions on a state \<open>'w\<close>; the messages to
  the log are left out.
\<close>

section \<open>The registry\<close>

definition MODULES_MAX :: nat where "MODULES_MAX = 32"

text \<open>\<^verbatim>\<open>depends\<close> is a null-terminated array of names, or null.\<close>

record 'w Module =
  mod_name :: bytes
  mod_depends :: "bytes list option"
  mod_init :: "bytes list \<Rightarrow> 'w \<Rightarrow> (int \<times> 'w) option"

record 'w modules =
  module_registered :: "'w Module option list"
  module_loaded :: "'w Module option list"
  module_state :: 'w

text \<open>The loop of \<^verbatim>\<open>module_register\<close>: the last free slot, or \<^term>\<open>Inl\<close> when the name is taken.\<close>

fun find_spot :: "bytes \<Rightarrow> nat \<Rightarrow> nat option \<Rightarrow> 'w Module option list \<Rightarrow> (int + nat option) option" where
  "find_spot name i spot [] = Some (Inr spot)"
| "find_spot name i spot (None # tab) = find_spot name (Suc i) (Some i) tab"
| "find_spot name i spot (Some m # tab) = do {
     c \<leftarrow> strcmp name (mod_name m);
     if c = 0 then Some (Inl (- 1)) else find_spot name (Suc i) spot tab }"

text \<open>
  A null pointer is \<^term>\<open>None\<close>.  The name is an array inside the module (\<^verbatim>\<open>char name[32]\<close>), so its
  address is never null and the second half of the first check, \<^verbatim>\<open>!module->name\<close>, never holds.
\<close>

definition module_register :: "'w Module option \<Rightarrow> 'w modules \<Rightarrow> (int \<times> 'w modules) option" where
  "module_register module ms =
     (case module of
        None \<Rightarrow> Some (- 1, ms)
      | Some m \<Rightarrow> do {
          r \<leftarrow> find_spot (mod_name m) 0 None (module_registered ms);
          case r of
            Inl err \<Rightarrow> Some (err, ms)
          | Inr None \<Rightarrow> Some (- 1, ms)
          | Inr (Some i) \<Rightarrow> Some (0, ms\<lparr>module_registered := (module_registered ms)[i := Some m]\<rparr>) })"

fun has_module :: "bytes \<Rightarrow> 'w Module option list \<Rightarrow> bool option" where
  "has_module name [] = Some False"
| "has_module name (None # tab) = has_module name tab"
| "has_module name (Some m # tab) = do {
     c \<leftarrow> strcmp name (mod_name m);
     if c = 0 then Some True else has_module name tab }"

definition module_is_loaded :: "bytes \<Rightarrow> 'w modules \<Rightarrow> bool option" where
  "module_is_loaded name ms = has_module name (module_loaded ms)"

text \<open>
  The search of \<^verbatim>\<open>module_load\<close>.  It compares each registered name with the name of \<^verbatim>\<open>module\<close>, the variable
  that is to hold the result and is still null: \<open>module\<close> is \<^term>\<open>None\<close> then, and its name undefined.
\<close>

fun find_module :: "'w Module option \<Rightarrow> 'w Module option list \<Rightarrow> 'w Module option option" where
  "find_module module [] = Some module"
| "find_module module (None # tab) = find_module module tab"
| "find_module module (Some r # tab) = do {
     m \<leftarrow> module;
     c \<leftarrow> strcmp (mod_name m) (mod_name r);
     if c = 0 then Some (Some r) else find_module module tab }"

fun missing_dependency :: "bytes list \<Rightarrow> 'w modules \<Rightarrow> bool option" where
  "missing_dependency [] ms = Some False"
| "missing_dependency (d # ds) ms = do {
     l \<leftarrow> module_is_loaded d ms;
     if \<not> l then Some True else missing_dependency ds ms }"

text \<open>A module that fails to initialise is a panic.\<close>

definition module_load :: "bytes option \<Rightarrow> bytes list \<Rightarrow> 'w modules \<Rightarrow> (int \<times> 'w modules) option" where
  "module_load name argv ms =
     (case name of
        None \<Rightarrow> Some (- 1, ms)
      | Some name \<Rightarrow> do {
          l \<leftarrow> module_is_loaded name ms;
          if l then Some (- 1, ms)
          else do {
            module \<leftarrow> find_module None (module_registered ms);
            case module of
              None \<Rightarrow> Some (- 1, ms)
            | Some m \<Rightarrow> do {
                missing \<leftarrow> (case mod_depends m of None \<Rightarrow> Some False | Some ds \<Rightarrow> missing_dependency ds ms);
                if missing then Some (- 1, ms)
                else
                  let i = find_slot Option.is_none (module_loaded ms) in
                  if i \<ge> length (module_loaded ms) then Some (- 1, ms)
                  else do {
                    let ms = ms\<lparr>module_loaded := (module_loaded ms)[i := Some m]\<rparr>;
                    (r, w) \<leftarrow> mod_init m argv (module_state ms);
                    if r < 0 then None else Some (0, ms\<lparr>module_state := w\<rparr>) } } } })"

section \<open>Calls by major number\<close>

definition MAX_MODULES :: nat where "MAX_MODULES = 10"

text \<open>An entry of the table; a null function is \<^term>\<open>None\<close>.  Buffers are passed as bytes.\<close>

record 'w ModuleCall =
  mc_open :: "(u32 \<Rightarrow> u32 \<Rightarrow> 'w \<Rightarrow> (int \<times> 'w) option) option"
  mc_open_module :: "(u32 \<Rightarrow> u32 \<Rightarrow> u32 \<Rightarrow> u32 \<Rightarrow> 'w \<Rightarrow> (int \<times> 'w) option) option"
  mc_seek :: "(int \<Rightarrow> int \<Rightarrow> u32 \<Rightarrow> 'w \<Rightarrow> (int \<times> 'w) option) option"
  mc_write :: "(int \<Rightarrow> bytes \<Rightarrow> u32 \<Rightarrow> 'w \<Rightarrow> (int \<times> 'w) option) option"
  mc_read :: "(int \<Rightarrow> int \<Rightarrow> 'w \<Rightarrow> (int \<times> bytes \<times> 'w) option) option"
  mc_blksize :: "(int \<Rightarrow> 'w \<Rightarrow> (int \<times> 'w) option) option"
  mc_devsize :: "(int \<Rightarrow> 'w \<Rightarrow> (int \<times> 'w) option) option"

text \<open>The two checks every call begins with, and the call.\<close>

definition module_call :: "u32 \<Rightarrow> u32 \<Rightarrow> ('w ModuleCall \<Rightarrow> 'f option) \<Rightarrow> ('f \<Rightarrow> 'w \<Rightarrow> (int \<times> 'w) option) \<Rightarrow>
    'w ModuleCall list \<Rightarrow> 'w \<Rightarrow> (int \<times> 'w) option" where
  "module_call checked used get call mcarr w =
     (if unat checked \<ge> MAX_MODULES then Some (- errno EINVAL, w)
      else do {
        m \<leftarrow> rd mcarr (unat used);
        case get m of None \<Rightarrow> Some (- errno EPERM, w) | Some f \<Rightarrow> call f w })"

definition module_open :: "u32 \<Rightarrow> u32 \<Rightarrow> u32 \<Rightarrow> 'w ModuleCall list \<Rightarrow> 'w \<Rightarrow> (int \<times> 'w) option" where
  "module_open major ptr len = module_call major major mc_open (\<lambda>f. f ptr len)"

text \<open>The number that is checked is not the one that is used as the index.\<close>

definition module_open_device :: "u32 \<Rightarrow> u32 \<Rightarrow> u32 \<Rightarrow> u32 \<Rightarrow> u32 \<Rightarrow> 'w ModuleCall list \<Rightarrow> 'w \<Rightarrow> (int \<times> 'w) option" where
  "module_open_device mod_major aux major minor flags = module_call mod_major major mc_open_module (\<lambda>f. f aux major minor flags)"

definition module_seek :: "u32 \<Rightarrow> int \<Rightarrow> int \<Rightarrow> u32 \<Rightarrow> 'w ModuleCall list \<Rightarrow> 'w \<Rightarrow> (int \<times> 'w) option" where
  "module_seek major pid offset whence = module_call major major mc_seek (\<lambda>f. f pid offset whence)"

definition module_write :: "u32 \<Rightarrow> int \<Rightarrow> bytes \<Rightarrow> u32 \<Rightarrow> 'w ModuleCall list \<Rightarrow> 'w \<Rightarrow> (int \<times> 'w) option" where
  "module_write major pid buf n = module_call major major mc_write (\<lambda>f. f pid buf n)"

text \<open>The result is narrowed to \<^verbatim>\<open>int\<close>; the bytes stored to the buffer are the second component.\<close>

definition module_read :: "u32 \<Rightarrow> int \<Rightarrow> u32 \<Rightarrow> 'w ModuleCall list \<Rightarrow> 'w \<Rightarrow> (int \<times> bytes \<times> 'w) option" where
  "module_read major pid n mcarr w =
     (if unat major \<ge> MAX_MODULES then Some (- errno EINVAL, [], w)
      else do {
        m \<leftarrow> rd mcarr (unat major);
        case mc_read m of
          None \<Rightarrow> Some (- errno EPERM, [], w)
        | Some f \<Rightarrow> do {
            (r, bs, w) \<leftarrow> f pid (uint n) w;
            Some (sint (word_of_int r :: u32), bs, w) } })"

definition module_blksize :: "u32 \<Rightarrow> int \<Rightarrow> 'w ModuleCall list \<Rightarrow> 'w \<Rightarrow> (int \<times> 'w) option" where
  "module_blksize major pid = module_call major major mc_blksize (\<lambda>f. f pid)"

definition module_devsize :: "u32 \<Rightarrow> int \<Rightarrow> 'w ModuleCall list \<Rightarrow> 'w \<Rightarrow> (int \<times> 'w) option" where
  "module_devsize major pid = module_call major major mc_devsize (\<lambda>f. f pid)"

end
