(* ===== verification/ModuleSpec.thy ===== *)
theory ModuleSpec
  imports Module
begin

text \<open>
  Properties of the module registry (\<^theory_text>\<open>Module\<close>): what registering does to a table without the name, and
  what loading a registered module does.
\<close>

section \<open>Registering\<close>

text \<open>No module in the table has the name, and all names are terminated strings.\<close>

definition name_free :: "bytes \<Rightarrow> 'w Module option list \<Rightarrow> bool" where
  "name_free name tab \<longleftrightarrow> 0 \<in> set name \<and> (\<forall>m. Some m \<in> set tab \<longrightarrow> 0 \<in> set (mod_name m) \<and> strz (mod_name m) \<noteq> strz name)"

lemma name_free_Cons:
  "name_free name (Some m # tab) \<longleftrightarrow> 0 \<in> set (mod_name m) \<and> strz (mod_name m) \<noteq> strz name \<and> name_free name tab"
  "name_free name (None # tab) \<longleftrightarrow> name_free name tab"
  by (auto simp: name_free_def)

lemma strcmp_differs: "0 \<in> set a \<Longrightarrow> 0 \<in> set b \<Longrightarrow> strz b \<noteq> strz a \<Longrightarrow> \<exists>c. strcmp a b = Some c \<and> c \<noteq> 0"
  using strcmp_total [of a b] by auto

lemma name_free_nul: "name_free name tab \<Longrightarrow> 0 \<in> set name"
  by (simp add: name_free_def)

lemma find_spot_free:
  "name_free name tab \<Longrightarrow> \<exists>spot'. find_spot name i spot tab = Some (Inr spot') \<and>
     (None \<notin> set tab \<longrightarrow> spot' = spot) \<and> (None \<in> set tab \<longrightarrow> (\<exists>k. spot' = Some (i + k) \<and> k < length tab \<and> tab ! k = None))"
proof (induction name i spot tab rule: find_spot.induct)
  case (2 name i spot tab)
  then obtain spot' where IH: "find_spot name (Suc i) (Some i) tab = Some (Inr spot')" "None \<notin> set tab \<longrightarrow> spot' = Some i"
    "None \<in> set tab \<longrightarrow> (\<exists>k. spot' = Some (Suc i + k) \<and> k < length tab \<and> tab ! k = None)"
    by (auto simp: name_free_Cons)
  show ?case
  proof (cases "None \<in> set tab")
    case True
    then obtain k where "spot' = Some (Suc i + k)" "k < length tab" "tab ! k = None" using IH(3) by blast
    then show ?thesis using IH(1) by (auto intro!: exI [of _ "Suc k"])
  qed (use IH in \<open>auto intro!: exI [of _ 0]\<close>)
next
  case (3 name i spot m tab)
  then obtain c where c: "strcmp name (mod_name m) = Some c" "c \<noteq> 0"
    using strcmp_differs [of name "mod_name m"] name_free_nul [of name tab] unfolding name_free_Cons by blast
  obtain spot' where "find_spot name (Suc i) spot tab = Some (Inr spot')" "None \<notin> set tab \<longrightarrow> spot' = spot"
    "None \<in> set tab \<longrightarrow> (\<exists>k. spot' = Some (Suc i + k) \<and> k < length tab \<and> tab ! k = None)"
    using 3(1) [OF c(1,2)] 3(2) by (auto simp: name_free_Cons)
  then show ?case using c by (fastforce intro: exI [of _ "Suc k" for k])
qed auto

lemma module_register_ok:
  assumes "name_free (mod_name m) (module_registered ms)" "None \<in> set (module_registered ms)"
  shows "\<exists>k < length (module_registered ms). module_registered ms ! k = None \<and>
    module_register (Some m) ms = Some (0, ms\<lparr>module_registered := (module_registered ms)[k := Some m]\<rparr>)"
  using find_spot_free [OF assms(1), of 0 None] assms(2) by (auto simp: module_register_def)

lemma find_module_faults: "Some m \<in> set tab \<Longrightarrow> find_module None tab = None"
proof (induction tab)
  case (Cons x tab)
  then show ?case by (cases x) auto
qed simp

section \<open>Properties\<close>

text \<open>
  A module that is registered cannot be loaded: with a free slot and a new name, registering succeeds, and
  loading any module that is not loaded yet then reads the name of a null pointer, because the
  search compares with the variable that is to hold its result.
\<close>

lemma module_load_faults:
  assumes "name_free (mod_name m) (module_registered ms)" "None \<in> set (module_registered ms)"
    "module_is_loaded name ms = Some False"
  shows "\<exists>ms'. module_register (Some m) ms = Some (0, ms') \<and> Some m \<in> set (module_registered ms') \<and>
    module_load (Some name) argv ms' = None"
proof -
  obtain k where k: "k < length (module_registered ms)"
    "module_register (Some m) ms = Some (0, ms\<lparr>module_registered := (module_registered ms)[k := Some m]\<rparr>)"
    using module_register_ok [OF assms(1,2)] by blast
  have in_tab: "Some m \<in> set ((module_registered ms)[k := Some m])" using k(1) by (simp add: set_update_memI)
  then have "find_module None ((module_registered ms)[k := Some m]) = None" by (rule find_module_faults)
  then have "module_load (Some name) argv (ms\<lparr>module_registered := (module_registered ms)[k := Some m]\<rparr>) = None"
    using assms(3) by (simp add: module_load_def module_is_loaded_def)
  then show ?thesis using k(2) in_tab by auto
qed

definition no_modules :: "unit modules" where
  "no_modules = \<lparr>module_registered = replicate MODULES_MAX None, module_loaded = replicate MODULES_MAX None, module_state = ()\<rparr>"

definition tiny_module :: "unit Module" where
  "tiny_module = \<lparr>mod_name = cstr ''vga'', mod_depends = None, mod_init = \<lambda>_ w. Some (0, w)\<rparr>"

lemma has_module_empty: "has_module name (replicate n None) = Some False"
  by (induction n) simp_all

lemma module_load_faults_example:
  "\<exists>ms'. module_register (Some tiny_module) no_modules = Some (0, ms') \<and> module_load (Some (cstr ''vga'')) [] ms' = None"
proof -
  have "name_free (mod_name tiny_module) (module_registered no_modules)"
    by (simp add: name_free_def tiny_module_def no_modules_def)
  moreover have "None \<in> set (module_registered no_modules)" by (simp add: no_modules_def MODULES_MAX_def)
  moreover have "module_is_loaded (cstr ''vga'') no_modules = Some False"
    by (simp add: module_is_loaded_def no_modules_def has_module_empty del: replicate.simps)
  ultimately show ?thesis using module_load_faults [of tiny_module no_modules "cstr ''vga''" "[]"] by blast
qed

end
