(* ===== verification/Interrupt.thy ===== *)
theory Interrupt
  imports KHeap
begin

text \<open>
  Interrupts, \<^verbatim>\<open>kernel/int.c\<close> with \<^verbatim>\<open>kernel/int.h\<close>: the vector table, and the lists of service routines.

  The vector table is memory, a function of the index, and \<open>int_base\<close> the register that \<^verbatim>\<open>int_move_vector\<close>
  sets; the entries the kernel stores are the assembly
  stubs.  A service routine is its address; what running it does is the parameter \<open>isr_call\<close>.  The
  registers of the interrupt controller are part of the state.
\<close>

definition INT_OFFSET_TRAP :: nat where "INT_OFFSET_TRAP = 32"
definition INT_VECTOR_OFFSET_AVEC :: u32 where "INT_VECTOR_OFFSET_AVEC = 0x63"
definition INTERRUPTS :: nat where "INTERRUPTS = 256"
definition SYSCALL_TRAP :: nat where "SYSCALL_TRAP = 10"
definition CHIPSET_INT_BASE :: nat where "CHIPSET_INT_BASE = 24"

text \<open>The functions in the vector table; \<open>Vec a\<close> is any other address.\<close>

datatype vector = Vec u32 | Int_invalid_interrupt | Int_stub_bus_error | Int_invalid_trap | Int_syscall | Int_stub

record IntHandler =
  ih_isr :: u32
  ih_data :: u32
  ih_next :: u32

definition sizeof_IntHandler :: u32 where "sizeof_IntHandler = 12"

record 'w ints =
  int_base :: u32
  int_vector :: "nat \<Rightarrow> vector"
  int_enabled :: bool
  int_handler :: "u32 list"
  int_obj :: "u32 \<Rightarrow> IntHandler option"
  int_heap :: kheap
  chipset_io :: "nat \<Rightarrow> u32"
  int_world :: 'w

definition set_vectors :: "nat list \<Rightarrow> vector \<Rightarrow> 'w ints \<Rightarrow> 'w ints" where
  "set_vectors is v s = s\<lparr>int_vector := (\<lambda>i. if i \<in> set is then v else int_vector s i)\<rparr>"

text \<open>The first loop stores 255 entries from the first trap on, which ends behind the table of 256 vectors.\<close>

definition int_init :: "'w ints \<Rightarrow> 'w ints" where
  "int_init s =
     (let s = s\<lparr>int_base := 0xDDD00\<rparr>;
          s = set_vectors (map (\<lambda>i. INT_OFFSET_TRAP + i) [0..<255]) Int_invalid_interrupt s;
          s = set_vectors [2..<15] Int_stub_bus_error s;
          s = set_vectors (map (\<lambda>i. INT_OFFSET_TRAP + i) [0..<16]) Int_invalid_trap s;
          s = set_vectors [SYSCALL_TRAP + INT_OFFSET_TRAP] Int_syscall s;
          s = set_vectors [CHIPSET_INT_BASE + 1] Int_stub s
      in s\<lparr>int_enabled := True\<rparr>)"

definition int_set_handler :: "u32 \<Rightarrow> vector \<Rightarrow> 'w ints \<Rightarrow> 'w ints" where
  "int_set_handler i handler s = s\<lparr>int_vector := (int_vector s)(unat i := handler)\<rparr>"

definition int_perihperal_enable :: "u32 \<Rightarrow> 'w ints \<Rightarrow> 'w ints" where
  "int_perihperal_enable n s = s\<lparr>chipset_io := (chipset_io s)(unat (32 + n) := 0, unat n := 1)\<rparr>"

definition int_isr_register :: "u32 \<Rightarrow> u32 \<Rightarrow> u32 \<Rightarrow> 'w ints \<Rightarrow> (int \<times> 'w ints) option" where
  "int_isr_register i isr data s = do {
     (handler, h) \<leftarrow> kmalloc sizeof_IntHandler (int_heap s);
     let s = s\<lparr>int_heap := h\<rparr>;
     if handler = 0 then Some (- errno ENOMEM, s)
     else do {
       nxt \<leftarrow> rd (int_handler s) (unat i);
       tab \<leftarrow> wr (int_handler s) (unat i) handler;
       Some (0, s\<lparr>int_obj := (int_obj s)(handler \<mapsto> \<lparr>ih_isr = isr, ih_data = data, ih_next = nxt\<rparr>), int_handler := tab\<rparr>) } }"

text \<open>The loop over the list of an interrupt; the routine gets the number of the interrupt and its data.\<close>

partial_function (option) run_handlers ::
  "(u32 \<Rightarrow> u32 \<Rightarrow> u32 \<Rightarrow> 'w ints \<Rightarrow> 'w ints option) \<Rightarrow> u32 \<Rightarrow> u32 \<Rightarrow> 'w ints \<Rightarrow> 'w ints option" where
  "run_handlers isr_call interrupt handler s =
     (if handler = 0 then Some s
      else do {
        ih \<leftarrow> int_obj s handler;
        s \<leftarrow> isr_call (ih_isr ih) interrupt (ih_data ih) s;
        ih \<leftarrow> int_obj s handler;
        run_handlers isr_call interrupt (ih_next ih) s })"

definition int_handler_internal ::
  "(u32 \<Rightarrow> u32 \<Rightarrow> u32 \<Rightarrow> 'w ints \<Rightarrow> 'w ints option) \<Rightarrow> u32 \<Rightarrow> 'w ints \<Rightarrow> 'w ints option" where
  "int_handler_internal isr_call interrupt s = do {
     let interrupt = interrupt - INT_VECTOR_OFFSET_AVEC;
     first \<leftarrow> rd (int_handler s) (unat interrupt);
     run_handlers isr_call interrupt first s }"

end
