(* ===== verification/InterruptSpec.thy ===== *)
theory InterruptSpec
  imports Interrupt ProcessSpec ChardevSpec
begin

text \<open>
  Properties of the interrupt dispatcher (\<^theory_text>\<open>Interrupt\<close>): the lists of service routines, on the contract of
  the kernel heap.
\<close>

section \<open>Lists of service routines\<close>

text \<open>The list that starts at an address: the addresses of its items, and routine and data of each.\<close>

fun handlers :: "(u32 \<Rightarrow> IntHandler option) \<Rightarrow> u32 \<Rightarrow> u32 list \<Rightarrow> (u32 \<times> u32) list \<Rightarrow> bool" where
  "handlers obj a [] hs \<longleftrightarrow> a = 0 \<and> hs = []"
| "handlers obj a (q # qs) hs \<longleftrightarrow> a = q \<and> q \<noteq> 0 \<and>
     (\<exists>ih hs'. obj q = Some ih \<and> hs = (ih_isr ih, ih_data ih) # hs' \<and> handlers obj (ih_next ih) qs hs')"

lemma handlers_update: "p \<notin> set qs \<Longrightarrow> handlers (obj(p := x)) a qs hs = handlers obj a qs hs"
  by (induction qs arbitrary: a hs) auto

text \<open>
  Service routines that do their work on the rest of the system and leave the tables alone: \<open>f\<close> is what
  the routine at an address does.
\<close>

definition routines :: "(u32 \<Rightarrow> u32 \<Rightarrow> u32 \<Rightarrow> 'w ints \<Rightarrow> 'w ints option) \<Rightarrow> (u32 \<Rightarrow> u32 \<Rightarrow> u32 \<Rightarrow> 'w \<Rightarrow> 'w) \<Rightarrow> bool" where
  "routines isr_call f \<longleftrightarrow> (\<forall>isr n d s. isr_call isr n d s = Some (s\<lparr>int_world := f isr n d (int_world s)\<rparr>))"

lemma run_handlers_fold:
  assumes "routines isr_call f" "handlers (int_obj s) a qs hs"
  shows "run_handlers isr_call n a s = Some (s\<lparr>int_world := fold (\<lambda>(isr, d). f isr n d) hs (int_world s)\<rparr>)"
  using assms(2)
proof (induction qs arbitrary: a hs s)
  case Nil
  then show ?case by (subst run_handlers.simps) simp
next
  case (Cons q qs)
  then obtain ih hs' where q: "a = q" "q \<noteq> 0" "int_obj s q = Some ih" "hs = (ih_isr ih, ih_data ih) # hs'" "handlers (int_obj s) (ih_next ih) qs hs'"
    by auto
  let ?s = "s\<lparr>int_world := f (ih_isr ih) n (ih_data ih) (int_world s)\<rparr>"
  have "run_handlers isr_call n (ih_next ih) ?s = Some (?s\<lparr>int_world := fold (\<lambda>(isr, d). f isr n d) hs' (int_world ?s)\<rparr>)"
    using q(5) by (intro Cons.IH) simp
  then show ?case using q assms(1) by (subst run_handlers.simps) (simp add: routines_def)
qed

section \<open>Properties\<close>

text \<open>
  C37. Registering a service routine puts it in front of those registered before for the interrupt: it
  succeeds when there is memory, and from then on the interrupt runs the new routine first and the
  older ones after it, each with its own data, newest first; other interrupts run what they ran.
\<close>

theorem int_register_then_dispatch:
  assumes "routines isr_call f" "length (int_handler s) = INTERRUPTS" "unat i < INTERRUPTS" "unat j < INTERRUPTS" "j \<noteq> i"
    "handlers (int_obj s) (int_handler s ! unat i) qs hs" "handlers (int_obj s) (int_handler s ! unat j) rs gs"
    "heap_live (int_heap s) ps" "set qs \<subseteq> set ps" "set rs \<subseteq> set ps" "can_kmalloc sizeof_IntHandler (int_heap s)"
  shows "\<exists>s'. int_isr_register i isr d s = Some (0, s') \<and> int_world s' = int_world s \<and>
    int_handler_internal isr_call (INT_VECTOR_OFFSET_AVEC + i) s' =
      Some (s'\<lparr>int_world := fold (\<lambda>(isr, d). f isr i d) ((isr, d) # hs) (int_world s')\<rparr>) \<and>
    int_handler_internal isr_call (INT_VECTOR_OFFSET_AVEC + j) s' =
      Some (s'\<lparr>int_world := fold (\<lambda>(isr, d). f isr j d) gs (int_world s')\<rparr>)"
proof -
  obtain p h where m: "kmalloc sizeof_IntHandler (int_heap s) = Some (p, h)" "heap_live h (p # ps)" "p \<notin> set ps"
    using kernel_heap.alloc_fresh [OF assms(8,11)] by blast
  have p: "p \<noteq> 0" "p \<notin> set qs" "p \<notin> set rs" using heap_live_nonzero [OF m(2)] m(3) assms(9,10) by auto
  let ?ih = "\<lparr>ih_isr = isr, ih_data = d, ih_next = int_handler s ! unat i\<rparr>"
  let ?s = "s\<lparr>int_heap := h, int_obj := (int_obj s)(p \<mapsto> ?ih), int_handler := (int_handler s)[unat i := p]\<rparr>"
  have r: "int_isr_register i isr d s = Some (0, ?s)"
    using m(1) p(1) assms(2,3) by (simp add: int_isr_register_def)
  have ne: "unat j \<noteq> unat i" using assms(5) by (simp add: word_unat_eq_iff)
  have hi: "handlers (int_obj ?s) (int_handler ?s ! unat i) (p # qs) ((isr, d) # hs)"
    using assms(2,3,6) p by (simp add: handlers_update)
  have hj: "handlers (int_obj ?s) (int_handler ?s ! unat j) rs gs"
    using assms(7) p(3) ne by (simp add: handlers_update)
  show ?thesis
    using r ne ne [symmetric] assms(2-4) run_handlers_fold [OF assms(1) hi, of i] run_handlers_fold [OF assms(1) hj, of j]
    by (intro exI [of _ ?s]) (simp add: int_handler_internal_def del: fold.simps)
qed


definition quiet_ints :: "u32 list ints" where
  "quiet_ints = \<lparr>int_base = 0, int_vector = \<lambda>_. Vec 0, int_enabled = False, int_handler = replicate INTERRUPTS 0, int_obj = \<lambda>_. None,
     int_heap = empty_heap, chipset_io = \<lambda>_. 0, int_world = []\<rparr>"

text \<open>Every routine notes its address.\<close>

definition note_isr :: "u32 \<Rightarrow> u32 \<Rightarrow> u32 \<Rightarrow> u32 list ints \<Rightarrow> u32 list ints option" where
  "note_isr isr n d s = Some (s\<lparr>int_world := int_world s @ [isr]\<rparr>)"

theorem int_register_then_dispatch_witness:
  "\<exists>s' s''. int_isr_register 1 0x4000 7 quiet_ints = Some (0, s') \<and>
    int_handler_internal note_isr (INT_VECTOR_OFFSET_AVEC + 1) s' = Some s'' \<and> int_world s'' = [0x4000]"
proof -
  have r: "routines note_isr (\<lambda>isr n d w. w @ [isr])" by (simp add: routines_def note_isr_def)
  have c: "can_kmalloc sizeof_IntHandler (int_heap quiet_ints)"
    by (simp add: quiet_ints_def)
      (rule empty_heap_can_page; simp add: sizeof_IntHandler_def grow_size_def ALIGNWITH_def sizeof_Header_def MMU_PAGE_SIZE_def)
  have t: "length (int_handler quiet_ints) = INTERRUPTS" "int_handler quiet_ints ! unat (1 :: u32) = 0" "int_handler quiet_ints ! unat (2 :: u32) = 0"
    "unat (1 :: u32) < INTERRUPTS" "unat (2 :: u32) < INTERRUPTS" "int_world quiet_ints = []" "heap_live (int_heap quiet_ints) []"
    using empty_heap_live by (simp_all add: quiet_ints_def INTERRUPTS_def)
  show ?thesis
    using int_register_then_dispatch [OF r t(1) t(4,5), where isr = "0x4000" and d = 7 and qs = "[]" and hs = "[]" and rs = "[]" and gs = "[]" and ps = "[]"] c t by auto
qed

end
