(* ===== verification/Driver.thy ===== *)
theory Driver
  imports Interrupt
begin

text \<open>
  Drivers of the peripherals: the bus \<^verbatim>\<open>kernel/modules/bus/trollbook-spi.c\<close> with \<^verbatim>\<open>include/bus/spi.h\<close>, and the
  serial port \<^verbatim>\<open>kernel/modules/chardev/trollbook-uart.c\<close> with \<^verbatim>\<open>include/uart.h\<close>, and the debug port \<^verbatim>\<open>kernel/debug.c\<close>.

  The hardware is a parameter: \<open>io\<close> gives, for the address of a block of registers, what loading and
  storing the word at an index does to the state \<open>'d\<close> of the device, or \<^term>\<open>None\<close> where no device is.
  Storing to a bit field loads the word, replaces the field and stores the word.
\<close>

record 'd registers =
  io_load :: "nat \<Rightarrow> 'd \<Rightarrow> u32 \<times> 'd"
  io_store :: "nat \<Rightarrow> u32 \<Rightarrow> 'd \<Rightarrow> 'd"

definition store_field :: "'d registers \<Rightarrow> nat \<Rightarrow> nat \<Rightarrow> nat \<Rightarrow> u32 \<Rightarrow> 'd \<Rightarrow> 'd" where
  "store_field r i off len v d = (let (w, d) = io_load r i d in io_store r i (bf_set off len w v) d)"

section \<open>The bus\<close>

text \<open>\<^verbatim>\<open>struct TrollbookSpiDevice\<close>: the indices of the registers; the fields of \<^verbatim>\<open>struct RegStatus\<close>.\<close>

definition SPI_DATA :: nat where "SPI_DATA = 0"
definition SPI_STATUS :: nat where "SPI_STATUS = 1"
definition SPI_SLAVESELECT :: nat where "SPI_SLAVESELECT = 2"

definition status_busy :: "u32 \<Rightarrow> bool" where "status_busy w \<longleftrightarrow> bf_get 31 1 w \<noteq> 0"
definition status_clockdiv :: "u32 \<Rightarrow> u16" where "status_clockdiv w = ucast (bf_get 0 16 w)"

record TrollbookSpiContext =
  spi_device :: u32
  spi_slave :: int
  spi_bauddiv :: u16

text \<open>A \<^verbatim>\<open>SpiContext\<close>: the three functions are always those of this file, so that its private part is all.\<close>

record 'd spi =
  spi_ctx :: "u32 \<Rightarrow> u32 option"
  spi_priv :: "u32 \<Rightarrow> TrollbookSpiContext option"
  spi_heap :: kheap
  spi_hw :: 'd

text \<open>Fields are aligned to two bytes, as on the 68000.\<close>

definition sizeof_SpiContext :: u32 where "sizeof_SpiContext = 16"
definition sizeof_TrollbookSpiContext :: u32 where "sizeof_TrollbookSpiContext = 10"

text \<open>\<^verbatim>\<open>while(tspi->device->status.busy);\<close>\<close>

partial_function (option) wait_ready :: "'d registers \<Rightarrow> 'd \<Rightarrow> 'd option" where
  "wait_ready r d =
     (if status_busy (fst (io_load r SPI_STATUS d)) then wait_ready r (snd (io_load r SPI_STATUS d))
      else Some (snd (io_load r SPI_STATUS d)))"

definition select_slave :: "'d registers \<Rightarrow> int \<Rightarrow> 'd \<Rightarrow> 'd option" where
  "select_slave r slave d = do {
     d \<leftarrow> wait_ready r d;
     Some (io_store r SPI_SLAVESELECT (word_of_int slave) d) }"

definition send_recv_byte :: "'d registers \<Rightarrow> u8 \<Rightarrow> 'd \<Rightarrow> (u8 \<times> 'd) option" where
  "send_recv_byte r dat d = do {
     d \<leftarrow> wait_ready r d;
     let d = io_store r SPI_DATA (ucast dat) d;
     d \<leftarrow> wait_ready r d;
     let (w, d) = io_load r SPI_DATA d;
     Some (ucast w, d) }"

definition set_clockdiv :: "'d registers \<Rightarrow> u16 \<Rightarrow> 'd \<Rightarrow> 'd" where
  "set_clockdiv r bauddiv d = store_field r SPI_STATUS 0 16 (ucast bauddiv) d"

definition get_clockdiv :: "'d registers \<Rightarrow> 'd \<Rightarrow> u16 \<times> 'd" where
  "get_clockdiv r d = (let (w, d) = io_load r SPI_STATUS d in (status_clockdiv w, d))"

text \<open>The private part behind a context; both assertions fail with a panic.\<close>

definition privctx :: "u32 \<Rightarrow> 'd spi \<Rightarrow> TrollbookSpiContext option" where
  "privctx ctx s =
     (if ctx = 0 then None
      else do {
        p \<leftarrow> spi_ctx s ctx;
        if p = 0 then None else spi_priv s p })"

definition spi_activate :: "(u32 \<Rightarrow> 'd registers option) \<Rightarrow> u32 \<Rightarrow> 'd spi \<Rightarrow> (int \<times> 'd spi) option" where
  "spi_activate io ctx s = do {
     p \<leftarrow> privctx ctx s;
     r \<leftarrow> io (spi_device p);
     d \<leftarrow> select_slave r (spi_slave p) (set_clockdiv r (spi_bauddiv p) (spi_hw s));
     Some (0, s\<lparr>spi_hw := d\<rparr>) }"

definition spi_deactivate :: "(u32 \<Rightarrow> 'd registers option) \<Rightarrow> u32 \<Rightarrow> 'd spi \<Rightarrow> (int \<times> 'd spi) option" where
  "spi_deactivate io ctx s = do {
     p \<leftarrow> privctx ctx s;
     r \<leftarrow> io (spi_device p);
     d \<leftarrow> select_slave r 0 (spi_hw s);
     Some (0, s\<lparr>spi_hw := d\<rparr>) }"

text \<open>
  The loop of \<^verbatim>\<open>send_recv\<close>.  The buffers are \<^term>\<open>None\<close> for null pointers; \<open>i\<close> is how far the pointers
  have advanced.  The count is never decremented.
\<close>

partial_function (option) send_recv_loop ::
  "'d registers \<Rightarrow> bytes option \<Rightarrow> bytes option \<Rightarrow> nat \<Rightarrow> u32 \<Rightarrow> 'd \<Rightarrow> (bytes option \<times> 'd) option" where
  "send_recv_loop r sdata rdata i sz d =
     (if sz = 0 then Some (rdata, d)
      else do {
        s \<leftarrow> (case sdata of None \<Rightarrow> Some 0xFF | Some bs \<Rightarrow> rd bs i);
        (x, d) \<leftarrow> send_recv_byte r s d;
        rdata \<leftarrow> (case rdata of None \<Rightarrow> Some None | Some bs \<Rightarrow> map_option Some (wr bs i x));
        send_recv_loop r sdata rdata (Suc i) sz d })"

definition spi_send_recv ::
  "(u32 \<Rightarrow> 'd registers option) \<Rightarrow> u32 \<Rightarrow> bytes option \<Rightarrow> bytes option \<Rightarrow> u32 \<Rightarrow> 'd spi \<Rightarrow> (int \<times> bytes option \<times> 'd spi) option" where
  "spi_send_recv io ctx sdata rdata sz s = do {
     p \<leftarrow> privctx ctx s;
     if sz = 0 then Some (0, rdata, s)
     else do {
       r \<leftarrow> io (spi_device p);
       (rdata, d) \<leftarrow> send_recv_loop r sdata rdata 0 sz (spi_hw s);
       Some (0, rdata, s\<lparr>spi_hw := d\<rparr>) } }"

text \<open>\<open>fresh\<close> is what the memory of the private part holds before; its device pointer is never set.\<close>

definition trollbook_spi_new_context :: "TrollbookSpiContext \<Rightarrow> int \<Rightarrow> u16 \<Rightarrow> 'd spi \<Rightarrow> (u32 \<times> 'd spi) option" where
  "trollbook_spi_new_context fresh slave bauddiv s = do {
     (ctx, h) \<leftarrow> kmalloc sizeof_SpiContext (spi_heap s);
     if ctx = 0 then do {
       h \<leftarrow> kfree 0 h;
       h \<leftarrow> kfree ctx h;
       Some (0, s\<lparr>spi_heap := h\<rparr>) }
     else do {
       (p, h) \<leftarrow> kmalloc sizeof_TrollbookSpiContext h;
       if p = 0 then do {
         h \<leftarrow> kfree p h;
         h \<leftarrow> kfree ctx h;
         Some (0, s\<lparr>spi_heap := h\<rparr>) }
       else
         Some (ctx, s\<lparr>spi_heap := h, spi_priv := (spi_priv s)(p \<mapsto> fresh\<lparr>spi_bauddiv := bauddiv, spi_slave := slave\<rparr>),
                      spi_ctx := (spi_ctx s)(ctx \<mapsto> p)\<rparr>) } }"

section \<open>The serial port\<close>

text \<open>\<^verbatim>\<open>struct TrollbookUartHw\<close>: the indices of the registers; the fields of the status and control words.\<close>

definition UART_DATA :: nat where "UART_DATA = 0"
definition UART_STATUS :: nat where "UART_STATUS = 1"
definition UART_CTRL :: nat where "UART_CTRL = 2"

definition tx_empty :: "u32 \<Rightarrow> bool" where "tx_empty w \<longleftrightarrow> bf_get 31 1 w \<noteq> 0"
definition rx_full :: "u32 \<Rightarrow> bool" where "rx_full w \<longleftrightarrow> bf_get 30 1 w \<noteq> 0"

definition set_tx_empty_ie :: "'d registers \<Rightarrow> bool \<Rightarrow> 'd \<Rightarrow> 'd" where
  "set_tx_empty_ie r b d = store_field r UART_CTRL 31 1 (of_bool b) d"
definition set_rx_full_ie :: "'d registers \<Rightarrow> bool \<Rightarrow> 'd \<Rightarrow> 'd" where
  "set_rx_full_ie r b d = store_field r UART_CTRL 30 1 (of_bool b) d"

record TrollbookUart =
  uart_base :: u32
  uart_interrupt :: u32

text \<open>A \<^verbatim>\<open>UartBackend\<close> has the functions of this file; its private part is the address of a \<^verbatim>\<open>TrollbookUart\<close>.\<close>

record 'd uarts =
  uart_obj :: "u32 \<Rightarrow> u32 option"
  tbuart_obj :: "u32 \<Rightarrow> TrollbookUart option"
  uart_dev :: 'd

definition sizeof_TrollbookUart :: u32 where "sizeof_TrollbookUart = 8"
definition sizeof_UartBackend :: u32 where "sizeof_UartBackend = 20"

definition uart_registers :: "(u32 \<Rightarrow> 'd registers option) \<Rightarrow> u32 \<Rightarrow> 'd uarts \<Rightarrow> 'd registers option" where
  "uart_registers io uart s = do {
     p \<leftarrow> uart_obj s uart;
     t \<leftarrow> tbuart_obj s p;
     io (uart_base t) }"

text \<open>\<open>callback\<close> is \<^verbatim>\<open>chardev_read_callback\<close>, which no file of the kernel defines.\<close>

definition uart_isr :: "(u32 \<Rightarrow> 'd registers option) \<Rightarrow> (u32 \<Rightarrow> 'd uarts \<Rightarrow> 'd uarts option) \<Rightarrow> u32 \<Rightarrow> u32 \<Rightarrow> 'd uarts \<Rightarrow> (int \<times> 'd uarts) option" where
  "uart_isr io callback interrupt uart s = do {
     r \<leftarrow> uart_registers io uart s;
     let (w, d) = io_load r UART_STATUS (uart_dev s);
     s \<leftarrow> (if rx_full w then callback uart (s\<lparr>uart_dev := set_rx_full_ie r False d\<rparr>) else Some (s\<lparr>uart_dev := d\<rparr>));
     let (w, d) = io_load r UART_STATUS (uart_dev s);
     Some (0, s\<lparr>uart_dev := (if tx_empty w then set_tx_empty_ie r False d else d)\<rparr>) }"

definition uart_putc :: "(u32 \<Rightarrow> 'd registers option) \<Rightarrow> u32 \<Rightarrow> int \<Rightarrow> 'd uarts \<Rightarrow> (int \<times> 'd uarts) option" where
  "uart_putc io uart c s = do {
     r \<leftarrow> uart_registers io uart s;
     let (w, d) = io_load r UART_STATUS (uart_dev s);
     if tx_empty w then Some (0, s\<lparr>uart_dev := io_store r UART_DATA (word_of_int c) d\<rparr>)
     else Some (- errno EAGAIN, s\<lparr>uart_dev := set_tx_empty_ie r True d\<rparr>) }"

definition uart_getc :: "u32 \<Rightarrow> int" where "uart_getc uart = 0"
definition uart_set_baudrate :: "u32 \<Rightarrow> int \<Rightarrow> int" where "uart_set_baudrate uart baudrate = 0"
definition uart_get_baudrate :: "u32 \<Rightarrow> int" where "uart_get_baudrate uart = 0"

text \<open>\<open>isr\<close> is the address of \<^verbatim>\<open>_isr\<close>.  The result of the registration is ignored.\<close>

definition trollbook_uart_init :: "u32 \<Rightarrow> u32 \<Rightarrow> u32 \<Rightarrow> 'd uarts ints \<Rightarrow> (u32 \<times> 'd uarts ints) option" where
  "trollbook_uart_init isr base_reg interrupt s = do {
     (tbuart, h) \<leftarrow> kmalloc sizeof_TrollbookUart (int_heap s);
     if tbuart = 0 then do {
       h \<leftarrow> kfree tbuart h;
       h \<leftarrow> kfree 0 h;
       Some (0, s\<lparr>int_heap := h\<rparr>) }
     else do {
       (uart, h) \<leftarrow> kmalloc sizeof_UartBackend h;
       if uart = 0 then do {
         h \<leftarrow> kfree tbuart h;
         h \<leftarrow> kfree uart h;
         Some (0, s\<lparr>int_heap := h\<rparr>) }
       else do {
         let w = int_world s;
         let w = w\<lparr>tbuart_obj := (tbuart_obj w)(tbuart \<mapsto> \<lparr>uart_base = base_reg, uart_interrupt = interrupt\<rparr>),
                   uart_obj := (uart_obj w)(uart \<mapsto> tbuart)\<rparr>;
         (_, s) \<leftarrow> int_isr_register interrupt isr uart (s\<lparr>int_heap := h, int_world := w\<rparr>);
         Some (uart, s) } } }"

section \<open>The debug port\<close>

text \<open>\<^verbatim>\<open>kernel/debug.c\<close>: one register of the chipset, whose registers are the block \<open>r\<close>.\<close>

definition CHIPSET_IO_PORT_DEBUG :: nat where "CHIPSET_IO_PORT_DEBUG = 0x340"

definition debug_put_byte :: "'d registers \<Rightarrow> u8 \<Rightarrow> 'd \<Rightarrow> 'd" where
  "debug_put_byte r byte d = io_store r CHIPSET_IO_PORT_DEBUG (ucast byte) d"

definition debug_get_byte :: "'d registers \<Rightarrow> 'd \<Rightarrow> u8 \<times> 'd" where
  "debug_get_byte r d = (let (w, d) = io_load r CHIPSET_IO_PORT_DEBUG d in (ucast w, d))"

end
