(* ===== verification/DriverSpec.thy ===== *)
theory DriverSpec
  imports Driver
begin

text \<open>
  A property of the bus driver (\<^theory_text>\<open>Driver\<close>).
\<close>

section \<open>Transfers on the bus\<close>

lemma send_recv_loop_never_ends:
  assumes "sz \<noteq> 0"
  shows "send_recv_loop r sdata rdata i sz d = None"
proof (rule ccontr)
  let ?P = "\<lambda>(r :: 'd registers) (sdata :: bytes option) (rdata :: bytes option) (i :: nat) (sz :: u32) (d :: 'd) (y :: bytes option \<times> 'd). sz = 0"
  assume "send_recv_loop r sdata rdata i sz d \<noteq> None"
  then obtain y where y: "send_recv_loop r sdata rdata i sz d = Some y" by auto
  have "?P r sdata rdata i sz d y"
  proof (rule send_recv_loop.raw_induct [of ?P, OF _ y])
    fix rec r sdata rdata i sz d y
    assume IH: "\<And>r sdata rdata i sz d y. rec r sdata rdata i sz d = Some y \<Longrightarrow> ?P r sdata rdata i sz d y"
      and step: "(if sz = 0 then Some (rdata, d)
        else do { s \<leftarrow> (case sdata of None \<Rightarrow> Some 0xFF | Some bs \<Rightarrow> rd bs i);
          (x, d) \<leftarrow> send_recv_byte r s d;
          rdata \<leftarrow> (case rdata of None \<Rightarrow> Some None | Some bs \<Rightarrow> map_option Some (wr bs i x));
          rec r sdata rdata (Suc i) sz d }) = Some y"
    then show "?P r sdata rdata i sz d y"
      by (auto simp: bind_eq_Some_conv dest: IH split: if_splits)
  qed
  then show False using assms by simp
qed

text \<open>
  C38. A transfer on the bus never returns: whatever the device answers, \<^verbatim>\<open>send_recv\<close> comes back only when
  there is nothing to transfer and the context is valid, and then it has done nothing.
\<close>

theorem spi_send_recv_never_returns:
  "spi_send_recv io ctx sdata rdata sz s = (if privctx ctx s \<noteq> None \<and> sz = 0 then Some (0, rdata, s) else None)"
  by (auto simp: spi_send_recv_def send_recv_loop_never_ends split: bind_splits)

end
