(* ===== verification/Devfs.thy ===== *)
theory Devfs
  imports Vfs
begin

text \<open>
  The device file system \<^verbatim>\<open>kernel/modules/fs/devfs.c\<close>, the older list of file systems \<^verbatim>\<open>kernel/modules/fs/fs.c\<close>,
  and the older table of file descriptors \<^verbatim>\<open>kernel/file.c\<close> with \<^verbatim>\<open>kernel/file.h\<close>.
\<close>

section \<open>The device file system\<close>

definition S_IRUSR :: u16 where "S_IRUSR = 0x100"
definition S_IWUSR :: u16 where "S_IWUSR = 0x80"

text \<open>
  \<^verbatim>\<open>&d\<close> is a \<^verbatim>\<open>Device *\<close> where \<^verbatim>\<open>device_lookup_name\<close> takes a \<^verbatim>\<open>Device **\<close>: the address of the device is stored to
  the first word of \<^verbatim>\<open>d\<close>, its type, which is 0 for a character and 1 for a block device.  At the end of the
  function there is no return value: \<^term>\<open>None\<close> inside.
\<close>

definition fs_devfs_stat :: "u32 \<Rightarrow> bytes \<Rightarrow> stat \<Rightarrow> devtab \<Rightarrow> (int option \<times> stat) option" where
  "fs_devfs_stat inode fname s t =
     (if inode = 0 then Some (Some (- errno ENOTDIR), s)
      else do {
        (dev, d_type) \<leftarrow> device_lookup_name fname t;
        if dev = 0 then Some (Some (- errno ENOENT), s)
        else do {
          let s = s\<lparr>st_dev := 0, st_ino := dev\<rparr>;
          let s = (if d_type = 0 then s\<lparr>st_mode := S_IRUSR OR S_IWUSR OR S_IFCHR\<rparr>
                   else if d_type = 1 then s\<lparr>st_mode := S_IRUSR OR S_IWUSR OR S_IFBLK\<rparr>
                   else s);
          Some (None, s\<lparr>st_nlink := 1, st_uid := 0, st_gid := 0, st_rdev := dev, st_size := 0, st_blksize := 512,
                        st_blocks := 0, st_mtime := 0\<rparr>) } })"

definition fs_devfs_instantiate :: "u32 \<Rightarrow> int" where "fs_devfs_instantiate dev = 0"

section \<open>The list of file systems\<close>

text \<open>A null pointer is \<^term>\<open>None\<close>; the functions act on a state \<open>'w\<close>.\<close>

record 'w FSList =
  fl_name :: "bytes option"
  fl_init :: "('w \<Rightarrow> (int \<times> 'w) option) option"
  fl_inode_lookup :: "(int \<Rightarrow> int \<Rightarrow> bytes \<Rightarrow> 'w \<Rightarrow> (int \<times> 'w) option) option"

definition fs_list :: "'w FSList list" where
  "fs_list = [\<lparr>fl_name = None, fl_init = None, fl_inode_lookup = None\<rparr>]"

text \<open>The loop over the list; the result is the new \<^verbatim>\<open>fs_list_len\<close>.\<close>

fun fs_init_from :: "nat \<Rightarrow> 'w FSList list \<Rightarrow> 'w \<Rightarrow> (int \<times> 'w) option" where
  "fs_init_from i [] w = None"
| "fs_init_from i (e # es) w =
     (if fl_name e = None then Some (int i, w)
      else do {
        f \<leftarrow> fl_init e;
        (_, w) \<leftarrow> f w;
        fs_init_from (Suc i) es w })"

definition fs_init :: "'w \<Rightarrow> (int \<times> 'w) option" where
  "fs_init w = fs_init_from 0 fs_list w"

text \<open>The first test refuses the numbers inside the list instead of those outside.\<close>

definition fs_inode_lookup :: "int \<Rightarrow> int \<Rightarrow> int \<Rightarrow> int \<Rightarrow> bytes \<Rightarrow> 'w \<Rightarrow> (int \<times> 'w) option" where
  "fs_inode_lookup fs_list_len active_fs context inode name w =
     (if active_fs < fs_list_len then Some (- errno EINVAL, w)
      else if active_fs < 0 then Some (- errno EINVAL, w)
      else do {
        e \<leftarrow> ird fs_list active_fs;
        f \<leftarrow> fl_inode_lookup e;
        f context inode name w })"

section \<open>File descriptors\<close>

definition FD_MAX_GLOBAL_FILES :: nat where "FD_MAX_GLOBAL_FILES = 8"

record FileDescriptor =
  fd_major :: u16
  fd_minor :: u32
  fd_flags :: u32
  fd_pos :: int
  fd_ino :: int
  fd_size :: int
  fd_ref :: u32

definition fd_alloc :: "FileDescriptor list \<Rightarrow> int" where
  "fd_alloc fds =
     (let i = find_slot (\<lambda>f. fd_pos f = - 1) fds in if i < length fds then int i else - errno EMFILE)"

text \<open>The test lets the number -1 through, which is in front of the table.\<close>

definition fd_return :: "int \<Rightarrow> FileDescriptor list \<Rightarrow> FileDescriptor list option" where
  "fd_return fd fds =
     (if fd < - 1 \<or> fd \<ge> int FD_MAX_GLOBAL_FILES then Some fds
      else iupd fds fd (\<lambda>f. f\<lparr>fd_pos := - 1\<rparr>))"

definition fd_init :: "FileDescriptor list \<Rightarrow> (int \<times> FileDescriptor list) option" where
  "fd_init fds = map_option (Pair 0) (for_loop [0..<FD_MAX_GLOBAL_FILES] (\<lambda>i. fd_return (int i)) fds)"

definition fd_open :: "int \<Rightarrow> bytes \<Rightarrow> u32 \<Rightarrow> FileDescriptor list \<Rightarrow> (int \<times> FileDescriptor list) option" where
  "fd_open uid path flags fds =
     (let fd = fd_alloc fds in
      if fd < 0 then Some (fd, fds)
      else map_option (Pair (- errno ENOENT)) (fd_return fd fds))"

text \<open>
  The loop of \<^verbatim>\<open>fd_write\<close>, from block \<open>j\<close> on.  Every block is copied from the start of the buffer of the user;
  \<open>write\<close> is the function of the console of the kernel, on its state.  Shifting \<^verbatim>\<open>j\<close> beyond an \<^verbatim>\<open>int\<close> is
  undefined.
\<close>

function fd_write_loop ::
  "(mmu \<Rightarrow> u32 \<Rightarrow> u32) \<Rightarrow> (bytes \<Rightarrow> 'w \<Rightarrow> 'w option) \<Rightarrow> u32 \<Rightarrow> nat \<Rightarrow> nat \<Rightarrow> mmu \<Rightarrow> 'w \<Rightarrow> (mmu \<times> 'w) option" where
  "fd_write_loop get_physical write buf n j s w =
     (if j * 512 \<ge> 2 ^ 31 then None
      else if j * 512 \<ge> n then Some (s, w)
      else do {
        let cnt = (if n - j * 512 > 512 then 512 else n - j * 512);
        (buff, s) \<leftarrow> mmu040_copy_from_userspace get_physical buf cnt s;
        w \<leftarrow> write buff w;
        fd_write_loop get_physical write buf n (Suc j) s w })"
  by pat_completeness auto

termination by (relation "measure (\<lambda>(_, _, _, n, j, _, _). n - j * 512)") auto

definition fd_write ::
  "(mmu \<Rightarrow> u32 \<Rightarrow> u32) \<Rightarrow> (bytes \<Rightarrow> 'w \<Rightarrow> 'w option) \<Rightarrow> int \<Rightarrow> int \<Rightarrow> u32 \<Rightarrow> u32 \<Rightarrow> mmu \<Rightarrow> 'w \<Rightarrow> (int \<times> mmu \<times> 'w) option" where
  "fd_write get_physical write uid fd buf n s w =
     map_option (Pair (sint n)) (fd_write_loop get_physical write buf (unat n) 0 s w)"

definition fd_read :: "int \<Rightarrow> int \<Rightarrow> u32 \<Rightarrow> u32 \<Rightarrow> int" where "fd_read uid fd buf n = 0"

declare fd_write_loop.simps [simp del]

end
