(* ===== verification/Gdb.thy ===== *)
theory Gdb
  imports Printf Interrupt Driver
begin

text \<open>
  The debugger stub, \<^verbatim>\<open>kernel/gdb-stub.c\<close>: packets on the debug port, the commands on memory and registers,
  and the frames of exceptions that it returns to.

  The routines in assembly (saving the registers at an exception, popping a frame) are not modelled; the
  state that \<^verbatim>\<open>handle_exception\<close> is entered with and the one it leaves behind are what they fill in and read.
  The memory the commands reach does not include the variables of the stub.
\<close>

section \<open>Data\<close>

definition BUFMAX :: nat where "BUFMAX = 400"
definition NUMREGBYTES :: nat where "NUMREGBYTES = 180"
definition FRAMESIZE :: u32 where "FRAMESIZE = 500"
definition STACKSIZE :: u32 where "STACKSIZE = 10000"

text \<open>The two registers of \<^verbatim>\<open>enum regnames\<close> that the stub looks at.\<close>

definition PS :: nat where "PS = 16"
definition PC :: nat where "PC = 17"

definition hexchars :: bytes where "hexchars = map of_char ''0123456789abcdef''"

text \<open>
  \<^verbatim>\<open>struct FrameStruct\<close>: what an exception pushed.  Integers of the 68000 are aligned to two bytes, so it
  takes 26 bytes without the words that follow.
\<close>

record Frame =
  fr_previous :: u32
  fr_exceptionPC :: u32
  fr_exceptionVector :: u32
  fr_frameSize :: u16
  fr_sr :: u16
  fr_pc :: u32
  fr_format :: u16
  fr_fsaveHeader :: u32

definition sizeof_Frame :: u32 where "sizeof_Frame = 26"

text \<open>The functions an \<^verbatim>\<open>ExceptionHook\<close> can point to; \<^term>\<open>None\<close> is a null pointer.\<close>

datatype ExceptionHook = Hook | RemcomHandler

text \<open>The addresses that the linker assigns, and the registers of the chipset.\<close>

record 'd gdb_env =
  ge_port :: "'d registers"
  ge_catchException :: u32
  ge_debug_level7 :: u32
  ge_handle_buserror :: u32
  ge_gdbFrameStack :: u32
  ge_remcomStack :: u32

text \<open>
  The variables of the stub; \<open>g_dev\<close> is what is behind the debug port, \<open>g_memory\<close> the memory that \<^verbatim>\<open>m\<close> and \<^verbatim>\<open>M\<close>
  reach, with \<^term>\<open>None\<close> where an access ends in a bus error, \<open>g_printed\<close> what \<^verbatim>\<open>printf\<close> has printed.
\<close>

record 'd gdb =
  g_dev :: 'd
  g_ints :: "unit ints"
  g_memory :: "u32 \<Rightarrow> u8 option"
  g_registers :: bytes
  remcomInBuffer :: bytes
  remcomOutBuffer :: bytes
  remote_debug :: bool
  initialized :: bool
  frame_stack :: "u32 \<Rightarrow> Frame"
  lastFrame :: u32
  stackPtr :: u32
  exceptionHook :: "ExceptionHook option"
  oldExceptionHook :: "ExceptionHook option"
  g_printed :: bytes

definition gdb_start :: "'d \<Rightarrow> unit ints \<Rightarrow> (u32 \<Rightarrow> u8 option) \<Rightarrow> (u32 \<Rightarrow> Frame) \<Rightarrow> u32 \<Rightarrow> 'd gdb" where
  "gdb_start d ints mem frames stack =
     \<lparr>g_dev = d, g_ints = ints, g_memory = mem, g_registers = replicate NUMREGBYTES 0, remcomInBuffer = replicate BUFMAX 0,
      remcomOutBuffer = replicate BUFMAX 0, remote_debug = False, initialized = False, frame_stack = frames, lastFrame = 0,
      stackPtr = stack, exceptionHook = Some Hook, oldExceptionHook = None, g_printed = []\<rparr>"

text \<open>A register is four bytes of the array, the highest first.\<close>

definition reg_get :: "nat \<Rightarrow> 'd gdb \<Rightarrow> u32" where
  "reg_get i s = fold (\<lambda>k v. push_bit 8 v OR ucast (g_registers s ! (4 * i + k))) [0..<4] 0"

definition reg_set :: "nat \<Rightarrow> u32 \<Rightarrow> 'd gdb \<Rightarrow> 'd gdb" where
  "reg_set i v s = s\<lparr>g_registers := fold (\<lambda>k regs. regs[4 * i + k := ucast (drop_bit (8 * (3 - k)) v)]) [0..<4] (g_registers s)\<rparr>"

definition dbg_printf :: "bytes \<Rightarrow> VaArg list \<Rightarrow> 'd gdb \<Rightarrow> 'd gdb option" where
  "dbg_printf format va s =
     (if remote_debug s then do {
        (_, out) \<leftarrow> printf format va;
        Some (s\<lparr>g_printed := g_printed s @ out\<rparr>) }
      else Some s)"

definition text_line :: "string \<Rightarrow> bytes" where "text_line t = map of_char t @ [10, 0]"

definition text_of :: "string \<Rightarrow> bytes" where "text_of t = map of_char t @ [0]"

text \<open>\<^verbatim>\<open>debug_error\<close> passes its second argument, which the callers leave out, to a format without conversions.\<close>

definition debug_error :: "bytes \<Rightarrow> 'd gdb \<Rightarrow> 'd gdb option" where
  "debug_error format s = dbg_printf format [] s"

section \<open>Packets\<close>

definition hex :: "u8 \<Rightarrow> int" where
  "hex ch = (if 97 \<le> ch \<and> ch \<le> 102 then uint ch - 97 + 10
     else if 48 \<le> ch \<and> ch \<le> 57 then uint ch - 48
     else if 65 \<le> ch \<and> ch \<le> 70 then uint ch - 65 + 10
     else - 1)"

text \<open>Two digits, in the arithmetic of \<^verbatim>\<open>unsigned char\<close>; a character that is no digit counts as minus one.\<close>

definition hex_byte :: "u8 \<Rightarrow> u8 \<Rightarrow> u8" where
  "hex_byte hi lo = push_bit 4 (word_of_int (hex hi)) + word_of_int (hex lo)"

partial_function (option) wait_start :: "'d registers \<Rightarrow> 'd \<Rightarrow> 'd option" where
  "wait_start r d = (case debug_get_byte r d of (ch, d) \<Rightarrow> if ch \<noteq> 36 then wait_start r d else Some d)"

text \<open>The characters up to \<^verbatim>\<open>#\<close> or the end of the buffer; \<^verbatim>\<open>$\<close> starts again.\<close>

partial_function (option) read_packet ::
  "'d registers \<Rightarrow> u8 \<Rightarrow> u8 \<Rightarrow> nat \<Rightarrow> bytes \<Rightarrow> 'd \<Rightarrow> (u8 \<times> u8 \<times> nat \<times> bytes \<times> 'd) option" where
  "read_packet r ch checksum count buffer d =
     (if count < BUFMAX - 1
      then (case debug_get_byte r d of (ch, d) \<Rightarrow>
        if ch = 36 then read_packet r ch 0 0 buffer d
        else if ch = 35 then Some (ch, checksum, count, buffer, d)
        else do {
          buffer \<leftarrow> wr buffer count ch;
          read_packet r ch (checksum + ch) (count + 1) buffer d })
      else Some (ch, checksum, count, buffer, d))"

definition put_bytes :: "'d gdb_env \<Rightarrow> bytes \<Rightarrow> 'd gdb \<Rightarrow> 'd gdb" where
  "put_bytes env cs s = s\<lparr>g_dev := fold (debug_put_byte (ge_port env)) cs (g_dev s)\<rparr>"

text \<open>
  After the data: the checksum is compared and the answer sent.  The result is the index in
  \<^verbatim>\<open>remcomInBuffer\<close> that the pointer points to, or \<^term>\<open>None\<close> when the packet has to come again.
\<close>

definition check_packet :: "'d gdb_env \<Rightarrow> u8 \<Rightarrow> 'd gdb \<Rightarrow> (nat option \<times> 'd gdb) option" where
  "check_packet env checksum s =
     (case debug_get_byte (ge_port env) (g_dev s) of (hi, d) \<Rightarrow> case debug_get_byte (ge_port env) d of (lo, d) \<Rightarrow> do {
       let xmitcsum = hex_byte hi lo;
       let s = s\<lparr>g_dev := d\<rparr>;
       let buffer = remcomInBuffer s;
       if checksum \<noteq> xmitcsum
       then do {
         s \<leftarrow> dbg_printf (text_line ''bad checksum.  My count = 0x%x, sent=0x%x. buf=%s'')
                [Arg32 (ucast checksum), Arg32 (ucast xmitcsum), ArgStr buffer] s;
         Some (None, put_bytes env [45] s) }
       else do {
         let s = put_bytes env [43] s;
         c \<leftarrow> rd buffer 2;
         if c = 58
         then do {
           c0 \<leftarrow> rd buffer 0;
           c1 \<leftarrow> rd buffer 1;
           Some (Some 3, put_bytes env [c0, c1] s) }
         else Some (Some 0, s) } })"

partial_function (option) getpacket :: "'d gdb_env \<Rightarrow> 'd gdb \<Rightarrow> (nat \<times> 'd gdb) option" where
  "getpacket env s = do {
     d \<leftarrow> wait_start (ge_port env) (g_dev s);
     (ch, checksum, count, buffer, d) \<leftarrow> read_packet (ge_port env) 36 0 0 (remcomInBuffer s) d;
     buffer \<leftarrow> wr buffer count 0;
     let s = s\<lparr>remcomInBuffer := buffer, g_dev := d\<rparr>;
     if ch = 35
     then do {
       (r, s) \<leftarrow> check_packet env checksum s;
       case r of None \<Rightarrow> getpacket env s | Some p \<Rightarrow> Some (p, s) }
     else getpacket env s }"

fun send_payload :: "'d registers \<Rightarrow> bytes \<Rightarrow> u8 \<Rightarrow> 'd \<Rightarrow> (u8 \<times> 'd) option" where
  "send_payload r [] checksum d = None"
| "send_payload r (ch # buffer) checksum d =
     (if ch = 0 then Some (checksum, d) else send_payload r buffer (checksum + ch) (debug_put_byte r ch d))"

partial_function (option) putpacket :: "'d registers \<Rightarrow> bytes \<Rightarrow> 'd \<Rightarrow> 'd option" where
  "putpacket r buffer d = do {
     let d = debug_put_byte r 36 d;
     (checksum, d) \<leftarrow> send_payload r buffer 0 d;
     let d = debug_put_byte r 35 d;
     let d = debug_put_byte r (hexchars ! unat (drop_bit 4 checksum)) d;
     let d = debug_put_byte r (hexchars ! unat (checksum mod 16)) d;
     case debug_get_byte r d of (ch, d) \<Rightarrow> if ch \<noteq> 43 then putpacket r buffer d else Some d }"

section \<open>Hexadecimal data\<close>

text \<open>
  The result is \<^term>\<open>Inl\<close> when a bus error has ended the loop through \<^verbatim>\<open>longjmp\<close>, with what was stored so far.
\<close>

fun mem2hex :: "(u32 \<Rightarrow> u8 option) \<Rightarrow> u32 \<Rightarrow> bytes \<Rightarrow> nat \<Rightarrow> nat \<Rightarrow> (bytes + bytes) option" where
  "mem2hex m mem buf pos 0 = map_option Inr (wr buf pos 0)"
| "mem2hex m mem buf pos (Suc n) =
     (case m mem of
        None \<Rightarrow> Some (Inl buf)
      | Some ch \<Rightarrow> do {
          buf \<leftarrow> wr buf pos (hexchars ! unat (drop_bit 4 ch));
          buf \<leftarrow> wr buf (pos + 1) (hexchars ! unat (ch mod 16));
          mem2hex m (mem + 1) buf (pos + 2) n })"

fun hex2mem :: "bytes \<Rightarrow> nat \<Rightarrow> u32 \<Rightarrow> nat \<Rightarrow> (u32 \<Rightarrow> u8 option) \<Rightarrow> ((u32 \<Rightarrow> u8 option) + (u32 \<Rightarrow> u8 option)) option" where
  "hex2mem buf pos mem 0 m = Some (Inr m)"
| "hex2mem buf pos mem (Suc n) m = do {
     hi \<leftarrow> rd buf pos;
     lo \<leftarrow> rd buf (pos + 1);
     case m mem of
       None \<Rightarrow> Some (Inl m)
     | Some _ \<Rightarrow> hex2mem buf (pos + 2) (mem + 1) n (m(mem \<mapsto> hex_byte hi lo)) }"

text \<open>The array of the registers seen as memory, and back.\<close>

definition reg_memory :: "bytes \<Rightarrow> u32 \<Rightarrow> u8 option" where
  "reg_memory regs a = (if unat a < length regs then Some (regs ! unat a) else None)"

definition of_reg_memory :: "(u32 \<Rightarrow> u8 option) \<Rightarrow> bytes" where
  "of_reg_memory m = map (\<lambda>i. the (m (of_nat i))) [0..<NUMREGBYTES]"

text \<open>
  \<^verbatim>\<open>hexToInt\<close>: the number of characters, the value and the new place; the compiler of the kernel defines
  shifts of signed numbers as shifts of their bits.
\<close>

fun hex_digits :: "bytes \<Rightarrow> nat \<Rightarrow> u32 \<Rightarrow> (nat \<times> u32) option" where
  "hex_digits [] n v = None"
| "hex_digits (c # cs) n v =
     (if c \<noteq> 0 \<and> hex c \<ge> 0 then hex_digits cs (n + 1) (push_bit 4 v OR word_of_int (hex c)) else Some (n, v))"

definition hexToInt :: "bytes \<Rightarrow> nat \<Rightarrow> (nat \<times> u32 \<times> nat) option" where
  "hexToInt buf p = do {
     (n, v) \<leftarrow> hex_digits (drop p buf) 0 0;
     Some (n, v, p + n) }"

definition computeSignal :: "int \<Rightarrow> nat" where
  "computeSignal exceptionVector =
     (if exceptionVector \<in> {2, 3, 13} then 10
      else if exceptionVector \<in> {4, 10, 11} then 4
      else if exceptionVector \<in> {5, 6, 7, 40, 48, 49, 50, 51, 52, 53, 54} then 8
      else if exceptionVector = 8 then 11
      else if exceptionVector \<in> {9, 33} then 5
      else if exceptionVector = 31 then 2
      else 7)"

section \<open>Commands\<close>

definition exceptionHandler :: "u32 \<Rightarrow> u32 \<Rightarrow> 'd gdb \<Rightarrow> 'd gdb" where
  "exceptionHandler i f s = s\<lparr>g_ints := int_set_handler i (Vec f) (g_ints s)\<rparr>"

definition reply :: "bytes \<Rightarrow> 'd gdb \<Rightarrow> 'd gdb option" where
  "reply text s = do {
     out \<leftarrow> strcpy (remcomOutBuffer s) text;
     Some (s\<lparr>remcomOutBuffer := out\<rparr>) }"

text \<open>The reply \<^verbatim>\<open>S\<close> with the number of the signal.\<close>

definition signal_reply :: "nat \<Rightarrow> 'd gdb \<Rightarrow> 'd gdb option" where
  "signal_reply sigval s = do {
     out \<leftarrow> wr (remcomOutBuffer s) 0 83;
     out \<leftarrow> wr out 1 (hexchars ! (sigval div 16));
     out \<leftarrow> wr out 2 (hexchars ! (sigval mod 16));
     out \<leftarrow> wr out 3 0;
     Some (s\<lparr>remcomOutBuffer := out\<rparr>) }"

text \<open>\<^verbatim>\<open>AA..AA,LLLL\<close>; the result is \<^term>\<open>None\<close> inside when the text is something else.\<close>

definition parse_range :: "bytes \<Rightarrow> nat \<Rightarrow> (u32 \<times> u32 \<times> nat) option option" where
  "parse_range buf p = do {
     (n, addr, p) \<leftarrow> hexToInt buf p;
     if n = 0 then Some None
     else do {
       c \<leftarrow> rd buf p;
       if c \<noteq> 44 then Some None
       else do {
         (n, len, p) \<leftarrow> hexToInt buf (p + 1);
         Some (if n = 0 then None else Some (addr, len, p)) } } }"

text \<open>After a bus error.\<close>

definition bus_error_reply :: "'d gdb_env \<Rightarrow> 'd gdb \<Rightarrow> 'd gdb option" where
  "bus_error_reply env s = do {
     let s = exceptionHandler 2 (ge_catchException env) s;
     s \<leftarrow> reply (text_of ''E03'') s;
     debug_error (text_of ''bus error'') s }"

definition read_memory :: "'d gdb_env \<Rightarrow> nat \<Rightarrow> 'd gdb \<Rightarrow> 'd gdb option" where
  "read_memory env p s = do {
     let s = exceptionHandler 2 (ge_handle_buserror env) s;
     range \<leftarrow> parse_range (remcomInBuffer s) p;
     s \<leftarrow> (case range of
         None \<Rightarrow> reply (text_of ''E01'') s
       | Some (addr, len, p) \<Rightarrow> do {
           r \<leftarrow> mem2hex (g_memory s) addr (remcomOutBuffer s) 0 (nat (sint len));
           case r of
             Inl out \<Rightarrow> bus_error_reply env (s\<lparr>remcomOutBuffer := out\<rparr>)
           | Inr out \<Rightarrow> Some (s\<lparr>remcomOutBuffer := out\<rparr>) });
     Some (exceptionHandler 2 (ge_catchException env) s) }"

definition write_memory :: "'d gdb_env \<Rightarrow> nat \<Rightarrow> 'd gdb \<Rightarrow> 'd gdb option" where
  "write_memory env p s = do {
     let s = exceptionHandler 2 (ge_handle_buserror env) s;
     range \<leftarrow> parse_range (remcomInBuffer s) p;
     s \<leftarrow> (case range of
         None \<Rightarrow> reply (text_of ''E02'') s
       | Some (addr, len, p) \<Rightarrow> do {
           c \<leftarrow> rd (remcomInBuffer s) p;
           if c \<noteq> 58 then reply (text_of ''E02'') s
           else do {
             r \<leftarrow> hex2mem (remcomInBuffer s) (p + 1) addr (nat (sint len)) (g_memory s);
             case r of
               Inl m \<Rightarrow> bus_error_reply env (s\<lparr>g_memory := m\<rparr>)
             | Inr m \<Rightarrow> reply (text_of ''OK'') (s\<lparr>g_memory := m\<rparr>) } });
     Some (exceptionHandler 2 (ge_catchException env) s) }"

text \<open>The commands after which the session goes on; \<open>p\<close> is the index behind the letter.\<close>

definition command :: "'d gdb_env \<Rightarrow> nat \<Rightarrow> u8 \<Rightarrow> nat \<Rightarrow> 'd gdb \<Rightarrow> 'd gdb option" where
  "command env sigval c p s =
     (if c = 63 then signal_reply sigval s
      else if c = 100 then Some (s\<lparr>remote_debug := \<not> remote_debug s\<rparr>)
      else if c = 103 then do {
        r \<leftarrow> mem2hex (reg_memory (g_registers s)) 0 (remcomOutBuffer s) 0 NUMREGBYTES;
        case r of Inl _ \<Rightarrow> None | Inr out \<Rightarrow> Some (s\<lparr>remcomOutBuffer := out\<rparr>) }
      else if c = 71 then do {
        r \<leftarrow> hex2mem (remcomInBuffer s) p 0 NUMREGBYTES (reg_memory (g_registers s));
        case r of Inl _ \<Rightarrow> None | Inr m \<Rightarrow> reply (text_of ''OK'') (s\<lparr>g_registers := of_reg_memory m\<rparr>) }
      else if c = 109 then read_memory env p s
      else if c = 77 then write_memory env p s
      else Some s)"

section \<open>Resuming\<close>

text \<open>
  The source does not check frame pointers.  Where it goes through one that points outside \<^verbatim>\<open>gdbFrameStack\<close> it
  has no defined result, so reading and writing a frame is \<^term>\<open>None\<close> there, like any access out of bounds.
\<close>

definition in_frame_stack :: "'d gdb_env \<Rightarrow> u32 \<Rightarrow> bool" where
  "in_frame_stack env f \<longleftrightarrow> ge_gdbFrameStack env \<le> f \<and> f - ge_gdbFrameStack env \<le> 4 * FRAMESIZE - sizeof_Frame"

definition frame_get :: "'d gdb_env \<Rightarrow> u32 \<Rightarrow> 'd gdb \<Rightarrow> Frame option" where
  "frame_get env f s = (if in_frame_stack env f then Some (frame_stack s f) else None)"

definition frame_update :: "'d gdb_env \<Rightarrow> u32 \<Rightarrow> (Frame \<Rightarrow> Frame) \<Rightarrow> 'd gdb \<Rightarrow> 'd gdb option" where
  "frame_update env f g s =
     (if in_frame_stack env f then Some (s\<lparr>frame_stack := (frame_stack s)(f := g (frame_stack s f))\<rparr>) else None)"

definition initializeRemcomErrorFrame :: "'d gdb_env \<Rightarrow> 'd gdb \<Rightarrow> 'd gdb option" where
  "initializeRemcomErrorFrame env s =
     (let f = ge_gdbFrameStack env + 4 * (FRAMESIZE - 1) - sizeof_Frame
      in frame_update env f (\<lambda>fr. fr\<lparr>fr_previous := f\<rparr>) (s\<lparr>lastFrame := f\<rparr>))"

text \<open>
  \<^verbatim>\<open>_returnFromException\<close> up to the assembly that pops the frame; the result says whether the processor
  goes on in supervisor mode.
\<close>

definition returnFromException :: "'d gdb_env \<Rightarrow> u32 \<Rightarrow> 'd gdb \<Rightarrow> (bool \<times> 'd gdb) option" where
  "returnFromException env frame s = do {
     (frame, s) \<leftarrow>
       (if frame = 0
        then do {
          s \<leftarrow> frame_update env (lastFrame s) (\<lambda>fr. fr\<lparr>fr_frameSize := 4, fr_format := 0, fr_fsaveHeader := - 1\<rparr>) s;
          Some (lastFrame s, s) }
        else Some (frame, s));
     let s = s\<lparr>lastFrame := frame\<rparr>;
     s \<leftarrow> frame_update env frame (\<lambda>fr. fr\<lparr>fr_sr := ucast (reg_get PS s), fr_pc := reg_get PC s\<rparr>) s;
     Some (reg_get PS s AND 0x2000 \<noteq> 0, s) }"

definition frame_message :: "u32 \<Rightarrow> Frame \<Rightarrow> 'd gdb \<Rightarrow> 'd gdb option" where
  "frame_message f fr s =
     dbg_printf (text_line ''frame at 0x%x has pc=0x%x, except#=%d'') [Arg32 f, Arg32 (fr_exceptionPC fr), Arg32 (fr_exceptionVector fr)] s"

text \<open>The search for the frame of the program counter; zero when there is none.\<close>

partial_function (option) find_frame :: "'d gdb_env \<Rightarrow> u32 \<Rightarrow> u32 \<Rightarrow> 'd gdb \<Rightarrow> (u32 \<times> 'd gdb) option" where
  "find_frame env newPC frame s =
     (if frame = 0 then Some (0, s)
      else do {
        fr \<leftarrow> frame_get env frame s;
        s \<leftarrow> frame_message frame fr s;
        if fr_exceptionPC fr = newPC then Some (frame, s)
        else if fr_exceptionVector fr = 33 \<and> fr_exceptionPC fr = newPC + 2 then Some (frame, s)
        else if frame = fr_previous fr then Some (0, s)
        else find_frame env newPC (fr_previous fr) s })"

text \<open>The commands \<^verbatim>\<open>c\<close> and \<^verbatim>\<open>s\<close> up to the hook of the old handler.\<close>

definition resume_at :: "'d gdb_env \<Rightarrow> bool \<Rightarrow> nat \<Rightarrow> 'd gdb \<Rightarrow> (u32 \<times> 'd gdb) option" where
  "resume_at env stepping p s = do {
     (n, addr, p) \<leftarrow> hexToInt (remcomInBuffer s) p;
     let s = (if n \<noteq> 0 then reg_set PC addr s else s);
     let newPC = reg_get PC s;
     let s = reg_set PS (reg_get PS s AND 0x7FFF) s;
     let s = (if stepping then reg_set PS (reg_get PS s OR 0x8000) s else s);
     s \<leftarrow> dbg_printf (text_line ''new pc = 0x%x'') [Arg32 newPC] s;
     find_frame env newPC (lastFrame s) s }"

text \<open>Whether the frame that was found belongs to an exception of an older handler.\<close>

definition runs_old_handler :: "Frame \<Rightarrow> bool" where
  "runs_old_handler fr \<longleftrightarrow> fr_exceptionVector fr \<notin> {9, 31, 33}"

text \<open>After the old handler, which has nothing to do in this kernel; a program counter that has changed skips the frame.\<close>

definition after_old_handler :: "'d gdb_env \<Rightarrow> u32 \<Rightarrow> 'd gdb \<Rightarrow> (bool \<times> 'd gdb) option" where
  "after_old_handler env frame s = do {
     fr \<leftarrow> frame_get env frame s;
     if reg_get PC s \<noteq> fr_exceptionPC fr
     then do {
       s \<leftarrow> frame_message frame fr s;
       returnFromException env 0 s }
     else returnFromException env frame s }"

text \<open>A frame of its own for a program counter that no frame has.\<close>

definition resume_fresh :: "'d gdb_env \<Rightarrow> 'd gdb \<Rightarrow> (bool \<times> 'd gdb) option" where
  "resume_fresh env s = do {
     let frame = lastFrame s - sizeof_Frame;
     (frame, s) \<leftarrow>
       (if frame - 2 * sizeof_Frame < ge_gdbFrameStack env
        then do { s \<leftarrow> initializeRemcomErrorFrame env s; Some (lastFrame s, s) }
        else Some (frame, s));
     s \<leftarrow> frame_update env frame (\<lambda>fr. fr\<lparr>fr_previous := lastFrame s\<rparr>) s;
     returnFromException env 0 (s\<lparr>lastFrame := frame\<rparr>) }"

section \<open>The session\<close>

definition announce :: "'d gdb_env \<Rightarrow> int \<Rightarrow> 'd gdb \<Rightarrow> 'd gdb option" where
  "announce env exceptionVector s = do {
     s \<leftarrow> dbg_printf (text_line ''vector=%d, sr=0x%x, pc=0x%x'') [Arg32 (word_of_int exceptionVector), Arg32 (reg_get PS s), Arg32 (reg_get PC s)] s;
     s \<leftarrow> signal_reply (computeSignal exceptionVector) s;
     d \<leftarrow> putpacket (ge_port env) (remcomOutBuffer s) (g_dev s);
     Some (s\<lparr>g_dev := d\<rparr>) }"

text \<open>
  One round of the loop over the commands: \<^term>\<open>Inl\<close> when the debugger is left, and otherwise the signal and
  the state of the next round.  An old handler that is the debugger itself starts a session of its own.
\<close>

definition serve_packet :: "'d gdb_env \<Rightarrow> nat \<Rightarrow> 'd gdb \<Rightarrow> ((bool \<times> 'd gdb) + (nat \<times> 'd gdb)) option" where
  "serve_packet env sigval s = do {
     out \<leftarrow> wr (remcomOutBuffer s) 0 0;
     (p, s) \<leftarrow> getpacket env (s\<lparr>remcomOutBuffer := out\<rparr>);
     c \<leftarrow> rd (remcomInBuffer s) p;
     if c = 115 \<or> c = 99
     then do {
       (frame, s) \<leftarrow> resume_at env (c = 115) (p + 1) s;
       if frame = 0 then map_option Inl (resume_fresh env s)
       else do {
         fr \<leftarrow> frame_get env frame s;
         if \<not> runs_old_handler fr then map_option Inl (returnFromException env frame s)
         else if oldExceptionHook s = Some RemcomHandler then do {
           s \<leftarrow> announce env (sint (fr_exceptionVector fr)) s;
           Some (Inr (computeSignal (sint (fr_exceptionVector fr)), s)) }
         else map_option Inl (after_old_handler env frame s) } }
     else do {
       s \<leftarrow> command env sigval c (p + 1) s;
       d \<leftarrow> putpacket (ge_port env) (remcomOutBuffer s) (g_dev s);
       Some (Inr (sigval, s\<lparr>g_dev := d\<rparr>)) } }"

partial_function (option) session :: "'d gdb_env \<Rightarrow> nat \<Rightarrow> 'd gdb \<Rightarrow> (bool \<times> 'd gdb) option" where
  "session env sigval s = do {
     r \<leftarrow> serve_packet env sigval s;
     case r of Inl ret \<Rightarrow> Some ret | Inr (sigval, s) \<Rightarrow> session env sigval s }"

definition handle_exception :: "'d gdb_env \<Rightarrow> int \<Rightarrow> 'd gdb \<Rightarrow> (bool \<times> 'd gdb) option" where
  "handle_exception env exceptionVector s = do {
     s \<leftarrow> announce env exceptionVector s;
     session env (computeSignal exceptionVector) s }"

section \<open>Setting up\<close>

definition set_debug_traps :: "'d gdb_env \<Rightarrow> 'd gdb \<Rightarrow> 'd gdb option" where
  "set_debug_traps env s = do {
     s \<leftarrow> initializeRemcomErrorFrame env s;
     let catch = ge_catchException env;
     let s = s\<lparr>stackPtr := ge_remcomStack env + 4 * (STACKSIZE div 4 - 1)\<rparr>;
     let s = fold (\<lambda>i. exceptionHandler (of_nat i) catch) [2..<24] s;
     let s = exceptionHandler 31 (ge_debug_level7 env) s;
     let s = exceptionHandler 33 catch s;
     let s = exceptionHandler 40 catch s;
     let s = fold (\<lambda>i. exceptionHandler (of_nat i) catch) [48..<55] s;
     let s = (if oldExceptionHook s \<noteq> Some RemcomHandler
              then s\<lparr>oldExceptionHook := exceptionHook s, exceptionHook := Some RemcomHandler\<rparr> else s);
     Some (s\<lparr>initialized := True\<rparr>) }"

text \<open>The trap itself is the processor's: \<open>trap\<close>, on a state of which \<open>g\<close> is the part of the stub.\<close>

definition breakpoint :: "'d gdb \<Rightarrow> ('s \<Rightarrow> 's option) \<Rightarrow> 's \<Rightarrow> 's option" where
  "breakpoint g trap s = (if initialized g then trap s else Some s)"

end
