(* ===== verification/GdbSpec.thy ===== *)
theory GdbSpec
  imports Gdb
begin

text \<open>
  Properties of the debugger stub (\<^theory_text>\<open>Gdb\<close>) over a serial line.
\<close>

section \<open>The serial line\<close>

text \<open>
  What the stub needs of the debug port: a load takes the next byte that has come in, a store sends a
  byte.  \<open>inc\<close> are the bytes still to come, \<open>snt\<close> those sent so far.
\<close>

definition serial_port :: "'d registers \<Rightarrow> ('d \<Rightarrow> bytes) \<Rightarrow> ('d \<Rightarrow> bytes) \<Rightarrow> bool" where
  "serial_port r inc snt \<longleftrightarrow>
     (\<forall>d c cs. inc d = c # cs \<longrightarrow> fst (debug_get_byte r d) = c \<and> inc (snd (debug_get_byte r d)) = cs \<and>
        snt (snd (debug_get_byte r d)) = snt d) \<and>
     (\<forall>d c. inc (debug_put_byte r c d) = inc d \<and> snt (debug_put_byte r c d) = snt d @ [c])"

lemma serial_get:
  assumes "serial_port r inc snt" "inc d = c # cs"
  obtains d' where "debug_get_byte r d = (c, d')" "inc d' = cs" "snt d' = snt d"
proof (cases "debug_get_byte r d")
  case (Pair x d')
  then show ?thesis using assms that [of d'] unfolding serial_port_def by (metis fst_conv snd_conv)
qed

lemma serial_put:
  "serial_port r inc snt \<Longrightarrow> inc (debug_put_byte r c d) = inc d"
  "serial_port r inc snt \<Longrightarrow> snt (debug_put_byte r c d) = snt d @ [c]"
  by (simp_all add: serial_port_def)

lemma serial_puts:
  assumes "serial_port r inc snt"
  shows "inc (fold (debug_put_byte r) cs d) = inc d \<and> snt (fold (debug_put_byte r) cs d) = snt d @ cs"
  by (induction cs arbitrary: d) (simp_all add: serial_put [OF assms])

section \<open>Hexadecimal digits\<close>

definition hex_text :: "bytes \<Rightarrow> bytes" where
  "hex_text bs = concat (map (\<lambda>b. [hexchars ! unat (drop_bit 4 b), hexchars ! unat (b mod 16)]) bs)"

lemma hex_text_simps [simp]:
  "hex_text [] = []"
  "hex_text (b # bs) = hexchars ! unat (drop_bit 4 b) # hexchars ! unat (b mod 16) # hex_text bs"
  by (simp_all add: hex_text_def)

lemma length_hex_text [simp]: "length (hex_text bs) = 2 * length bs"
  by (induction bs) auto

lemma hexchars_all: "\<forall>k \<in> set [0..<16]. hex (hexchars ! k) = int k \<and> hexchars ! k \<notin> {0, 35, 36, 58}"
  by (simp add: upt_rec hexchars_def hex_def of_char_def)

lemma hexchars_hex: "k < 16 \<Longrightarrow> hex (hexchars ! k) = int k" "k < 16 \<Longrightarrow> hexchars ! k \<notin> {0, 35, 36, 58}"
  using hexchars_all by auto

lemma nibble_less: "unat (drop_bit 4 (b :: u8)) < 16" "unat (b mod 16) < 16"
proof -
  have "unat b < 256" using unsigned_less [of b] by simp
  then show "unat (drop_bit 4 b) < 16" by (simp add: drop_bit_eq_div unat_div)
  show "unat (b mod 16) < 16" by (simp add: unat_mod)
qed

lemma hex_byte_digits: "hex_byte (hexchars ! unat (drop_bit 4 b)) (hexchars ! unat (b mod 16)) = b"
proof -
  have "hex_byte (hexchars ! unat (drop_bit 4 b)) (hexchars ! unat (b mod 16)) = push_bit 4 (drop_bit 4 b) + b mod 16"
    by (simp add: hex_byte_def hexchars_hex(1) [OF nibble_less(1)] hexchars_hex(1) [OF nibble_less(2)])
  also have "\<dots> = b" by (simp add: push_bit_eq_mult drop_bit_eq_div div_mult_mod_eq)
  finally show ?thesis .
qed

lemma hex_text_chars: "c \<in> set (hex_text bs) \<Longrightarrow> c \<notin> {0, 35, 36, 58}"
  by (induction bs) (use hexchars_hex(2) nibble_less in auto)

section \<open>Packets\<close>

definition frame_of :: "bytes \<Rightarrow> bytes" where
  "frame_of p = 36 # p @ 35 # hex_text [sum_list p]"

lemma wait_start_finds:
  assumes "serial_port r inc snt" "inc d = junk @ 36 # rest" "36 \<notin> set junk"
  shows "\<exists>d'. wait_start r d = Some d' \<and> inc d' = rest \<and> snt d' = snt d"
  using assms(2,3)
proof (induction junk arbitrary: d)
  case Nil
  then obtain d' where "debug_get_byte r d = (36, d')" "inc d' = rest" "snt d' = snt d"
    using serial_get [OF assms(1), of d 36 rest] by auto
  then show ?case by (subst wait_start.simps) simp
next
  case (Cons c junk)
  then obtain d' where d': "debug_get_byte r d = (c, d')" "inc d' = junk @ 36 # rest" "snt d' = snt d"
    using serial_get [OF assms(1), of d c "junk @ 36 # rest"] by auto
  with Cons.IH [OF d'(2)] Cons.prems show ?case by (subst wait_start.simps) auto
qed

lemma read_packet_reads:
  assumes "serial_port r inc snt" "inc d = p @ 35 # rest" "35 \<notin> set p" "36 \<notin> set p" "length buffer = BUFMAX"
    "count + length p < BUFMAX - 1"
  shows "\<exists>d'. read_packet r ch checksum count buffer d =
      Some (35, checksum + sum_list p, count + length p, take count buffer @ p @ drop (count + length p) buffer, d') \<and>
    inc d' = rest \<and> snt d' = snt d"
  using assms(2-)
proof (induction p arbitrary: d ch checksum count buffer)
  case Nil
  then obtain d' where "debug_get_byte r d = (35, d')" "inc d' = rest" "snt d' = snt d"
    using serial_get [OF assms(1), of d 35 rest] by auto
  then show ?case using Nil.prems by (subst read_packet.simps) simp
next
  case (Cons c p)
  obtain d' where d': "debug_get_byte r d = (c, d')" "inc d' = p @ 35 # rest" "snt d' = snt d"
    using serial_get [OF assms(1), of d c "p @ 35 # rest"] Cons.prems(1) by auto
  have i: "count < length buffer" using Cons.prems by simp
  have tk: "take (Suc count) (buffer[count := c]) = take count buffer @ [c]"
    using i by (simp add: take_Suc_conv_app_nth)
  have "35 \<notin> set p" "36 \<notin> set p" "length (buffer[count := c]) = BUFMAX" "count + 1 + length p < BUFMAX - 1"
    using Cons.prems by simp_all
  from Cons.IH [OF d'(2) this, of c "checksum + c"] obtain d2 where
    "read_packet r c (checksum + c) (count + 1) (buffer[count := c]) d' =
       Some (35, checksum + c + sum_list p, count + 1 + length p,
         take (count + 1) (buffer[count := c]) @ p @ drop (count + 1 + length p) (buffer[count := c]), d2)"
    "inc d2 = rest" "snt d2 = snt d'" by auto
  then show ?case using d' Cons.prems i tk
    by (subst read_packet.simps) (simp add: wr_def add.assoc)
qed

text \<open>A frame on the line is received as it was meant, whatever else came before it.\<close>

lemma getpacket_reads:
  assumes "serial_port (ge_port env) inc snt" "inc (g_dev s) = junk @ frame_of p @ rest" "36 \<notin> set junk"
    "35 \<notin> set p" "36 \<notin> set p" "length (remcomInBuffer s) = BUFMAX" "length p < BUFMAX - 1"
    and buf: "buf = p @ 0 # drop (Suc (length p)) (remcomInBuffer s)"
  shows "\<exists>d'. getpacket env s = Some (if buf ! 2 = 58 then 3 else 0, s\<lparr>remcomInBuffer := buf, g_dev := d'\<rparr>) \<and>
    inc d' = rest \<and> snt d' = snt (g_dev s) @ [43] @ (if buf ! 2 = 58 then take 2 buf else [])"
proof -
  let ?r = "ge_port env" and ?hi = "hexchars ! unat (drop_bit 4 (sum_list p))" and ?lo = "hexchars ! unat (sum_list p mod 16)"
  have "inc (g_dev s) = junk @ 36 # p @ 35 # ?hi # ?lo # rest" using assms(2) by (simp add: frame_of_def)
  from wait_start_finds [OF assms(1) this assms(3)] obtain d1 where
    d1: "wait_start ?r (g_dev s) = Some d1" "inc d1 = p @ 35 # ?hi # ?lo # rest" "snt d1 = snt (g_dev s)" by blast
  from read_packet_reads [OF assms(1) d1(2) assms(4-6), of 0 36 0] assms(7) obtain d2 where
    d2: "read_packet ?r 36 0 0 (remcomInBuffer s) d1 = Some (35, sum_list p, length p, p @ drop (length p) (remcomInBuffer s), d2)"
      "inc d2 = ?hi # ?lo # rest" "snt d2 = snt d1" by auto
  obtain d3 where d3: "debug_get_byte ?r d2 = (?hi, d3)" "inc d3 = ?lo # rest" "snt d3 = snt d2"
    using serial_get [OF assms(1) d2(2)] by blast
  obtain d4 where d4: "debug_get_byte ?r d3 = (?lo, d4)" "inc d4 = rest" "snt d4 = snt d3"
    using serial_get [OF assms(1) d3(2)] by blast
  have len: "length buf = BUFMAX" using buf assms(6,7) by simp
  have b: "(p @ drop (length p) (remcomInBuffer s))[length p := 0] = buf"
    using assms(6,7) by (simp add: buf list_update_append Cons_nth_drop_Suc [symmetric])
  have take2: "take 2 buf = [buf ! 0, buf ! 1]" using len by (simp add: BUFMAX_def take_Suc_conv_app_nth numeral_2_eq_2)
  let ?cs = "if buf ! 2 = 58 then [43, buf ! 0, buf ! 1] else [43]"
  have "getpacket env s = Some (if buf ! 2 = 58 then 3 else 0, s\<lparr>remcomInBuffer := buf, g_dev := fold (debug_put_byte ?r) ?cs d4\<rparr>)"
    using d1(1) d2(1) d3(1) d4(1) b len assms(6,7)
    by (subst getpacket.simps) (simp add: check_packet_def Let_def wr_def rd_def hex_byte_digits put_bytes_def BUFMAX_def)
  then show ?thesis using serial_puts [OF assms(1), of ?cs d4] d1(3) d2(3) d3(3) d4(2,3) take2 by (cases "buf ! 2 = 58") auto
qed

lemma send_payload_sends:
  assumes "serial_port r inc snt" "0 \<notin> set p"
  shows "\<exists>d'. send_payload r (p @ 0 # z) checksum d = Some (checksum + sum_list p, d') \<and> inc d' = inc d \<and> snt d' = snt d @ p"
  using assms(2)
proof (induction p arbitrary: checksum d)
  case (Cons c p)
  from Cons.IH [of "checksum + c" "debug_put_byte r c d"] Cons.prems show ?case
    by (auto simp: serial_put [OF assms(1)] add.assoc)
qed simp

lemma putpacket_sends:
  assumes "serial_port r inc snt" "0 \<notin> set p" "inc d = 43 # rest"
  shows "\<exists>d'. putpacket r (p @ 0 # z) d = Some d' \<and> inc d' = rest \<and> snt d' = snt d @ frame_of p"
proof -
  note put = serial_put [OF assms(1)]
  from send_payload_sends [OF assms(1,2), of z 0 "debug_put_byte r 36 d"] obtain d1 where
    d1: "send_payload r (p @ 0 # z) 0 (debug_put_byte r 36 d) = Some (sum_list p, d1)" "inc d1 = inc d" "snt d1 = snt d @ 36 # p"
    by (auto simp: put)
  let ?d2 = "debug_put_byte r (hexchars ! unat (sum_list p mod 16)) (debug_put_byte r (hexchars ! unat (drop_bit 4 (sum_list p)))
    (debug_put_byte r 35 d1))"
  obtain d3 where "debug_get_byte r ?d2 = (43, d3)" "inc d3 = rest" "snt d3 = snt ?d2"
    using serial_get [OF assms(1), of ?d2 43 rest] d1(2) assms(3) by (auto simp: put)
  then show ?thesis using d1 by (subst putpacket.simps) (auto simp: put frame_of_def Let_def)
qed

section \<open>Numbers and memory in hexadecimal\<close>

text \<open>A number written in digits, and its value.\<close>

definition digits :: "bytes \<Rightarrow> bool" where
  "digits ds \<longleftrightarrow> ds \<noteq> [] \<and> (\<forall>c \<in> set ds. c \<noteq> 0 \<and> 0 \<le> hex c)"

definition hexnum :: "bytes \<Rightarrow> u32" where
  "hexnum ds = fold (\<lambda>c v. push_bit 4 v OR word_of_int (hex c)) ds 0"

lemma hex_digits_reads:
  assumes "\<forall>c \<in> set ds. c \<noteq> 0 \<and> 0 \<le> hex c" "t = 0 \<or> hex t < 0"
  shows "hex_digits (ds @ t # z) n v = Some (n + length ds, fold (\<lambda>c v. push_bit 4 v OR word_of_int (hex c)) ds v)"
  using assms(1)
proof (induction ds arbitrary: n v)
  case Nil
  then show ?case using assms(2) by auto
qed simp

lemma hexToInt_reads:
  assumes "digits ds" "drop p buf = ds @ t # z" "t = 0 \<or> hex t < 0"
  shows "hexToInt buf p = Some (length ds, hexnum ds, p + length ds)"
  using assms hex_digits_reads [of ds t z 0 0] by (simp add: hexToInt_def hexnum_def digits_def)

lemma hex_separators: "hex 44 < 0" "hex 58 < 0"
  by (simp_all add: hex_def)

lemma digits_chars: "digits ds \<Longrightarrow> c \<in> set ds \<Longrightarrow> c \<notin> {0, 35, 36, 58}"
  by (auto simp: digits_def hex_def)

lemma drop_Cons_at:
  assumes "drop p buf = y # z"
  shows "p < length buf" "buf ! p = y" "drop (Suc p) buf = z"
proof -
  show "p < length buf" using assms by (metis drop_all leI list.distinct(1))
  show "buf ! p = y" using assms by (rule nth_via_drop)
  have "drop (Suc p) buf = tl (drop p buf)" by (simp add: drop_Suc tl_drop)
  then show "drop (Suc p) buf = z" using assms by simp
qed

lemma drop_append_at: "drop p buf = xs @ ys \<Longrightarrow> drop (p + length xs) buf = ys"
proof -
  assume "drop p buf = xs @ ys"
  then have "drop (length xs) (drop p buf) = ys" by simp
  then show ?thesis by (simp add: add.commute)
qed

lemma parse_range_reads:
  assumes "digits da" "digits dl" "drop p buf = da @ 44 # dl @ t # z" "t = 0 \<or> hex t < 0"
  shows "parse_range buf p = Some (Some (hexnum da, hexnum dl, p + length da + 1 + length dl))"
proof -
  note sep = drop_Cons_at [OF drop_append_at [OF assms(3)]]
  note second = hexToInt_reads [OF assms(2) sep(3) assms(4)]
  have "length da \<noteq> 0" "length dl \<noteq> 0" using assms(1,2) by (auto simp: digits_def)
  then show ?thesis using sep(1,2) second hexToInt_reads [OF assms(1,3)] hex_separators
    by (simp add: parse_range_def rd_def)
qed

text \<open>The bytes at an address, and storing them.\<close>

fun bytes_at :: "(u32 \<Rightarrow> u8 option) \<Rightarrow> u32 \<Rightarrow> bytes \<Rightarrow> bool" where
  "bytes_at m a [] \<longleftrightarrow> True"
| "bytes_at m a (b # bs) \<longleftrightarrow> m a = Some b \<and> bytes_at m (a + 1) bs"

fun store_bytes :: "(u32 \<Rightarrow> u8 option) \<Rightarrow> u32 \<Rightarrow> bytes \<Rightarrow> (u32 \<Rightarrow> u8 option)" where
  "store_bytes m a [] = m"
| "store_bytes m a (b # bs) = store_bytes (m(a \<mapsto> b)) (a + 1) bs"

fun mapped :: "(u32 \<Rightarrow> u8 option) \<Rightarrow> u32 \<Rightarrow> nat \<Rightarrow> bool" where
  "mapped m a 0 \<longleftrightarrow> True"
| "mapped m a (Suc n) \<longleftrightarrow> m a \<noteq> None \<and> mapped m (a + 1) n"

lemma mem2hex_writes:
  assumes "bytes_at m a bs" "pos + 2 * length bs < length buf"
  shows "mem2hex m a buf pos (length bs) = Some (Inr (take pos buf @ hex_text bs @ 0 # drop (pos + 2 * length bs + 1) buf))"
  using assms
proof (induction bs arbitrary: a buf pos)
  case Nil
  then show ?case by (simp add: wr_def upd_conv_take_nth_drop)
next
  case (Cons b bs)
  let ?hi = "hexchars ! unat (drop_bit 4 b)" and ?lo = "hexchars ! unat (b mod 16)"
  let ?buf = "buf[pos := ?hi, Suc pos := ?lo]"
  have len: "pos < length buf" "Suc pos < length buf" using Cons.prems by simp_all
  have tk: "take (pos + 2) ?buf = take pos buf @ [?hi, ?lo]"
    using len by (simp add: take_Suc_conv_app_nth)
  have dr: "drop (pos + 2 + 2 * length bs + 1) ?buf = drop (pos + 2 * length (b # bs) + 1) buf" by simp
  have "mem2hex m (a + 1) ?buf (pos + 2) (length bs) =
      Some (Inr (take (pos + 2) ?buf @ hex_text bs @ 0 # drop (pos + 2 + 2 * length bs + 1) ?buf))"
    using Cons.prems by (intro Cons.IH) simp_all
  then show ?case using Cons.prems(1) len unfolding tk dr by (simp add: wr_def)
qed

text \<open>A reply that does not fit runs over the end of the buffer.\<close>

lemma mem2hex_overruns:
  "mapped m a n \<Longrightarrow> length buf \<le> pos + 2 * n \<Longrightarrow> mem2hex m a buf pos n = None"
proof (induction n arbitrary: a buf pos)
  case (Suc n)
  have "mem2hex m (a + 1) (buf[pos := x, Suc pos := y]) (pos + 2) n = None" for x y
    using Suc.prems by (intro Suc.IH) simp_all
  then show ?case using Suc.prems(1) by (auto simp: wr_def)
qed (simp add: wr_def)

lemma hex2mem_stores:
  assumes "mapped m a (length bs)" "drop pos buf = hex_text bs @ z"
  shows "hex2mem buf pos a (length bs) m = Some (Inr (store_bytes m a bs))"
  using assms
proof (induction bs arbitrary: m a pos)
  case (Cons b bs)
  let ?hi = "hexchars ! unat (drop_bit 4 b)" and ?lo = "hexchars ! unat (b mod 16)"
  have d: "drop pos buf = ?hi # ?lo # hex_text bs @ z" using Cons.prems(2) by simp
  note hi = drop_Cons_at [OF d] and lo = drop_Cons_at [OF drop_Cons_at(3) [OF d]]
  have next_drop: "drop (pos + 2) buf = hex_text bs @ z" using lo(3) by simp
  have keep: "mapped m a n \<Longrightarrow> mapped (m(x \<mapsto> y)) a n" for m a n x y by (induction n arbitrary: a) auto
  have "hex2mem buf (pos + 2) (a + 1) (length bs) (m(a \<mapsto> b)) = Some (Inr (store_bytes (m(a \<mapsto> b)) (a + 1) bs))"
    by (rule Cons.IH [OF _ next_drop]) (use Cons.prems(1) keep in \<open>simp del: fun_upd_apply\<close>)
  then show ?case using hi(1,2) lo(1,2) Cons.prems(1) by (auto simp: rd_def hex_byte_digits)
qed simp

lemma store_bytes_other: "(\<And>k. k < length bs \<Longrightarrow> x \<noteq> a + of_nat k) \<Longrightarrow> store_bytes m a bs x = m x"
proof (induction bs arbitrary: m a)
  case (Cons b bs)
  have "store_bytes (m(a \<mapsto> b)) (a + 1) bs x = (m(a \<mapsto> b)) x"
    by (rule Cons.IH) (use Cons.prems [of "Suc _"] in \<open>simp add: add.assoc\<close>)
  then show ?case using Cons.prems [of 0] by simp
qed simp

lemma store_bytes_at: "length bs < 2 ^ 32 \<Longrightarrow> bytes_at (store_bytes m a bs) a bs"
proof (induction bs arbitrary: m a)
  case (Cons b bs)
  have "a \<noteq> a + 1 + of_nat k" if "k < length bs" for k
  proof
    assume "a = a + 1 + of_nat k"
    then have "(of_nat (Suc k) :: u32) = 0" by (simp add: add.assoc)
    then have "2 ^ 32 dvd Suc k" by (simp add: word_of_nat_eq_0_iff del: of_nat_Suc)
    then show False using that Cons.prems by (auto dest: dvd_imp_le)
  qed
  then have "store_bytes (m(a \<mapsto> b)) (a + 1) bs a = Some b" by (subst store_bytes_other) auto
  with Cons show ?case by simp
qed simp

section \<open>Answering a packet\<close>

lemma serve_packet_answers:
  assumes port: "serial_port (ge_port env) inc snt" and inc: "inc (g_dev s) = frame_of p @ 43 # rest"
    and p: "35 \<notin> set p" "36 \<notin> set p" "length p < BUFMAX - 1" "p \<noteq> []" "hd p \<noteq> 115" "hd p \<noteq> 99"
    and bufs: "length (remcomInBuffer s) = BUFMAX" "length (remcomOutBuffer s) = BUFMAX"
    and buf: "buf = p @ 0 # drop (Suc (length p)) (remcomInBuffer s)" "buf ! 2 \<noteq> 58"
    and run: "\<And>d. command env sigval (hd p) 1 (s\<lparr>remcomOutBuffer := (remcomOutBuffer s)[0 := 0], remcomInBuffer := buf, g_dev := d\<rparr>) =
        Some (f\<lparr>g_dev := d\<rparr>)" "remcomOutBuffer f = q @ 0 # z" "0 \<notin> set q"
  shows "\<exists>d. serve_packet env sigval s = Some (Inr (sigval, f\<lparr>g_dev := d\<rparr>)) \<and> inc d = rest \<and>
    snt d = snt (g_dev s) @ [43] @ frame_of q"
proof -
  let ?s = "s\<lparr>remcomOutBuffer := (remcomOutBuffer s)[0 := 0]\<rparr>"
  have "inc (g_dev ?s) = [] @ frame_of p @ 43 # rest" "36 \<notin> set ([] :: bytes)" "length (remcomInBuffer ?s) = BUFMAX"
    "buf = p @ 0 # drop (Suc (length p)) (remcomInBuffer ?s)" using inc bufs buf by simp_all
  from getpacket_reads [OF port this(1,2) p(1,2) this(3) p(3) this(4)] obtain d1 where
    d1: "getpacket env ?s = Some (0, ?s\<lparr>remcomInBuffer := buf, g_dev := d1\<rparr>)" "inc d1 = 43 # rest" "snt d1 = snt (g_dev s) @ [43]"
    using buf(2) by auto
  from putpacket_sends [OF port run(3) d1(2), of z] obtain d2 where
    d2: "putpacket (ge_port env) (q @ 0 # z) d1 = Some d2" "inc d2 = rest" "snt d2 = snt d1 @ frame_of q" by blast
  have "rd buf 0 = Some (hd p)" using p(4) by (cases p) (simp_all add: buf(1) rd_def)
  then have "serve_packet env sigval s = Some (Inr (sigval, f\<lparr>g_dev := d2\<rparr>))"
    using d1(1) d2(1) p(5,6) run(1) [of d1] run(2) bufs(2) by (simp add: serve_packet_def wr_def BUFMAX_def)
  then show ?thesis using d1(3) d2(2,3) by (intro exI [of _ d2]) simp
qed

text \<open>The vector of the bus error is set for the access and set back after it.\<close>

definition caught :: "'d gdb_env \<Rightarrow> 'd gdb \<Rightarrow> 'd gdb" where
  "caught env s = exceptionHandler 2 (ge_catchException env) s"

lemma caught_simps [simp]:
  "g_dev (caught env s) = g_dev s" "g_memory (caught env s) = g_memory s" "g_registers (caught env s) = g_registers s"
  "remcomInBuffer (caught env s) = remcomInBuffer s" "remcomOutBuffer (caught env s) = remcomOutBuffer s"
  by (simp_all add: caught_def exceptionHandler_def)

lemma caught_again:
  "exceptionHandler 2 (ge_catchException env) ((exceptionHandler 2 f s)\<lparr>remcomOutBuffer := out\<rparr>) = caught env (s\<lparr>remcomOutBuffer := out\<rparr>)"
  "exceptionHandler 2 (ge_catchException env) ((exceptionHandler 2 f s)\<lparr>g_memory := m, remcomOutBuffer := out\<rparr>) =
     caught env (s\<lparr>g_memory := m, remcomOutBuffer := out\<rparr>)"
  by (simp_all add: exceptionHandler_def caught_def int_set_handler_def)

lemma exceptionHandler_simps [simp]:
  "g_memory (exceptionHandler i f s) = g_memory s" "remcomInBuffer (exceptionHandler i f s) = remcomInBuffer s"
  "remcomOutBuffer (exceptionHandler i f s) = remcomOutBuffer s"
  by (simp_all add: exceptionHandler_def)

lemma sint_of_nat_small: "n < 2 ^ 31 \<Longrightarrow> nat (sint (of_nat n :: u32)) = n"
  using sint_small [of "of_nat n"] by (simp add: unat_of_nat take_bit_nat_eq_self)

lemma read_memory_reads:
  assumes "digits da" "digits dl" "drop 1 (remcomInBuffer s) = da @ 44 # dl @ 0 # z" "hexnum dl = of_nat (length bs)"
    "bytes_at (g_memory s) (hexnum da) bs" "2 * length bs < BUFMAX" "length (remcomOutBuffer s) = BUFMAX"
  shows "command env sigval 109 1 s =
    Some (caught env (s\<lparr>remcomOutBuffer := hex_text bs @ 0 # drop (2 * length bs + 1) (remcomOutBuffer s)\<rparr>))"
proof -
  have "parse_range (remcomInBuffer s) 1 = Some (Some (hexnum da, hexnum dl, 1 + length da + 1 + length dl))"
    using parse_range_reads [OF assms(1-3)] by simp
  moreover have "nat (sint (hexnum dl)) = length bs"
    using assms(4,6) by (simp add: sint_of_nat_small BUFMAX_def)
  moreover have "mem2hex (g_memory s) (hexnum da) (remcomOutBuffer s) 0 (length bs) =
      Some (Inr (hex_text bs @ 0 # drop (2 * length bs + 1) (remcomOutBuffer s)))"
    using mem2hex_writes [OF assms(5), of 0 "remcomOutBuffer s"] assms(6,7) by simp
  ultimately show ?thesis by (simp add: command_def read_memory_def Let_def caught_again)
qed

lemma write_memory_writes:
  assumes "digits da" "digits dl" "drop 1 (remcomInBuffer s) = da @ 44 # dl @ 58 # hex_text bs @ z"
    "hexnum dl = of_nat (length bs)" "length bs < 2 ^ 31" "mapped (g_memory s) (hexnum da) (length bs)"
    "remcomOutBuffer s = a # b # c # out"
  shows "command env sigval 77 1 s =
    Some (caught env (s\<lparr>g_memory := store_bytes (g_memory s) (hexnum da) bs, remcomOutBuffer := 79 # 75 # 0 # out\<rparr>))"
proof -
  let ?p = "1 + length da + 1 + length dl"
  have range: "parse_range (remcomInBuffer s) 1 = Some (Some (hexnum da, hexnum dl, ?p))"
    using parse_range_reads [OF assms(1-3)] hex_separators by simp
  have "drop (1 + length da + 1) (remcomInBuffer s) = dl @ 58 # hex_text bs @ z"
    using drop_Cons_at(3) [OF drop_append_at [OF assms(3)]] by simp
  note colon = drop_Cons_at [OF drop_append_at [OF this]]
  have "nat (sint (hexnum dl)) = length bs" using assms(4,5) by (simp add: sint_of_nat_small)
  with hex2mem_stores [OF assms(6), of "Suc ?p" "remcomInBuffer s" z] colon range
  have "hex2mem (remcomInBuffer s) (?p + 1) (hexnum da) (nat (sint (hexnum dl))) (g_memory s) =
      Some (Inr (store_bytes (g_memory s) (hexnum da) bs))" by simp
  moreover have "rd (remcomInBuffer s) ?p = Some 58" using colon(1,2) by (simp add: rd_def)
  ultimately show ?thesis using range assms(7)
    by (simp add: command_def write_memory_def Let_def caught_again reply_def text_of_def of_char_def)
qed

section \<open>The protocol\<close>

lemma putpacket_resends:
  assumes "serial_port r inc snt" "0 \<notin> set p" "inc d = naks @ 43 # rest" "43 \<notin> set naks"
  shows "\<exists>d'. putpacket r (p @ 0 # z) d = Some d' \<and> inc d' = rest \<and>
    snt d' = snt d @ concat (replicate (Suc (length naks)) (frame_of p))"
  using assms(3,4)
proof (induction naks arbitrary: d)
  case Nil
  then show ?case using putpacket_sends [OF assms(1,2)] by simp
next
  case (Cons c naks)
  note put = serial_put [OF assms(1)]
  from send_payload_sends [OF assms(1,2), of z 0 "debug_put_byte r 36 d"] obtain d1 where
    d1: "send_payload r (p @ 0 # z) 0 (debug_put_byte r 36 d) = Some (sum_list p, d1)" "inc d1 = inc d" "snt d1 = snt d @ 36 # p"
    by (auto simp: put)
  let ?d2 = "debug_put_byte r (hexchars ! unat (sum_list p mod 16)) (debug_put_byte r (hexchars ! unat (drop_bit 4 (sum_list p)))
    (debug_put_byte r 35 d1))"
  obtain d3 where d3: "debug_get_byte r ?d2 = (c, d3)" "inc d3 = naks @ 43 # rest" "snt d3 = snt ?d2"
    using serial_get [OF assms(1), of ?d2 c "naks @ 43 # rest"] d1(2) Cons.prems(1) by (auto simp: put)
  have "putpacket r (p @ 0 # z) d = putpacket r (p @ 0 # z) d3"
    using d1(1) d3(1) Cons.prems(2) by (subst putpacket.simps) (simp add: Let_def)
  moreover have "snt d3 = snt d @ frame_of p" using d1(3) d3(3) by (simp add: put frame_of_def)
  ultimately show ?case using Cons.IH [OF d3(2)] Cons.prems(2) by simp
qed

text \<open>
  C13. Packets of the debugger: over a serial line \<^verbatim>\<open>putpacket\<close> sends its text in a frame with a checksum,
  again for every answer that is no acknowledgement, and returns after the acknowledgement; \<^verbatim>\<open>getpacket\<close>, when
  such a frame comes in after noise that contains no dollar sign, acknowledges it and has exactly the
  text in its buffer, for every text without the characters of the frame that fits.  The third character
  of the buffer must not be a colon then, which the stub takes for the end of a sequence number: this is the
  text's third character or, for a text of less than two, the one that an earlier packet has left there.
\<close>

theorem packet_roundtrip:
  assumes port: "serial_port (ge_port env) inc snt" and p: "0 \<notin> set p" "35 \<notin> set p" "36 \<notin> set p" "length p < BUFMAX - 1"
    and answers: "inc d = naks @ 43 # rest" "43 \<notin> set naks"
    and receiver: "length (remcomInBuffer s) = BUFMAX" "inc (g_dev s) = noise @ frame_of p @ later" "36 \<notin> set noise"
      "(p @ 0 # drop (Suc (length p)) (remcomInBuffer s)) ! 2 \<noteq> 58"
  shows "(\<exists>d'. putpacket (ge_port env) (p @ 0 # z) d = Some d' \<and> inc d' = rest \<and>
      snt d' = snt d @ concat (replicate (Suc (length naks)) (frame_of p))) \<and>
    (\<exists>s'. getpacket env s = Some (0, s') \<and> take (Suc (length p)) (remcomInBuffer s') = p @ [0] \<and>
      inc (g_dev s') = later \<and> snt (g_dev s') = snt (g_dev s) @ [43])"
  using putpacket_resends [OF port p(1) answers] getpacket_reads [OF port receiver(2,3) p(2,3) receiver(1) p(4) refl] receiver(4)
  by (auto simp: Let_def)

text \<open>A line with the bytes to come and the bytes sent.\<close>

definition line_port :: "(bytes \<times> bytes) registers" where
  "line_port = \<lparr>io_load = (\<lambda>i d. case d of ([], out) \<Rightarrow> (0, d) | (c # cs, out) \<Rightarrow> (ucast c, (cs, out))),
     io_store = (\<lambda>i w d. (fst d, snd d @ [ucast w]))\<rparr>"

lemma ucast_u8_u32 [simp]: "(ucast (ucast (c :: u8) :: u32) :: u8) = c"
  by (rule bit_word_eqI) (simp add: bit_unsigned_iff)

lemma line_port_serial: "serial_port line_port fst snd"
  by (auto simp: serial_port_def line_port_def debug_get_byte_def debug_put_byte_def)

definition demo_env :: "(bytes \<times> bytes) gdb_env" where
  "demo_env = \<lparr>ge_port = line_port, ge_catchException = 0x100, ge_debug_level7 = 0x200, ge_handle_buserror = 0x300,
     ge_gdbFrameStack = 0x10000, ge_remcomStack = 0x20000\<rparr>"

definition demo_gdb :: "unit ints \<Rightarrow> bytes \<Rightarrow> (bytes \<times> bytes) gdb" where
  "demo_gdb ints input = gdb_start (input, []) ints (\<lambda>a. Some 0) (\<lambda>f. undefined) 0"

lemma demo_gdb_simps [simp]:
  "g_dev (demo_gdb ints input) = (input, [])" "remcomInBuffer (demo_gdb ints input) = replicate BUFMAX 0"
  "remcomOutBuffer (demo_gdb ints input) = replicate BUFMAX 0" "g_memory (demo_gdb ints input) = (\<lambda>a. Some 0)"
  by (simp_all add: demo_gdb_def gdb_start_def)

theorem packet_roundtrip_witness:
  "(\<exists>d'. putpacket line_port [103, 0] ([45, 43], []) = Some d' \<and> snd d' = frame_of [103] @ frame_of [103]) \<and>
   (\<exists>s'. getpacket demo_env (demo_gdb undefined (frame_of [103])) = Some (0, s') \<and> take 2 (remcomInBuffer s') = [103, 0])"
proof -
  let ?s = "demo_gdb undefined (frame_of [103])"
  have env: "ge_port demo_env = line_port" by (simp add: demo_env_def)
  have buf: "([103] @ 0 # drop (Suc (length [103 :: u8])) (remcomInBuffer ?s)) ! 2 \<noteq> (58 :: u8)" by (simp add: BUFMAX_def)
  have line: "fst ([45, 43], []) = [45] @ 43 # ([] :: bytes)" "fst (g_dev ?s) = [] @ frame_of [103] @ []" by simp_all
  have chars: "0 \<notin> set [103 :: u8]" "35 \<notin> set [103 :: u8]" "36 \<notin> set [103 :: u8]" "43 \<notin> set [45 :: u8]" "36 \<notin> set ([] :: bytes)"
    "length [103 :: u8] < BUFMAX - 1" "length (remcomInBuffer ?s) = BUFMAX" by (simp_all add: BUFMAX_def)
  from packet_roundtrip [OF line_port_serial [folded env] chars(1-3,6) line(1) chars(4,7) line(2) chars(5) buf, of "[]"]
  show ?thesis unfolding env numeral_2_eq_2 by auto
qed

text \<open>
  Noise with a dollar sign can lose the frame that follows: after \<^verbatim>\<open>$#\<close> the next two characters are taken for
  the checksum, the dollar sign of the frame among them.  The frame is answered by a minus sign and the one after
  it is received.
\<close>

lemma packet_lost_after_dollar:
  "\<exists>s'. getpacket demo_env (demo_gdb ints ([36, 35] @ frame_of [103] @ frame_of [115])) = Some (0, s') \<and>
     take 2 (remcomInBuffer s') = [115, 0] \<and> snd (g_dev s') = [45, 43]"
proof -
  let ?s = "demo_gdb ints ([36, 35] @ frame_of [103] @ frame_of [115])"
  have env: "ge_port demo_env = line_port" by (simp add: demo_env_def)
  have BUFMAX_pos: "0 < BUFMAX" by (simp add: BUFMAX_def)
  have get: "debug_get_byte line_port (c # cs, out) = (c, (cs, out))" for c cs out
    by (simp add: line_port_def debug_get_byte_def)
  have put: "put_bytes demo_env [45] s = s\<lparr>g_dev := (fst (g_dev s), snd (g_dev s) @ [45])\<rparr>" for s
    by (simp add: put_bytes_def env line_port_def debug_put_byte_def)
  have f: "frame_of [103] = [36, 103, 35, 54, 55]"
    by (simp add: frame_of_def hex_text_def hexchars_def of_char_def)
  have start: "wait_start line_port (36 # cs, out) = Some (cs, out)" for cs out
    by (subst wait_start.simps) (simp add: get)
  have empty: "read_packet line_port 36 0 0 b (35 # cs, out) = Some (35, 0, 0, b, (cs, out))" for b cs out
    by (subst read_packet.simps) (simp add: get BUFMAX_def)
  let ?s1 = "?s\<lparr>remcomInBuffer := replicate BUFMAX 0, g_dev := ([35, 54, 55] @ frame_of [115], [45])\<rparr>"
  have q: "\<not> remote_debug (demo_gdb ints i)" for i by (simp add: demo_gdb_def gdb_start_def)
  have ck: "hex_byte 36 103 \<noteq> 0" by (simp add: hex_byte_def hex_def push_bit_eq_mult)
  have same: "(replicate BUFMAX 0)[0 := 0] = (replicate BUFMAX 0 :: bytes)" by (simp add: BUFMAX_def list_update_same_conv)
  have "getpacket demo_env ?s = getpacket demo_env ?s1"
    by (subst getpacket.simps)
      (simp add: env f start empty get put check_packet_def ck wr_def dbg_printf_def q same Let_def BUFMAX_pos)
  moreover have "serial_port (ge_port demo_env) fst snd" by (simp add: env line_port_serial)
  from getpacket_reads [OF this, of ?s1 "[35, 54, 55]" "[115]" "[]" "[115] @ 0 # drop 2 (remcomInBuffer ?s1)"]
  have "\<exists>s'. getpacket demo_env ?s1 = Some (0, s') \<and> take 2 (remcomInBuffer s') = [115, 0] \<and> snd (g_dev s') = [45, 43]"
    by (auto simp: BUFMAX_def)
  ultimately show ?thesis by simp
qed

lemma nth_two_separator:
  assumes "digits da" "buf = c # da @ 44 # xs"
  shows "buf ! 2 \<noteq> 58"
proof -
  obtain x ds where da: "da = x # ds" using assms(1) by (cases da) (auto simp: digits_def)
  show ?thesis
  proof (cases ds)
    case (Cons y es)
    then have "y \<noteq> 58" using digits_chars [OF assms(1), of y] da by auto
    then show ?thesis using Cons da assms(2) by simp
  qed (use da assms(2) in simp)
qed

lemma three_elements: "3 \<le> length xs \<Longrightarrow> \<exists>a b c ys. xs = a # b # c # ys \<and> length ys = length xs - 3"
  by (cases xs; cases "tl xs"; cases "tl (tl xs)") auto

text \<open>The two packets.\<close>

definition poke_packet :: "bytes \<Rightarrow> bytes \<Rightarrow> bytes \<Rightarrow> bytes" where
  "poke_packet da dl bs = 77 # da @ 44 # dl @ 58 # hex_text bs"

definition peek_packet :: "bytes \<Rightarrow> bytes \<Rightarrow> bytes" where
  "peek_packet da dl = 109 # da @ 44 # dl"

lemma serve_poke:
  assumes port: "serial_port (ge_port env) inc snt" and inc: "inc (g_dev s) = frame_of (poke_packet da dl bs) @ 43 # rest"
    and num: "digits da" "digits dl" "hexnum dl = of_nat (length bs)"
    and size: "length (poke_packet da dl bs) < BUFMAX - 1" and mem: "mapped (g_memory s) (hexnum da) (length bs)"
    and bufs: "length (remcomInBuffer s) = BUFMAX" "length (remcomOutBuffer s) = BUFMAX"
  shows "\<exists>s'. serve_packet env sigval s = Some (Inr (sigval, s')) \<and> inc (g_dev s') = rest \<and>
    snt (g_dev s') = snt (g_dev s) @ [43] @ frame_of [79, 75] \<and> g_memory s' = store_bytes (g_memory s) (hexnum da) bs \<and>
    g_registers s' = g_registers s \<and> length (remcomInBuffer s') = BUFMAX \<and> length (remcomOutBuffer s') = BUFMAX"
proof -
  let ?p = "poke_packet da dl bs"
  let ?buf = "?p @ 0 # drop (Suc (length ?p)) (remcomInBuffer s)"
  let ?out = "(remcomOutBuffer s)[0 := 0]"
  have p: "35 \<notin> set ?p" "36 \<notin> set ?p" "?p \<noteq> []" "hd ?p \<noteq> 115" "hd ?p \<noteq> 99"
    using digits_chars [OF num(1)] digits_chars [OF num(2)] hex_text_chars [of _ bs] by (auto simp: poke_packet_def)
  have two: "?buf ! 2 \<noteq> 58" by (rule nth_two_separator [OF num(1)]) (simp add: poke_packet_def)
  obtain a b c out where out: "?out = a # b # c # out" "length out = BUFMAX - 3"
    using three_elements [of ?out] bufs(2) by (auto simp: BUFMAX_def)
  have n: "length bs < 2 ^ 31" using size by (simp add: poke_packet_def BUFMAX_def)
  let ?s = "\<lambda>d. s\<lparr>remcomOutBuffer := ?out, remcomInBuffer := ?buf, g_dev := d\<rparr>"
  let ?f = "caught env (s\<lparr>remcomOutBuffer := 79 # 75 # 0 # out, remcomInBuffer := ?buf, g_memory := store_bytes (g_memory s) (hexnum da) bs\<rparr>)"
  have run: "command env sigval (hd ?p) 1 (?s d) = Some (?f\<lparr>g_dev := d\<rparr>)" for d
    using write_memory_writes [OF num(1,2) _ num(3) n, of "?s d" _ a b c out env sigval] mem out(1)
    by (simp add: poke_packet_def caught_def exceptionHandler_def)
  from serve_packet_answers [OF port inc p(1,2) size p(3-5) bufs refl two run, of "[79, 75]" out] obtain d where
    "serve_packet env sigval s = Some (Inr (sigval, ?f\<lparr>g_dev := d\<rparr>))" "inc d = rest" "snt d = snt (g_dev s) @ [43] @ frame_of [79, 75]"
    by auto
  moreover have "length ?buf = BUFMAX" using size bufs(1) by (simp add: BUFMAX_def)
  ultimately show ?thesis using out(2) by (intro exI [of _ "?f\<lparr>g_dev := d\<rparr>"]) (simp add: BUFMAX_def)
qed

lemma serve_peek:
  assumes port: "serial_port (ge_port env) inc snt" and inc: "inc (g_dev s) = frame_of (peek_packet da dl) @ 43 # rest"
    and num: "digits da" "digits dl" "hexnum dl = of_nat (length bs)"
    and size: "length (peek_packet da dl) < BUFMAX - 1" "2 * length bs < BUFMAX" and mem: "bytes_at (g_memory s) (hexnum da) bs"
    and bufs: "length (remcomInBuffer s) = BUFMAX" "length (remcomOutBuffer s) = BUFMAX"
  shows "\<exists>s'. serve_packet env sigval s = Some (Inr (sigval, s')) \<and> inc (g_dev s') = rest \<and>
    snt (g_dev s') = snt (g_dev s) @ [43] @ frame_of (hex_text bs) \<and> g_memory s' = g_memory s \<and>
    g_registers s' = g_registers s \<and> length (remcomInBuffer s') = BUFMAX \<and> length (remcomOutBuffer s') = BUFMAX"
proof -
  let ?p = "peek_packet da dl"
  let ?buf = "?p @ 0 # drop (Suc (length ?p)) (remcomInBuffer s)"
  let ?out = "(remcomOutBuffer s)[0 := 0]" and ?z = "drop (2 * length bs + 1) ((remcomOutBuffer s)[0 := 0])"
  have p: "35 \<notin> set ?p" "36 \<notin> set ?p" "?p \<noteq> []" "hd ?p \<noteq> 115" "hd ?p \<noteq> 99"
    using digits_chars [OF num(1)] digits_chars [OF num(2)] by (auto simp: peek_packet_def)
  have two: "?buf ! 2 \<noteq> 58" by (rule nth_two_separator [OF num(1)]) (simp add: peek_packet_def)
  let ?s = "\<lambda>d. s\<lparr>remcomOutBuffer := ?out, remcomInBuffer := ?buf, g_dev := d\<rparr>"
  let ?f = "caught env (s\<lparr>remcomOutBuffer := hex_text bs @ 0 # ?z, remcomInBuffer := ?buf\<rparr>)"
  have run: "command env sigval (hd ?p) 1 (?s d) = Some (?f\<lparr>g_dev := d\<rparr>)" for d
    using read_memory_reads [OF num(1,2) _ num(3), of "?s d"] mem size(2) bufs(2)
    by (simp add: peek_packet_def caught_def exceptionHandler_def)
  have q: "0 \<notin> set (hex_text bs)" using hex_text_chars [of 0 bs] by auto
  from serve_packet_answers [OF port inc p(1,2) size(1) p(3-5) bufs refl two run _ q, of ?z] obtain d where
    "serve_packet env sigval s = Some (Inr (sigval, ?f\<lparr>g_dev := d\<rparr>))" "inc d = rest" "snt d = snt (g_dev s) @ [43] @ frame_of (hex_text bs)"
    by auto
  moreover have "length ?buf = BUFMAX" "length (hex_text bs @ 0 # ?z) = BUFMAX" using size bufs by (simp_all add: BUFMAX_def)
  ultimately show ?thesis by (intro exI [of _ "?f\<lparr>g_dev := d\<rparr>"]) simp
qed

text \<open>
  C14. Memory through the debugger: a session that is asked to write bytes to mapped memory and then to
  read them answers \<^verbatim>\<open>OK\<close> and the same bytes, each answer acknowledged and framed; between the two rounds
  exactly these bytes of memory have changed, and no register has.
\<close>

theorem debugger_pokes_and_peeks:
  assumes port: "serial_port (ge_port env) inc snt"
    and inc: "inc (g_dev s) = frame_of (poke_packet da dl bs) @ 43 # frame_of (peek_packet da dl) @ 43 # rest"
    and num: "digits da" "digits dl" "hexnum dl = of_nat (length bs)"
    and size: "length (poke_packet da dl bs) < BUFMAX - 1" and mem: "mapped (g_memory s) (hexnum da) (length bs)"
    and bufs: "length (remcomInBuffer s) = BUFMAX" "length (remcomOutBuffer s) = BUFMAX"
  shows "\<exists>s1 s2. serve_packet env sigval s = Some (Inr (sigval, s1)) \<and> serve_packet env sigval s1 = Some (Inr (sigval, s2)) \<and>
    snt (g_dev s2) = snt (g_dev s) @ [43] @ frame_of [79, 75] @ [43] @ frame_of (hex_text bs) \<and> inc (g_dev s2) = rest \<and>
    g_memory s2 = store_bytes (g_memory s) (hexnum da) bs \<and> g_registers s2 = g_registers s"
proof -
  from serve_poke [OF port _ num size mem bufs, of "frame_of (peek_packet da dl) @ 43 # rest" sigval] inc obtain s1 where
    s1: "serve_packet env sigval s = Some (Inr (sigval, s1))" "inc (g_dev s1) = frame_of (peek_packet da dl) @ 43 # rest"
      "snt (g_dev s1) = snt (g_dev s) @ [43] @ frame_of [79, 75]" "g_memory s1 = store_bytes (g_memory s) (hexnum da) bs"
      "g_registers s1 = g_registers s" "length (remcomInBuffer s1) = BUFMAX" "length (remcomOutBuffer s1) = BUFMAX" by auto
  have "length bs < 2 ^ 32" "2 * length bs < BUFMAX" "length (peek_packet da dl) < BUFMAX - 1"
    using size by (simp_all add: poke_packet_def peek_packet_def BUFMAX_def)
  moreover from this have "bytes_at (g_memory s1) (hexnum da) bs" unfolding s1(4) by (intro store_bytes_at)
  ultimately obtain s2 where
    "serve_packet env sigval s1 = Some (Inr (sigval, s2))" "inc (g_dev s2) = rest"
      "snt (g_dev s2) = snt (g_dev s1) @ [43] @ frame_of (hex_text bs)" "g_memory s2 = g_memory s1" "g_registers s2 = g_registers s1"
    using serve_peek [OF port s1(2) num, of sigval] s1(6,7) by blast
  with s1 show ?thesis by auto
qed

theorem debugger_pokes_and_peeks_witness:
  "\<exists>s1 s2. serve_packet demo_env 5 (demo_gdb undefined (frame_of (poke_packet [52, 48] [50] [0xCA, 0xFE]) @ 43 # frame_of (peek_packet [52, 48] [50]) @ [43])) =
       Some (Inr (5, s1)) \<and> serve_packet demo_env 5 s1 = Some (Inr (5, s2)) \<and> g_memory s2 0x41 = Some 0xFE \<and>
     snd (g_dev s2) = 43 # frame_of [79, 75] @ 43 # frame_of [99, 97, 102, 101]"
proof -
  let ?s = "demo_gdb undefined (frame_of (poke_packet [52, 48] [50] [0xCA, 0xFE]) @ 43 # frame_of (peek_packet [52, 48] [50]) @ [43])"
  have port: "serial_port (ge_port demo_env) fst snd" by (simp add: demo_env_def line_port_serial)
  have num: "digits [52, 48]" "digits [50]" "hexnum [50] = of_nat (length [0xCA, 0xFE :: u8])" "hexnum [52, 48] = 0x40"
    by (simp_all add: digits_def hex_def hexnum_def)
  have shown: "hex_text [0xCA, 0xFE] = [99, 97, 102, 101]" by (simp add: hexchars_def of_char_def drop_bit_eq_div)
  have "mapped (g_memory ?s) (hexnum [52, 48]) (length [0xCA, 0xFE :: u8])" by (simp add: num(4))
  moreover have "fst (g_dev ?s) = frame_of (poke_packet [52, 48] [50] [0xCA, 0xFE]) @ 43 # frame_of (peek_packet [52, 48] [50]) @ 43 # []" by simp
  moreover have "length (poke_packet [52, 48] [50] [0xCA, 0xFE]) < BUFMAX - 1" by (simp add: poke_packet_def BUFMAX_def)
  ultimately obtain s1 s2 where "serve_packet demo_env 5 ?s = Some (Inr (5, s1))" "serve_packet demo_env 5 s1 = Some (Inr (5, s2))"
    "snd (g_dev s2) = snd (g_dev ?s) @ [43] @ frame_of [79, 75] @ [43] @ frame_of (hex_text [0xCA, 0xFE])"
    "g_memory s2 = store_bytes (g_memory ?s) (hexnum [52, 48]) [0xCA, 0xFE]"
    using debugger_pokes_and_peeks [OF port, of ?s "[52, 48]" "[50]" "[0xCA, 0xFE]" "[]" 5] num by auto
  then show ?thesis unfolding shown num(4) by (intro exI [of _ s1] exI [of _ s2]) simp
qed

text \<open>
  The command \<^verbatim>\<open>m\<close> does not compare the length it is asked for with the size of its buffer: a request
  for two hundred bytes or more of mapped memory writes over the end of \<^verbatim>\<open>remcomOutBuffer\<close>.
\<close>

lemma debugger_peek_overruns:
  assumes "digits da" "digits dl" "drop 1 (remcomInBuffer s) = da @ 44 # dl @ 0 # z" "200 \<le> sint (hexnum dl)"
    "mapped (g_memory s) (hexnum da) (nat (sint (hexnum dl)))" "length (remcomOutBuffer s) = BUFMAX"
  shows "command env sigval 109 1 s = None"
proof -
  have "parse_range (remcomInBuffer s) 1 = Some (Some (hexnum da, hexnum dl, 1 + length da + 1 + length dl))"
    using parse_range_reads [OF assms(1-3)] by simp
  moreover have "mem2hex (g_memory s) (hexnum da) (remcomOutBuffer s) 0 (nat (sint (hexnum dl))) = None"
    using assms(4-6) by (intro mem2hex_overruns) (auto simp: BUFMAX_def)
  ultimately show ?thesis by (simp add: command_def read_memory_def Let_def)
qed

text \<open>
  The test for a sequence number looks at the third character of the buffer even when the packet is
  shorter.  After a packet with a number, a packet of one character is taken for one: the letter is
  answered as if it were a number, and what was left of the older packet is executed.
\<close>

lemma getpacket_stale_number:
  assumes "serial_port (ge_port env) inc snt" "inc (g_dev s) = frame_of [c] @ rest" "c \<notin> {35, 36}"
    "remcomInBuffer s = x # y # 58 # old" "length (remcomInBuffer s) = BUFMAX"
  shows "\<exists>d'. getpacket env s = Some (3, s\<lparr>remcomInBuffer := c # 0 # 58 # old, g_dev := d'\<rparr>) \<and>
    snt d' = snt (g_dev s) @ [43, c, 0]"
proof -
  have "inc (g_dev s) = [] @ frame_of [c] @ rest" "36 \<notin> set ([] :: bytes)" "35 \<notin> set [c]" "36 \<notin> set [c]" "length [c] < BUFMAX - 1"
    "c # 0 # 58 # old = [c] @ 0 # drop (Suc (length [c])) (remcomInBuffer s)"
    using assms by (auto simp: BUFMAX_def)
  from getpacket_reads [OF assms(1) this(1-4) assms(5) this(5,6)] show ?thesis by auto
qed

section \<open>Leaving the debugger\<close>

lemma upt_4: "[0..<4] = [0, 1, 2, 3 :: nat]"
  by (simp add: upt_rec)

lemma length_reg_set [simp]: "length (g_registers (reg_set i v s)) = length (g_registers s)"
  by (simp add: reg_set_def upt_4)

lemma reg_set_simps [simp]:
  "g_dev (reg_set i v s) = g_dev s" "g_memory (reg_set i v s) = g_memory s" "lastFrame (reg_set i v s) = lastFrame s"
  "remote_debug (reg_set i v s) = remote_debug s" "remcomInBuffer (reg_set i v s) = remcomInBuffer s"
  "remcomOutBuffer (reg_set i v s) = remcomOutBuffer s" "frame_stack (reg_set i v s) = frame_stack s"
  by (simp_all add: reg_set_def)

lemma be_bytes:
  "push_bit 8 (push_bit 8 (push_bit 8 (ucast (ucast (drop_bit 24 v) :: u8)) OR ucast (ucast (drop_bit 16 v) :: u8)) OR
     ucast (ucast (drop_bit 8 v) :: u8)) OR ucast (ucast v :: u8) = (v :: u32)" (is "?w = v")
proof (rule bit_word_eqI)
  fix n assume "n < LENGTH(32)"
  then have "n < 8 \<or> (8 \<le> n \<and> n < 16) \<or> (16 \<le> n \<and> n < 24) \<or> (24 \<le> n \<and> n < 32)" by auto
  then show "bit ?w n = bit v n"
    by (elim disjE) (auto simp: bit_or_iff bit_push_bit_iff bit_unsigned_iff bit_drop_bit_eq)
qed

lemma reg_get_set:
  assumes "4 * i + 3 < length (g_registers s)" "4 * j + 3 < length (g_registers s)"
  shows "reg_get j (reg_set i v s) = (if j = i then v else reg_get j s)"
proof (cases "j = i")
  case True
  then show ?thesis using assms be_bytes [of v]
    by (simp add: reg_get_def reg_set_def upt_4 nth_list_update)
next
  case False
  then have "4 * j + k \<noteq> 4 * i + l" if "k < 4" "l < 4" for k l using that by arith
  from this [of 0 0] this [of 0 1] this [of 0 2] this [of 0 3] this [of 1 0] this [of 1 1] this [of 1 2] this [of 1 3]
    this [of 2 0] this [of 2 1] this [of 2 2] this [of 2 3] this [of 3 0] this [of 3 1] this [of 3 2] this [of 3 3]
  show ?thesis using False assms by (simp add: reg_get_def reg_set_def upt_4 nth_list_update)
qed

lemma dbg_printf_off: "\<not> remote_debug s \<Longrightarrow> dbg_printf format va s = Some s"
  by (simp add: dbg_printf_def)

text \<open>The state in which the stub hands over to the assembly.\<close>

definition handed_over :: "bool \<Rightarrow> 'd gdb \<Rightarrow> 'd gdb" where
  "handed_over stepping s =
     (let s = reg_set PS ((reg_get PS s AND 0x7FFF) OR (if stepping then 0x8000 else 0)) s
      in s\<lparr>frame_stack := (frame_stack s)(lastFrame s := (frame_stack s (lastFrame s))
             \<lparr>fr_sr := ucast (reg_get PS s), fr_pc := reg_get PC s\<rparr>)\<rparr>)"

lemma resume_breakpoint:
  assumes "\<not> remote_debug s" "length (g_registers s) = NUMREGBYTES" "drop p (remcomInBuffer s) = 0 # z"
    "lastFrame s \<noteq> 0" "in_frame_stack env (lastFrame s)" "fr_exceptionPC (frame_stack s (lastFrame s)) = reg_get PC s"
  shows "resume_at env stepping p s =
    Some (lastFrame s, reg_set PS ((reg_get PS s AND 0x7FFF) OR (if stepping then 0x8000 else 0)) s)"
proof -
  have r: "reg_get PS (reg_set PS v s) = v" "reg_get PC (reg_set PS v s) = reg_get PC s" for v
    using assms(2) by (simp_all add: reg_get_set PS_def PC_def NUMREGBYTES_def)
  have set_twice: "reg_set PS w (reg_set PS v s) = reg_set PS w s" for v w
    using assms(2) by (simp add: reg_set_def upt_4 PS_def list_update_swap)
  have "hexToInt (remcomInBuffer s) p = Some (0, 0, p)" using assms(3) by (simp add: hexToInt_def)
  then show ?thesis using assms(1,4-6)
    by (simp add: resume_at_def Let_def dbg_printf_off r set_twice find_frame.simps frame_get_def frame_message_def)
qed

lemma reg_get_cong [simp]:
  "reg_get i (s\<lparr>g_dev := d\<rparr>) = reg_get i s" "reg_get i (s\<lparr>remcomInBuffer := b\<rparr>) = reg_get i s"
  "reg_get i (s\<lparr>remcomOutBuffer := b\<rparr>) = reg_get i s" "reg_get i (s\<lparr>frame_stack := fs\<rparr>) = reg_get i s"
  "reg_get i (s\<lparr>lastFrame := f\<rparr>) = reg_get i s"
  by (simp_all add: reg_get_def)

lemma reg_set_cong [simp]:
  "reg_set i v (s\<lparr>g_dev := d\<rparr>) = (reg_set i v s)\<lparr>g_dev := d\<rparr>"
  "reg_set i v (s\<lparr>remcomInBuffer := b\<rparr>) = (reg_set i v s)\<lparr>remcomInBuffer := b\<rparr>"
  "reg_set i v (s\<lparr>remcomOutBuffer := b\<rparr>) = (reg_set i v s)\<lparr>remcomOutBuffer := b\<rparr>"
  by (simp_all add: reg_set_def)

lemma serve_packet_resumes:
  assumes port: "serial_port (ge_port env) inc snt" and inc: "inc (g_dev s) = frame_of [c] @ rest" "c \<in> {99, 115}"
    and bufs: "length (remcomInBuffer s) = BUFMAX" "length (remcomOutBuffer s) = BUFMAX" "remcomInBuffer s ! 2 \<noteq> 58"
    and quiet: "\<not> remote_debug s" "length (g_registers s) = NUMREGBYTES"
    and frame: "lastFrame s \<noteq> 0" "in_frame_stack env (lastFrame s)" "fr_exceptionPC (frame_stack s (lastFrame s)) = reg_get PC s"
      "fr_exceptionVector (frame_stack s (lastFrame s)) = 33"
  shows "\<exists>d b b'. serve_packet env sigval s =
      Some (Inl (reg_get PS s AND 0x2000 \<noteq> 0, handed_over (c = 115) (s\<lparr>remcomOutBuffer := b, remcomInBuffer := b', g_dev := d\<rparr>))) \<and>
    inc d = rest \<and> snt d = snt (g_dev s) @ [43]"
proof -
  let ?out = "(remcomOutBuffer s)[0 := 0]" and ?buf = "[c] @ 0 # drop (Suc (length [c])) (remcomInBuffer s)"
  let ?s = "s\<lparr>remcomOutBuffer := ?out\<rparr>"
  obtain x y z' zs where old: "remcomInBuffer s = x # y # z' # zs"
    using three_elements [of "remcomInBuffer s"] bufs(1) by (auto simp: BUFMAX_def)
  have "inc (g_dev ?s) = [] @ frame_of [c] @ rest" "36 \<notin> set ([] :: bytes)" "35 \<notin> set [c]" "36 \<notin> set [c]"
    "length (remcomInBuffer ?s) = BUFMAX" "length [c] < BUFMAX - 1" "?buf = [c] @ 0 # drop (Suc (length [c])) (remcomInBuffer ?s)"
    using inc bufs by (auto simp: BUFMAX_def)
  from getpacket_reads [OF port this] obtain d where
    d: "getpacket env ?s = Some (0, ?s\<lparr>remcomInBuffer := ?buf, g_dev := d\<rparr>)" "inc d = rest" "snt d = snt (g_dev s) @ [43]"
    using bufs(3) old by (auto simp: BUFMAX_def)
  let ?t = "?s\<lparr>remcomInBuffer := ?buf, g_dev := d\<rparr>" and ?w = "(reg_get PS s AND 0x7FFF) OR (if c = 115 then 0x8000 else 0)"
  have t: "\<not> remote_debug ?t" "length (g_registers ?t) = NUMREGBYTES" "drop 1 (remcomInBuffer ?t) = 0 # z' # zs"
    "lastFrame ?t \<noteq> 0" "in_frame_stack env (lastFrame ?t)" "fr_exceptionPC (frame_stack ?t (lastFrame ?t)) = reg_get PC ?t"
    using quiet frame old by simp_all
  note res = resume_breakpoint [OF t, of "c = 115"]
  have r: "reg_get PS (reg_set PS v ?t) = v" "reg_get PC (reg_set PS v ?t) = reg_get PC ?t" for v
    using quiet(2) by (simp_all add: reg_get_set PS_def PC_def NUMREGBYTES_def)
  have bit13: "?w AND 0x2000 = reg_get PS s AND 0x2000"
    by (simp add: bit.conj_disj_distrib2 and.assoc)
  have "reg_get PS ?t = reg_get PS s" by simp
  then have leave: "returnFromException env (lastFrame ?t) (reg_set PS ?w ?t) = Some (reg_get PS s AND 0x2000 \<noteq> 0, handed_over (c = 115) ?t)"
    using frame(1,2) bit13 r
    by (simp add: returnFromException_def frame_update_def handed_over_def Let_def)
  have "serve_packet env sigval s = Some (Inl (reg_get PS s AND 0x2000 \<noteq> 0, handed_over (c = 115) ?t))"
    using d(1) res leave frame inc(2) bufs(2)
    by (auto simp: serve_packet_def wr_def rd_def BUFMAX_def frame_get_def runs_old_handler_def)
  then show ?thesis using d(2,3) by (intro exI [of _ d] exI [of _ ?out] exI [of _ ?buf]) simp
qed

lemma handle_exception_leaves:
  assumes port: "serial_port (ge_port env) inc snt" and inc: "inc (g_dev s) = 43 # frame_of [c] @ rest" "c \<in> {99, 115}"
    and bufs: "length (remcomInBuffer s) = BUFMAX" "length (remcomOutBuffer s) = BUFMAX" "remcomInBuffer s ! 2 \<noteq> 58"
    and quiet: "\<not> remote_debug s" "length (g_registers s) = NUMREGBYTES"
    and frame: "lastFrame s \<noteq> 0" "in_frame_stack env (lastFrame s)" "fr_exceptionPC (frame_stack s (lastFrame s)) = reg_get PC s"
      "fr_exceptionVector (frame_stack s (lastFrame s)) = 33"
  shows "\<exists>s'. handle_exception env 33 s = Some (reg_get PS s AND 0x2000 \<noteq> 0, s') \<and>
    snt (g_dev s') = snt (g_dev s) @ frame_of [83, 48, 53] @ [43] \<and> inc (g_dev s') = rest \<and> g_memory s' = g_memory s \<and>
    reg_get PC s' = reg_get PC s \<and> reg_get PS s' = (reg_get PS s AND 0x7FFF) OR (if c = 115 then 0x8000 else 0) \<and>
    lastFrame s' = lastFrame s \<and> fr_pc (frame_stack s' (lastFrame s)) = reg_get PC s \<and>
    fr_sr (frame_stack s' (lastFrame s)) = ucast (reg_get PS s')"
proof -
  obtain x y z ws where ws: "remcomOutBuffer s = x # y # z # ws" "length ws = 397"
    using bufs(2) three_elements [of "remcomOutBuffer s"] by (auto simp: BUFMAX_def)
  then obtain w out where out: "remcomOutBuffer s = x # y # z # w # out" "length out = 396" by (cases ws) auto
  have sig: "hexchars ! 0 = 48" "hexchars ! 5 = 53" by (simp_all add: hexchars_def of_char_def)
  let ?out = "[83, 48, 53] @ 0 # out"
  have p: "0 \<notin> set [83, 48, 53 :: u8]" "inc (g_dev s) = 43 # frame_of [c] @ rest" using inc by simp_all
  from putpacket_sends [OF port p(1) p(2), of out] obtain d1 where
    d1: "putpacket (ge_port env) ?out (g_dev s) = Some d1" "inc d1 = frame_of [c] @ rest" "snt d1 = snt (g_dev s) @ frame_of [83, 48, 53]" by blast
  let ?s = "s\<lparr>remcomOutBuffer := ?out, g_dev := d1\<rparr>"
  have an: "announce env 33 s = Some ?s"
    using quiet(1) out d1(1) sig by (simp add: announce_def dbg_printf_off signal_reply_def computeSignal_def wr_def)
  have t: "inc (g_dev ?s) = frame_of [c] @ rest" "length (remcomInBuffer ?s) = BUFMAX" "length (remcomOutBuffer ?s) = BUFMAX"
    "remcomInBuffer ?s ! 2 \<noteq> 58" "\<not> remote_debug ?s" "length (g_registers ?s) = NUMREGBYTES" "lastFrame ?s \<noteq> 0"
    "in_frame_stack env (lastFrame ?s)" "fr_exceptionPC (frame_stack ?s (lastFrame ?s)) = reg_get PC ?s"
    "fr_exceptionVector (frame_stack ?s (lastFrame ?s)) = 33"
    using bufs quiet frame d1(2) out by (simp_all add: BUFMAX_def)
  from serve_packet_resumes [OF port t(1) inc(2) t(2-10), of "computeSignal 33"] obtain d b b' where
    d: "serve_packet env (computeSignal 33) ?s = Some (Inl (reg_get PS ?s AND 0x2000 \<noteq> 0,
         handed_over (c = 115) (?s\<lparr>remcomOutBuffer := b, remcomInBuffer := b', g_dev := d\<rparr>)))" "inc d = rest" "snt d = snt d1 @ [43]" by auto
  let ?u = "?s\<lparr>remcomOutBuffer := b, remcomInBuffer := b', g_dev := d\<rparr>"
  have "handle_exception env 33 s = Some (reg_get PS s AND 0x2000 \<noteq> 0, handed_over (c = 115) ?u)"
    using d(1) by (simp add: handle_exception_def an session.simps)
  moreover have "reg_get PS (reg_set PS v ?u) = v" "reg_get PC (reg_set PS v ?u) = reg_get PC s" for v
    using quiet(2) by (simp_all add: reg_get_set PS_def PC_def NUMREGBYTES_def)
  ultimately show ?thesis using d(2,3) d1(3)
    by (intro exI [of _ "handed_over (c = 115) ?u"]) (simp add: handed_over_def Let_def)
qed

text \<open>
  C15. A breakpoint: the debugger announces the trap, and when it is told to go on, \<^verbatim>\<open>c\<close> or \<^verbatim>\<open>s\<close>, it leaves its
  loop and hands over the frame of the breakpoint with the program counter and the status register of
  the program, in which only the trace bit may have changed: it is set just for \<^verbatim>\<open>s\<close>.
\<close>

theorem debugger_leaves_breakpoint:
  assumes port: "serial_port (ge_port env) inc snt" and inc: "inc (g_dev s) = 43 # frame_of [c] @ rest" "c \<in> {99, 115}"
    and bufs: "length (remcomInBuffer s) = BUFMAX" "length (remcomOutBuffer s) = BUFMAX" "remcomInBuffer s ! 2 \<noteq> 58"
    and quiet: "\<not> remote_debug s" "length (g_registers s) = NUMREGBYTES"
    and frame: "lastFrame s \<noteq> 0" "in_frame_stack env (lastFrame s)" "fr_exceptionPC (frame_stack s (lastFrame s)) = reg_get PC s"
      "fr_exceptionVector (frame_stack s (lastFrame s)) = 33"
  shows "\<exists>s'. handle_exception env 33 s = Some (reg_get PS s AND 0x2000 \<noteq> 0, s') \<and>
    snt (g_dev s') = snt (g_dev s) @ frame_of [83, 48, 53] @ [43] \<and> inc (g_dev s') = rest \<and> g_memory s' = g_memory s \<and>
    reg_get PC s' = reg_get PC s \<and> reg_get PS s' = (reg_get PS s AND 0x7FFF) OR (if c = 115 then 0x8000 else 0) \<and>
    lastFrame s' = lastFrame s \<and> fr_pc (frame_stack s' (lastFrame s)) = reg_get PC s \<and>
    fr_sr (frame_stack s' (lastFrame s)) = ucast (reg_get PS s')"
  by (rule handle_exception_leaves [OF assms])

definition demo_frame :: Frame where
  "demo_frame = \<lparr>fr_previous = 0, fr_exceptionPC = 0, fr_exceptionVector = 33, fr_frameSize = 4, fr_sr = 0, fr_pc = 0,
     fr_format = 0, fr_fsaveHeader = 0\<rparr>"

definition demo_stopped :: "bytes \<Rightarrow> (bytes \<times> bytes) gdb" where
  "demo_stopped input = (demo_gdb undefined input)\<lparr>lastFrame := 0x10100, frame_stack := (\<lambda>_. demo_frame)\<rparr>"

lemma demo_stopped_simps [simp]:
  "g_dev (demo_stopped input) = (input, [])" "remcomInBuffer (demo_stopped input) = replicate BUFMAX 0"
  "remcomOutBuffer (demo_stopped input) = replicate BUFMAX 0" "lastFrame (demo_stopped input) = 0x10100"
  "frame_stack (demo_stopped input) = (\<lambda>_. demo_frame)" "\<not> remote_debug (demo_stopped input)"
  "g_registers (demo_stopped input) = replicate NUMREGBYTES 0"
  by (simp_all add: demo_stopped_def demo_gdb_def gdb_start_def)

lemma demo_stopped_regs: "reg_get PC (demo_stopped input) = 0" "reg_get PS (demo_stopped input) = 0"
  by (simp_all add: reg_get_def upt_4 PC_def PS_def NUMREGBYTES_def)

lemma demo_stopped_frame:
  "lastFrame (demo_stopped input) \<noteq> 0" "in_frame_stack demo_env (lastFrame (demo_stopped input))"
  "fr_exceptionPC (frame_stack (demo_stopped input) (lastFrame (demo_stopped input))) = reg_get PC (demo_stopped input)"
  "fr_exceptionVector (frame_stack (demo_stopped input) (lastFrame (demo_stopped input))) = 33"
  by (simp_all add: in_frame_stack_def demo_env_def demo_frame_def FRAMESIZE_def sizeof_Frame_def demo_stopped_regs)

lemma demo_stopped_sizes:
  "length (remcomInBuffer (demo_stopped input)) = BUFMAX" "length (remcomOutBuffer (demo_stopped input)) = BUFMAX"
  "remcomInBuffer (demo_stopped input) ! 2 \<noteq> 58" "\<not> remote_debug (demo_stopped input)"
  "length (g_registers (demo_stopped input)) = NUMREGBYTES"
  by (simp_all add: BUFMAX_def)

theorem debugger_leaves_breakpoint_witness:
  "\<exists>s'. handle_exception demo_env 33 (demo_stopped (43 # frame_of [115])) = Some (False, s') \<and> reg_get PS s' = 0x8000 \<and>
     snd (g_dev s') = frame_of [83, 48, 53] @ [43] \<and> fr_sr (frame_stack s' 0x10100) = 0x8000"
proof -
  have port: "serial_port (ge_port demo_env) fst snd" by (simp add: demo_env_def line_port_serial)
  have inc: "fst (g_dev (demo_stopped (43 # frame_of [115]))) = 43 # frame_of [115] @ []" "115 \<in> {99, 115 :: u8}" by simp_all
  from debugger_leaves_breakpoint [OF port inc demo_stopped_sizes demo_stopped_frame] show ?thesis
    by (auto simp: demo_stopped_regs)
qed

section \<open>Leaving from anywhere\<close>

text \<open>The sizes of the static arrays.\<close>

definition gdb_sized :: "'d gdb \<Rightarrow> bool" where
  "gdb_sized s \<longleftrightarrow> length (remcomInBuffer s) = BUFMAX \<and> length (remcomOutBuffer s) = BUFMAX \<and> length (g_registers s) = NUMREGBYTES"

lemma gdb_sized_simps [simp]:
  "gdb_sized (s\<lparr>g_dev := d\<rparr>) = gdb_sized s" "gdb_sized (s\<lparr>g_memory := m\<rparr>) = gdb_sized s"
  "gdb_sized (s\<lparr>remote_debug := b\<rparr>) = gdb_sized s" "gdb_sized (s\<lparr>frame_stack := fs\<rparr>) = gdb_sized s"
  "gdb_sized (s\<lparr>lastFrame := f\<rparr>) = gdb_sized s" "gdb_sized (s\<lparr>g_printed := out\<rparr>) = gdb_sized s"
  "gdb_sized (exceptionHandler i h s) = gdb_sized s" "gdb_sized (reg_set j v s) = gdb_sized s" "gdb_sized (put_bytes env cs s) = gdb_sized s"
  by (simp_all add: gdb_sized_def exceptionHandler_def put_bytes_def)

section \<open>The stack of frames\<close>

text \<open>
  The list of frames that starts at \<^verbatim>\<open>lastFrame\<close>: each lies in \<^verbatim>\<open>gdbFrameStack\<close>, wholly below the one it names as the
  previous one, and the last one names itself.  \<open>frame_stack_placed\<close>: the array does not wrap around the
  end of memory, and there is room for three frames below it.
\<close>

fun frames_linked :: "'d gdb_env \<Rightarrow> (u32 \<Rightarrow> Frame) \<Rightarrow> u32 list \<Rightarrow> bool" where
  "frames_linked env st [] \<longleftrightarrow> False"
| "frames_linked env st [f] \<longleftrightarrow> in_frame_stack env f \<and> fr_previous (st f) = f"
| "frames_linked env st (f # g # fs) \<longleftrightarrow> in_frame_stack env f \<and> fr_previous (st f) = g \<and>
     unat f + unat sizeof_Frame \<le> unat g \<and> frames_linked env st (g # fs)"

definition frame_stack_placed :: "'d gdb_env \<Rightarrow> bool" where
  "frame_stack_placed env \<longleftrightarrow> 3 * unat sizeof_Frame \<le> unat (ge_gdbFrameStack env) \<and>
     unat (ge_gdbFrameStack env) + 4 * unat FRAMESIZE \<le> 2 ^ 32"

definition frame_hits :: "u32 \<Rightarrow> Frame \<Rightarrow> bool" where
  "frame_hits pc fr \<longleftrightarrow> fr_exceptionPC fr = pc \<or> fr_exceptionVector fr = 33 \<and> fr_exceptionPC fr = pc + 2"

text \<open>
  The frames after the debugger has resumed at \<open>pc\<close>: from the first one that belongs to \<open>pc\<close> on, or else all
  of them and a new one below, or the topmost one alone when there is no room for three below.
\<close>

definition top_frame :: "'d gdb_env \<Rightarrow> u32" where
  "top_frame env = ge_gdbFrameStack env + 4 * (FRAMESIZE - 1) - sizeof_Frame"

definition frames_left :: "'d gdb_env \<Rightarrow> (u32 \<Rightarrow> Frame) \<Rightarrow> u32 \<Rightarrow> u32 list \<Rightarrow> u32 list" where
  "frames_left env st pc fs =
     (case dropWhile (\<lambda>f. \<not> frame_hits pc (st f)) fs of
        [] \<Rightarrow> if unat (hd fs) < unat (ge_gdbFrameStack env) + 3 * unat sizeof_Frame then [top_frame env]
              else (hd fs - sizeof_Frame) # fs
      | f # gs \<Rightarrow> f # gs)"

lemma frame_sizes: "unat sizeof_Frame = 26" "unat FRAMESIZE = 500" "sizeof_Frame = 26" "FRAMESIZE = 500"
  by (simp_all add: sizeof_Frame_def FRAMESIZE_def)

lemma in_frame_stack_iff:
  assumes "frame_stack_placed env"
  shows "in_frame_stack env f \<longleftrightarrow> unat (ge_gdbFrameStack env) \<le> unat f \<and> unat f \<le> unat (ge_gdbFrameStack env) + 1974"
proof (cases "ge_gdbFrameStack env \<le> f")
  case True
  then have "unat (f - ge_gdbFrameStack env) = unat f - unat (ge_gdbFrameStack env)" by (simp add: unat_sub)
  then show ?thesis using True by (auto simp: in_frame_stack_def frame_sizes word_le_nat_alt)
qed (auto simp: in_frame_stack_def word_le_nat_alt)

lemma in_frame_stack_nonzero: "frame_stack_placed env \<Longrightarrow> in_frame_stack env f \<Longrightarrow> f \<noteq> 0"
  by (auto simp: in_frame_stack_iff frame_stack_placed_def frame_sizes)

lemma frames_linked_in: "frames_linked env st fs \<Longrightarrow> \<forall>f \<in> set fs. in_frame_stack env f"
  by (induction env st fs rule: frames_linked.induct) auto

lemma frames_linked_drop:
  "frames_linked env st fs \<Longrightarrow> dropWhile P fs \<noteq> [] \<Longrightarrow> frames_linked env st (dropWhile P fs)"
  by (induction env st fs rule: frames_linked.induct) auto

lemma frames_linked_cong:
  "\<forall>f \<in> set fs. fr_previous (st' f) = fr_previous (st f) \<Longrightarrow> frames_linked env st' fs = frames_linked env st fs"
  by (induction env st fs rule: frames_linked.induct) auto

text \<open>After the assembly has popped a frame, the list is still linked.\<close>

lemma frames_linked_pop:
  "frames_linked env st (f # fs) \<Longrightarrow> \<exists>gs. frames_linked env st gs \<and> hd gs = fr_previous (st f)"
  by (cases fs) (force intro: exI [of _ "[f]"])+

lemma find_frame_linked:
  "frames_linked env (frame_stack s) fs \<Longrightarrow> frame_stack_placed env \<Longrightarrow> \<not> remote_debug s \<Longrightarrow>
   find_frame env pc (hd fs) s =
     Some (case dropWhile (\<lambda>f. \<not> frame_hits pc (frame_stack s f)) fs of [] \<Rightarrow> 0 | f # gs \<Rightarrow> f, s)"
proof (induction env "frame_stack s" fs rule: frames_linked.induct)
  case (2 env f)
  then show ?case using in_frame_stack_nonzero [of env f]
    by (subst find_frame.simps) (auto simp: frame_get_def frame_message_def dbg_printf_off frame_hits_def)
next
  case (3 env f g fs)
  moreover from 3 have "f \<noteq> g" by (auto simp: frame_sizes)
  ultimately show ?case using in_frame_stack_nonzero [of env f]
    by (subst find_frame.simps) (auto simp: frame_get_def frame_message_def dbg_printf_off frame_hits_def)
qed simp

text \<open>What is left behind when the frame \<open>f\<close> is handed over; a made-up frame gets the shortest format.\<close>

definition dummy_frame :: "Frame \<Rightarrow> Frame" where
  "dummy_frame fr = fr\<lparr>fr_frameSize := 4, fr_format := 0, fr_fsaveHeader := - 1\<rparr>"

definition hand_over :: "u32 \<Rightarrow> Frame \<Rightarrow> 'd gdb \<Rightarrow> 'd gdb" where
  "hand_over f fr s = s\<lparr>lastFrame := f, frame_stack := (frame_stack s)(f := fr\<lparr>fr_sr := ucast (reg_get PS s), fr_pc := reg_get PC s\<rparr>)\<rparr>"

lemma returnFromException_found:
  "in_frame_stack env f \<Longrightarrow> f \<noteq> 0 \<Longrightarrow>
   returnFromException env f s = Some (reg_get PS s AND 0x2000 \<noteq> 0, hand_over f (frame_stack s f) s)"
  by (simp add: returnFromException_def frame_update_def hand_over_def)

lemma returnFromException_last:
  "in_frame_stack env (lastFrame s) \<Longrightarrow>
   returnFromException env 0 s = Some (reg_get PS s AND 0x2000 \<noteq> 0,
     hand_over (lastFrame s) (dummy_frame (frame_stack s (lastFrame s))) s)"
  by (simp add: returnFromException_def frame_update_def hand_over_def dummy_frame_def)

lemma top_frame_in:
  assumes "frame_stack_placed env"
  shows "in_frame_stack env (top_frame env)"
proof -
  have "unat (ge_gdbFrameStack env) + 1970 < 2 ^ 32" using assms by (simp add: frame_stack_placed_def frame_sizes)
  then have "unat (ge_gdbFrameStack env + 1970) = unat (ge_gdbFrameStack env) + 1970"
    by (subst unat_add_lem [THEN iffD1]) simp_all
  then show ?thesis by (simp add: in_frame_stack_iff [OF assms] top_frame_def frame_sizes add.commute)
qed

lemma frame_below:
  assumes "frame_stack_placed env" "in_frame_stack env f"
  shows "unat (f - 78) = unat f - 78" "unat (f - 26) = unat f - 26"
  using assms by (simp_all add: in_frame_stack_iff [OF assms(1)] frame_stack_placed_def frame_sizes unat_sub word_le_nat_alt)

lemma resume_fresh_ok:
  assumes placed: "frame_stack_placed env" and linked: "frames_linked env (frame_stack s) fs" "lastFrame s = hd fs"
    and none: "dropWhile (\<lambda>f. \<not> frame_hits pc (frame_stack s f)) fs = []"
  shows "\<exists>fr. fr_previous fr = (if tl (frames_left env (frame_stack s) pc fs) = [] then hd (frames_left env (frame_stack s) pc fs) else hd fs) \<and>
    resume_fresh env s = Some (reg_get PS s AND 0x2000 \<noteq> 0, hand_over (hd (frames_left env (frame_stack s) pc fs)) fr s)"
proof -
  let ?b = "ge_gdbFrameStack env"
  obtain f gs where fs: "fs = f # gs" using linked(1) by (cases fs) auto
  have f: "in_frame_stack env f" using frames_linked_in [OF linked(1)] fs by simp
  note below = frame_below [OF placed f]
  have guard: "f - 26 - 2 * 26 < ?b \<longleftrightarrow> unat f < unat ?b + 78"
    using below f placed by (simp add: in_frame_stack_iff word_less_nat_alt frame_stack_placed_def frame_sizes) linarith
  show ?thesis
  proof (cases "unat f < unat ?b + 78")
    case True
    then have left: "frames_left env (frame_stack s) pc fs = [top_frame env]" using none fs by (simp add: frames_left_def frame_sizes)
    let ?fr = "dummy_frame ((frame_stack s (top_frame env))\<lparr>fr_previous := top_frame env\<rparr>)"
    show ?thesis unfolding left using True guard fs linked(2) top_frame_in [OF placed]
      by (intro exI [of _ ?fr]) (simp add: resume_fresh_def initializeRemcomErrorFrame_def frame_update_def frame_sizes Let_def
          returnFromException_last hand_over_def dummy_frame_def top_frame_def)
  next
    case False
    then have left: "frames_left env (frame_stack s) pc fs = (f - 26) # fs" using none fs by (simp add: frames_left_def frame_sizes)
    have "in_frame_stack env (f - 26)" using False f below unfolding in_frame_stack_iff [OF placed] by linarith
    then show ?thesis unfolding left using False guard fs linked(2)
      by (intro exI [of _ "dummy_frame ((frame_stack s (f - 26))\<lparr>fr_previous := f\<rparr>)"]) (simp add: resume_fresh_def frame_update_def frame_sizes Let_def returnFromException_last hand_over_def dummy_frame_def)
  qed
qed


definition resume_regs :: "bool \<Rightarrow> bytes \<Rightarrow> 'd gdb \<Rightarrow> 'd gdb" where
  "resume_regs stepping da s =
     (let s = (if da = [] then s else reg_set PC (hexnum da) s)
      in reg_set PS ((reg_get PS s AND 0x7FFF) OR (if stepping then 0x8000 else 0)) s)"

lemma reg_PS_PC:
  assumes "length (g_registers s) = NUMREGBYTES"
  shows "reg_get PS (reg_set PS v s) = v" "reg_get PC (reg_set PS v s) = reg_get PC s"
    "reg_get PC (reg_set PC v s) = v" "reg_get PS (reg_set PC v s) = reg_get PS s"
    "reg_set PS w (reg_set PS v s) = reg_set PS w s"
proof -
  show "reg_get PS (reg_set PS v s) = v" "reg_get PC (reg_set PS v s) = reg_get PC s"
    "reg_get PC (reg_set PC v s) = v" "reg_get PS (reg_set PC v s) = reg_get PS s"
    using assms by (simp_all add: reg_get_set PS_def PC_def NUMREGBYTES_def)
  show "reg_set PS w (reg_set PS v s) = reg_set PS w s"
    using assms by (simp add: reg_set_def upt_4 PS_def list_update_swap)
qed

lemma resume_regs_simps:
  assumes "length (g_registers s) = NUMREGBYTES"
  shows "reg_get PC (resume_regs stepping da (s :: 'd gdb)) = (if da = [] then reg_get PC s else hexnum da)"
    "reg_get PS (resume_regs stepping da s) = (reg_get PS s AND 0x7FFF) OR (if stepping then 0x8000 else 0)"
    "reg_get PS (resume_regs stepping da s) AND 0x2000 = reg_get PS s AND 0x2000"
    "frame_stack (resume_regs stepping da s) = frame_stack s" "lastFrame (resume_regs stepping da s) = lastFrame s"
    "remote_debug (resume_regs stepping da s) = remote_debug s" "g_dev (resume_regs stepping da s) = g_dev s"
    "oldExceptionHook (resume_regs stepping da s) = oldExceptionHook s" "gdb_sized (resume_regs stepping da s) = gdb_sized s"
proof -
  have "oldExceptionHook (reg_set i v s') = oldExceptionHook s'" for i v and s' :: "'d gdb" by (simp add: reg_set_def)
  then show "reg_get PC (resume_regs stepping da s) = (if da = [] then reg_get PC s else hexnum da)"
    "reg_get PS (resume_regs stepping da s) = (reg_get PS s AND 0x7FFF) OR (if stepping then 0x8000 else 0)"
    "reg_get PS (resume_regs stepping da s) AND 0x2000 = reg_get PS s AND 0x2000"
    "frame_stack (resume_regs stepping da s) = frame_stack s" "lastFrame (resume_regs stepping da s) = lastFrame s"
    "remote_debug (resume_regs stepping da s) = remote_debug s" "g_dev (resume_regs stepping da s) = g_dev s"
    "oldExceptionHook (resume_regs stepping da s) = oldExceptionHook s" "gdb_sized (resume_regs stepping da s) = gdb_sized s"
    using assms by (simp_all add: resume_regs_def Let_def reg_PS_PC bit.conj_disj_distrib2 and.assoc)
qed

lemma resume_at_linked:
  assumes "\<not> remote_debug s" "length (g_registers s) = NUMREGBYTES"
    and arg: "da = [] \<or> digits da" "drop p (remcomInBuffer s) = da @ 0 # z"
    and "frame_stack_placed env" "frames_linked env (frame_stack s) fs" "lastFrame s = hd fs"
  shows "resume_at env stepping p s =
    Some (case dropWhile (\<lambda>f. \<not> frame_hits (if da = [] then reg_get PC s else hexnum da) (frame_stack s f)) fs of [] \<Rightarrow> 0 | f # gs \<Rightarrow> f,
      resume_regs stepping da s)"
proof -
  have num: "hexToInt (remcomInBuffer s) p = Some (length da, if da = [] then 0 else hexnum da, p + length da)"
    using arg hexToInt_reads [of da p "remcomInBuffer s" 0 z] by (cases "da = []") (auto simp: hexToInt_def)
  let ?s = "resume_regs stepping da s"
  note r = resume_regs_simps [OF assms(2), of stepping da]
  have "frames_linked env (frame_stack ?s) fs" using assms(6) r by simp
  from find_frame_linked [OF this assms(5)] r assms(1,7)
  have "find_frame env (if da = [] then reg_get PC s else hexnum da) (lastFrame ?s) ?s =
      Some (case dropWhile (\<lambda>f. \<not> frame_hits (if da = [] then reg_get PC s else hexnum da) (frame_stack s f)) fs of [] \<Rightarrow> 0 | f # gs \<Rightarrow> f, ?s)"
    by simp
  moreover have "\<not> remote_debug ?s" using r assms(1) by simp
  ultimately show ?thesis using num assms(1,2)
    by (cases "da = []"; cases stepping) (simp_all add: resume_at_def Let_def dbg_printf_off resume_regs_def reg_PS_PC)
qed

text \<open>Handing over keeps the sizes and the list.\<close>

lemma hand_over_simps [simp]:
  "lastFrame (hand_over f fr s) = f" "reg_get i (hand_over f fr s) = reg_get i s" "g_dev (hand_over f fr s) = g_dev s"
  "gdb_sized (hand_over f fr s) = gdb_sized s"
  "frame_stack (hand_over f fr s) g = (if g = f then fr\<lparr>fr_sr := ucast (reg_get PS s), fr_pc := reg_get PC s\<rparr> else frame_stack s g)"
  by (simp_all add: hand_over_def gdb_sized_def)

lemma hand_over_linked:
  assumes "frames_linked env (frame_stack s) (f # fs)" "fr_previous fr = fr_previous (frame_stack s f)"
  shows "frames_linked env (frame_stack (hand_over f fr s)) (f # fs)"
  using assms by (subst frames_linked_cong [of _ _ "frame_stack s"]) auto

lemma frames_left_linked:
  assumes placed: "frame_stack_placed env" and linked: "frames_linked env (frame_stack s) fs"
    and none: "dropWhile (\<lambda>f. \<not> frame_hits pc (frame_stack s f)) fs = []"
    and fr: "fr_previous fr = (if tl (frames_left env (frame_stack s) pc fs) = [] then hd (frames_left env (frame_stack s) pc fs) else hd fs)"
  shows "frames_linked env (frame_stack (hand_over (hd (frames_left env (frame_stack s) pc fs)) fr s)) (frames_left env (frame_stack s) pc fs)"
proof -
  obtain f gs where fs: "fs = f # gs" using linked by (cases fs) auto
  have ins: "in_frame_stack env f" "\<forall>g \<in> set fs. in_frame_stack env g" using frames_linked_in [OF linked] fs by simp_all
  note below = frame_below [OF placed ins(1)]
  have up: "\<forall>g \<in> set fs. unat f \<le> unat g" using linked unfolding fs
    by (induction env "frame_stack s" "f # gs" arbitrary: f gs rule: frames_linked.induct) (auto simp: frame_sizes)
  show ?thesis
  proof (cases "unat f < unat (ge_gdbFrameStack env) + 78")
    case True
    then have "frames_left env (frame_stack s) pc fs = [top_frame env]" using none fs by (simp add: frames_left_def frame_sizes)
    then show ?thesis using fr top_frame_in [OF placed] by simp
  next
    case False
    then have left: "frames_left env (frame_stack s) pc fs = (f - 26) # fs" using none fs by (simp add: frames_left_def frame_sizes)
    have new: "f - 26 \<notin> set fs"
      using up below(2) False by fastforce
    have "in_frame_stack env (f - 26)" using False ins(1) below unfolding in_frame_stack_iff [OF placed] by linarith
    moreover have "frames_linked env (frame_stack (hand_over (f - 26) fr s)) fs"
      using linked new by (subst frames_linked_cong [of _ _ "frame_stack s"]) auto
    ultimately show ?thesis unfolding left using fr fs below(2) False left by (simp add: frame_sizes)
  qed
qed


lemma after_old_handler_same:
  "reg_get PC s = fr_exceptionPC (frame_stack s f) \<Longrightarrow> in_frame_stack env f \<Longrightarrow> after_old_handler env f s = returnFromException env f s"
  by (simp add: after_old_handler_def frame_get_def)

text \<open>The end of a round for \<^verbatim>\<open>c\<close> and \<^verbatim>\<open>s\<close>, after the packet has been read.\<close>

lemma resume_hands_over:
  fixes t :: "'d gdb" and env :: "'d gdb_env"
  defines "pc \<equiv> reg_get PC t" and "left \<equiv> frames_left env (frame_stack t) (reg_get PC t)"
  assumes placed: "frame_stack_placed env" and linked: "frames_linked env (frame_stack t) fs" "lastFrame t = hd fs"
    and old: "oldExceptionHook t \<noteq> Some RemcomHandler"
    and found: "frame = (case dropWhile (\<lambda>f. \<not> frame_hits pc (frame_stack t f)) fs of [] \<Rightarrow> 0 | f # gs \<Rightarrow> f)"
  shows "\<exists>fr. frames_linked env (frame_stack (hand_over (hd (left fs)) fr t)) (left fs) \<and>
    (if frame = 0 then map_option Inl (resume_fresh env t)
     else do {
       fr \<leftarrow> frame_get env frame t;
       if \<not> runs_old_handler fr then map_option Inl (returnFromException env frame t)
       else if oldExceptionHook t = Some RemcomHandler then do {
         s \<leftarrow> announce env (sint (fr_exceptionVector fr)) t;
         Some (Inr (computeSignal (sint (fr_exceptionVector fr)), s)) }
       else map_option Inl (after_old_handler env frame t) }) =
    Some (Inl (reg_get PS t AND 0x2000 \<noteq> 0, hand_over (hd (left fs)) fr t))"
proof (cases "dropWhile (\<lambda>f. \<not> frame_hits pc (frame_stack t f)) fs")
  case Nil
  from resume_fresh_ok [OF placed linked Nil] obtain fr where
    fr: "fr_previous fr = (if tl (left fs) = [] then hd (left fs) else hd fs)"
      "resume_fresh env t = Some (reg_get PS t AND 0x2000 \<noteq> 0, hand_over (hd (left fs)) fr t)"
    unfolding left_def pc_def by blast
  moreover have "frames_linked env (frame_stack (hand_over (hd (left fs)) fr t)) (left fs)"
    using frames_left_linked [OF placed linked(1) Nil] fr(1) unfolding left_def pc_def by blast
  ultimately show ?thesis using found Nil by auto
next
  case (Cons f gs)
  have l: "left fs = f # gs" using Cons by (simp add: left_def frames_left_def pc_def)
  have link: "frames_linked env (frame_stack t) (f # gs)"
    using frames_linked_drop [OF linked(1), of "\<lambda>f. \<not> frame_hits pc (frame_stack t f)"] Cons by simp
  then have f: "in_frame_stack env f" "f \<noteq> 0" using frames_linked_in [OF link] in_frame_stack_nonzero [OF placed] by auto
  have hit: "frame_hits pc (frame_stack t f)" using Cons by (metis dropWhile_eq_Cons_conv)
  note ret = returnFromException_found [OF f, of t]
  have "after_old_handler env f t = returnFromException env f t" if "runs_old_handler (frame_stack t f)"
    using hit that f(1) by (intro after_old_handler_same) (auto simp: frame_hits_def runs_old_handler_def pc_def)
  moreover have "frames_linked env (frame_stack (hand_over (hd (left fs)) (frame_stack t f) t)) (left fs)"
    using hand_over_linked [OF link] l by simp
  ultimately show ?thesis using found Cons f ret old l
    by (intro exI [of _ "frame_stack t f"]) (simp add: frame_get_def)
qed

lemma serve_packet_resume:
  assumes "wr (remcomOutBuffer s) 0 0 = Some out" "getpacket env (s\<lparr>remcomOutBuffer := out\<rparr>) = Some (p, t)"
    "rd (remcomInBuffer t) p = Some c" "c = 115 \<or> c = 99" "resume_at env (c = 115) (p + 1) t = Some (frame, r)"
    "(if frame = 0 then map_option Inl (resume_fresh env r)
      else do {
        fr \<leftarrow> frame_get env frame r;
        if \<not> runs_old_handler fr then map_option Inl (returnFromException env frame r)
        else if oldExceptionHook r = Some RemcomHandler then do {
          s \<leftarrow> announce env (sint (fr_exceptionVector fr)) r;
          Some (Inr (computeSignal (sint (fr_exceptionVector fr)), s)) }
        else map_option Inl (after_old_handler env frame r) }) = y"
  shows "serve_packet env sigval s = y"
  using assms by (simp add: serve_packet_def)

text \<open>
  C16. The debugger can always be left: whatever frames it has stacked up and wherever the program is told to go
  on, a \<^verbatim>\<open>c\<close> or \<^verbatim>\<open>s\<close> packet, with an address or without, is acknowledged and hands over a frame inside
  \<^verbatim>\<open>gdbFrameStack\<close> that holds the program counter and the status register.  It is the first frame of the list that
  belongs to the program counter; if there is none, a new one below the others, or the topmost one when fewer
  than three would fit.  The frames from it on are linked again, none overlapping another; all other
  frames, and the sizes of the buffers, are as before.
\<close>

theorem debugger_always_resumes:
  fixes s :: "'d gdb" and env :: "'d gdb_env"
  assumes port: "serial_port (ge_port env) inc snt" and inc: "inc (g_dev s) = frame_of (c # da) @ rest" "c \<in> {99, 115}"
    and da: "da = [] \<or> digits da" "length da < BUFMAX - 2"
    and sized: "gdb_sized s" "remcomInBuffer s ! 2 \<noteq> 58" and quiet: "\<not> remote_debug s"
    and placed: "frame_stack_placed env" and linked: "frames_linked env (frame_stack s) fs" "lastFrame s = hd fs"
    and old: "oldExceptionHook s \<noteq> Some RemcomHandler"
  defines "pc \<equiv> if da = [] then reg_get PC s else hexnum da" and "left \<equiv> frames_left env (frame_stack s)"
  shows "\<exists>s'. serve_packet env sigval s = Some (Inl (reg_get PS s AND 0x2000 \<noteq> 0, s')) \<and>
    inc (g_dev s') = rest \<and> snt (g_dev s') = snt (g_dev s) @ [43] \<and> gdb_sized s' \<and>
    frames_linked env (frame_stack s') (left pc fs) \<and> lastFrame s' = hd (left pc fs) \<and>
    (\<forall>f. f \<noteq> lastFrame s' \<longrightarrow> frame_stack s' f = frame_stack s f) \<and>
    reg_get PC s' = pc \<and> reg_get PS s' = (reg_get PS s AND 0x7FFF) OR (if c = 115 then 0x8000 else 0) \<and>
    fr_pc (frame_stack s' (lastFrame s')) = pc \<and> fr_sr (frame_stack s' (lastFrame s')) = ucast (reg_get PS s')"
proof -
  let ?out = "(remcomOutBuffer s)[0 := 0]" and ?p = "c # da"
  let ?buf = "?p @ 0 # drop (Suc (length ?p)) (remcomInBuffer s)"
  let ?s = "s\<lparr>remcomOutBuffer := ?out\<rparr>"
  have bufs: "length (remcomInBuffer s) = BUFMAX" "length (remcomOutBuffer s) = BUFMAX" "length (g_registers s) = NUMREGBYTES"
    using sized(1) by (auto simp: gdb_sized_def)
  have chars: "x \<in> set da \<Longrightarrow> x \<notin> {0, 35, 36, 58}" for x using digits_chars [of da x] da(1) by auto
  have two: "?buf ! 2 \<noteq> 58"
  proof -
    obtain x y z zs where "remcomInBuffer s = x # y # z # zs"
      using three_elements [of "remcomInBuffer s"] bufs(1) by (auto simp: BUFMAX_def)
    moreover have "e \<noteq> 58" if "da = d # e # ds" for d e ds using chars [of e] that by simp
    ultimately show ?thesis using sized(2) by (cases da; cases "tl da") simp_all
  qed
  have "inc (g_dev ?s) = [] @ frame_of ?p @ rest" "36 \<notin> set ([] :: bytes)" "35 \<notin> set ?p" "36 \<notin> set ?p"
    "length (remcomInBuffer ?s) = BUFMAX" "length ?p < BUFMAX - 1" "?buf = ?p @ 0 # drop (Suc (length ?p)) (remcomInBuffer ?s)"
    using inc bufs(1) chars da(2) by (auto simp del: drop_Suc_Cons)
  from getpacket_reads [OF port this] two obtain d where
    d: "getpacket env ?s = Some (0, ?s\<lparr>remcomInBuffer := ?buf, g_dev := d\<rparr>)" "inc d = rest" "snt d = snt (g_dev s) @ [43]" by auto
  let ?t = "?s\<lparr>remcomInBuffer := ?buf, g_dev := d\<rparr>" and ?r = "resume_regs (c = 115) da (?s\<lparr>remcomInBuffer := ?buf, g_dev := d\<rparr>)"
  have t: "\<not> remote_debug ?t" "length (g_registers ?t) = NUMREGBYTES" "drop 1 (remcomInBuffer ?t) = da @ 0 # drop (Suc (length ?p)) (remcomInBuffer s)"
    "frames_linked env (frame_stack ?t) fs" "lastFrame ?t = hd fs" using quiet bufs linked by simp_all
  have "length ?buf = BUFMAX" using bufs(1) da(2) by (simp add: BUFMAX_def)
  then have st: "gdb_sized ?t" using bufs by (simp add: gdb_sized_def)
  note res = resume_at_linked [OF t(1,2) da(1) t(3) placed t(4,5), of "c = 115"]
  note r = resume_regs_simps [OF t(2), of "c = 115" da]
  have pcr: "reg_get PC ?r = pc" using r(1) by (simp add: pc_def)
  have c: "wr (remcomOutBuffer s) 0 0 = Some ?out" "c = 115 \<or> c = 99" "rd (remcomInBuffer ?t) 0 = Some c"
    using inc(2) bufs by (auto simp: wr_def rd_def BUFMAX_def)
  have fsr: "frame_stack ?r = frame_stack s" using r(4) by simp
  have "frames_linked env (frame_stack ?r) fs" "lastFrame ?r = hd fs" "oldExceptionHook ?r \<noteq> Some RemcomHandler"
    using r linked old by simp_all
  note ok = resume_hands_over [OF placed this refl, unfolded pcr fsr, folded left_def]
  have "resume_at env (c = 115) (0 + 1) ?t = Some (case dropWhile (\<lambda>f. \<not> frame_hits pc (frame_stack s f)) fs of [] \<Rightarrow> 0 | f # gs \<Rightarrow> f, ?r)"
    using res by (simp add: pc_def)
  with ok serve_packet_resume [OF c(1) d(1) c(3) c(2)] obtain fr where
    fr: "frames_linked env (frame_stack (hand_over (hd (left pc fs)) fr ?r)) (left pc fs)" and
    go: "serve_packet env sigval s = Some (Inl (reg_get PS ?r AND 0x2000 \<noteq> 0, hand_over (hd (left pc fs)) fr ?r))"
    by blast
  from go r(3) have "serve_packet env sigval s = Some (Inl (reg_get PS s AND 0x2000 \<noteq> 0, hand_over (hd (left pc fs)) fr ?r))" by simp
  then show ?thesis using fr r pcr d(2,3) st
    by (intro exI [of _ "hand_over (hd (left pc fs)) fr ?r"]) simp
qed

definition demo_chain :: "bytes \<Rightarrow> (bytes \<times> bytes) gdb" where
  "demo_chain input = (demo_gdb undefined input)\<lparr>lastFrame := 0x10040,
     frame_stack := (\<lambda>_. demo_frame)(0x10040 := demo_frame\<lparr>fr_previous := 0x107B2\<rparr>, 0x107B2 := demo_frame\<lparr>fr_previous := 0x107B2\<rparr>)\<rparr>"

theorem debugger_always_resumes_witness:
  "\<exists>s'. serve_packet demo_env 5 (demo_chain (frame_of [99, 52, 48])) = Some (Inl (False, s')) \<and>
     lastFrame s' = 0x107B2 \<and> fr_pc (frame_stack s' 0x107B2) = 0x40 \<and> frames_linked demo_env (frame_stack s') [0x107B2]"
proof -
  let ?s = "demo_chain (frame_of [99, 52, 48])"
  have port: "serial_port (ge_port demo_env) fst snd" by (simp add: demo_env_def line_port_serial)
  have inc: "fst (g_dev ?s) = frame_of (99 # [52, 48]) @ []" "99 \<in> {99, 115 :: u8}" by (simp_all add: demo_chain_def)
  have da: "[52, 48] = [] \<or> digits [52, 48]" "length [52, 48 :: u8] < BUFMAX - 2" "hexnum [52, 48] = 0x40"
    by (simp_all add: digits_def hex_def hexnum_def BUFMAX_def)
  have sized: "gdb_sized ?s" "remcomInBuffer ?s ! 2 \<noteq> 58" "\<not> remote_debug ?s" "oldExceptionHook ?s \<noteq> Some RemcomHandler"
    "reg_get PS ?s = 0"
    by (simp_all add: demo_chain_def gdb_sized_def demo_gdb_def gdb_start_def BUFMAX_def NUMREGBYTES_def reg_get_def upt_4 PS_def)
  have placed: "frame_stack_placed demo_env" by (simp add: frame_stack_placed_def demo_env_def frame_sizes)
  have linked: "frames_linked demo_env (frame_stack ?s) [0x10040, 0x107B2]" "lastFrame ?s = hd [0x10040, 0x107B2]"
    by (simp_all add: demo_chain_def in_frame_stack_def demo_env_def FRAMESIZE_def sizeof_Frame_def)
  have left: "frames_left demo_env (frame_stack ?s) 0x40 [0x10040, 0x107B2] = [0x107B2]"
    by (simp add: frames_left_def demo_chain_def frame_hits_def demo_frame_def demo_env_def top_frame_def frame_sizes)
  from debugger_always_resumes [OF port inc da(1,2) sized(1-3) placed linked sized(4), of 5] show ?thesis
    unfolding da(3) by (auto simp: left sized(5))
qed

end
