(* ===== verification/Boot.thy ===== *)
theory Boot
  imports Syscall Romfs Console ConsoleFb Interrupt Gdb
begin

text \<open>
  The start of the kernel: \<^verbatim>\<open>kernel/early.c\<close>, and \<^verbatim>\<open>main\<close>, \<^verbatim>\<open>panic\<close> and \<^verbatim>\<open>isr_vga\<close> of \<^verbatim>\<open>kernel/kernel.c\<close>.

  The state is the machine of the system calls, whose drivers now include the terminal on the frame
  buffer, with the interrupts and the debugger stub.  From \<^verbatim>\<open>early_init\<close> on the terminal is also the console of
  the kernel, so the messages of \<^verbatim>\<open>main\<close> and of the system calls are drawn on it.
\<close>

section \<open>State\<close>

record boot_drivers = drivers +
  drv_console :: "fbcon console"

record 'd boot =
  b_machine :: "boot_drivers machine"
  b_ints :: "unit ints"
  b_gdb :: "'d gdb"

text \<open>
  What the code does not set: the memory of the frame buffer and the font, the addresses of the two
  static devices, of the image of the disk and of the two assembly routines, the tables of the memory
  manager at the start, the contents of fresh memory, and what the trap of a breakpoint does.
\<close>

record 'd boot_env =
  bt_sys :: "boot_drivers syscall_env"
  bt_vga :: bytes
  bt_font :: bytes
  bt_console :: u32
  bt_memblk :: u32
  bt_romfs :: u32
  bt_romfs_size :: u32
  bt_isr_vga :: u32
  bt_process_isr :: u32
  bt_root_td :: "u32 list"
  bt_name1 :: bytes
  bt_name2 :: bytes
  bt_junk :: bytes
  bt_fsname :: bytes
  bt_gdb :: "'d gdb_env"
  bt_trap :: "'d boot \<Rightarrow> 'd boot option"

definition kernel_of :: "'d boot \<Rightarrow> boot_drivers kernel" where
  "kernel_of b = v_kernel (m_vfs (b_machine b))"

definition with_vfs :: "boot_drivers vfs \<Rightarrow> 'd boot \<Rightarrow> 'd boot" where
  "with_vfs v b = b\<lparr>b_machine := (b_machine b)\<lparr>m_vfs := v\<rparr>\<rparr>"

definition with_kernel :: "boot_drivers kernel \<Rightarrow> 'd boot \<Rightarrow> 'd boot" where
  "with_kernel k b = with_vfs ((m_vfs (b_machine b))\<lparr>v_kernel := k\<rparr>) b"

definition boot_procs :: "(procs \<Rightarrow> ('a \<times> procs) option) \<Rightarrow> 'd boot \<Rightarrow> ('a \<times> 'd boot) option" where
  "boot_procs f b = do {
     (x, p) \<leftarrow> f (k_procs (kernel_of b));
     Some (x, with_kernel ((kernel_of b)\<lparr>k_procs := p\<rparr>) b) }"

definition boot_heap :: "(kheap \<Rightarrow> ('a \<times> kheap) option) \<Rightarrow> 'd boot \<Rightarrow> ('a \<times> 'd boot) option" where
  "boot_heap f = boot_procs (\<lambda>p. do {
     (x, h) \<leftarrow> f (kheap_of p);
     Some (x, p\<lparr>kheap_of := h\<rparr>) })"

section \<open>The terminal\<close>

definition write_console :: "bytes \<Rightarrow> boot_drivers \<Rightarrow> (int \<times> boot_drivers) option" where
  "write_console buf w = do {
     (r, con) \<leftarrow> console_write buf (drv_console w);
     Some (r, w\<lparr>drv_console := con\<rparr>) }"

text \<open>The \<^verbatim>\<open>Device\<close> with \<^verbatim>\<open>CharDev console\<close>, which cannot be read; the devices at their addresses.\<close>

definition console_device :: "boot_drivers Device" where
  "console_device = DEVICE_TYPE_CHAR \<lparr>cd_read = None, cd_write = Some write_console\<rparr>"

definition boot_devs :: "'d boot_env \<Rightarrow> u32 \<Rightarrow> boot_drivers Device" where
  "boot_devs env = (\<lambda>_. DEVICE_TYPE_INVALID)(bt_console env := console_device, bt_memblk env := memblk_device)"

text \<open>Bytes for the console of the kernel, and a message of the log.\<close>

definition boot_out :: "bytes \<Rightarrow> 'd boot \<Rightarrow> 'd boot option" where
  "boot_out out b = do {
     m \<leftarrow> put_out out (b_machine b);
     Some (b\<lparr>b_machine := m\<rparr>) }"

definition boot_log :: "LogLevel \<Rightarrow> bytes \<Rightarrow> VaArg list \<Rightarrow> 'd boot \<Rightarrow> 'd boot option" where
  "boot_log level format va b = do {
     (_, out) \<leftarrow> kprintf (m_loglevel (b_machine b)) level format va;
     boot_out out b }"

text \<open>A line of text: the bytes of a format with the line feed and the NUL at its end.\<close>

definition line :: "string \<Rightarrow> bytes" where "line s = map of_char s @ [10, 0]"

text \<open>The memory in use and all of it, in kilobytes.\<close>

definition mmu040_print_status :: "'d boot \<Rightarrow> 'd boot option" where
  "mmu040_print_status b = do {
     (mm, b) \<leftarrow> boot_procs (with_mmu (\<lambda>mm. Some (mm, mm))) b;
     boot_log LOG_LEVEL_INFO (line ''%lu kB of %lu kB RAM used'')
       [Arg32 ((total_frames mm - free_frames mm) * (MMU_PAGE_SIZE div 1024)), Arg32 (total_frames mm * (MMU_PAGE_SIZE div 1024))] b }"

definition early_cmap :: bytes where
  "early_cmap = [0, 4, 2, 6, 1, 4, 3, 7, 0 + 8, 4 + 8, 2 + 8, 6 + 8, 1 + 8, 4 + 8, 3 + 8, 7 + 8]"

text \<open>The result is the address of the device.\<close>

definition early_init :: "'d boot_env \<Rightarrow> 'd boot \<Rightarrow> (u32 \<times> 'd boot) option" where
  "early_init env b = do {
     let w = k_drv (kernel_of b);
     fb \<leftarrow> console_fb_init (bt_vga env) 800 480 (bt_font env) 8 16 (Some early_cmap) (con_screen (drv_console w));
     let w = w\<lparr>drv_console := console_init console_fb ((drv_console w)\<lparr>con_screen := fb\<rparr>)\<rparr>;
     let m = (with_drv w (b_machine b))\<lparr>m_kconsole := kconsole_init write_console\<rparr>;
     Some (bt_console env, b\<lparr>b_machine := m\<rparr>) }"

text \<open>What \<^verbatim>\<open>panic\<close> has done when it enters its endless loop.\<close>

definition panic :: "bytes \<Rightarrow> 'd boot \<Rightarrow> 'd boot option" where
  "panic message b = do {
     let b = b\<lparr>b_ints := (b_ints b)\<lparr>int_enabled := False\<rparr>\<rparr>;
     b \<leftarrow> boot_out (map of_char ''*** KERNEL PANIC: '') b;
     n \<leftarrow> strlen message;
     b \<leftarrow> boot_out (take n message) b;
     boot_out (map of_char '' ***'') b }"

definition CHIPSET_INT_NUM_VGA :: u32 where "CHIPSET_INT_NUM_VGA = 10"

definition isr_vga :: "unit ints \<Rightarrow> unit ints" where
  "isr_vga s = s\<lparr>chipset_io := (chipset_io s)(unat (32 + CHIPSET_INT_NUM_VGA) := 0)\<rparr>"

section \<open>The arguments\<close>

fun print_rest :: "bytes list \<Rightarrow> 'd boot \<Rightarrow> 'd boot option" where
  "print_rest [] b = Some b"
| "print_rest (a # as) b = do {
     b \<leftarrow> boot_log LOG_LEVEL_NONE (cstr '', '') [] b;
     b \<leftarrow> boot_log LOG_LEVEL_NONE (cstr ''%s'') [ArgStr a] b;
     print_rest as b }"

definition print_args :: "bytes list \<Rightarrow> 'd boot \<Rightarrow> 'd boot option" where
  "print_args argv b = do {
     b \<leftarrow> boot_log LOG_LEVEL_NONE (cstr ''argv = { '') [] b;
     b \<leftarrow> (case argv of [] \<Rightarrow> Some b | a # as \<Rightarrow> do {
            b \<leftarrow> boot_log LOG_LEVEL_NONE (cstr ''%s'') [ArgStr a] b;
            print_rest as b });
     boot_log LOG_LEVEL_NONE (map of_char '' }'' @ [10, 0]) [] b }"

text \<open>A number that is no level is ignored by \<^verbatim>\<open>log_set_level\<close>.\<close>

definition level_of :: "u32 \<Rightarrow> LogLevel option" where
  "level_of n = List.find (\<lambda>l. int (level_no l) = uint n)
     [LOG_LEVEL_NONE, LOG_LEVEL_CRITICAL, LOG_LEVEL_ERROR, LOG_LEVEL_WARNING, LOG_LEVEL_INFO, LOG_LEVEL_DEBUG, LOG_LEVEL_SPAM]"

definition boot_set_level :: "u32 \<Rightarrow> 'd boot \<Rightarrow> 'd boot option" where
  "boot_set_level n b =
     (case level_of n of
        None \<Rightarrow> Some b
      | Some level \<Rightarrow> do {
          (level, out) \<leftarrow> log_set_level level;
          boot_out out (b\<lparr>b_machine := (b_machine b)\<lparr>m_loglevel := level\<rparr>\<rparr>) })"

fun loglevel_arg :: "bytes list \<Rightarrow> 'd boot \<Rightarrow> 'd boot option" where
  "loglevel_arg [] b = Some b"
| "loglevel_arg (a # as) b = do {
     c \<leftarrow> strncmp a (cstr ''loglevel='') 9;
     if c = 0 then do {
       n \<leftarrow> str_parse_int (drop 9 a);
       boot_set_level n b }
     else loglevel_arg as b }"

text \<open>\<^verbatim>\<open>set_debug_traps(); breakpoint();\<close> with the vectors of the kernel.\<close>

definition boot_debug :: "'d boot_env \<Rightarrow> 'd boot \<Rightarrow> 'd boot option" where
  "boot_debug env b = do {
     g \<leftarrow> set_debug_traps (bt_gdb env) ((b_gdb b)\<lparr>g_ints := b_ints b\<rparr>);
     breakpoint g (bt_trap env) (b\<lparr>b_gdb := g, b_ints := g_ints g\<rparr>) }"

fun debug_arg :: "'d boot_env \<Rightarrow> bytes list \<Rightarrow> 'd boot \<Rightarrow> 'd boot option" where
  "debug_arg env [] b = Some b"
| "debug_arg env (a # as) b = do {
     c \<leftarrow> strcmp a (cstr ''debug'');
     if c = 0 then boot_debug env b else debug_arg env as b }"

section \<open>Starting\<close>

definition banner :: bytes where
  "banner = 27 # map of_char ''[2J'' @ 27 # map of_char ''[1;1H'' @ 27 # map of_char ''[0m'' @ line ''TrollOS kernel''"

text \<open>Up to the interrupts: the terminal, the log and its level, the memory manager; the result is the console.\<close>

definition boot_early :: "'d boot_env \<Rightarrow> bytes list \<Rightarrow> 'd boot \<Rightarrow> (u32 \<times> 'd boot) option" where
  "boot_early env argv b = do {
     (console, b) \<leftarrow> early_init env b;
     b \<leftarrow> boot_log LOG_LEVEL_NONE banner [] b;
     b \<leftarrow> boot_set_level (of_nat (level_no LOG_LEVEL_INFO)) b;
     b \<leftarrow> print_args argv b;
     b \<leftarrow> loglevel_arg argv b;
     (_, b) \<leftarrow> boot_procs (with_mmu (\<lambda>mm. map_option (Pair ()) (mmu040_init (bt_root_td env) mm))) b;
     b \<leftarrow> mmu040_print_status b;
     (brk, b) \<leftarrow> boot_heap (ksbrk 0) b;
     b \<leftarrow> boot_log LOG_LEVEL_INFO (line ''Kernel heap is at 0x%X'') [Arg32 brk] b;
     let b = b\<lparr>b_ints := int_init (b_ints b)\<rparr>;
     b \<leftarrow> debug_arg env argv b;
     Some (console, b) }"

text \<open>The devices, the first open file, which is the console, and the root of the file system.\<close>

definition boot_devices :: "'d boot_env \<Rightarrow> u32 \<Rightarrow> 'd boot \<Rightarrow> 'd boot option" where
  "boot_devices env console b = do {
     let k = kernel_of b;
     (_, console_devnum, t, h) \<leftarrow> device_register (bt_name1 env) (cstr ''console'') console (k_devtab k) (kheap_of (k_procs k));
     let b = with_kernel (k\<lparr>k_devtab := t, k_procs := (k_procs k)\<lparr>kheap_of := h\<rparr>\<rparr>) b;
     (_, v) \<leftarrow> vfs_open_device console_devnum 0 (m_vfs (b_machine b));
     let k = v_kernel v;
     let w = k_drv k;
     (_, mbs, t, h) \<leftarrow> memblk_open (bt_name2 env) (bt_memblk env) (bt_romfs env) (bt_romfs_size env) (memblk_init (drv_memblk w))
                        (k_devtab k) (kheap_of (k_procs k));
     let v = v\<lparr>v_kernel := k\<lparr>k_devtab := t, k_procs := (k_procs k)\<lparr>kheap_of := h\<rparr>, k_drv := w\<lparr>drv_memblk := mbs\<rparr>\<rparr>\<rparr>;
     (memblk_devnum, _) \<leftarrow> device_lookup_name (cstr ''memblk0'') (k_devtab (v_kernel v));
     (_, v) \<leftarrow> fs_romfs_init drv_romfs (\<lambda>inst w. w\<lparr>drv_romfs := inst\<rparr>) (boot_devs env) (bt_junk env) (bt_fsname env) v;
     (r, v) \<leftarrow> vfs_mount (se_component (bt_sys env)) (se_stat (bt_sys env)) memblk_devnum (cstr ''/'') (cstr ''romfs'') v;
     let b = with_vfs v b;
     if r \<ge> 0 then boot_log LOG_LEVEL_INFO (line ''Found romfs filesysem on memblk0'') [] b else Some b }"

text \<open>
  The first process.  The result of \<^verbatim>\<open>vfs_open\<close> is not checked; the file is read to a block of the kernel
  heap and loaded into the address space that \<^verbatim>\<open>process_create\<close> has just made.  The result is the address
  the processor jumps to.
\<close>

definition start_init :: "'d boot_env \<Rightarrow> 'd boot \<Rightarrow> (u32 \<times> 'd boot) option" where
  "start_init env b = do {
     let e = bt_sys env;
     (fd, v) \<leftarrow> vfs_open (se_component e) (se_stat e) (cstr ''/sbin/init'') 0 (m_vfs (b_machine b));
     b \<leftarrow> boot_log LOG_LEVEL_INFO (line ''fd %i'') [Arg32 (word_of_int fd)] (with_vfs v b);
     (_, v) \<leftarrow> vfs_seek (se_stat e) fd 0 2 (m_vfs (b_machine b));
     pos \<leftarrow> vfs_tell fd v;
     let init_size = (word_of_int pos :: u32);
     (_, v) \<leftarrow> vfs_seek (se_stat e) fd 0 0 v;
     (init_elf, b) \<leftarrow> boot_heap (kmalloc init_size) (with_vfs v b);
     let buf = (if init_elf = 0 then [] else take (unat init_size) (se_memory e));
     (_, buf, v) \<leftarrow> vfs_read (boot_devs env) fd buf init_size (m_vfs (b_machine b));
     (pid, b) \<leftarrow> boot_procs (process_create (se_process e) 0 0) (with_vfs v b);
     b \<leftarrow> boot_log LOG_LEVEL_DEBUG (line ''process created'') [] b;
     (init, b) \<leftarrow> boot_procs (with_mmu (elf_load init_elf buf)) b;
     (_, b) \<leftarrow> boot_procs (\<lambda>p. map_option (Pair ()) (process_switch_to pid p)) b;
     (_, b) \<leftarrow> boot_procs (\<lambda>p. map_option (Pair ()) (process_set_pc pid init p)) b;
     (_, b) \<leftarrow> boot_heap (\<lambda>h. map_option (Pair ()) (kfree init_elf h)) b;
     proc \<leftarrow> process_from_pid pid (k_procs (kernel_of b));
     pr \<leftarrow> (if proc = 0 then None else process_obj proc (b_machine b));
     file \<leftarrow> for_loop [0, 1, 2] (\<lambda>i f. wr f i 0) (p_file pr);
     let b = b\<lparr>b_machine := set_process_obj proc (pr\<lparr>p_file := file\<rparr>) (b_machine b)\<rparr>;
     b \<leftarrow> boot_log LOG_LEVEL_INFO (line ''Now starting init @ 0x%X'') [Arg32 init] b;
     (_, s) \<leftarrow> int_isr_register 1 (bt_isr_vga env) 0 ((b_ints b)\<lparr>int_heap := kheap_of (k_procs (kernel_of b))\<rparr>);
     (_, b) \<leftarrow> boot_heap (\<lambda>_. Some ((), int_heap s)) b;
     let s = int_set_handler (of_nat CHIPSET_INT_BASE + 1) (Vec (bt_process_isr env)) s;
     let s = int_perihperal_enable CHIPSET_INT_NUM_VGA (s\<lparr>int_enabled := False\<rparr>);
     Some (init, b\<lparr>b_ints := s\<rparr>) }"

text \<open>\<^verbatim>\<open>main\<close>, up to the jump to the first process.\<close>

definition kernel_main :: "'d boot_env \<Rightarrow> bytes list \<Rightarrow> 'd boot \<Rightarrow> (u32 \<times> 'd boot) option" where
  "kernel_main env argv b = do {
     (console, b) \<leftarrow> boot_early env argv b;
     b \<leftarrow> boot_devices env console b;
     start_init env b }"

end
