(* ===== verification/BootSpec.thy ===== *)
theory BootSpec
  imports Boot SyscallSpec ConsoleSpec
begin

text \<open>
  Properties of the machine with the terminal (\<^theory_text>\<open>Boot\<close>): what a process writes appears on the screen, and what
  the start does without a first program.
\<close>

section \<open>From a process to the screen\<close>

lemma write_console_ready:
  assumes "fb.ready (drv_console w)" "\<forall>c \<in> set text. c < 128 \<and> c \<noteq> 27" "length text < 2 ^ 31"
  shows "\<exists>con. console_bytes text (drv_console w) = Some con \<and> fb.ready con \<and>
    write_console text w = Some (int (length text), w\<lparr>drv_console := con\<rparr>)"
proof -
  obtain con where con: "console_bytes text (drv_console w) = Some con" "fb.ready con"
    using fb.text_ready [OF assms(1,2)] by blast
  have "sint (of_nat (length text) :: u32) = int (length text)"
    using assms(3) by (simp add: sint_uint uint_nat unat_of_nat signed_take_bit_int_eq_self_iff)
  with con show ?thesis by (simp add: write_console_def console_write_def)
qed

text \<open>What the dispatcher prints for the call, and that the terminal draws it.\<close>

definition write_message :: "LogLevel \<Rightarrow> bytes" where
  "write_message level =
     (if level_no LOG_LEVEL_DEBUG \<le> level_no level
      then 27 # map of_char ''[0m['' @ 27 # map of_char ''[37mDBUG'' @ 27 # map of_char ''[0m] SYSCALL: 3 called'' @ [10]
      else [])"

lemma write_message_printed:
  assumes "call_message 3 m out"
  shows "out = write_message (m_loglevel m)"
proof -
  obtain r where k: "kprintf (m_loglevel m) LOG_LEVEL_DEBUG (map of_char ''SYSCALL: %i called'' @ [10, 0]) [Arg32 3] = Some (r, out)"
    using assms by (auto simp: call_message_def)
  have "map_option snd (vprintf (map of_char ''SYSCALL: %i called'' @ [10, 0]) [Arg32 3]) = Some (map of_char ''SYSCALL: 3 called'' @ [10])"
    by code_simp
  moreover have "sgr [0] @ [91] @ sgr (tag_colors LOG_LEVEL_DEBUG) @ butlast (logprefix LOG_LEVEL_DEBUG) @ sgr [0] @ [93, 32] =
      27 # map of_char ''[0m['' @ 27 # map of_char ''[37mDBUG'' @ 27 # map of_char ''[0m] ''" by code_simp
  ultimately show ?thesis
    using k log_tag_bytes [of LOG_LEVEL_DEBUG]
    by (auto simp: kprintf_def write_message_def bind_eq_Some_conv simp del: level_no.simps map_append split: if_splits)
qed

lemma write_message_ready:
  assumes "fb.ready con"
  shows "\<exists>con'. console_bytes (write_message level) con = Some con' \<and> fb.ready con'"
proof (cases "level_no LOG_LEVEL_DEBUG \<le> level_no level")
  case True
  define tag where "tag = sgr [0] @ [91] @ sgr (tag_colors LOG_LEVEL_DEBUG) @ butlast (logprefix LOG_LEVEL_DEBUG) @ sgr [0] @ [93, 32]"
  define msg where "msg = map of_char ''SYSCALL: 3 called'' @ [10 :: u8]"
  obtain c1 where 1: "console_bytes tag con = Some c1" "fb.ready c1" unfolding tag_def using tag_ready [OF assms] by blast
  have "\<forall>c \<in> set msg. c < 128 \<and> c \<noteq> 27" unfolding msg_def by code_simp
  from fb.text_ready [OF 1(2) this] obtain c2 where 2: "console_bytes msg c1 = Some c2" "fb.ready c2" by blast
  have "write_message level = tag @ msg"
    using True unfolding write_message_def tag_def msg_def by (simp only: if_True, code_simp)
  then show ?thesis using 1(1) 2 by (simp add: console_bytes_append)
qed (use assms in \<open>simp add: write_message_def\<close>)

lemma put_out_console:
  assumes "m_kconsole m = kconsole_init write_console" "console_bytes out (drv_console (k_drv (v_kernel (m_vfs m)))) = Some con"
  shows "put_out out m = Some (with_drv ((k_drv (v_kernel (m_vfs m)))\<lparr>drv_console := con\<rparr>) m)"
  using assms by (cases "out = []") (auto simp: put_out_def kconsole_write_def kconsole_init_def write_console_def console_write_def with_drv_def)

text \<open>
  C39. What a process writes appears on the screen: the system call \<^verbatim>\<open>write\<close> on a file number that leads to
  the console draws exactly the given characters, by the terminal on the frame buffer, and returns their
  number; it does not fault and the terminal stays ready for more.  The messages of the kernel are drawn on the
  same terminal: the only one on the way is that of the dispatcher, which comes before the text when the log shows
  messages of the level \<^verbatim>\<open>DEBUG\<close>.  (At the level \<^verbatim>\<open>SPAM\<close> the virtual file system prints more.)  Apart from the
  terminal the machine is unchanged.
\<close>

theorem user_write_displays:
  fixes m :: "boot_drivers machine"
  defines "w \<equiv> k_drv (v_kernel (m_vfs m))"
  assumes "unat fd < MAX_PROCESS_FILES" "current_process m = Some proc" "proc \<noteq> 0" "process_obj proc m = Some pr"
    "ird (p_file pr) (int (unat fd)) = Some g" "0 \<le> g" "ird (vfs_file (m_vfs m)) g = Some f" "f_is_device f"
    "device_lookup (data_dev f) (k_devtab (v_kernel (m_vfs m))) = Some a" "a \<noteq> 0" "se_devs env a = console_device"
    "fb.ready (drv_console w)" "m_user m b = Some buf" "unat n \<le> length buf" "unat n < 2 ^ 31"
    "\<forall>c \<in> set (take (unat n) buf). c < 128 \<and> c \<noteq> 27"
    "m_kconsole m = kconsole_init write_console" "m_loglevel m \<noteq> LOG_LEVEL_SPAM"
  shows "\<exists>con. syscall_stub env 3 fd b n x y m = Some (int (unat n), with_drv (w\<lparr>drv_console := con\<rparr>) m) \<and>
    console_bytes (write_message (m_loglevel m) @ take (unat n) buf) (drv_console w) = Some con \<and> fb.ready con"
proof -
  let ?text = "take (unat n) buf"
  have len: "length ?text = unat n" using assms(15) by simp
  have "length ?text < 2 ^ 31" unfolding len by (fact assms(16))
  obtain c1 where c1: "console_bytes (write_message (m_loglevel m)) (drv_console w) = Some c1" "fb.ready c1"
    using write_message_ready [OF assms(13)] by blast
  let ?m = "with_drv (w\<lparr>drv_console := c1\<rparr>) m"
  have "fb.ready (drv_console (w\<lparr>drv_console := c1\<rparr>))" using c1(2) by simp
  from write_console_ready [OF this assms(17) \<open>length ?text < 2 ^ 31\<close>] obtain con where
    con: "console_bytes ?text c1 = Some con" "fb.ready con"
    "write_console ?text (w\<lparr>drv_console := c1\<rparr>) = Some (int (unat n), w\<lparr>drv_console := con\<rparr>)"
    unfolding len by auto
  have fd: "sint fd = int (unat fd)" using assms(2) sint_small [of fd] by (simp add: MAX_PROCESS_FILES_def)
  have b: "\<not> int (unat fd) \<ge> int MAX_PROCESS_FILES" using assms(2) by linarith
  obtain out where "call_message 3 m out" "syscall_stub env 3 fd b n x y m = put_out out m \<bind> syscall_write env fd b n"
    using syscall_stub_runs [of 3 m env fd b n x y] by (auto simp: SYSCALLS_def syscall_handler_def)
  moreover from this(1) have "put_out out m = Some ?m"
    using put_out_console [OF assms(18), of out c1] c1(1) write_message_printed [of m out] by (simp add: w_def)
  ultimately have "syscall_stub env 3 fd b n x y m = syscall_write env fd b n ?m" by simp
  moreover have "global_file (sint fd) ?m = Some (Inr g)"
    unfolding global_file_def fd using b assms(3-7) by simp
  moreover have "vfs_write (se_devs env) g ?text (m_vfs ?m) = Some (int (unat n), m_vfs (with_drv (w\<lparr>drv_console := con\<rparr>) m))"
    using assms(8-12) con(3) by (simp add: vfs_write_def chardev_write_def console_device_def with_drv_def)
  ultimately show ?thesis using con(1,2) c1(1) assms(14,15)
    by (intro exI [of _ con]) (simp add: syscall_write_def console_bytes_append, simp add: with_drv_def)
qed

text \<open>A machine whose only process has the console open as file 1.\<close>

definition screen_process :: Process where
  "screen_process = idle_process\<lparr>p_file := [0, 0, 0]\<rparr>"

definition screen_machine :: "boot_drivers machine" where
  "screen_machine = \<lparr>m_vfs = \<lparr>vfs_file = [\<lparr>f_is_used = True, f_is_device = True, f_read = True, f_write = True, f_directory = False,
       f_unsupported = False, f_pos = 0, f_ref = 1, f_mode = 0, f_data = 1, f_inode = - 1\<rparr>], vfs_type = [], vfs_mnt = [],
       v_kernel = \<lparr>k_procs = one_process\<lparr>pobj := [0x2000 \<mapsto> screen_process]\<rparr>,
         k_devtab = \<lparr>device_registered = [Some \<lparr>reg_name = cstr ''console'', reg_device = 0x3000\<rparr>], major_free = 1\<rparr>,
         k_queue_read = \<lambda>_. 0, k_qitems = \<lambda>_. None,
         k_drv = \<lparr>drv_mem = \<lambda>_. 0, drv_memblk = [], drv_romfs = [], drv_console = tiny_console\<rparr>\<rparr>\<rparr>,
     m_user = [0x100 \<mapsto> [79, 75, 10]], m_switch = False, m_loglevel = LOG_LEVEL_DEBUG, m_kconsole = kconsole_init write_console\<rparr>"

definition screen_env :: "boot_drivers syscall_env" where
  "screen_env = \<lparr>se_devs = \<lambda>_. console_device, se_component = [], se_stat = \<lparr>st_dev = 0, st_ino = 0, st_mode = 0, st_nlink = 0,
     st_uid = 0, st_gid = 0, st_rdev = 0, st_size = 0, st_blksize = 0, st_blocks = 0, st_mtime = 0\<rparr>,
     se_process = idle_process, se_memory = []\<rparr>"

theorem user_write_displays_witness:
  "\<exists>con m'. syscall_stub screen_env 3 1 0x100 3 0 0 screen_machine = Some (3, m') \<and>
    console_bytes (write_message LOG_LEVEL_DEBUG @ [79, 75, 10]) tiny_console = Some con \<and> drv_console (k_drv (v_kernel (m_vfs m'))) = con"
proof -
  have c: "current_process screen_machine = Some 0x2000" "process_obj 0x2000 screen_machine = Some screen_process"
    by (simp_all add: screen_machine_def current_process_def process_obj_def procs_of_def one_process_def process_from_pid_def
        proc_ptr_def MAX_PROCESSES_def rd_def)
  show ?thesis
    using user_write_displays [where m = screen_machine and env = screen_env and fd = 1 and b = "0x100" and n = 3 and x = 0 and y = 0,
        OF _ c(1) _ c(2)] tiny_console_ready
    by (force simp: screen_machine_def screen_env_def screen_process_def MAX_PROCESS_FILES_def ird_def rd_def data_dev_def
        device_lookup_def major_def with_drv_def)
qed

section \<open>Without a first program\<close>

text \<open>
  When \<^verbatim>\<open>/sbin/init\<close> cannot be opened the kernel does not report it: the negative error number is used as
  an index of the table of open files, in front of it.
\<close>

lemma missing_init_faults:
  assumes "vfs_open (se_component (bt_sys env)) (se_stat (bt_sys env)) (cstr ''/sbin/init'') 0 (m_vfs (b_machine b)) = Some (fd, v)" "fd < 0"
  shows "start_init env b = None"
proof -
  have "vfs_seek s fd 0 2 v' = None" for s and v' :: "boot_drivers vfs" using assms(2) by (simp add: vfs_seek_def ird_def)
  note seek = this
  show ?thesis unfolding start_init_def Let_def assms(1) by (simp add: Option.bind_eq_None_conv seek)
qed

end
