(* ===== verification/CloneSpec.thy ===== *)
theory CloneSpec
  imports MmuSpec
begin

text \<open>
  Properties of the copy of an address space, \<^verbatim>\<open>mmu040_clone_userspace\<close> (\<^theory_text>\<open>Mmu040\<close>).
\<close>

section \<open>The root pointers\<close>

text \<open>No operation of the clone touches the root pointers.\<close>

lemma urp_simps [simp]:
  "urp (mapping_pop s) = urp s" "urp (mwrite s p j v) = urp s" "urp (zero_4k s slot) = urp s" "urp (copy_page s a b) = urp s"
  by (simp_all add: mapping_pop_def mwrite_def zero_4k_def copy_page_def)

lemma urp_pops [simp]: "urp ((mapping_pop ^^ n) s) = urp s"
  by (induction n) auto

lemma urp_push: "mapping_push ph s = Some (slot, s') \<Longrightarrow> urp s' = urp s"
  by (auto simp: mapping_push_def Let_def bind_eq_Some_conv split: if_splits)

lemma urp_alloc: "alloc_frame s = Some (f, s') \<Longrightarrow> urp s' = urp s"
  by (auto simp: alloc_frame_def Let_def bind_eq_Some_conv split: if_splits dest!: urp_push)

text \<open>A body of a loop that may return keeps a quantity, and so does the loop.\<close>

definition sum_state :: "('r \<times> 's) + 's \<Rightarrow> 's" where
  "sum_state x = (case x of Inl (r, s) \<Rightarrow> s | Inr s \<Rightarrow> s)"

lemma sum_state_simps [simp]: "sum_state (Inl (r, s)) = s" "sum_state (Inr s) = s"
  by (simp_all add: sum_state_def)

lemma for_return_keeps:
  assumes "for_return is body s = Some x" "\<And>i s x. body i s = Some x \<Longrightarrow> g (sum_state x) = g s"
  shows "g (sum_state x) = g s"
  using assms(1)
proof (induction "is" arbitrary: s)
  case (Cons i "is")
  then obtain y where y: "body i s = Some y"
    "(case y of Inl res \<Rightarrow> Some (Inl res) | Inr s' \<Rightarrow> for_return is body s') = Some x"
    by (auto simp: bind_eq_Some_conv)
  show ?case
  proof (cases y)
    case (Inl res)
    then show ?thesis using y assms(2) [OF y(1)] by simp
  next
    case (Inr s')
    then show ?thesis using y Cons.IH [of s'] assms(2) [OF y(1)] by simp
  qed
qed auto

lemma urp_clone_page: "clone_page from to k s = Some x \<Longrightarrow> urp (sum_state x) = urp s"
  by (auto simp: clone_page_def Let_def bind_eq_Some_conv split: if_splits dest!: urp_push urp_alloc)

lemma urp_clone_pointer: "clone_pointer from to j s = Some x \<Longrightarrow> urp (sum_state x) = urp s"
  by (auto simp: clone_pointer_def Let_def bind_eq_Some_conv sum_case_eq_Some split: if_splits
      dest!: urp_push urp_alloc for_return_keeps [where g = urp, OF _ urp_clone_page])

lemma urp_clone_root: "clone_root from to j s = Some x \<Longrightarrow> urp (sum_state x) = urp s"
  by (auto simp: clone_root_def Let_def bind_eq_Some_conv sum_case_eq_Some split: if_splits
      dest!: urp_push urp_alloc for_return_keeps [where g = urp, OF _ urp_clone_pointer])

lemma urp_clone: "mmu040_clone_userspace from to s = Some (r, s') \<Longrightarrow> urp s' = urp s"
  by (auto simp: mmu040_clone_userspace_def Let_def bind_eq_Some_conv sum_case_eq_Some split: option.splits
      dest!: urp_push for_return_keeps [where g = urp, OF _ urp_clone_root])

section \<open>Empty address spaces\<close>

text \<open>Cloning an empty address space succeeds and allocates nothing.\<close>

lemma clone_root_skips:
  assumes "\<forall>j < 128. \<not> UDT_IS_RESIDENT (upper_level_descriptor_type (mread s from j))" "i < 128"
  shows "\<exists>s'. clone_root from to i s = Some (Inr s') \<and> mapping s' = mapping s \<and>
    (\<forall>j < 128. \<not> UDT_IS_RESIDENT (upper_level_descriptor_type (mread s' from j)))"
  using assms
  by (auto simp: clone_root_def mwrite_def mread_def maddr_def upper_level_descriptor_type_def UDT_IS_RESIDENT_def mmu_constants
      set_upper_level_descriptor_type_def)

lemma clone_roots_skip:
  assumes "\<forall>j < 128. \<not> UDT_IS_RESIDENT (upper_level_descriptor_type (mread s from j))" "set is \<subseteq> {..<128}"
  shows "\<exists>s'. for_return is (clone_root from to) s = Some (Inr s')"
  using assms
proof (induction "is" arbitrary: s)
  case (Cons i "is")
  from clone_root_skips [OF Cons.prems(1), of i to] Cons.prems(2)
  obtain s1 where "clone_root from to i s = Some (Inr s1)" "\<forall>j < 128. \<not> UDT_IS_RESIDENT (upper_level_descriptor_type (mread s1 from j))" by auto
  then show ?case using Cons by auto
qed simp

lemma clone_empty:
  assumes "mapper_ok s" "mapping s + 2 \<le> MAPPER_PAGES" "R = push_bit SRP_URP_DESCRIPTOR_BITS (root_pointer f)"
    "\<forall>j < 128. \<not> UDT_IS_RESIDENT (upper_level_descriptor_type (pmem s (R + 4 * of_nat j)))"
  shows "\<exists>s'. mmu040_clone_userspace (Some f) (Some t) s = Some (0, s')"
proof -
  from push_points [OF assms(1), of R] assms(2) obtain s1 where s1: "mapping_push R s = Some (mapping s, s1)"
    "points s1 (REPAGE R (mapping s)) R" "above s s1" "mapping s1 = Suc (mapping s)" "pmem s1 = pmem s" by auto
  let ?T = "push_bit SRP_URP_DESCRIPTOR_BITS (root_pointer t)"
  from push_points [of s1 ?T] assms(2) s1(3,4) obtain s2 where s2: "mapping_push ?T s1 = Some (mapping s1, s2)"
    "above s1 s2" "pmem s2 = pmem s1" by (auto simp: above_def)
  have "points s2 (REPAGE R (mapping s)) R" using points_above [OF s1(2) s2(2)] .
  then have "\<forall>j < 128. \<not> UDT_IS_RESIDENT (upper_level_descriptor_type (mread s2 (REPAGE R (mapping s)) j))"
    using assms(4) s1(5) s2(3) by (simp add: mread_points)
  from clone_roots_skip [OF this, of "[0..<ROOT_LEVEL_DESCRIPTORS]" "REPAGE ?T (mapping s1)"]
  obtain s3 where "for_return [0..<ROOT_LEVEL_DESCRIPTORS] (clone_root (REPAGE R (mapping s)) (REPAGE ?T (mapping s1))) s2 = Some (Inr s3)"
    unfolding ROOT_LEVEL_DESCRIPTORS_def by (auto simp: lessThan_atLeast0)
  with s1 s2 show ?thesis
    by (auto simp: mmu040_clone_userspace_def assms(3) [symmetric] ROOT_LEVEL_DESCRIPTORS_def Let_def lessThan_atLeast0)
qed

end
