(* ===== verification/CloneCopy.thy ===== *)
theory CloneCopy
  imports CloneSpec
begin

text \<open>
  The copy of an address space, \<^verbatim>\<open>mmu040_clone_userspace\<close>: the invariant of a copy in progress, the step
  for an entry at each of the three levels, and the correctness of the whole.
\<close>

section \<open>What a copy is\<close>

text \<open>The long words a source tree is made of: its entries, and its mapped pages.\<close>

definition footprint :: "(u32 \<Rightarrow> u32) \<Rightarrow> u32 \<Rightarrow> u32 set" where
  "footprint m A = {b. (\<exists>p. entry_at m A p = Some b) \<or> (\<exists>q. length q = 3 \<and> table_at m A q = Some (page_of b))}"

text \<open>How many frames the tables and pages of a tree at the paths in \<open>D\<close> need, the root table apart.\<close>

definition demand :: "(u32 \<Rightarrow> u32) \<Rightarrow> u32 \<Rightarrow> nat list set \<Rightarrow> nat" where
  "demand m R D = card {q \<in> D. q \<noteq> [] \<and> table_at m R q \<noteq> None}"

lemma table_at_path: "table_at m R q = Some t \<Longrightarrow> length q \<le> 3 \<and> set q \<subseteq> {..<128}"
proof (induction q arbitrary: t)
  case (Cons i q)
  then show ?case using entries_at_le [of "length q"] by (auto split: option.splits if_splits)
qed simp

lemma finite_tables: "finite {q \<in> D. q \<noteq> [] \<and> table_at m R q \<noteq> None}"
proof (rule finite_subset)
  show "{q \<in> D. q \<noteq> [] \<and> table_at m R q \<noteq> None} \<subseteq> {q. set q \<subseteq> {..<128} \<and> length q \<le> 3}"
    using table_at_path by blast
qed (simp add: finite_lists_length_le)

lemma demand_insert: "q \<notin> D \<Longrightarrow> q \<noteq> [] \<Longrightarrow> table_at m R q \<noteq> None \<Longrightarrow> demand m R (insert q D) = Suc (demand m R D)"
proof -
  assume q: "q \<notin> D" "q \<noteq> []" "table_at m R q \<noteq> None"
  then have "{x \<in> insert q D. x \<noteq> [] \<and> table_at m R x \<noteq> None} = insert q {x \<in> D. x \<noteq> [] \<and> table_at m R x \<noteq> None}" by auto
  then show ?thesis using q(1) finite_tables [of D m R] by (simp add: demand_def)
qed

lemma demand_cong:
  "(\<And>q. q \<noteq> [] \<Longrightarrow> table_at m R q \<noteq> None \<Longrightarrow> q \<in> D \<longleftrightarrow> q \<in> D') \<Longrightarrow> demand m R D = demand m R D'"
  unfolding demand_def by (rule arg_cong [where f = card]) blast

lemma demand_less:
  assumes "q \<notin> D" "q \<noteq> []" "table_at m R q \<noteq> None"
  shows "demand m R D < demand m R UNIV"
  unfolding demand_def by (rule psubset_card_mono [OF finite_tables]) (use assms in blast)

text \<open>A page in the copy: mapped just when it is in the source, with the same attributes and the same contents.\<close>

definition same_page :: "(u32 \<Rightarrow> u32) \<Rightarrow> u32 \<Rightarrow> (u32 \<Rightarrow> u32) \<Rightarrow> u32 \<Rightarrow> nat list \<Rightarrow> bool" where
  "same_page m0 A m B q \<longleftrightarrow>
     (case addr_space m0 A q of
        None \<Rightarrow> addr_space m B q = None
      | Some (g, attr) \<Rightarrow> \<exists>f. addr_space m B q = Some (f, attr) \<and>
          (\<forall>b. page_of b = f \<longrightarrow> m b = m0 (g + (b AND MMU_PAGE_MASK))))"

text \<open>
  The state of a copy in progress: \<open>D\<close> holds the paths that are done.  The source is as it was, the
  entries of the copy that are not done are zero, and the pages that are done are copies.  The \<open>N\<close> frames that could be handed out at the start are spent one for each table and
  page done, and no page of the copy is one of the source.
\<close>

definition clone_inv :: "(u32 \<Rightarrow> u32) \<Rightarrow> u32 \<Rightarrow> u32 \<Rightarrow> nat \<Rightarrow> mmu \<Rightarrow> u32 list \<Rightarrow> nat list set \<Rightarrow> bool" where
  "clone_inv m0 A B N s fs D \<longleftrightarrow>
     vm_inv s B fs \<and> unat (free_frames s) \<le> length fs \<and> unat (free_frames s) + demand m0 A D = N \<and>
     (\<forall>b \<in> footprint m0 A. untouched (pmem s) B fs b \<and> pmem s b = m0 b \<and>
        (\<forall>q. length q = 3 \<longrightarrow> table_at (pmem s) B q \<noteq> Some (page_of b))) \<and>
     (\<forall>q a. entry_at (pmem s) B q = Some a \<longrightarrow> q \<notin> D \<longrightarrow> pmem s a = 0) \<and>
     (\<forall>q \<in> D. length q = 3 \<longrightarrow> same_page m0 A (pmem s) B q)"

text \<open>A copy that ran out of frames.\<close>

definition clone_failed :: "(u32 \<Rightarrow> u32) \<Rightarrow> u32 \<Rightarrow> nat \<Rightarrow> nat \<Rightarrow> int \<times> mmu \<Rightarrow> bool" where
  "clone_failed m0 A N base x \<longleftrightarrow> fst x = - errno ENOMEM \<and> N < demand m0 A UNIV \<and> free_frames (snd x) = 0 \<and> mapping (snd x) = base \<and>
     (\<forall>b \<in> footprint m0 A. pmem (snd x) b = m0 b)"

text \<open>What a step for entry \<open>i\<close> of the tables at path \<open>p\<close> has to do.\<close>

definition step_result :: "(u32 \<Rightarrow> u32) \<Rightarrow> u32 \<Rightarrow> u32 \<Rightarrow> nat \<Rightarrow> nat \<Rightarrow> mmu \<Rightarrow> nat list \<Rightarrow> nat list set \<Rightarrow> ((int \<times> mmu) + mmu) option \<Rightarrow> bool" where
  "step_result m0 A B N base s p D' x \<longleftrightarrow>
     (case x of
        None \<Rightarrow> False
      | Some (Inl y) \<Rightarrow> clone_failed m0 A N base y
      | Some (Inr s') \<Rightarrow> (\<exists>fs'. clone_inv m0 A B N s' fs' D') \<and> above s s' \<and> mapping s' = mapping s \<and>
          (\<forall>r. suffix r p \<longrightarrow> table_at (pmem s') B r = table_at (pmem s) B r))"

definition clones :: "(u32 \<Rightarrow> u32) \<Rightarrow> u32 \<Rightarrow> u32 \<Rightarrow> nat \<Rightarrow> nat \<Rightarrow> nat \<Rightarrow> (mptr \<Rightarrow> mptr \<Rightarrow> nat \<Rightarrow> mmu \<Rightarrow> ((int \<times> mmu) + mmu) option) \<Rightarrow> bool" where
  "clones m0 A B N base l body \<longleftrightarrow>
     (\<forall>s fs D p i t1 t2 from to. clone_inv m0 A B N s fs D \<and> length p = l \<and> i < entries_at l \<and> (\<forall>q \<in> D. \<not> suffix (i # p) q) \<and>
        points s from t1 \<and> table_at m0 A p = Some t1 \<and> points s to t2 \<and> table_at (pmem s) B p = Some t2 \<and>
        mapping s = base + 2 * (l + 1) \<longrightarrow>
        step_result m0 A B N base s p (D \<union> {q. suffix (i # p) q}) (body from to i s))"

lemma clonesD:
  assumes "clones m0 A B N base l body" "clone_inv m0 A B N s fs D" "length p = l" "i < entries_at l" "\<forall>q \<in> D. \<not> suffix (i # p) q"
    "points s from t1" "table_at m0 A p = Some t1" "points s to t2" "table_at (pmem s) B p = Some t2" "mapping s = base + 2 * (l + 1)"
  shows "step_result m0 A B N base s p (D \<union> {q. suffix (i # p) q}) (body from to i s)"
  using assms unfolding clones_def by blast

text \<open>The loop over the entries of a table.\<close>

lemma above_refl: "mapper_ok s \<Longrightarrow> above s s"
  by (simp add: above_def)

lemma clone_inv_mapper: "clone_inv m0 A B N s fs D \<Longrightarrow> mapper_ok s"
  by (simp add: clone_inv_def vm_inv_def frame_pool_inv_def)

lemma clone_loop:
  assumes "clones m0 A B N base l body" "clone_inv m0 A B N s fs D" "length p = l" "set is \<subseteq> {..<entries_at l}" "distinct is"
    "\<forall>i \<in> set is. \<forall>q \<in> D. \<not> suffix (i # p) q"
    "points s from t1" "table_at m0 A p = Some t1" "points s to t2" "table_at (pmem s) B p = Some t2" "mapping s = base + 2 * (l + 1)"
  shows "step_result m0 A B N base s p (D \<union> {q. \<exists>i \<in> set is. suffix (i # p) q}) (for_return is (body from to) s)"
  using assms(2-)
proof (induction "is" arbitrary: s fs D)
  case Nil
  then show ?case using above_refl [OF clone_inv_mapper] by (auto simp: step_result_def)
next
  case (Cons i "is")
  have "step_result m0 A B N base s p (D \<union> {q. suffix (i # p) q}) (body from to i s)"
    using Cons.prems by (intro clonesD [OF assms(1)]) auto
  then consider (fail) y where "body from to i s = Some (Inl y)" "clone_failed m0 A N base y"
    | (ok) s1 fs1 where "body from to i s = Some (Inr s1)" "clone_inv m0 A B N s1 fs1 (D \<union> {q. suffix (i # p) q})" "above s s1"
      "mapping s1 = mapping s" "\<forall>r. suffix r p \<longrightarrow> table_at (pmem s1) B r = table_at (pmem s) B r"
    by (auto simp: step_result_def split: option.splits sum.splits)
  then show ?case
  proof cases
    case fail
    then show ?thesis by (simp add: step_result_def)
  next
    case ok
    have "step_result m0 A B N base s1 p (D \<union> {q. suffix (i # p) q} \<union> {q. \<exists>j \<in> set is. suffix (j # p) q}) (for_return is (body from to) s1)"
    proof (rule Cons.IH [OF ok(2)])
      show "\<forall>j \<in> set is. \<forall>q \<in> D \<union> {q. suffix (i # p) q}. \<not> suffix (j # p) q"
        using Cons.prems(4,5) by (auto simp: suffix_def)
    qed (use Cons.prems ok points_above in auto)
    moreover have "D \<union> {q. suffix (i # p) q} \<union> {q. \<exists>j \<in> set is. suffix (j # p) q} = D \<union> {q. \<exists>j \<in> set (i # is). suffix (j # p) q}"
      by auto
    ultimately show ?thesis using ok above_trans by (auto simp: step_result_def split: option.splits sum.splits)
  qed
qed

section \<open>Memory of a copy in progress\<close>

text \<open>A page that is unmapped, or whose table is, is outside the free list and no entry.\<close>

lemma mapped_untouched:
  assumes "separated m R fs" "length q = 3" "table_at m R q = Some g" "page_of b = g"
  shows "untouched m R fs b"
  using separated_mapped [OF assms(1-3)] separated_frame [OF assms(1-3)] assms(4) by (auto simp: untouched_def)

text \<open>What a store may change without undoing the copy made so far.\<close>

lemma same_page_keep:
  assumes "same_page m0 A m B q" "addr_space m' B q = addr_space m B q" "separated m B fs"
    "\<And>b. untouched m B fs b \<Longrightarrow> table_at m B q = Some (page_of b) \<Longrightarrow> m' b = m b"
  shows "same_page m0 A m' B q"
proof (cases "addr_space m0 A q")
  case (Some x)
  then obtain g attr where x: "addr_space m0 A q = Some (g, attr)" by (cases x) auto
  with assms(1) obtain f where f: "addr_space m B q = Some (f, attr)" "\<forall>b. page_of b = f \<longrightarrow> m b = m0 (g + (b AND MMU_PAGE_MASK))"
    by (auto simp: same_page_def)
  note tf = addr_space_resident [OF f(1)]
  have "m' b = m b" if "page_of b = f" for b
    using mapped_untouched [OF assms(3), of q f b] tf assms(4) [of b] that by simp
  with f x assms(2) show ?thesis by (simp add: same_page_def)
qed (use assms in \<open>simp add: same_page_def\<close>)

text \<open>The contents of a mapped frame do not matter to the tree.\<close>

lemma frame_contents:
  assumes sep: "separated m R fs" and q: "length q = 3" "table_at m R q = Some f" and m': "\<And>b. page_of b \<noteq> f \<Longrightarrow> m' b = m b"
  shows "table_at m' R = table_at m R" "entry_at m' R = entry_at m R" "addr_space m' R = addr_space m R" "separated m' R fs"
proof -
  have keep: "m' a = m a" if "entry_at m R p = Some a" for p a using separated_frame [OF sep q that] m' by blast
  show T: "table_at m' R = table_at m R" by (rule ext) (rule table_at_cong, rule keep)
  then show E: "entry_at m' R = entry_at m R" by (intro ext entry_at_same_table) simp
  show "addr_space m' R = addr_space m R"
  proof
    fix p show "addr_space m' R p = addr_space m R p"
      using keep [of p] by (cases "entry_at m R p") (simp_all add: addr_space_def T E)
  qed
  show "separated m' R fs" using sep by (simp add: separated_def T E)
qed

section \<open>Entries that lead nowhere\<close>

lemma clone_entry_zero:
  assumes "clone_inv m0 A B N s fs D" "entry_at (pmem s) B q = Some a" "q \<notin> D"
  shows "pmem s a = 0" "table_at (pmem s) B q = None"
proof -
  show z: "pmem s a = 0" using assms unfolding clone_inv_def by blast
  show "table_at (pmem s) B q = None" using assms(2) z by (cases q) (auto split: option.splits)
qed

lemma clone_skip:
  assumes inv: "clone_inv m0 A B N s fs D" and none: "table_at m0 A p = None" "table_at (pmem s) B p = None"
  shows "clone_inv m0 A B N s fs (D \<union> {q. suffix p q})"
proof -
  have "addr_space m0 A q = None \<and> addr_space (pmem s) B q = None" if sfx: "suffix p q" for q
  proof -
    obtain u where "q = u @ p" using sfx by (auto simp: suffix_def)
    with none show ?thesis by (cases "u = []") (simp_all add: table_at_beyond addr_space_unmapped)
  qed
  then have "same_page m0 A (pmem s) B q" if "suffix p q" for q using that by (simp add: same_page_def)
  moreover have "demand m0 A (D \<union> {q. suffix p q}) = demand m0 A D"
  proof (rule demand_cong)
    fix q assume q: "table_at m0 A q \<noteq> None"
    have "\<not> suffix p q"
    proof
      assume "suffix p q"
      then obtain u where "q = u @ p" by (auto simp: suffix_def)
      with none(1) q show False by (cases "u = []") (simp_all add: table_at_beyond)
    qed
    then show "q \<in> D \<union> {q. suffix p q} \<longleftrightarrow> q \<in> D" by simp
  qed
  ultimately show ?thesis using inv by (auto simp: clone_inv_def)
qed

text \<open>The stores of the copy to an entry of a source that leads nowhere put zero where zero was.\<close>

lemma invalid_zero:
  "set_page_descriptor_type 0 MMU040_PAGE_DESCRIPTOR_TYPE_INVALID = 0"
  "set_upper_level_descriptor_type 0 MMU040_UPPER_LEVEL_DESCRIPTOR_TYPE_INVALID = 0"
  by (simp_all add: mmu_field_defs mmu_constants bf_set_def)

lemma source_entry:
  assumes "clone_inv m0 A B N s fs D" "table_at m0 A p = Some t" "length p < 3" "i < entries_at (length p)"
  shows "pmem s (t + 4 * of_nat i) = m0 (t + 4 * of_nat i)" "untouched (pmem s) B fs (t + 4 * of_nat i)"
proof -
  have "entry_at m0 A (i # p) = Some (t + 4 * of_nat i)" using assms(2-4) by simp
  then have "t + 4 * of_nat i \<in> footprint m0 A" unfolding footprint_def by blast
  with assms(1) show "pmem s (t + 4 * of_nat i) = m0 (t + 4 * of_nat i)" "untouched (pmem s) B fs (t + 4 * of_nat i)"
    by (auto simp: clone_inv_def)
qed

lemma mwrite_zero: "points s to t \<Longrightarrow> pmem s (t + 4 * of_nat i) = 0 \<Longrightarrow> mwrite s to i 0 = s"
  by (simp add: mwrite_points) (metis fun_upd_triv mem_layout.surjective mem_layout.update_convs(1))

lemma step_skips:
  assumes inv: "clone_inv m0 A B N s fs D" and none: "table_at m0 A p = None" "table_at (pmem s) B p = None"
  shows "step_result m0 A B N base s (tl p) (D \<union> {q. suffix p q}) (Some (Inr s))"
  using clone_skip [OF assms] above_refl [OF clone_inv_mapper [OF inv]] by (auto simp: step_result_def)

section \<open>Copying a page\<close>

text \<open>The copied entry: the attributes of the source and the new frame.\<close>

definition copied_desc :: "u32 \<Rightarrow> u32 \<Rightarrow> u32" where
  "copied_desc d f = set_physical_address d (PAGE_LEVEL_ADDR_FIELD f)"

lemma copied_desc_attributes:
  assumes "page_of f = f"
  shows "page_attributes (copied_desc d f) = (f, snd (page_attributes d))" "resident_at 2 (copied_desc d f) = resident_at 2 d"
    "target_at 2 (copied_desc d f) = f"
  using page_field_addr [of d f] assms
  by (simp_all add: copied_desc_def page_attributes_def resident_at_def target_at_def)
    (simp_all add: page_supervisor_def write_protected_def cache_mode_def page_descriptor_type_def set_physical_address_def)

text \<open>Memory after the entry at \<open>a\<close> got the new frame \<open>f\<close> and the page at \<open>g\<close> was copied there.\<close>

definition page_copied :: "(u32 \<Rightarrow> u32) \<Rightarrow> u32 \<Rightarrow> u32 \<Rightarrow> u32 \<Rightarrow> u32 \<Rightarrow> (u32 \<Rightarrow> u32)" where
  "page_copied m a v f g = (let m' = (zero_page f m)(a := v) in
     (\<lambda>b. if page_of b = f then m' (g + (b AND MMU_PAGE_MASK)) else m' b))"

lemma page_of_mask: "page_of (page_of g + (b AND MMU_PAGE_MASK)) = page_of g"
proof -
  have "b AND MMU_PAGE_MASK = take_bit 12 b" by (simp add: page_mask take_bit_eq_mask)
  then have "unat (b AND MMU_PAGE_MASK) < 4096" using take_bit_nat_less_exp [of 12 "unat b"] by (simp add: unsigned_take_bit_eq)
  then show ?thesis using page_of_offset(1) [of "page_of g"] by simp
qed

lemma page_copied_inv:
  assumes inv: "clone_inv m0 A B N s (f # fs) D" and e: "entry_at (pmem s) B p = Some a" "length p = 3" "p \<notin> D"
    and d: "entry_at m0 A p = Some c" "resident_at 2 (m0 c)" "g = target_at 2 (m0 c)"
    and m: "m = page_copied (pmem s) a (copied_desc (m0 c) f) f g"
    and s': "frame_pool_inv s' fs" "unat (free_frames s') \<le> length fs" "Suc (unat (free_frames s')) = unat (free_frames s)" "pmem s' = m"
  shows "clone_inv m0 A B N s' fs (D \<union> {q. suffix p q})" "q \<noteq> p \<Longrightarrow> table_at m B q = table_at (pmem s) B q"
proof -
  let ?v = "copied_desc (m0 c) f"
  let ?m1 = "(zero_page f (pmem s))(a := ?v)"
  from inv have pool: "frame_pool_inv s (f # fs)" and sep: "separated (pmem s) B (f # fs)" by (auto simp: clone_inv_def vm_inv_def)
  from pool have f: "page_of f = f" "f \<notin> set fs" "f \<noteq> 0" by (auto simp: frame_pool_inv_def)
  have nof: "\<forall>q b. entry_at (pmem s) B q = Some b \<longrightarrow> page_of b \<noteq> f" using separated_free [OF sep] by force
  have sep1: "separated (pmem s) B fs" using sep unfolding separated_def by simp
  note attr = copied_desc_attributes [OF f(1), of "m0 c"]
  note i = install_frame [OF sep1 e(1,2) f(1,2,3) nof attr(2) [THEN iffD2, OF d(2)] attr(3)]
  have other: "m b = ?m1 b" if "page_of b \<noteq> f" for b using that by (simp add: m page_copied_def Let_def)
  note c = frame_contents [OF i(1) e(2), of f m, OF _ other]
  have T: "table_at m B q = (if q = p then Some f else table_at (pmem s) B q)" for q using c(1) i(4) by simp
  then show "q \<noteq> p \<Longrightarrow> table_at m B q = table_at (pmem s) B q" by simp
  have E: "entry_at m B q = entry_at (pmem s) B q" for q using c(2) i(4,5) by simp
  have S: "addr_space m B = (addr_space (pmem s) B)(p \<mapsto> page_attributes ?v)" using c(3) i(2,4) by simp
  have sepm: "separated m B fs" using c(4) i(4) by simp
  have keep: "m b = pmem s b" if "untouched (pmem s) B (f # fs) b" for b
    using that e(1) other [of b] by (auto simp: untouched_def)
  have tg: "table_at m0 A p = Some g" using d e(2) by (cases p) (auto split: option.splits if_splits)
  have copied: "m b = m0 (g + (b AND MMU_PAGE_MASK))" if "page_of b = f" for b
  proof -
    let ?b = "g + (b AND MMU_PAGE_MASK)"
    have "page_of ?b = g" using page_of_mask [of g b] d(3) target_2_aligned [of "m0 c"] by simp
    then have "?b \<in> footprint m0 A" using tg e(2) by (auto simp: footprint_def)
    then have b: "untouched (pmem s) B (f # fs) ?b" "pmem s ?b = m0 ?b" using inv by (auto simp: clone_inv_def)
    then have "page_of ?b \<noteq> f" "?b \<noteq> a" using e(1) by (auto simp: untouched_def)
    with b(2) that show ?thesis by (simp add: m page_copied_def Let_def)
  qed
  show "clone_inv m0 A B N s' fs (D \<union> {q. suffix p q})"
    unfolding clone_inv_def s'(4)
  proof (intro conjI ballI allI impI)
    show "vm_inv s' B fs" using s' sepm by (simp add: vm_inv_def)
    show "unat (free_frames s') \<le> length fs" by (fact s'(2))
    have "demand m0 A (D \<union> {q. suffix p q}) = demand m0 A (insert p D)"
    proof (rule demand_cong)
      fix q assume "table_at m0 A q \<noteq> None"
      then have "length q \<le> 3" using table_at_path by blast
      then show "q \<in> D \<union> {q. suffix p q} \<longleftrightarrow> q \<in> insert p D" using e(2) by (auto simp: suffix_def)
    qed
    then show "unat (free_frames s') + demand m0 A (D \<union> {q. suffix p q}) = N"
      using inv s'(3) demand_insert [OF e(3), of m0 A] tg e(2) by (force simp: clone_inv_def)
  next
    fix b assume "b \<in> footprint m0 A"
    then have b: "untouched (pmem s) B (f # fs) b" "pmem s b = m0 b"
      "\<And>q. length q = 3 \<Longrightarrow> table_at (pmem s) B q \<noteq> Some (page_of b)" using inv by (auto simp: clone_inv_def)
    then show "untouched m B fs b" "m b = m0 b" using keep [OF b(1)] E by (auto simp: untouched_def)
    show "length q = 3 \<Longrightarrow> table_at m B q \<noteq> Some (page_of b)" for q
      using b(1,3) unfolding T by (auto simp: untouched_def)
  next
    fix q b assume q: "entry_at m B q = Some b" "q \<notin> D \<union> {q. suffix p q}"
    then have eq: "entry_at (pmem s) B q = Some b" "q \<notin> D" "q \<noteq> p" using E by auto
    then have "b \<noteq> a" using separated_inj [OF sep e(1), of q] by blast
    then show "m b = 0" using clone_entry_zero(1) [OF inv eq(1,2)] nof eq(1) other [of b] by simp
  next
    fix q assume q: "q \<in> D \<union> {q. suffix p q}" "length q = 3"
    show "same_page m0 A m B q"
    proof (cases "q = p")
      case True
      have "addr_space m0 A p = Some (page_attributes (m0 c))" using d(1) tg e(2) by (simp add: addr_space_def)
      moreover have "fst (page_attributes (m0 c)) = g" using d(3) by (simp add: page_attributes_def target_at_def)
      ultimately show ?thesis using S attr(1) copied True
        by (cases "page_attributes (m0 c)") (simp add: same_page_def)
    next
      case False
      then have "q \<in> D" using q e(2) by (auto simp: suffix_def)
      then have "same_page m0 A (pmem s) B q" using inv q(2) by (auto simp: clone_inv_def)
      then show ?thesis
        by (rule same_page_keep [OF _ _ sep]) (use S False keep in simp_all)
    qed
  qed
qed

lemma mapping_pops: "(mapping_pop ^^ n) s = s\<lparr>mapping := mapping s - n\<rparr>"
proof (induction n)
  case (Suc n)
  then show ?case by (cases s) (auto simp: mapping_pop_def)
qed simp

lemma pop_two: "mapping s' = mapping s + 2 \<Longrightarrow> mapping_pop (mapping_pop s') = s'\<lparr>mapping := mapping s\<rparr>"
  using mapping_pops [of 2 s'] by (simp add: numeral_2_eq_2)

text \<open>When the frames have run out, the copy lets go of its mappings.\<close>


lemma clone_fails:
  assumes "clone_inv m0 A B N s fs D" "free_frames s = 0" "mapping s = base + n"
    "q \<notin> D" "q \<noteq> []" "table_at m0 A q \<noteq> None"
  shows "clone_failed m0 A N base (- errno ENOMEM, (mapping_pop ^^ n) s)"
  using assms(1-3) demand_less [OF assms(4-6)] by (auto simp: clone_failed_def clone_inv_def mapping_pops)

lemma clone_frames:
  assumes "clone_inv m0 A B N s fs D" "free_frames s \<noteq> 0"
  obtains f gs where "fs = f # gs" "page_of f = f" "f \<noteq> 0" "frame_pool_inv s (f # gs)"
proof -
  have pool: "frame_pool_inv s fs" "unat (free_frames s) \<le> length fs" using assms(1) by (auto simp: clone_inv_def vm_inv_def)
  moreover have "0 < unat (free_frames s)" using assms(2) by (simp add: unat_gt_0)
  ultimately obtain f gs where "fs = f # gs" by (cases fs) auto
  with pool(1) show ?thesis by (intro that [of f gs]) (auto simp: frame_pool_inv_def)
qed

lemma copy_page_points:
  assumes "points s (x, 0) f" "points s (y, 0) g" "g = page_of g"
  shows "copy_page s x y = s\<lparr>pmem := (\<lambda>b. if page_of b = f then pmem s (g + (b AND MMU_PAGE_MASK)) else pmem s b)\<rparr>"
  using assms by (simp add: copy_page_def points_def page_of_def cong: if_cong)

text \<open>The two stores to the entry amount to one.\<close>

lemma clone_page_eq:
  "clone_page from to k s =
     (if \<not> resident_at 2 (mread s from k)
      then Some (Inr (mwrite s to k (set_page_descriptor_type (mread s to k) MMU040_PAGE_DESCRIPTOR_TYPE_INVALID)))
      else do {
        (ph, s) \<leftarrow> alloc_frame s;
        if ph = 0 then Some (Inl (- errno ENOMEM, (mapping_pop ^^ 6) s))
        else do {
          (page_to, s) \<leftarrow> mapping_push ph s;
          let s = mwrite s to k (copied_desc (mread s from k) ph);
          (page_from, s) \<leftarrow> mapping_push (target_at 2 (mread s from k)) s;
          Some (Inr (mapping_pop (mapping_pop (copy_page s page_to page_from)))) } })"
  by (simp add: clone_page_def Let_def mread_mwrite_same mwrite_mwrite_same copied_desc_def resident_at_def target_at_def cong: if_cong)

lemma clone_page_copies:
  assumes inv: "clone_inv m0 A B N s fs D" and p: "length p = 2" "i < PAGE_DESCRIPTORS" "\<forall>q \<in> D. \<not> suffix (i # p) q"
    and t1: "points s from t1" "table_at m0 A p = Some t1" and t2: "points s to t2" "table_at (pmem s) B p = Some t2"
    and room: "Suc (mapping s) < MAPPER_PAGES" and credit: "free_frames s \<noteq> 0"
    and res: "resident_at 2 (m0 (t1 + 4 * of_nat i))"
  shows "\<exists>s' fs'. clone_page from to i s = Some (Inr s') \<and> clone_inv m0 A B N s' fs' (D \<union> {q. suffix (i # p) q}) \<and>
    above s s' \<and> mapping s' = mapping s \<and> (\<forall>r. r \<noteq> i # p \<longrightarrow> table_at (pmem s') B r = table_at (pmem s) B r)"
proof -
  let ?c = "t1 + 4 * of_nat i" and ?a = "t2 + 4 * of_nat i"
  from clone_frames [OF inv credit] obtain f gs where fs: "fs = f # gs" and f: "page_of f = f" "f \<noteq> 0"
    and pool: "frame_pool_inv s (f # gs)" .
  have idx: "i < entries_at (length p)" "length p < 3" using p by (simp_all add: entries_at_def)
  have e: "entry_at (pmem s) B (i # p) = Some ?a" "entry_at m0 A (i # p) = Some ?c" using t1 t2 idx by simp_all
  have c: "pmem s ?c = m0 ?c" "untouched (pmem s) B (f # gs) ?c" using source_entry [OF inv t1(2) idx(2,1)] fs by auto
  have sep: "separated (pmem s) B (f # gs)" using inv fs by (simp add: clone_inv_def vm_inv_def)
  have a: "page_of ?a \<notin> set (f # gs)" using separated_free [OF sep e(1)] .
  have ca: "?c \<noteq> ?a" using c(2) e(1) unfolding untouched_def by metis
  have cf: "page_of ?c \<noteq> f" using c(2) by (simp add: untouched_def)
  from pool_frame_points [OF pool credit] obtain s1 where s1: "alloc_frame s = Some (f, s1)" "frame_pool_inv s1 gs"
    "pmem s1 = zero_page f (pmem s)" "above s s1" "mapping s1 = mapping s" "free_frames s1 = free_frames s - 1" by blast
  have ok1: "mapper_ok s1" "mapping s1 < MAPPER_PAGES" using s1(2) by (auto simp: frame_pool_inv_def)
  from push_points [OF ok1, of f] f obtain s2 where s2: "mapping_push f s1 = Some (mapping s, s2)"
    "points s2 (mapping s, 0) f" "above s1 s2" "mapping s2 = Suc (mapping s)" "pmem s2 = pmem s1"
    "free_frames s2 = free_frames s1" "free_frame s2 = free_frame s1" using s1(5) by metis
  let ?g = "target_at 2 (m0 ?c)" and ?v = "copied_desc (m0 ?c) f"
  let ?s3 = "s2\<lparr>pmem := (pmem s2)(?a := ?v)\<rparr>"
  have ok3: "mapper_ok ?s3" "mapping ?s3 < MAPPER_PAGES" using s2(3,4) room by (auto simp: above_def)
  from push_points [OF ok3, of ?g] obtain s4 where s4: "mapping_push ?g ?s3 = Some (Suc (mapping s), s4)"
    "points s4 (Suc (mapping s), 0) ?g" "above ?s3 s4" "mapping s4 = mapping s + 2" "pmem s4 = pmem ?s3"
    "free_frames s4 = free_frames s2" "free_frame s4 = free_frame s2" using s2(4) by auto
  have ab2: "above s s2" using above_trans s1(4) s2(3) by blast
  then have ab4: "above s s4" using above_trans [of s ?s3 s4] s4(3) by simp
  have pt2: "points s2 from t1" "points s2 to t2" using points_above ab2 t1(1) t2(1) by blast+
  have p4: "points s4 (mapping s, 0) f" using points_above [of ?s3 _ f s4] s2(2) s4(3) by simp
  let ?m = "page_copied (pmem s) ?a ?v f ?g"
  let ?s = "s4\<lparr>pmem := ?m, mapping := mapping s\<rparr>"
  have copy: "copy_page s4 (mapping s) (Suc (mapping s)) = s4\<lparr>pmem := ?m\<rparr>"
    unfolding copy_page_points [OF p4 s4(2) target_2_aligned [symmetric]] using s4(5) s2(5) s1(3)
    by (simp add: page_copied_def Let_def cong: if_cong)
  have pops: "mapping_pop (mapping_pop (s4\<lparr>pmem := ?m\<rparr>)) = ?s"
    using pop_two [of "s4\<lparr>pmem := ?m\<rparr>" s] s4(4) by simp
  have r2: "pmem s2 ?c = m0 ?c" using c(1) ca cf s2(5) s1(3) by simp
  have run: "clone_page from to i s = Some (Inr ?s)"
    using res s1(1) f(2) s2(1) s4(1) copy pops c(1) r2 ca cf a
    by (simp add: clone_page_eq Let_def mread_points [OF t1(1)] mread_points [OF pt2(1)] mwrite_points [OF pt2(2)]
        mread_points [where s = "s2\<lparr>pmem := m\<rparr>" for m, simplified, OF pt2(1)])
  have chain: "frame_chain (pmem s1) (free_frame s1) gs" using s1(2) by (simp add: frame_pool_inv_def)
  have "frame_chain ?m (free_frame s1) gs"
  proof (subst frame_chain_cong)
    show "\<forall>g \<in> set gs. ?m g = pmem s1 g"
      using frame_chain_aligned [OF chain] a pool s1(3) by (auto simp: page_copied_def Let_def frame_pool_inv_def)
  qed (fact chain)
  then have pool4: "frame_pool_inv ?s gs"
    using s4(3,6,7) s2(7) room by (simp add: frame_pool_inv_def above_def mapper_ok_def)
  have fr: "unat (free_frames ?s) \<le> length gs" "Suc (unat (free_frames ?s)) = unat (free_frames s)"
    using unat_pred [OF credit] inv s4(6) s2(6) s1(6) fs by (simp_all add: clone_inv_def)
  have "i # p \<notin> D" using p(3) by auto
  then have "clone_inv m0 A B N ?s gs (D \<union> {q. suffix (i # p) q})"
    "\<And>r. r \<noteq> i # p \<Longrightarrow> table_at (pmem ?s) B r = table_at (pmem s) B r"
    using page_copied_inv [OF inv [unfolded fs] e(1) _ _ e(2) res refl refl pool4 fr] p(1) by simp_all
  moreover have "above s ?s" using ab4 room by (simp add: above_def mapper_ok_def)
  ultimately show ?thesis using run by (intro exI [of _ ?s] exI [of _ gs]) simp
qed

lemma clone_page_clones:
  assumes room: "base + 8 \<le> MAPPER_PAGES"
  shows "clones m0 A B N base 2 clone_page"
  unfolding clones_def
proof (intro allI impI, elim conjE)
  fix s fs D p i t1 t2 "from" to
  assume inv: "clone_inv m0 A B N s fs D" and p: "length p = 2" "i < entries_at 2" "\<forall>q \<in> D. \<not> suffix (i # p) q"
    and t1: "points s from t1" "table_at m0 A p = Some t1" and t2: "points s to t2" "table_at (pmem s) B p = Some t2"
    and map: "mapping s = base + 2 * (2 + 1)"
  have idx: "i < PAGE_DESCRIPTORS" using p by (simp add: entries_at_def)
  have src: "pmem s (t1 + 4 * of_nat i) = m0 (t1 + 4 * of_nat i)"
    using source_entry [OF inv t1(2)] p by simp
  have e: "entry_at (pmem s) B (i # p) = Some (t2 + 4 * of_nat i)" using t2 p by simp
  have new: "i # p \<notin> D" using p(3) by auto
  note z = clone_entry_zero [OF inv e new]
  show "step_result m0 A B N base s p (D \<union> {q. suffix (i # p) q}) (clone_page from to i s)"
  proof (cases "resident_at 2 (m0 (t1 + 4 * of_nat i))")
    case False
    then have "clone_page from to i s = Some (Inr s)"
      using src z(1) by (simp add: clone_page_eq mread_points [OF t1(1)] mread_points [OF t2(1)] invalid_zero mwrite_zero [OF t2(1)])
    moreover have "table_at m0 A (i # p) = None" using False t1(2) p by simp
    from step_skips [OF inv this z(2), of base] show ?thesis using calculation by simp
  next
    case True
    show ?thesis
    proof (cases "free_frames s = 0")
      case no: True
      then have "clone_page from to i s = Some (Inl (- errno ENOMEM, (mapping_pop ^^ 6) s))"
        using True src by (simp add: clone_page_eq mread_points [OF t1(1)] alloc_frame_def)
      moreover have "table_at m0 A (i # p) \<noteq> None" using t1(2) p True by simp
      ultimately show ?thesis using clone_fails [OF inv no, of base 6, OF _ new] map by (simp add: step_result_def)
    next
      case False
      have "Suc (mapping s) < MAPPER_PAGES" using room map by simp
      from clone_page_copies [OF inv p(1) idx p(3) t1 t2 this False True] obtain s' fs' where
        "clone_page from to i s = Some (Inr s')" "clone_inv m0 A B N s' fs' (D \<union> {q. suffix (i # p) q})"
        "above s s'" "mapping s' = mapping s" "\<forall>r. r \<noteq> i # p \<longrightarrow> table_at (pmem s') B r = table_at (pmem s) B r" by blast
      moreover have "r \<noteq> i # p" if "suffix r p" for r using that by (auto dest: suffix_length_le)
      ultimately show ?thesis by (auto simp: step_result_def)
    qed
  qed
qed

section \<open>Copying a table\<close>

text \<open>The two upper levels copy a table in the same way, given the copy \<open>inner\<close> of an entry of the level below.\<close>

definition clone_at ::
  "nat \<Rightarrow> (mptr \<Rightarrow> mptr \<Rightarrow> nat \<Rightarrow> mmu \<Rightarrow> ((int \<times> mmu) + mmu) option) \<Rightarrow> mptr \<Rightarrow> mptr \<Rightarrow> nat \<Rightarrow> mmu \<Rightarrow> ((int \<times> mmu) + mmu) option" where
  "clone_at l inner from to j s =
     (if \<not> resident_at l (mread s from j)
      then Some (Inr (mwrite s to j (set_upper_level_descriptor_type (mread s to j) MMU040_UPPER_LEVEL_DESCRIPTOR_TYPE_INVALID)))
      else do {
        (ph, s) \<leftarrow> alloc_frame s;
        if ph = 0 then Some (Inl (- errno ENOMEM, (mapping_pop ^^ (2 * (l + 1))) s))
        else do {
          (slot_to, s) \<leftarrow> mapping_push ph s;
          let s = mwrite s to j (set_target_at l (mread s to j) ph);
          let ph = target_at l (mread s from j);
          (slot, s) \<leftarrow> mapping_push ph s;
          r \<leftarrow> for_return [0..<entries_at (Suc l)] (inner (REPAGE ph slot) (slot_to, 0)) s;
          case r of
            Inl ret \<Rightarrow> Some (Inl ret)
          | Inr s \<Rightarrow> Some (Inr (mapping_pop (mapping_pop s))) } })"

lemma clone_pointer_at: "clone_pointer = clone_at 1 clone_page"
  by (intro ext) (simp add: clone_pointer_def clone_at_def Let_def mread_mwrite_same mwrite_mwrite_same resident_at_def target_at_def
      set_target_at_def entries_at_def cong: if_cong)

lemma clone_root_at: "clone_root = clone_at 0 clone_pointer"
  by (intro ext) (simp add: clone_root_def clone_at_def Let_def mread_mwrite_same mwrite_mwrite_same resident_at_def target_at_def
      set_target_at_def entries_at_def cong: if_cong)

text \<open>A new empty table below an entry of the copy.\<close>

lemma table_grown_inv:
  assumes inv: "clone_inv m0 A B N s (f # fs) D" and e: "entry_at (pmem s) B p = Some a" "length p < 3" "p \<notin> D"
    and m: "m = (zero_page f (pmem s))(a := set_target_at (length p - 1) d f)"
    and s': "frame_pool_inv s' fs" "unat (free_frames s') \<le> length fs" "Suc (unat (free_frames s')) = unat (free_frames s)" "pmem s' = m"
    and src: "table_at m0 A p \<noteq> None"
  shows "clone_inv m0 A B N s' fs (insert p D)" "table_at m B p = Some f" "q \<noteq> p \<Longrightarrow> table_at m B q = table_at (pmem s) B q"
proof -
  from inv have pool: "frame_pool_inv s (f # fs)" and sep: "separated (pmem s) B (f # fs)" by (auto simp: clone_inv_def vm_inv_def)
  from pool have f: "page_of f = f" "f \<notin> set fs" by (auto simp: frame_pool_inv_def)
  have l: "length p - 1 < 2" using e by (cases p) auto
  note none = clone_entry_zero(2) [OF inv e(1,3)]
  note g = grow_table [OF sep e(1) f set_target_resident [OF l, of d f] set_target_target [OF l f(1), of d] none e(2), folded m]
  show "table_at m B p = Some f" "q \<noteq> p \<Longrightarrow> table_at m B q = table_at (pmem s) B q" using g(3,5) by blast+
  show "clone_inv m0 A B N s' fs (insert p D)"
    unfolding clone_inv_def s'(4)
  proof (intro conjI ballI allI impI)
    show "vm_inv s' B fs" using s' g(1) by (simp add: vm_inv_def)
    show "unat (free_frames s') \<le> length fs" by (fact s'(2))
    have "p \<noteq> []" using e(1) by auto
    then show "unat (free_frames s') + demand m0 A (insert p D) = N"
      using inv s'(3) demand_insert [OF e(3) _ src] by (simp add: clone_inv_def)
  next
    fix b assume "b \<in> footprint m0 A"
    then have b: "untouched (pmem s) B (f # fs) b" "pmem s b = m0 b"
      "\<And>q. length q = 3 \<Longrightarrow> table_at (pmem s) B q \<noteq> Some (page_of b)" using inv by (auto simp: clone_inv_def)
    then show "untouched m B fs b" "m b = m0 b" using g(4) by auto
    show "length q = 3 \<Longrightarrow> table_at m B q \<noteq> Some (page_of b)" for q
      using b(3) [of q] g(5) [of q] e(2) by (cases "q = p") auto
  next
    fix q b assume q: "entry_at m B q = Some b" "q \<notin> insert p D"
    have "page_of a \<noteq> f" using separated_free [OF sep e(1)] by auto
    moreover have "pmem s b = 0 \<and> b \<noteq> a" if eq: "entry_at (pmem s) B q = Some b"
      using clone_entry_zero(1) [OF inv eq] separated_inj [OF sep e(1), of q] eq q(2) by auto
    ultimately show "m b = 0" using g(6) [OF q(1)] by (auto simp: m zero_page_def)
  next
    fix q assume q: "q \<in> insert p D" "length q = 3"
    then have "same_page m0 A (pmem s) B q" using inv e(2) by (auto simp: clone_inv_def)
    then show "same_page m0 A m B q"
      by (rule same_page_keep [OF _ _ sep]) (use g(2,4) in simp_all)
  qed
qed

text \<open>A table all of whose entries are done is done.\<close>

lemma clone_inv_close:
  assumes inv: "clone_inv m0 A B N s fs (insert p D \<union> {q. \<exists>i \<in> set [0..<entries_at (length p)]. suffix (i # p) q})" and p: "length p < 3"
  shows "clone_inv m0 A B N s fs (D \<union> {q. suffix p q})"
proof -
  let ?D = "insert p D \<union> {q. \<exists>i \<in> set [0..<entries_at (length p)]. suffix (i # p) q}"
  have beyond: "table_at m R q = None" if sfx: "suffix p q" and q: "q \<notin> ?D" for q m R
  proof -
    obtain v where "q = v @ p" "v \<noteq> []" using sfx p q by (auto simp: suffix_def)
    then obtain u x where u: "q = u @ x # p" by (cases v rule: rev_cases) auto
    with q have "\<not> x < entries_at (length p)" by (auto simp: suffix_def)
    then have "table_at m R (x # p) = None" by (simp split: option.splits)
    then show ?thesis unfolding u using table_at_beyond [of m R "x # p" u] by (cases "u = []") auto
  qed
  then have "same_page m0 A (pmem s) B q" if "suffix p q" "q \<notin> ?D" for q using that by (simp add: same_page_def addr_space_unmapped)
  moreover have "same_page m0 A (pmem s) B q" if "q \<in> ?D" "length q = 3" for q
    using inv that unfolding clone_inv_def by blast
  ultimately have "\<forall>q \<in> D \<union> {q. suffix p q}. length q = 3 \<longrightarrow> same_page m0 A (pmem s) B q" by blast
  moreover have sub: "?D \<subseteq> D \<union> {q. suffix p q}" by (auto simp: suffix_def)
  then have "\<forall>q a. entry_at (pmem s) B q = Some a \<longrightarrow> q \<notin> D \<union> {q. suffix p q} \<longrightarrow> pmem s a = 0"
    using inv unfolding clone_inv_def by blast
  moreover have "demand m0 A (D \<union> {q. suffix p q}) = demand m0 A ?D"
  proof (rule demand_cong)
    fix q assume "table_at m0 A q \<noteq> None"
    then have "suffix p q \<Longrightarrow> q \<in> ?D" using beyond [of q m0 A] by argo
    then show "q \<in> D \<union> {q. suffix p q} \<longleftrightarrow> q \<in> ?D" using subsetD [OF sub, of q] by (simp only: Un_iff mem_Collect_eq) blast
  qed
  ultimately show ?thesis using inv unfolding clone_inv_def by simp
qed

text \<open>
  A new table is hung into the copy, both tables of the next level are mapped, and the copy of the
  entries below starts.
\<close>

lemma clone_at_descends:
  assumes inv: "clone_inv m0 A B N s fs D" and p: "length p = l" "l < 2" "i < entries_at l" "\<forall>q \<in> D. \<not> suffix (i # p) q"
    and t1: "points s from t1" "table_at m0 A p = Some t1" and t2: "points s to t2" "table_at (pmem s) B p = Some t2"
    and room: "mapping s + 2 < MAPPER_PAGES" and credit: "free_frames s \<noteq> 0"
    and res: "resident_at l (m0 (t1 + 4 * of_nat i))"
  shows "\<exists>from' to' f s' fs'. clone_at l inner from to i s = do {
      r \<leftarrow> for_return [0..<entries_at (Suc l)] (inner from' to') s';
      case r of Inl ret \<Rightarrow> Some (Inl ret) | Inr s \<Rightarrow> Some (Inr (mapping_pop (mapping_pop s))) } \<and>
    clone_inv m0 A B N s' fs' (insert (i # p) D) \<and> above s s' \<and> mapping s' = mapping s + 2 \<and>
    points s' from' (target_at l (m0 (t1 + 4 * of_nat i))) \<and> points s' to' f \<and> table_at (pmem s') B (i # p) = Some f \<and>
    (\<forall>r. r \<noteq> i # p \<longrightarrow> table_at (pmem s') B r = table_at (pmem s) B r)"
proof -
  let ?c = "t1 + 4 * of_nat i" and ?a = "t2 + 4 * of_nat i"
  from clone_frames [OF inv credit] obtain f gs where fs: "fs = f # gs" and f: "page_of f = f" "f \<noteq> 0"
    and pool: "frame_pool_inv s (f # gs)" .
  have idx: "i < entries_at (length p)" "length p < 3" using p by simp_all
  have e: "entry_at (pmem s) B (i # p) = Some ?a" using t2 idx by simp
  have c: "pmem s ?c = m0 ?c" "untouched (pmem s) B (f # gs) ?c" using source_entry [OF inv t1(2) idx(2,1)] fs by auto
  have sep: "separated (pmem s) B (f # gs)" using inv fs by (simp add: clone_inv_def vm_inv_def)
  have a: "page_of ?a \<notin> set (f # gs)" using separated_free [OF sep e] .
  have ca: "?c \<noteq> ?a" using c(2) e unfolding untouched_def by metis
  have cf: "page_of ?c \<noteq> f" using c(2) by (simp add: untouched_def)
  from pool_frame_points [OF pool credit] obtain s1 where s1: "alloc_frame s = Some (f, s1)" "frame_pool_inv s1 gs"
    "pmem s1 = zero_page f (pmem s)" "above s s1" "mapping s1 = mapping s" "free_frames s1 = free_frames s - 1" by blast
  have ok1: "mapper_ok s1" "mapping s1 < MAPPER_PAGES" using s1(2) by (auto simp: frame_pool_inv_def)
  from push_points [OF ok1, of f] f obtain s2 where s2: "mapping_push f s1 = Some (mapping s, s2)"
    "points s2 (mapping s, 0) f" "above s1 s2" "mapping s2 = Suc (mapping s)" "pmem s2 = pmem s1"
    "free_frames s2 = free_frames s1" "free_frame s2 = free_frame s1" using s1(5) by metis
  let ?v = "set_target_at l (pmem s ?a) f"
  let ?s3 = "s2\<lparr>pmem := (pmem s2)(?a := ?v)\<rparr>" and ?ph = "target_at l (m0 ?c)"
  have pool3: "frame_pool_inv ?s3 gs"
    using frame_pool_inv_write [OF frame_pool_inv_update [OF s1(2) s2(3,5,7)]] room s2 a by simp
  have ok3: "mapper_ok ?s3" "mapping ?s3 < MAPPER_PAGES" using pool3 by (auto simp: frame_pool_inv_def)
  from push_points [OF ok3, of ?ph] obtain s4 where s4: "mapping_push ?ph ?s3 = Some (Suc (mapping s), s4)"
    "points s4 (REPAGE ?ph (Suc (mapping s))) ?ph" "above ?s3 s4" "mapping s4 = mapping s + 2" "pmem s4 = pmem ?s3"
    "free_frames s4 = free_frames s2" "free_frame s4 = free_frame ?s3" using s2(4) by auto
  have ab2: "above s s2" using above_trans s1(4) s2(3) by blast
  then have ab4: "above s s4" using above_trans [of s ?s3 s4] s4(3) by simp
  have pt2: "points s2 from t1" "points s2 to t2" using points_above ab2 t1(1) t2(1) by blast+
  have p4: "points s4 (mapping s, 0) f" using points_above [of ?s3 _ f s4] s2(2) s4(3) by simp
  have r2: "pmem s2 ?c = m0 ?c" "pmem s2 ?a = pmem s ?a" using c(1) cf s2(5) s1(3) a by simp_all
  have run: "clone_at l inner from to i s = do {
      r \<leftarrow> for_return [0..<entries_at (Suc l)] (inner (REPAGE ?ph (Suc (mapping s))) (mapping s, 0)) s4;
      case r of Inl ret \<Rightarrow> Some (Inl ret) | Inr s \<Rightarrow> Some (Inr (mapping_pop (mapping_pop s))) }"
    using res s1(1) f(2) s2(1) s4(1) c(1) r2 ca
    by (simp add: clone_at_def Let_def mread_points [OF t1(1)] mread_points [OF pt2(1)] mread_points [OF pt2(2)] mwrite_points [OF pt2(2)]
        mread_points [where s = "s2\<lparr>pmem := m\<rparr>" for m, simplified, OF pt2(1)])
  have m4: "pmem s4 = (zero_page f (pmem s))(?a := set_target_at (length (i # p) - 1) (pmem s ?a) f)"
    using s4(5) s2(5) s1(3) p by simp
  have pool4: "frame_pool_inv s4 gs"
    using frame_pool_inv_update [OF pool3 s4(3,5,7)] room s4(4) by simp
  have fr: "unat (free_frames s4) \<le> length gs" "Suc (unat (free_frames s4)) = unat (free_frames s)"
    using unat_pred [OF credit] inv s4(6) s2(6) s1(6) fs by (simp_all add: clone_inv_def)
  have src: "table_at m0 A (i # p) \<noteq> None" using t1(2) idx res p(1) by simp
  have notD: "i # p \<notin> D" "length (i # p) < 3" using p by auto
  note grown = table_grown_inv [OF inv [unfolded fs] e notD(2,1) m4 pool4 fr refl src]
  show ?thesis using run grown s4(2,4) ab4 p4 by blast
qed

lemma clones_at:
  assumes inner: "clones m0 A B N base (Suc l) inner" and l: "l < 2" and room: "base + 8 \<le> MAPPER_PAGES"
  shows "clones m0 A B N base l (clone_at l inner)"
  unfolding clones_def
proof (intro allI impI, elim conjE)
  fix s fs D p i t1 t2 "from" to
  assume inv: "clone_inv m0 A B N s fs D" and p: "length p = l" "i < entries_at l" "\<forall>q \<in> D. \<not> suffix (i # p) q"
    and t1: "points s from t1" "table_at m0 A p = Some t1" and t2: "points s to t2" "table_at (pmem s) B p = Some t2"
    and map: "mapping s = base + 2 * (l + 1)"
  have src: "pmem s (t1 + 4 * of_nat i) = m0 (t1 + 4 * of_nat i)"
    using source_entry [OF inv t1(2)] p l by simp
  have e: "entry_at (pmem s) B (i # p) = Some (t2 + 4 * of_nat i)" using t2 p l by simp
  have new: "i # p \<notin> D" using p(3) by auto
  note z = clone_entry_zero [OF inv e new]
  show "step_result m0 A B N base s p (D \<union> {q. suffix (i # p) q}) (clone_at l inner from to i s)"
  proof (cases "resident_at l (m0 (t1 + 4 * of_nat i))")
    case False
    then have "clone_at l inner from to i s = Some (Inr s)"
      using src z(1) by (simp add: clone_at_def mread_points [OF t1(1)] mread_points [OF t2(1)] invalid_zero mwrite_zero [OF t2(1)])
    moreover have "table_at m0 A (i # p) = None" using False t1(2) p by simp
    from step_skips [OF inv this z(2), of base] show ?thesis using calculation by simp
  next
    case res: True
    show ?thesis
    proof (cases "free_frames s = 0")
      case True
      then have "clone_at l inner from to i s = Some (Inl (- errno ENOMEM, (mapping_pop ^^ (2 * (l + 1))) s))"
        using res src by (simp add: clone_at_def mread_points [OF t1(1)] alloc_frame_def)
      moreover have "table_at m0 A (i # p) \<noteq> None" using t1(2) p l res by simp
      ultimately show ?thesis using clone_fails [OF inv True map new] by (simp add: step_result_def)
    next
      case credit: False
      let ?u = "target_at l (m0 (t1 + 4 * of_nat i))" and ?D = "insert (i # p) D"
      have "mapping s + 2 < MAPPER_PAGES" using room map l by simp
      from clone_at_descends [OF inv p(1) l p(2,3) t1 t2 this credit res, of inner] obtain from' to' f s1 fs1 where
        run: "clone_at l inner from to i s = do {
          r \<leftarrow> for_return [0..<entries_at (Suc l)] (inner from' to') s1;
          case r of Inl ret \<Rightarrow> Some (Inl ret) | Inr s \<Rightarrow> Some (Inr (mapping_pop (mapping_pop s))) }" and
        s1: "clone_inv m0 A B N s1 fs1 ?D" "above s s1" "mapping s1 = mapping s + 2" "points s1 from' ?u" "points s1 to' f"
          "table_at (pmem s1) B (i # p) = Some f" "\<forall>r. r \<noteq> i # p \<longrightarrow> table_at (pmem s1) B r = table_at (pmem s) B r" by blast
      have u: "table_at m0 A (i # p) = Some ?u" using t1(2) p l res by simp
      have "step_result m0 A B N base s1 (i # p) (?D \<union> {q. \<exists>x \<in> set [0..<entries_at (Suc l)]. suffix (x # i # p) q})
        (for_return [0..<entries_at (Suc l)] (inner from' to') s1)"
      proof (rule clone_loop [OF inner s1(1)])
        show "\<forall>x \<in> set [0..<entries_at (Suc l)]. \<forall>q \<in> ?D. \<not> suffix (x # i # p) q"
          using p(3) by (auto dest: suffix_ConsD suffix_length_le)
      qed (use p s1 u map in auto)
      then consider (fail) y where "for_return [0..<entries_at (Suc l)] (inner from' to') s1 = Some (Inl y)" "clone_failed m0 A N base y"
        | (ok) s2 fs2 where "for_return [0..<entries_at (Suc l)] (inner from' to') s1 = Some (Inr s2)"
          "clone_inv m0 A B N s2 fs2 (?D \<union> {q. \<exists>x \<in> set [0..<entries_at (Suc l)]. suffix (x # i # p) q})" "above s1 s2"
          "mapping s2 = mapping s1" "\<forall>r. suffix r (i # p) \<longrightarrow> table_at (pmem s2) B r = table_at (pmem s1) B r"
        by (auto simp: step_result_def split: option.splits sum.splits)
      then show ?thesis
      proof cases
        case fail
        then show ?thesis by (simp add: step_result_def run)
      next
        case ok
        let ?s = "s2\<lparr>mapping := mapping s\<rparr>"
        have "clone_at l inner from to i s = Some (Inr ?s)"
          using ok(1) pop_two [of s2 s] ok(4) s1(3) by (simp add: run)
        moreover have "clone_inv m0 A B N s2 fs2 (D \<union> {q. suffix (i # p) q})"
          by (rule clone_inv_close) (use ok(2) p l in auto)
        then have "clone_inv m0 A B N ?s fs2 (D \<union> {q. suffix (i # p) q})"
          using vm_inv_pop [OF _ above_trans [OF s1(2) ok(3)]] map room l by (simp add: clone_inv_def)
        moreover have "above s ?s"
          using above_trans [OF s1(2) ok(3)] room map l by (simp add: above_def mapper_ok_def)
        moreover have "table_at (pmem ?s) B r = table_at (pmem s) B r" if sfx: "suffix r p" for r
        proof -
          have "r \<noteq> i # p" "suffix r (i # p)" using sfx by (auto simp: suffix_Cons dest: suffix_length_le)
          then show ?thesis using ok(5) s1(7) by (simp del: table_at.simps)
        qed
        ultimately show ?thesis by (auto simp: step_result_def)
      qed
    qed
  qed
qed

section \<open>The copy of an address space\<close>

lemma footprint_pages:
  assumes "separated m A (B # fs)" "b \<in> footprint m A"
  shows "page_of b \<notin> set (B # fs)"
  using assms(2) separated_free [OF assms(1)] separated_mapped [OF assms(1)] unfolding footprint_def by blast

lemma clone_start:
  assumes pool: "frame_pool_inv s fs" "unat (free_frames s) \<le> length fs"
    and B: "page_of B = B" "B \<notin> set fs" "\<forall>b. page_of b = B \<longrightarrow> pmem s b = 0"
    and apart: "\<forall>b \<in> footprint (pmem s) A. page_of b \<notin> set (B # fs)"
  shows "clone_inv (pmem s) A B (unat (free_frames s)) s fs {[]}"
proof -
  have none: "table_at (pmem s) B q = None" if "q \<noteq> []" for q using table_at_cleared [OF B(1,3) that] .
  have E: "page_of a = B" if "entry_at (pmem s) B q = Some a" for q a
  proof (cases q)
    case (Cons i r)
    with that obtain t where t: "table_at (pmem s) B r = Some t" by (auto split: option.splits)
    then have "r = []" using none by fastforce
    with that Cons show ?thesis using entry_page [OF B(1)] by (auto split: if_splits)
  qed (use that in simp)
  have "untouched (pmem s) B fs b" if "b \<in> footprint (pmem s) A" for b
    using that apart E by (auto simp: untouched_def)
  moreover have "vm_inv s B fs" using pool(1) separated_cleared(1) [OF B(1,3,2)] by (simp add: vm_inv_def)
  moreover have "table_at (pmem s) B q \<noteq> Some (page_of b)" if "length q = 3" for q b
    using none [of q] that by force
  moreover have "demand (pmem s) A {[]} = 0" by (simp add: demand_def)
  ultimately show ?thesis using pool(2) E B(3) by (simp add: clone_inv_def)
qed

lemma clone_inv_update:
  assumes "clone_inv m0 A B N s fs D" "above s s'" "mapping s' < MAPPER_PAGES"
    "pmem s' = pmem s" "free_frames s' = free_frames s" "free_frame s' = free_frame s"
  shows "clone_inv m0 A B N s' fs D"
  using assms frame_pool_inv_update [of s fs s'] by (simp add: clone_inv_def vm_inv_def)

text \<open>The source is not changed when its entries and its pages are not.\<close>

lemma footprint_addr_space:
  assumes "\<forall>b \<in> footprint m0 A. m b = m0 b"
  shows "addr_space m A = addr_space m0 A"
proof
  fix q
  have keep: "m a = m0 a" if "entry_at m0 A p = Some a" for p a using assms that by (auto simp: footprint_def)
  have T: "table_at m A p = table_at m0 A p" for p by (rule table_at_cong) (rule keep)
  have "entry_at m A q = entry_at m0 A q" by (rule entry_at_same_table) (simp add: T)
  then show "addr_space m A q = addr_space m0 A q" using keep [of q] T [of q]
    by (cases "entry_at m0 A q") (simp_all add: addr_space_def)
qed

definition root_frame :: "u32 \<Rightarrow> u32" where
  "root_frame handle = push_bit SRP_URP_DESCRIPTOR_BITS (root_pointer handle)"

lemma clone_runs:
  assumes pool: "frame_pool_inv s fs" "unat (free_frames s) \<le> length fs" and room: "mapping s + 8 \<le> MAPPER_PAGES"
    and B: "B = root_frame t" "page_of B = B" "B \<notin> set fs" "\<forall>b. page_of b = B \<longrightarrow> pmem s b = 0"
    and A: "A = root_frame f" "\<forall>b \<in> footprint (pmem s) A. page_of b \<notin> set (B # fs)"
  shows "\<exists>r s'. mmu040_clone_userspace (Some f) (Some t) s = Some (r, s') \<and> mapping s' = mapping s \<and>
    (\<forall>b \<in> footprint (pmem s) A. pmem s' b = pmem s b) \<and>
    (if demand (pmem s) A UNIV \<le> unat (free_frames s)
     then r = 0 \<and> (\<exists>fs'. clone_inv (pmem s) A B (unat (free_frames s)) s' fs' UNIV)
     else r = - errno ENOMEM \<and> free_frames s' = 0)"
proof -
  let ?m0 = "pmem s" and ?base = "mapping s" and ?N = "unat (free_frames s)"
  note inv0 = clone_start [OF pool B(2-4) A(2)]
  have ok: "mapper_ok s" "mapping s < MAPPER_PAGES" using pool(1) by (auto simp: frame_pool_inv_def)
  from push_points [OF ok, of A] obtain s1 where s1: "mapping_push A s = Some (mapping s, s1)"
    "points s1 (REPAGE A (mapping s)) A" "above s s1" "mapping s1 = Suc (mapping s)" "pmem s1 = pmem s"
    "free_frames s1 = free_frames s" "free_frame s1 = free_frame s" by blast
  have "mapper_ok s1" "mapping s1 < MAPPER_PAGES" using s1(3,4) room by (auto simp: above_def)
  from push_points [OF this, of B] obtain s2 where s2: "mapping_push B s1 = Some (Suc (mapping s), s2)"
    "points s2 (REPAGE B (Suc (mapping s))) B" "above s1 s2" "mapping s2 = mapping s + 2" "pmem s2 = pmem s"
    "free_frames s2 = free_frames s" "free_frame s2 = free_frame s" using s1 by auto
  have ab: "above s s2" using above_trans s1(3) s2(3) by blast
  have inv2: "clone_inv ?m0 A B ?N s2 fs {[]}"
    using clone_inv_update [OF inv0 ab _ s2(5-7)] s2(4) room by simp
  have "clones ?m0 A B ?N ?base 0 clone_root"
    unfolding clone_root_at clone_pointer_at
    using clones_at [OF clones_at [OF clone_page_clones [OF room, unfolded numeral_2_eq_2]]] room by simp
  then have step: "step_result ?m0 A B ?N ?base s2 [] ({[]} \<union> {q. \<exists>i \<in> set [0..<ROOT_LEVEL_DESCRIPTORS]. suffix [i] q})
    (for_return [0..<ROOT_LEVEL_DESCRIPTORS] (clone_root (REPAGE A (mapping s)) (REPAGE B (Suc (mapping s)))) s2)"
    by (rule clone_loop [OF _ inv2, where l = 0]) (use points_above [OF s1(2) s2(3)] s2 in \<open>auto simp: entries_at_def\<close>)
  have run: "mmu040_clone_userspace (Some f) (Some t) s = do {
      r \<leftarrow> for_return [0..<ROOT_LEVEL_DESCRIPTORS] (clone_root (REPAGE A (mapping s)) (REPAGE B (Suc (mapping s)))) s2;
      case r of Inl ret \<Rightarrow> Some ret | Inr s \<Rightarrow> Some (0, mapping_pop (mapping_pop s)) }"
    using s1(1) s2(1) by (simp add: mmu040_clone_userspace_def Let_def A(1) [unfolded root_frame_def, symmetric] B(1) [unfolded root_frame_def, symmetric])
  from step consider (fail) y where
      "for_return [0..<ROOT_LEVEL_DESCRIPTORS] (clone_root (REPAGE A (mapping s)) (REPAGE B (Suc (mapping s)))) s2 = Some (Inl y)"
      "clone_failed ?m0 A ?N ?base y"
    | (ok) s3 fs3 where
      "for_return [0..<ROOT_LEVEL_DESCRIPTORS] (clone_root (REPAGE A (mapping s)) (REPAGE B (Suc (mapping s)))) s2 = Some (Inr s3)"
      "clone_inv ?m0 A B ?N s3 fs3 ({[]} \<union> {q. \<exists>i \<in> set [0..<ROOT_LEVEL_DESCRIPTORS]. suffix [i] q})" "above s2 s3" "mapping s3 = mapping s2"
    by (auto simp: step_result_def split: option.splits sum.splits)
  then show ?thesis
  proof cases
    case fail
    then show ?thesis by (cases y) (auto simp: run clone_failed_def)
  next
    case ok
    let ?s = "s3\<lparr>mapping := mapping s\<rparr>"
    have "mmu040_clone_userspace (Some f) (Some t) s = Some (0, ?s)"
      using ok(1,4) s2(4) pop_two [of s3 s] by (simp add: run)
    moreover have "clone_inv ?m0 A B ?N s3 fs3 ({} \<union> {q. suffix [] q})"
      by (rule clone_inv_close) (use ok(2) in \<open>simp_all add: entries_at_def\<close>)
    then have "clone_inv ?m0 A B ?N ?s fs3 UNIV"
      using vm_inv_pop [OF _ above_trans [OF ab ok(3)]] room by (simp add: clone_inv_def)
    moreover from this have "\<forall>b \<in> footprint ?m0 A. pmem ?s b = ?m0 b" "demand ?m0 A UNIV \<le> ?N"
      by (simp_all add: clone_inv_def)
    ultimately show ?thesis by (intro exI [of _ 0] exI [of _ ?s]) auto
  qed
qed

lemma clone_copies:
  assumes pool: "frame_pool_inv s fs" "unat (free_frames s) \<le> length fs" and room: "mapping s + 8 \<le> MAPPER_PAGES"
    and B: "B = root_frame t" "page_of B = B" "B \<notin> set fs" "\<forall>b. page_of b = B \<longrightarrow> pmem s b = 0"
    and A: "A = root_frame f" "separated (pmem s) A (B # fs)"
  shows "\<exists>r s'. mmu040_clone_userspace (Some f) (Some t) s = Some (r, s') \<and> mapping s' = mapping s \<and>
    addr_space (pmem s') A = addr_space (pmem s) A \<and>
    (\<forall>q b. length q = 3 \<longrightarrow> table_at (pmem s) A q = Some (page_of b) \<longrightarrow> pmem s' b = pmem s b) \<and>
    (if demand (pmem s) A UNIV \<le> unat (free_frames s)
     then r = 0 \<and> unat (free_frames s') + demand (pmem s) A UNIV = unat (free_frames s) \<and> (\<exists>fs'. vm_inv s' B fs') \<and>
       (\<forall>q. length q = 3 \<longrightarrow> same_page (pmem s) A (pmem s') B q) \<and>
       (\<forall>p q b. length p = 3 \<longrightarrow> length q = 3 \<longrightarrow> table_at (pmem s) A p = Some (page_of b) \<longrightarrow>
          table_at (pmem s') B q \<noteq> Some (page_of b))
     else r = - errno ENOMEM \<and> free_frames s' = 0)"
proof -
  have apart: "\<forall>b \<in> footprint (pmem s) A. page_of b \<notin> set (B # fs)" using footprint_pages [OF A(2)] by blast
  have pages: "length q = 3 \<Longrightarrow> table_at (pmem s) A q = Some (page_of b) \<Longrightarrow> b \<in> footprint (pmem s) A" for q b
    by (auto simp: footprint_def)
  from clone_runs [OF pool room B A(1) apart] obtain r s' where
    run: "mmu040_clone_userspace (Some f) (Some t) s = Some (r, s')" "mapping s' = mapping s"
      "\<forall>b \<in> footprint (pmem s) A. pmem s' b = pmem s b" and
    res: "if demand (pmem s) A UNIV \<le> unat (free_frames s)
      then r = 0 \<and> (\<exists>fs'. clone_inv (pmem s) A B (unat (free_frames s)) s' fs' UNIV)
      else r = - errno ENOMEM \<and> free_frames s' = 0" by blast
  from res have "if demand (pmem s) A UNIV \<le> unat (free_frames s)
     then r = 0 \<and> unat (free_frames s') + demand (pmem s) A UNIV = unat (free_frames s) \<and> (\<exists>fs'. vm_inv s' B fs') \<and>
       (\<forall>q. length q = 3 \<longrightarrow> same_page (pmem s) A (pmem s') B q) \<and>
       (\<forall>p q b. length p = 3 \<longrightarrow> length q = 3 \<longrightarrow> table_at (pmem s) A p = Some (page_of b) \<longrightarrow>
          table_at (pmem s') B q \<noteq> Some (page_of b))
     else r = - errno ENOMEM \<and> free_frames s' = 0"
    using pages unfolding clone_inv_def by (auto split: if_splits)
  with run pages footprint_addr_space [OF run(3)] show ?thesis by blast
qed

text \<open>
  C2. Copying an address space: \<^verbatim>\<open>mmu040_clone_userspace\<close>, given an empty root table for the copy that
  the source does not use and eight free mapper pages, always returns, with all its temporary
  mappings released and the source space as it was, tables, attributes and contents of the pages.
  It succeeds just when there are as many frames to hand out as the source has pointer tables,
  page tables and pages; it has then used exactly these, the copy maps the same pages with the same
  attributes and, in frames that the source does not use, the same contents, and the invariant
  holds for the copy and the rest of the free list.  Otherwise it returns \<^verbatim>\<open>-ENOMEM\<close> and leaves no
  frame to hand out.
\<close>

theorem mmu040_clone_userspace_copies:
  assumes pool: "frame_pool_inv s fs" "unat (free_frames s) \<le> length fs" and room: "mapping s + 8 \<le> MAPPER_PAGES"
    and B: "B = root_frame t" "page_of B = B" "B \<notin> set fs" "\<forall>b. page_of b = B \<longrightarrow> pmem s b = 0"
    and A: "A = root_frame f" "separated (pmem s) A (B # fs)"
  shows "\<exists>r s'. mmu040_clone_userspace (Some f) (Some t) s = Some (r, s') \<and> mapping s' = mapping s \<and>
    addr_space (pmem s') A = addr_space (pmem s) A \<and>
    (\<forall>q b. length q = 3 \<longrightarrow> table_at (pmem s) A q = Some (page_of b) \<longrightarrow> pmem s' b = pmem s b) \<and>
    (if demand (pmem s) A UNIV \<le> unat (free_frames s)
     then r = 0 \<and> unat (free_frames s') + demand (pmem s) A UNIV = unat (free_frames s) \<and> (\<exists>fs'. vm_inv s' B fs') \<and>
       (\<forall>q. length q = 3 \<longrightarrow> same_page (pmem s) A (pmem s') B q) \<and>
       (\<forall>p q b. length p = 3 \<longrightarrow> length q = 3 \<longrightarrow> table_at (pmem s) A p = Some (page_of b) \<longrightarrow>
          table_at (pmem s') B q \<noteq> Some (page_of b))
     else r = - errno ENOMEM \<and> free_frames s' = 0)"
  by (rule clone_copies [OF assms])

lemma addr_space_aligned: "addr_space m R q = Some (g, attr) \<Longrightarrow> page_of g = g"
  using target_2_aligned [unfolded target_at_def] by (auto simp: addr_space_def page_attributes_def split: if_splits)

text \<open>A space of one page, next to an empty root table and three free frames.\<close>

definition clone_mem :: "u32 \<Rightarrow> u32" where
  "clone_mem = (\<lambda>_. 0)(0x80005000 := 0x80006000, 0x80006000 := 0x80007000,
     0x80000004 := set_target_at 0 0 0x80001000, 0x80001008 := set_target_at 1 0 0x80002000,
     0x8000200C := page_desc 0 0x80003000 False True, 0x80003008 := 0xCAFEBABE)"

definition clone_mmu :: mmu where
  "clone_mmu = boot_mmu\<lparr>pmem := clone_mem, free_frame := 0x80005000\<rparr>"

lemma zero_page_idle: "(\<And>b. page_of b = f \<Longrightarrow> m b = 0) \<Longrightarrow> zero_page f m = m"
  by (auto simp: zero_page_def fun_eq_iff)

lemma table_hung:
  assumes sep: "separated m R (f # fs)" and e: "entry_at m R (i # p) = Some a" and new: "table_at m R (i # p) = None" "length p < 2"
    and m': "m' = m(a := set_target_at (length p) d f)"
    and f: "page_of f = f" "f \<notin> set fs" and idle: "zero_page f m = m"
  shows "separated m' R fs" "table_at m' R q = (if q = i # p then Some f else table_at m R q)"
proof -
  have v: "resident_at (length (i # p) - 1) (set_target_at (length p) d f)"
    "target_at (length (i # p) - 1) (set_target_at (length p) d f) = f" using new(2) f(1) by simp_all
  note g = grow_table [OF sep e f v new(1), unfolded idle, folded m']
  show "separated m' R fs" using g(1) new(2) by simp
  show "table_at m' R q = (if q = i # p then Some f else table_at m R q)"
    using g(3) g(5) [of q] new(2) by (cases "q = i # p") simp_all
qed

lemma clone_mem_space:
  defines "fs \<equiv> [0x80004000, 0x80005000, 0x80006000, 0x80007000]"
  shows "separated clone_mem 0x80000000 fs"
    "table_at clone_mem 0x80000000 q = (if q = [] then Some 0x80000000 else if q = [1] then Some 0x80001000
       else if q = [2, 1] then Some 0x80002000 else if q = [3, 2, 1] then Some 0x80003000 else None)"
    "addr_space clone_mem 0x80000000 [3, 2, 1] = Some (0x80003000, False, True, MMU040_CACHE_MODE_CACHE_COPY_BACK)"
proof -
  define m0 :: "u32 \<Rightarrow> u32" where "m0 = (\<lambda>_. 0)(0x80005000 := 0x80006000, 0x80006000 := 0x80007000)"
  define m1 where "m1 = m0(0x80000004 := set_target_at 0 0 0x80001000)"
  define m2 where "m2 = m1(0x80001008 := set_target_at 1 0 0x80002000)"
  define m3 where "m3 = m2(0x8000200C := page_desc 0 0x80003000 False True)"
  note page = page_of_def MMU_PAGE_MASK_def
  note ms = m0_def m1_def m2_def m3_def
  note sizes = entries_at_def ROOT_LEVEL_DESCRIPTORS_def POINTER_LEVEL_DESCRIPTORS_def PAGE_DESCRIPTORS_def
  note idle = zero_page_def fun_eq_iff page ms
  have sep0: "separated m0 0x80000000 (0x80001000 # 0x80002000 # 0x80003000 # fs)"
    by (rule separated_cleared) (auto simp: fs_def m0_def page)
  have T0: "table_at m0 0x80000000 q = (if q = [] then Some 0x80000000 else None)" for q
    using table_at_cleared [of "0x80000000" m0 q] by (auto simp: m0_def page)
  have e1: "entry_at m0 0x80000000 [1] = Some 0x80000004" by (simp add: sizes)
  have n1: "table_at m0 0x80000000 [1] = None" unfolding T0 by simp
  have h1: "separated m1 0x80000000 (0x80002000 # 0x80003000 # fs)"
    "table_at m1 0x80000000 q = (if q = [1] then Some 0x80001000 else table_at m0 0x80000000 q)" for q
    by (rule table_hung [OF sep0 e1 n1 _ m1_def [folded list.size(3) [where 'a = nat]]]; auto simp: page fs_def idle)+
  have e2: "entry_at m1 0x80000000 [2, 1] = Some 0x80001008"
    unfolding entry_at.simps(2) h1(2) by (simp add: sizes)
  have n2: "table_at m1 0x80000000 [2, 1] = None" unfolding h1(2) T0 by simp
  have h2: "separated m2 0x80000000 (0x80003000 # fs)"
    "table_at m2 0x80000000 q = (if q = [2, 1] then Some 0x80002000 else table_at m1 0x80000000 q)" for q
    by (rule table_hung [OF h1(1) e2 n2, where d = 0]; auto simp: page fs_def idle)+
  have e3: "entry_at m2 0x80000000 [3, 2, 1] = Some 0x8000200C"
    unfolding entry_at.simps(2) h2(2) by (simp add: sizes)
  have nof: "\<forall>q b. entry_at m2 0x80000000 q = Some b \<longrightarrow> page_of b \<noteq> 0x80003000"
    using separated_free [OF h2(1)] by force
  have sep2: "separated m2 0x80000000 fs" using h2(1) unfolding separated_def by simp
  have p3: "page_of 0x80003000 = (0x80003000 :: u32)" "0x80003000 \<notin> set fs" "(0x80003000 :: u32) \<noteq> 0"
    by (simp_all add: page fs_def)
  have m3: "m3 = (zero_page 0x80003000 m2)(0x8000200C := page_desc 0 0x80003000 False True)"
    unfolding m3_def by (subst zero_page_idle) (auto simp: page ms)
  note attr = page_desc_attributes [OF p3(1), of 0 False True]
  note h3 = install_frame [OF sep2 e3 _ p3 nof attr(2,3), folded m3, simplified]
  have "clone_mem b = m3 b" if "page_of b \<noteq> 0x80003000" for b
    using that by (auto simp: clone_mem_def ms page)
  note c = frame_contents [OF h3(1) _ _ this, of "[3, 2, 1]"]
  have t3: "table_at m3 0x80000000 [3, 2, 1] = Some 0x80003000" unfolding h3(4) by simp
  show "separated clone_mem 0x80000000 fs" using c(4) t3 by simp
  show "table_at clone_mem 0x80000000 q = (if q = [] then Some 0x80000000 else if q = [1] then Some 0x80001000
       else if q = [2, 1] then Some 0x80002000 else if q = [3, 2, 1] then Some 0x80003000 else None)"
    using c(1) t3 by (auto simp: h3(4) h2(2) h1(2) T0 simp del: table_at.simps)
  show "addr_space clone_mem 0x80000000 [3, 2, 1] = Some (0x80003000, False, True, MMU040_CACHE_MODE_CACHE_COPY_BACK)"
    using c(3) t3 h3(2) attr(1) by simp
qed

theorem mmu040_clone_userspace_copies_witness:
  "\<exists>s' g. mmu040_clone_userspace (Some (set_root_pointer 0 (drop_bit 9 0x80000000))) (Some (set_root_pointer 0 (drop_bit 9 0x80004000)))
       clone_mmu = Some (0, s') \<and> free_frames s' = 0 \<and>
     addr_space (pmem s') 0x80004000 [3, 2, 1] = Some (g, False, True, MMU040_CACHE_MODE_CACHE_COPY_BACK) \<and>
     g \<noteq> 0x80003000 \<and> pmem s' (g + 8) = 0xCAFEBABE"
proof -
  let ?A = "0x80000000 :: u32" and ?B = "0x80004000 :: u32" and ?fs = "[0x80005000, 0x80006000, 0x80007000] :: u32 list"
  note page = page_of_def MMU_PAGE_MASK_def
  have pm: "pmem clone_mmu = clone_mem" "unat (free_frames clone_mmu) = 3" "mapping clone_mmu = 0"
    by (simp_all add: clone_mmu_def boot_mmu_def)
  have pool: "frame_pool_inv clone_mmu ?fs"
    by (simp add: frame_pool_inv_def mapper_ok_def clone_mmu_def boot_mmu_def MAPPER_PAGES_def clone_mem_def page)
  have root: "?A = root_frame (set_root_pointer 0 (drop_bit 9 ?A))" "?B = root_frame (set_root_pointer 0 (drop_bit 9 ?B))"
    unfolding root_frame_def SRP_URP_DESCRIPTOR_BITS_def by (subst handle_of_frame; simp add: page)+
  have B: "page_of ?B = ?B" "?B \<notin> set ?fs" "\<forall>b. page_of b = ?B \<longrightarrow> pmem clone_mmu b = 0"
    by (auto simp: pm clone_mem_def page)
  have "{q \<in> UNIV. q \<noteq> [] \<and> table_at clone_mem ?A q \<noteq> None} = {[1], [2, 1], [3, 2, 1]}"
    unfolding clone_mem_space(2) by auto
  then have demand: "demand clone_mem ?A UNIV = 3" by (simp add: demand_def)
  have "unat (free_frames clone_mmu) \<le> length ?fs" "mapping clone_mmu + 8 \<le> MAPPER_PAGES"
    "separated (pmem clone_mmu) ?A (?B # ?fs)" using pm clone_mem_space(1) by (simp_all add: MAPPER_PAGES_def)
  from mmu040_clone_userspace_copies [OF pool this(1,2) root(2) B root(1) this(3)] obtain s' where
    s': "mmu040_clone_userspace (Some (set_root_pointer 0 (drop_bit 9 ?A))) (Some (set_root_pointer 0 (drop_bit 9 ?B))) clone_mmu = Some (0, s')"
      "unat (free_frames s') = 0" "\<forall>q. length q = 3 \<longrightarrow> same_page clone_mem ?A (pmem s') ?B q"
      "\<forall>p q b. length p = 3 \<longrightarrow> length q = 3 \<longrightarrow> table_at clone_mem ?A p = Some (page_of b) \<longrightarrow> table_at (pmem s') ?B q \<noteq> Some (page_of b)"
    by (auto simp: pm demand)
  from s'(3) have "same_page clone_mem ?A (pmem s') ?B [3, 2, 1]" by simp
  then obtain g where g: "addr_space (pmem s') ?B [3, 2, 1] = Some (g, False, True, MMU040_CACHE_MODE_CACHE_COPY_BACK)"
    "\<forall>b. page_of b = g \<longrightarrow> pmem s' b = clone_mem (0x80003000 + (b AND MMU_PAGE_MASK))"
    unfolding same_page_def clone_mem_space(3) option.case prod.case by blast
  have tg: "table_at (pmem s') ?B [3, 2, 1] = Some g" using addr_space_resident [OF g(1)] by simp
  have "table_at clone_mem ?A [3, 2, 1] = Some 0x80003000" unfolding clone_mem_space(2) by simp
  then have "g \<noteq> 0x80003000" using s'(4) [rule_format, of "[3, 2, 1]" "[3, 2, 1]" "0x80003000"] tg by (auto simp: page)
  moreover have "page_of g = g" using addr_space_aligned [OF g(1)] .
  from page_of_offset [OF this, of 8] g(2) have "pmem s' (g + 8) = 0xCAFEBABE" by (simp add: clone_mem_def)
  ultimately show ?thesis using s'(1,2) g(1) by (intro exI [of _ s'] exI [of _ g]) (simp add: unat_eq_0)
qed

end
