(* ===== verification/ForkSpec.thy ===== *)
theory ForkSpec
  imports CloneCopy SyscallSpec ProcessSpec
begin

text \<open>
  Properties of the system call \<^verbatim>\<open>fork\<close> (\<^theory_text>\<open>Syscall\<close>), on those of the creation of a process and of the copy
  of an address space.
\<close>

section \<open>Forking\<close>

lemma process_obj_with_procs [simp]:
  "process_obj p (with_procs q m) = pobj q p" "procs_of (with_procs q m) = q"
  "current_process (with_procs q m) = process_from_pid (process_current q) q"
  by (simp_all add: process_obj_def procs_of_def with_procs_def current_process_def)

text \<open>The steps of a successful \<^verbatim>\<open>fork\<close>; its messages may have changed the state of the drivers.\<close>

lemma forkE:
  assumes "fork env m = Some (pid, m')" "0 \<le> pid" "current_process m = Some cur" "process_obj cur m = Some pr"
  obtains n s1 new child pr2 r s2 w child2 where "cur \<noteq> 0"
    "process_create (se_process env) (p_user pr) (p_group pr) (procs_of m) = Some (n, s1)" "0 \<le> n"
    "process_from_pid n s1 = Some new" "new \<noteq> 0" "pobj s1 new = Some child" "pobj s1 cur = Some pr2"
    "with_mmu (mmu040_clone_userspace (Some (p_userspace pr2)) (Some (p_userspace child))) s1 = Some (r, s2)" "0 \<le> r"
    "pobj s2 new = Some child2" "0 < length (reg_general (p_reg pr2))" "pid = p_pid child2"
    "m' = set_process_obj new (child2\<lparr>p_reg := (p_reg child2)\<lparr>reg_pc := reg_pc (p_reg pr2), reg_stack := reg_stack (p_reg pr2),
        reg_general := (reg_general (p_reg pr2))[0 := 0]\<rparr>, p_file := p_file pr2, p_parent := p_pid pr2\<rparr>)
      (with_procs s2 (with_drv w m))"
proof -
  have log: "\<exists>w. m2 = with_drv w m1" if "log_message lv fmt va m1 = Some m2" for lv fmt va and m1 m2 :: "'a machine"
  proof -
    have "with_drv (k_drv (v_kernel (m_vfs m1))) m1 = m1" by (simp add: with_drv_def)
    then show ?thesis using that by (auto simp: log_message_def put_out_def bind_eq_Some_conv split: if_splits) metis
  qed
  have "cur \<noteq> 0" using assms by (auto simp: fork_def)
  have out: "with_drv w (with_procs q m1) = with_procs q (with_drv w m1)" "with_procs q (with_procs q' m1) = with_procs q m1"
    for q q' w and m1 :: "'a machine"
    by (simp_all add: with_procs_def with_drv_def)
  show ?thesis
    using assms \<open>cur \<noteq> 0\<close>
    by (auto simp: fork_def Let_def bind_eq_Some_conv wr_eq_Some out split: if_splits dest!: log)
      (rule that, (assumption | simp)+)
qed

text \<open>The new root table, cleared, and the space of the caller beside it.\<close>

lemma init_userspace_takes:
  assumes "frame_pool_inv s (B # fs)" "free_frames s \<noteq> 0"
  shows "\<exists>u s'. mmu040_init_userspace (Some h) s = Some (0, Some u, s') \<and> urp s' = u \<and> root_frame u = B \<and>
    frame_pool_inv s' fs \<and> pmem s' = zero_page B (pmem s) \<and> mapping s' = mapping s \<and> free_frames s' = free_frames s - 1"
proof -
  from pool_frame_points [OF assms] obtain s1 where s1: "alloc_frame s = Some (B, s1)" "frame_pool_inv s1 fs"
    "pmem s1 = zero_page B (pmem s)" "mapping s1 = mapping s" "free_frames s1 = free_frames s - 1" by blast
  have B: "page_of B = B" "B \<noteq> 0" using assms(1) by (auto simp: frame_pool_inv_def)
  let ?u = "set_root_pointer 0 (drop_bit SRP_URP_DESCRIPTOR_BITS B)"
  have "mmu040_init_userspace (Some h) s = Some (0, Some ?u, s1\<lparr>urp := ?u\<rparr>)"
    using s1 B by (simp add: mmu040_init_userspace_def Let_def)
  moreover have "frame_pool_inv (s1\<lparr>urp := ?u\<rparr>) fs" using s1(2) by (simp add: frame_pool_inv_def mapper_ok_def)
  ultimately show ?thesis using s1(3-5) handle_of_frame [OF B(1)]
    by (simp add: root_frame_def SRP_URP_DESCRIPTOR_BITS_def)
qed

lemma zeroed_beside:
  assumes sep: "separated m A (B # fs)" and B: "page_of B = B"
  shows "addr_space (zero_page B m) A = addr_space m A" "separated (zero_page B m) A (B # fs)"
    "length q = 3 \<Longrightarrow> table_at m A q = Some (page_of b) \<Longrightarrow> zero_page B m b = m b"
    "length q = 3 \<Longrightarrow> table_at (zero_page B m) A q = table_at m A q"
    "same_page (zero_page B m) A m' R q = same_page m A m' R q"
proof -
  have keep: "zero_page B m a = m a" if "page_of a \<noteq> B" for a using that by (simp add: zero_page_def)
  have entry: "zero_page B m a = m a" if "entry_at m A p = Some a" for p a
    using separated_free [OF sep that] keep by auto
  have T: "table_at (zero_page B m) A p = table_at m A p" for p by (rule table_at_cong) (rule entry)
  have E: "entry_at (zero_page B m) A p = entry_at m A p" for p by (rule entry_at_same_table) (simp add: T)
  have page: "zero_page B m b = m b" if "length q = 3" "table_at m A q = Some (page_of b)" for q b
    using separated_mapped [OF sep that] keep by auto
  have S: "addr_space (zero_page B m) A = addr_space m A"
  proof
    fix q show "addr_space (zero_page B m) A q = addr_space m A q"
      using entry [of q] by (cases "entry_at m A q") (simp_all add: addr_space_def T E)
  qed
  show "addr_space (zero_page B m) A = addr_space m A" "separated (zero_page B m) A (B # fs)"
    "length q = 3 \<Longrightarrow> table_at m A q = Some (page_of b) \<Longrightarrow> zero_page B m b = m b"
    "length q = 3 \<Longrightarrow> table_at (zero_page B m) A q = table_at m A q"
    using S sep T page unfolding separated_def T E by simp_all
  have "zero_page B m (g + (b AND MMU_PAGE_MASK)) = m (g + (b AND MMU_PAGE_MASK))" if "addr_space m A q = Some (g, x)" for g x b
  proof (rule page)
    show "length q = 3" using addr_space_resident [OF that] by simp
    show "table_at m A q = Some (page_of (g + (b AND MMU_PAGE_MASK)))"
      using addr_space_resident [OF that] page_of_offset(1) [OF addr_space_aligned [OF that], of "b AND MMU_PAGE_MASK"]
        mask_less [of "b AND MMU_PAGE_MASK" 12] by (simp add: page_mask and.assoc)
  qed
  then show "same_page (zero_page B m) A m' R q = same_page m A m' R q"
    by (auto simp: same_page_def S split: option.splits prod.splits)
qed

text \<open>
  C40. A successful \<^verbatim>\<open>fork\<close> makes a running child that is a copy of the calling process: the same open files,
  owner and group, program counter, stack and general registers but for a result of zero, and the caller as
  its parent.  Its address space, rooted in the frame that was the first free one, maps the same pages with the
  same attributes and the same contents, in frames of its own; the space and the pages of the caller are as
  they were.  The caller itself is unchanged and still the current process.  But the status register is not
  copied: the child has what the memory of its object happened to hold, and starts with it.  And the address space in use
  is now that of the child: creating a process switches to its new address space, and nothing switches back.
\<close>

theorem fork_copies_process:
  assumes "fork env m = Some (pid, m')" "0 \<le> pid" "current_process m = Some cur" "process_obj cur m = Some pr"
    and new: "kmalloc sizeof_Process (kheap_of (procs_of m)) = Some (new, h)" "new \<noteq> cur"
    and pool: "frame_pool_inv (kmmu h) (B # fs)" "free_frames (kmmu h) \<noteq> 0" "unat (free_frames (kmmu h)) \<le> Suc (length fs)"
    and room: "mapping (kmmu h) + 8 \<le> MAPPER_PAGES"
    and space: "A = root_frame (p_userspace pr)" "separated (pmem (kmmu h)) A (B # fs)"
  defines "mem \<equiv> pmem (kmmu h)" and "mem' \<equiv> pmem (kmmu (kheap_of (procs_of m')))"
  shows "\<exists>c. process_from_pid pid (procs_of m') = Some new \<and> process_obj new m' = Some c \<and>
    p_pid c = pid \<and> p_parent c = p_pid pr \<and> p_state c = PROCESS_STATE_RUNNING \<and> p_user c = p_user pr \<and> p_group c = p_group pr \<and>
    p_file c = p_file pr \<and> reg_pc (p_reg c) = reg_pc (p_reg pr) \<and> reg_stack (p_reg c) = reg_stack (p_reg pr) \<and>
    reg_general (p_reg c) = (reg_general (p_reg pr))[0 := 0] \<and> reg_status (p_reg c) = reg_status (p_reg (se_process env)) \<and>
    process_obj cur m' = Some pr \<and> process_current (procs_of m') = process_current (procs_of m) \<and>
    root_frame (p_userspace c) = B \<and> urp (kmmu (kheap_of (procs_of m'))) = p_userspace c \<and>
    (\<forall>q. length q = 3 \<longrightarrow> same_page mem A mem' B q) \<and>
    (\<forall>p q b. length p = 3 \<longrightarrow> length q = 3 \<longrightarrow> table_at mem A p = Some (page_of b) \<longrightarrow> table_at mem' B q \<noteq> Some (page_of b)) \<and>
    addr_space mem' A = addr_space mem A \<and>
    (\<forall>q b. length q = 3 \<longrightarrow> table_at mem A q = Some (page_of b) \<longrightarrow> mem' b = mem b)"
proof -
  let ?s = "procs_of m"
  from forkE [OF assms(1-4)] obtain n s1 new' child pr2 x s2 w child2 where f: "cur \<noteq> 0"
    "process_create (se_process env) (p_user pr) (p_group pr) ?s = Some (n, s1)" "0 \<le> n"
    "process_from_pid n s1 = Some new'" "new' \<noteq> 0" "pobj s1 new' = Some child" "pobj s1 cur = Some pr2"
    "with_mmu (mmu040_clone_userspace (Some (p_userspace pr2)) (Some (p_userspace child))) s1 = Some (x, s2)" "0 \<le> x"
    "pobj s2 new' = Some child2" "pid = p_pid child2"
    "m' = set_process_obj new' (child2\<lparr>p_reg := (p_reg child2)\<lparr>reg_pc := reg_pc (p_reg pr2), reg_stack := reg_stack (p_reg pr2),
        reg_general := (reg_general (p_reg pr2))[0 := 0]\<rparr>, p_file := p_file pr2, p_parent := p_pid pr2\<rparr>)
      (with_procs s2 (with_drv w m))" by metis
  from process_create_result [OF f(2,3)] obtain lst p h' u mm where r0: "kmalloc sizeof_Process (kheap_of ?s) = Some (p, h')"
    "\<exists>r. mmu040_init_userspace (Some (p_userspace (se_process env))) (kmmu h') = Some (r, Some u, mm)" "nat n < length (process ?s)"
    "s1 = ?s\<lparr>process_last := lst, kheap_of := h'\<lparr>kmmu := mm\<rparr>, process := (process ?s)[nat n := p],
       pobj := (pobj ?s)(p \<mapsto> (se_process env)\<lparr>p_pid := n, p_state := PROCESS_STATE_RUNNING, p_user := p_user pr, p_group := p_group pr,
         p_time_started := 1337, p_userspace := u, p_file := replicate MAX_PROCESS_FILES (- 1)\<rparr>)\<rparr>" by metis
  have ph: "p = new" "h' = h" using r0(1) new(1) by simp_all
  note r = r0(2-4) [unfolded ph]
  have new': "new' = new" "n < MAX_PROCESSES" using f(3,4,5) r(2,3) by (auto simp: process_from_pid_def proc_ptr_def split: if_splits)
  have pr2: "pr2 = pr" using f(7) r(3) new(2) assms(4) by (simp add: process_obj_def)
  from init_userspace_takes [OF pool(1,2), of "p_userspace (se_process env)"] r(1) have mm: "urp mm = u" "root_frame u = B"
    "frame_pool_inv mm fs" "pmem mm = zero_page B mem" "mapping mm = mapping (kmmu h)" "free_frames mm = free_frames (kmmu h) - 1"
    by (auto simp: mem_def)
  have B: "page_of B = B" "B \<notin> set fs" "\<forall>b. page_of b = B \<longrightarrow> pmem mm b = 0" using pool(1) mm(4) by (auto simp: frame_pool_inv_def)
  note beside = zeroed_beside [OF space(2) [folded mem_def] B(1)]
  have uc: "p_userspace child = u" using f(6) r(3) new'(1) by auto
  obtain mm2 where cl: "mmu040_clone_userspace (Some (p_userspace pr)) (Some u) mm = Some (x, mm2)"
    "s2 = s1\<lparr>kheap_of := (kheap_of s1)\<lparr>kmmu := mm2\<rparr>\<rparr>"
    using f(8) r(3) uc pr2 by (auto simp: with_mmu_def bind_eq_Some_conv)
  have "unat (free_frames mm) \<le> length fs" "mapping mm + 8 \<le> MAPPER_PAGES"
    using unat_pred [OF pool(2)] pool(3) room mm(5,6) by simp_all
  from clone_copies [OF mm(3) this mm(2) [symmetric] B space(1) beside(2) [folded mm(4)]] cl(1) f(9)
  have copy: "addr_space (pmem mm2) A = addr_space (pmem mm) A"
    "\<forall>q b. length q = 3 \<longrightarrow> table_at (pmem mm) A q = Some (page_of b) \<longrightarrow> pmem mm2 b = pmem mm b"
    "\<forall>q. length q = 3 \<longrightarrow> same_page (pmem mm) A (pmem mm2) B q"
    "\<forall>p q b. length p = 3 \<longrightarrow> length q = 3 \<longrightarrow> table_at (pmem mm) A p = Some (page_of b) \<longrightarrow> table_at (pmem mm2) B q \<noteq> Some (page_of b)"
    by (auto split: if_splits)
  have c2: "child2 = (se_process env)\<lparr>p_pid := n, p_state := PROCESS_STATE_RUNNING, p_user := p_user pr, p_group := p_group pr,
         p_time_started := 1337, p_userspace := u, p_file := replicate MAX_PROCESS_FILES (- 1)\<rparr>"
    using f(10) cl(2) r(3) new'(1) by simp
  then have pid: "pid = n" using f(11) by simp
  let ?C = "child2\<lparr>p_reg := (p_reg child2)\<lparr>reg_pc := reg_pc (p_reg pr2), reg_stack := reg_stack (p_reg pr2),
        reg_general := (reg_general (p_reg pr2))[0 := 0]\<rparr>, p_file := p_file pr2, p_parent := p_pid pr2\<rparr>"
  have procs: "procs_of m' = s2\<lparr>pobj := (pobj s2)(new \<mapsto> ?C)\<rparr>" unfolding f(12) new'(1) by (simp add: set_process_obj_def)
  have mem': "mem' = pmem mm2" by (simp add: mem'_def procs cl(2))
  have 1: "process_from_pid pid (procs_of m') = Some new" using new'(2) f(3) r(2)
    by (simp add: procs cl(2) r(3) pid process_from_pid_def proc_ptr_def)
  have 2: "process_obj new m' = Some ?C" "process_obj cur m' = Some pr" "process_current (procs_of m') = process_current ?s"
    "urp (kmmu (kheap_of (procs_of m'))) = u"
    using new(2) assms(4) urp_clone [OF cl(1)] mm(1) by (simp_all add: process_obj_def procs cl(2) r(3))
  have 3: "\<forall>q. length q = 3 \<longrightarrow> same_page mem A mem' B q" "addr_space mem' A = addr_space mem A"
    "\<forall>q b. length q = 3 \<longrightarrow> table_at mem A q = Some (page_of b) \<longrightarrow> mem' b = mem b"
    "\<forall>p q b. length p = 3 \<longrightarrow> length q = 3 \<longrightarrow> table_at mem A p = Some (page_of b) \<longrightarrow> table_at mem' B q \<noteq> Some (page_of b)"
    using copy beside unfolding mem' mm(4) by (simp_all)
  show ?thesis using 1 2 3 c2 pid mm(2) by (intro exI [of _ ?C]) (simp add: pr2)
qed

definition fork_procs :: procs where
  "fork_procs = roomy_procs\<lparr>process := 0x100 # replicate 1023 0, process_last := 0\<rparr>"

definition fork_machine :: "unit machine" where
  "fork_machine = \<lparr>m_vfs = \<lparr>vfs_file = [], vfs_type = [], vfs_mnt = [], v_kernel = \<lparr>k_procs = fork_procs,
       k_devtab = \<lparr>device_registered = [], major_free = 0\<rparr>, k_queue_read = \<lambda>_. 0, k_qitems = \<lambda>_. None, k_drv = ()\<rparr>\<rparr>,
     m_user = \<lambda>_. None, m_switch = False, m_loglevel = LOG_LEVEL_DEBUG, m_kconsole = None\<rparr>"

definition fork_env :: "unit syscall_env" where
  "fork_env = \<lparr>se_devs = \<lambda>_. DEVICE_TYPE_INVALID, se_component = [], se_stat = \<lparr>st_dev = 0, st_ino = 0, st_mode = 0, st_nlink = 0,
     st_uid = 0, st_gid = 0, st_rdev = 0, st_size = 0, st_blksize = 0, st_blocks = 0, st_mtime = 0\<rparr>,
     se_process = demo_process 9 PROCESS_STATE_ZOMBIE, se_memory = []\<rparr>"

lemma fork_machine_runs:
  "\<exists>m'. fork fork_env fork_machine = Some (1, m')"
proof -
  have f: "find_pid 0 0 (0x100 # replicate 1023 0) = Some (Some 1, 1)"
    by (subst find_pid.simps) (simp add: MAX_PROCESSES_def rd_def)
  have k: "kmalloc sizeof_Process (kheap_of fork_procs) = Some (0x1008, (kheap_of fork_procs)\<lparr>freelist := [0, 0, 0, 0, 0]\<rparr>)"
    using roomy_kmalloc by (simp add: fork_procs_def)
  have "frame_pool_inv boot_mmu [0x80001000, 0x80002000, 0x80003000]" "free_frames boot_mmu \<noteq> 0"
    using boot_mmu_inv by (auto simp: vm_inv_def boot_mmu_def)
  from pool_frame_points [OF this] obtain mm where mm: "alloc_frame boot_mmu = Some (0x80001000, mm)"
    "frame_pool_inv mm [0x80002000, 0x80003000]" "pmem mm = zero_page 0x80001000 (pmem boot_mmu)" "mapping mm = mapping boot_mmu" by blast
  let ?h = "set_root_pointer 0 (drop_bit SRP_URP_DESCRIPTOR_BITS 0x80001000)"
  let ?child = "(demo_process 9 PROCESS_STATE_ZOMBIE)\<lparr>p_pid := 1, p_state := PROCESS_STATE_RUNNING, p_user := 0, p_group := 0,
         p_time_started := 1337, p_userspace := ?h, p_file := replicate MAX_PROCESS_FILES (- 1)\<rparr>"
  have c: "process_create (demo_process 9 PROCESS_STATE_ZOMBIE) 0 0 fork_procs = Some (1, fork_procs\<lparr>process_last := 1,
      kheap_of := (kheap_of fork_procs)\<lparr>freelist := [0, 0, 0, 0, 0], kmmu := mm\<lparr>urp := ?h\<rparr>\<rparr>,
      process := (0x100 # replicate 1023 0)[1 := 0x1008], pobj := (pobj fork_procs)(0x1008 \<mapsto> ?child)\<rparr>)"
    using f k mm(1)
    by (simp add: process_create_def fork_procs_def roomy_procs_def demo_procs_def with_mmu_def mmu040_init_userspace_def Let_def wr_def)
  let ?s1 = "fork_procs\<lparr>process_last := 1, kheap_of := (kheap_of fork_procs)\<lparr>freelist := [0, 0, 0, 0, 0], kmmu := mm\<lparr>urp := ?h\<rparr>\<rparr>,
      process := (0x100 # replicate 1023 0)[1 := 0x1008], pobj := (pobj fork_procs)(0x1008 \<mapsto> ?child)\<rparr>"
  let ?m1 = "with_procs ?s1 fork_machine"
  have cur: "current_process fork_machine = Some 0x100" "process_obj 0x100 fork_machine = Some (demo_process 0 PROCESS_STATE_RUNNING)"
    "procs_of fork_machine = fork_procs"
    by (simp_all add: fork_machine_def fork_procs_def roomy_procs_def demo_procs_def current_process_def process_obj_def
        procs_of_def process_from_pid_def proc_ptr_def MAX_PROCESSES_def rd_def)
  have new: "process_from_pid 1 ?s1 = Some 0x1008" by (simp add: process_from_pid_def proc_ptr_def MAX_PROCESSES_def rd_def)
  have "unat (4 * of_nat j :: u32) < 512" if "j < 128" for j using entry_offset [OF that] that by simp
  then have "4 * of_nat j \<noteq> (0x80001000 :: u32)" "4 * of_nat j \<noteq> (0x80002000 :: u32)" if "j < 128" for j
    using that by (force dest: arg_cong [where f = unat])+
  then have z: "pmem mm (4 * of_nat j) = 0" if "j < 128" for j
    using that by (simp add: mm(3) zero_page_def boot_mmu_def)
  have mo: "mapper_ok (mm\<lparr>urp := ?h\<rparr>)" "mapping (mm\<lparr>urp := ?h\<rparr>) + 2 \<le> MAPPER_PAGES"
    using mm(2,4) by (simp_all add: frame_pool_inv_def mapper_ok_def boot_mmu_def MAPPER_PAGES_def)
  from clone_empty [OF mo, of 0 0 ?h] z obtain mm2 where
    cl: "mmu040_clone_userspace (Some 0) (Some ?h) (mm\<lparr>urp := ?h\<rparr>) = Some (0, mm2)"
    by (auto simp: root_pointer_def bf_get_def upper_level_descriptor_type_def UDT_IS_RESIDENT_def mmu_constants)
  have "fits (map of_char ''fork: created process %i'' @ [10]) [Arg32 1]" by simp
  from log_message_total [OF this, of ?m1 LOG_LEVEL_INFO]
  have o1: "log_message LOG_LEVEL_INFO ''fork: created process %i'' [Arg32 1] ?m1 = Some ?m1"
    using put_out_apart [of ?m1] by (auto simp: console_apart_def with_procs_def fork_machine_def)
  let ?s2 = "?s1\<lparr>kheap_of := (kheap_of ?s1)\<lparr>kmmu := mm2\<rparr>\<rparr>"
  let ?m2 = "with_procs ?s2 ?m1"
  have "fits (map of_char ''fork: cloned userspace'' @ [10]) []" by simp
  from log_message_total [OF this, of ?m2 LOG_LEVEL_DEBUG]
  have o2: "log_message LOG_LEVEL_DEBUG ''fork: cloned userspace'' [] ?m2 = Some ?m2"
    using put_out_apart [of ?m2] by (auto simp: console_apart_def with_procs_def fork_machine_def)
  have w: "with_mmu (mmu040_clone_userspace (Some 0) (Some ?h)) ?s1 = Some (0, ?s2)" using cl by (simp add: with_mmu_def)
  have p1: "pobj ?s1 0x1008 = Some ?child" "pobj ?s1 0x100 = Some (demo_process 0 PROCESS_STATE_RUNNING)"
    by (simp_all add: fork_procs_def roomy_procs_def demo_procs_def)
  have d: "p_user (demo_process 0 PROCESS_STATE_RUNNING) = 0" "p_group (demo_process 0 PROCESS_STATE_RUNNING) = 0"
    "p_userspace (demo_process 0 PROCESS_STATE_RUNNING) = 0" "p_userspace ?child = ?h" "p_pid ?child = 1"
    "wr (reg_general (p_reg (demo_process 0 PROCESS_STATE_RUNNING))) 0 0 = Some ((replicate 15 0)[0 := 0])"
    by (simp_all add: demo_process_def wr_def)
  show ?thesis
    using c cur new p1 o1 o2 w d(1-3,6)
    by (simp add: fork_def fork_env_def Let_def d(4,5) del: replicate.simps fun_upd_apply)
qed


theorem fork_copies_process_witness:
  "\<exists>m' c. fork fork_env fork_machine = Some (1, m') \<and> process_from_pid 1 (procs_of m') = Some 0x1008 \<and>
    process_obj 0x1008 m' = Some c \<and> p_parent c = 0 \<and> process_current (procs_of m') = 0 \<and>
    root_frame (p_userspace c) = 0x80001000 \<and> urp (kmmu (kheap_of (procs_of m'))) = p_userspace c"
proof -
  obtain m' where f: "fork fork_env fork_machine = Some (1, m')" using fork_machine_runs by blast
  have c: "current_process fork_machine = Some 0x100" "process_obj 0x100 fork_machine = Some (demo_process 0 PROCESS_STATE_RUNNING)"
    "process_current (procs_of fork_machine) = 0" "p_pid (demo_process 0 PROCESS_STATE_RUNNING) = 0"
    by (simp_all add: fork_machine_def fork_procs_def roomy_procs_def demo_procs_def current_process_def process_obj_def
        procs_of_def process_from_pid_def proc_ptr_def MAX_PROCESSES_def rd_def demo_process_def)
  have "kheap_of (procs_of fork_machine) = kheap_of roomy_procs" by (simp add: fork_machine_def fork_procs_def procs_of_def)
  then have k: "kmalloc sizeof_Process (kheap_of (procs_of fork_machine)) = Some (0x1008, (kheap_of roomy_procs)\<lparr>freelist := [0, 0, 0, 0, 0]\<rparr>)"
    using roomy_kmalloc by simp
  have mm: "kmmu ((kheap_of roomy_procs)\<lparr>freelist := [0, 0, 0, 0, 0]\<rparr>) = boot_mmu" by (simp add: roomy_procs_def)
  have pool: "frame_pool_inv boot_mmu (0x80001000 # [0x80002000, 0x80003000])" "free_frames boot_mmu \<noteq> 0"
    "unat (free_frames boot_mmu) \<le> Suc (length [0x80002000, 0x80003000 :: u32])" "mapping boot_mmu + 8 \<le> MAPPER_PAGES"
    using boot_mmu_inv by (auto simp: vm_inv_def boot_mmu_def MAPPER_PAGES_def)
  have A: "0 = root_frame (p_userspace (demo_process 0 PROCESS_STATE_RUNNING))"
    by (simp add: root_frame_def demo_process_def root_pointer_def bf_get_def)
  have "page_of 0 = 0" "page_of 0x80001000 = 0x80001000" "page_of 0x80002000 = 0x80002000" by (simp_all add: page_of_def MMU_PAGE_MASK_def)
  then have "separated (pmem boot_mmu) 0 (0x80001000 # [0x80002000, 0x80003000])"
    by (intro separated_cleared) (auto simp: boot_mmu_def)
  from fork_copies_process [OF f _ c(1,2) k _ pool [folded mm] A this [folded mm]] f c(3,4) show ?thesis by auto
qed

end
