(* ===== verification/Spec2Isabelle.thy ===== *)
theory Spec2Isabelle
  imports Prelude CString Mmu040 MmuSpec KHeap KHeapSpec Process ProcessSpec Device DeviceSpec Chardev ChardevSpec Vfs Romfs RomfsSpec VfsSpec Printf PrintfSpec Console ConsoleFb ConsoleFbSpec ConsoleSpec Elf ElfSpec Syscall SyscallSpec Module ModuleSpec Interrupt InterruptSpec Driver DriverSpec Devfs Gdb GdbSpec Boot BootSpec CloneSpec CloneCopy ForkSpec
begin

text \<open>
  A model of the kernel of trollos, a small operating system for the 68040, and its correctness
  properties.  The theories follow the source files under \<^verbatim>\<open>src/kernel/\<close> and \<^verbatim>\<open>src/include/\<close>: for each
  component one theory of definitions, which reads like the code, and one of properties, \<open>X\<close> and \<open>XSpec\<close>.

  \<^bold>\<open>Conventions.\<close>  A C function is a HOL function on its arguments and the part of the state it uses; the
  new state is part of the result.  Integers keep their width (words wrap as in C; a signed number is an
  \<open>int\<close> whose overflow is undefined).  \<^term>\<open>None\<close> is the absence of a defined continuation: an access outside
  an object or through a null pointer, a call of \<^verbatim>\<open>panic\<close>, a loop that never ends; so a theorem that
  states \<^term>\<open>Some\<close> proves that the code returns, and one that states \<^term>\<open>None\<close> that it does not.  Failures
  the code reports are values, negative errno numbers.  Loops over tables are structural recursions;
  the loops whose end depends on the data (\<^verbatim>\<open>kmalloc\<close>, \<^verbatim>\<open>kfree\<close>, the scheduler, the callbacks, the queues,
  the search of a process number, polling of a device) are partial functions, and no fuel is used
  anywhere.  What C leaves open, the contents of fresh memory and of uninitialised variables, is an
  argument; so are the hardware and the assembly routines.

  \<^bold>\<open>Parts.\<close>
  \<^item> \<open>Prelude\<close>: integer types, checked array accesses, searches, counted loops, bit fields, error numbers
    (\<^verbatim>\<open>errno.h\<close>), and the generic lemmas.
  \<^item> \<open>CString\<close>: \<^verbatim>\<open>util/string.c\<close> on byte buffers, with its properties.
  \<^item> \<open>Mmu040\<close>, \<open>MmuSpec\<close>, \<open>CloneSpec\<close>, \<open>CloneCopy\<close>: \<^verbatim>\<open>mmu/mmu040.c\<close>: the descriptors, the mapper window (the record \<^typ>\<open>mmu\<close>),
    the list of free frames, and the address spaces as trees of tables in physical memory.  The
    abstract view is \<open>addr_space\<close>, a map from paths through the tables to frame and attributes, and the
    invariant \<open>vm_inv\<close> keeps the tables of a tree, its pages and the free frames apart.  Frames are a
    locale (\<open>frame_pool\<close>), interpreted on \<^verbatim>\<open>_alloc_frame\<close> and \<^verbatim>\<open>_free_frame\<close>.  \<open>CloneCopy\<close> proves the copy of a
    space from one invariant (\<open>clone_inv\<close>) and one step per level (\<open>clones\<close>).
  \<^item> \<open>KHeap\<close>, \<open>KHeapSpec\<close>: \<^verbatim>\<open>util/mem.c\<close>, the quick-fit allocator on top of it.  The invariant \<open>heap_live\<close>
    describes a heap with given blocks in use; the locales \<open>page_source\<close> (what the heap needs of the
    memory manager) and \<open>block_allocator\<close> (what it gives its clients) are both interpreted on the code.
  \<^item> \<open>Process\<close>, \<open>ProcessSpec\<close>: \<^verbatim>\<open>process.c\<close>: the table of processes, creation, exit, waiting and scheduling.
  \<^item> \<open>Device\<close>, \<open>DeviceSpec\<close>: \<^verbatim>\<open>device.c\<close> and \<^verbatim>\<open>modules/blockdev/memblk.c\<close>.
  \<^item> \<open>Chardev\<close>, \<open>ChardevSpec\<close>: \<^verbatim>\<open>modules/chardev.c\<close>, the queues of blocked readers, and the state \<open>kernel\<close>
    that the layers above share (processes with their heap, devices, queues, state of the drivers).
  \<^item> \<open>Vfs\<close>, \<open>VfsSpec\<close>: \<^verbatim>\<open>vfs.c\<close>: open files, mount points, path resolution.  The specification of resolution
    is \<open>walk\<close> over a name service (a locale, interpreted on one read-only file system and on any number of
    them mounted at entries of one another); the operations
    are the steps of a transition relation whose invariant is \<open>vfs_inv\<close>.
  \<^item> \<open>Romfs\<close>, \<open>RomfsSpec\<close>: \<^verbatim>\<open>modules/fs/romfs.c\<close>, proved on the contract of a block device (a locale,
    interpreted on \<^verbatim>\<open>memblk\<close>); the specification reads names and data off the bytes of the image.
  \<^item> \<open>Printf\<close>, \<open>PrintfSpec\<close>: \<^verbatim>\<open>util/printf.c\<close>, \<^verbatim>\<open>util/log.c\<close>, \<^verbatim>\<open>util/kconsole.c\<close>.
  \<^item> \<open>Console\<close>, \<open>ConsoleFb\<close>, \<open>ConsoleFbSpec\<close>, \<open>ConsoleSpec\<close>: the terminal \<^verbatim>\<open>modules/chardev/console.c\<close> and its
    backend \<^verbatim>\<open>modules/chardev/console-fb.c\<close>; a backend is a locale, interpreted on the frame buffer.
  \<^item> \<open>Elf\<close>, \<open>ElfSpec\<close>: \<^verbatim>\<open>modules/binformat/elf.c\<close>, the loader, over the memory manager.
  \<^item> \<open>Syscall\<close>, \<open>SyscallSpec\<close>, \<open>ForkSpec\<close>: \<^verbatim>\<open>syscall.c\<close> and \<^verbatim>\<open>syscall/\<close>: the dispatcher and all handlers on the state
    \<open>machine\<close>, which adds the objects of the user, the level of the log, the console of the kernel that
    messages are written to, and the flag of a context switch.
  \<^item> \<open>Module\<close>, \<open>ModuleSpec\<close>: \<^verbatim>\<open>module.c\<close> and \<^verbatim>\<open>modules/module.c\<close>.
  \<^item> \<open>Interrupt\<close>, \<open>InterruptSpec\<close>: \<^verbatim>\<open>int.c\<close>: the vectors and the lists of service routines.
  \<^item> \<open>Driver\<close>, \<open>DriverSpec\<close>: \<^verbatim>\<open>modules/bus/trollbook-spi.c\<close>, \<^verbatim>\<open>modules/chardev/trollbook-uart.c\<close> and \<^verbatim>\<open>debug.c\<close>.
  \<^item> \<open>Devfs\<close>: \<^verbatim>\<open>modules/fs/devfs.c\<close>, \<^verbatim>\<open>modules/fs/fs.c\<close> and \<^verbatim>\<open>file.c\<close>.
  \<^item> \<open>Gdb\<close>, \<open>GdbSpec\<close>: the C code of \<^verbatim>\<open>gdb-stub.c\<close>, the debugger stub: packets over the debug port, the commands on
    memory and registers, the frames of exceptions that it returns to (an access outside the frame stack is
    undefined, and \<open>debugger_always_resumes\<close> shows that going on makes none).  The line is a hypothesis, \<open>serial_port\<close>:
    what is sent is appended, what comes in is taken off the front; it is shown for a pair of lists.
  \<^item> \<open>Boot\<close>, \<open>BootSpec\<close>: \<^verbatim>\<open>early.c\<close> and \<^verbatim>\<open>kernel.c\<close>, which put the components together; the terminal
    becomes the console of the kernel, so messages and the output of processes share it.

  \<^bold>\<open>How they interact.\<close>  A system call finds the current process, translates its file number to a global
  file, and calls the virtual file system, which reaches a file system through its record of
  functions, or a device through the registry; the read-only file system reads its disk through the
  registry as well.  Processes, callbacks, queues and service routines live in blocks of the kernel
  heap, which maps its pages through the memory manager.

  \<^bold>\<open>What the lemmas show.\<close>  Per layer: mapping a page refines an update of the address space, copying an
  address space copies every page and needs exactly one frame for each table and page, blocks in use never overlap and a block freed is on a free list again, the scheduler is fair,
  registration and lookup are inverse, a path leads where the specification of the file system says,
  a read returns the bytes of the file, numbers are printed as they are parsed, a character is drawn
  in its cell and nowhere else, a packet of the debugger arrives as it was sent.  Across layers: opening and reading a file from the system call down
  to the disk (\<open>syscall_open_read\<close>, \<open>open_then_read_file\<close>), writing to the screen
  (\<open>user_write_displays\<close>, \<open>log_message_displays\<close>), forking (\<open>fork_copies_process\<close>).  Where the code is wrong a
  property or a lemma states what it does (kinds error, termination, liveness): frames freed are not counted, a
  block is lost when both neighbours are free, waiting makes an exit fault, the scheduler hangs when
  all processes are blocked, the bus never ends a transfer, and others.

  \<^bold>\<open>Bounds.\<close>  The mapper has ten slots; the invariants ask for as many free ones as an operation nests (four
  for mapping a page, eight for a copy).  A page needs at most three frames, which is the number the
  theorems on allocation ask for.  Sizes of files and buffers are kept below \<open>2^31\<close>, where C leaves them.

  \<^bold>\<open>Not modelled.\<close>  The assembly files (entry, context switch, vectors, descriptor-cache instructions) and the
  assembly in \<^verbatim>\<open>gdb-stub.c\<close> (saving the registers, popping a frame), \<^verbatim>\<open>mmu030._c\<close> (not
  built), \<^verbatim>\<open>spisd.c\<close> (all of it is under \<^verbatim>\<open>#if 0\<close>), \<^verbatim>\<open>blockcache.c\<close> (empty), \<^verbatim>\<open>init.c\<close> (the bytes of a
  program), and the log messages of the functions below the handlers of the system calls and \<^verbatim>\<open>main\<close> (the
  creation of a process, errors of the devices, the level \<^verbatim>\<open>SPAM\<close> of \<^verbatim>\<open>vfs.c\<close>), so that what these draw on the
  terminal is left out too.  Interrupts between two statements of the kernel are not modelled: the
  kernel runs a system call with interrupts as they are, and each operation is one step.
\<close>

section \<open>From the disk to the reader\<close>

text \<open>
  C3. The whole chain, from the memory-backed block device through the read-only file system to the
  virtual file system: when a path leads to a regular file, opening it succeeds with the first free
  number, and two reads in a row return the first bytes of the file and the bytes that follow, each
  clipped at the end of the file, with nothing lost or repeated in between.
\<close>

theorem open_then_read_file:
  fixes n1 n2 :: u32
  assumes "rom_root c v" "vfs_inv v" "cs \<noteq> []" "list_all name_ok cs" "length buf = NAME_MAX + 1"
    "walk v (rom_lookup c v) (int (root_mount v)) 0 cs = Inr (rc_mp c, j - i_root_inode (rom_instance c v))"
    "file_ok (rom_image c v) j" "h_size (rom_image c v) j < 2 ^ 31 - 512" "h_byte (rom_image c v) j AND 7 = 2"
    "\<exists>f \<in> set (vfs_file v). \<not> f_is_used f" "unat n1 \<le> length buf1" "unat n2 \<le> length buf2"
  shows "\<exists>fd v1 v2 v3 b1 b2. vfs_open buf s0 (path_of_names cs) flags v = Some (fd, v1) \<and> 0 \<le> fd \<and>
    vfs_read (rc_devs c) fd buf1 n1 v1 = Some (int (length b1), b1 @ drop (length b1) buf1, v2) \<and>
    vfs_read (rc_devs c) fd buf2 n2 v2 = Some (int (length b2), b2 @ drop (length b2) buf2, v3) \<and>
    b1 = take (unat n1) (file_data (rom_image c v) j) \<and>
    b1 @ b2 = take (unat n1 + unat n2) (file_data (rom_image c v) j)"
proof -
  let ?data = "file_data (rom_image c v) j"
  let ?s = "find_slot (\<lambda>f. \<not> f_is_used f) (vfs_file v)"
  define v1 where "v1 = opened (int ?s) (rc_mp c) (romfs_attr (rom_image c v) (rom_instance c v) j) v"
  have s: "nat (int ?s) < length (vfs_file v)" using assms(10) by (simp add: find_slot_less_iff)
  have o: "vfs_open buf s0 (path_of_names cs) flags v = Some (int ?s, v1)"
    unfolding v1_def using assms(7) by (intro open_rom assms file_header_ok) (auto simp: file_ok_def)
  note f1 = opened_rom_file [OF assms(1,2,7,9) of_nat_0_le_iff s, folded v1_def, unfolded nat_int]
  define b1 where "b1 = take (unat n1) ?data"
  note r1 = read_rom [OF f1(1), of n1 buf1, unfolded nat_int f1(2,3) nat_0 drop_0 add_0_left, folded b1_def]
  have l1: "length b1 \<le> length buf1" using assms(11) by (simp add: b1_def)
  define v2 where "v2 = v1\<lparr>vfs_file := (vfs_file v1)[?s := (vfs_file v1 ! ?s)\<lparr>f_pos := int (length b1)\<rparr>]\<rparr>"
  have rd1: "vfs_read (rc_devs c) (int ?s) buf1 n1 v1 = Some (int (length b1), b1 @ drop (length b1) buf1, v2)" "rom_file c (int ?s) j v2"
    using r1 l1 by (simp_all only: v2_def)
  have p2: "f_pos (vfs_file v2 ! nat (int ?s)) = int (length b1)" "rom_image c v2 = rom_image c v"
  proof -
    have "?s < length (vfs_file v1)" using s by (simp add: v1_def opened_def)
    then show "f_pos (vfs_file v2 ! nat (int ?s)) = int (length b1)" by (simp add: v2_def)
    show "rom_image c v2 = rom_image c v" using f1(3) by (simp add: v2_def)
  qed
  define b2 where "b2 = take (unat n2) (drop (length b1) ?data)"
  have l2: "length b2 \<le> length buf2" using assms(12) by (simp add: b2_def)
  have rd2: "\<exists>v3. vfs_read (rc_devs c) (int ?s) buf2 n2 v2 = Some (int (length b2), b2 @ drop (length b2) buf2, v3)"
    using read_rom(1) [OF rd1(2), of n2 buf2] l2 by (simp add: p2 b2_def del: nat_int) auto
  have "b1 @ b2 = take (unat n1 + unat n2) ?data"
    by (cases "unat n1 \<le> length ?data") (simp_all add: b1_def b2_def take_add)
  then show ?thesis using o rd1(1) rd2 b1_def of_nat_0_le_iff [of ?s] by blast
qed

theorem open_then_read_file_witness:
  "\<forall>p s0. \<exists>v1 v2 v3. vfs_open (replicate (NAME_MAX + 1) 7) s0 (path_of_names [[0x61]]) 0 (tiny_vfs p) = Some (0, v1) \<and>
    vfs_read tiny_devs 0 [9, 9] 2 v1 = Some (2, [0x78, 0x79], v2) \<and> vfs_read tiny_devs 0 [9, 9] 2 v2 = Some (1, [0x7A, 9], v3)"
proof (intro allI)
  fix p s0
  have "h_byte tiny_image 2 = 2" by code_simp
  then have "\<exists>fd v1 v2 v3 b1 b2. vfs_open (replicate (NAME_MAX + 1) 7) s0 (path_of_names [[0x61]]) 0 (tiny_vfs p) = Some (fd, v1) \<and> 0 \<le> fd \<and>
    vfs_read tiny_devs fd [9, 9] 2 v1 = Some (int (length b1), b1 @ drop (length b1) [9, 9], v2) \<and>
    vfs_read tiny_devs fd [9, 9] 2 v2 = Some (int (length b2), b2 @ drop (length b2) [9, 9], v3) \<and>
    b1 = take 2 [0x78, 0x79, 0x7A] \<and> b1 @ b2 = take (2 + 2) [0x78, 0x79, 0x7A]"
    using open_then_read_file [OF tiny_root tiny_vfs_inv _ tiny_name _ _ _ _ _ tiny_slot(2), of "replicate (NAME_MAX + 1) 7" p 2 2 "[9, 9]" 2 "[9, 9]" s0 0]
      tiny_walk [of p] tiny_file(3)
    by (simp add: tiny_rom tiny_ctx_sel tiny_header tiny_file(2) del: replicate.simps)
  then show "\<exists>v1 v2 v3. vfs_open (replicate (NAME_MAX + 1) 7) s0 (path_of_names [[0x61]]) 0 (tiny_vfs p) = Some (0, v1) \<and>
    vfs_read tiny_devs 0 [9, 9] 2 v1 = Some (2, [0x78, 0x79], v2) \<and> vfs_read tiny_devs 0 [9, 9] 2 v2 = Some (1, [0x7A, 9], v3)"
    using tiny_open [of s0 p] by auto
qed

end
